(* ===== verification/Prelude.thy ===== *)
theory Prelude
  imports Main "HOL-Library.Word" "HOL-Library.Monad_Syntax"
begin

text \<open>
  Shared vocabulary of the development: the fixed-width integer types of the C++ code,
  bounds-checked reads of byte buffers (a read outside the buffer is \<open>None\<close>, so that
  undefined behaviour is a value that a theorem can exclude), little-endian packing, and
  the \<open>%02x\<close> / \<open>%02X\<close> conversions of \<open>snprintf\<close> on single bytes.
\<close>

unbundle bit_operations_syntax

type_synonym u8 = "8 word"
type_synonym u16 = "16 word"
type_synonym u32 = "32 word"
type_synonym u64 = "64 word"
type_synonym bytes = "8 word list"

named_theorems rd_simps \<open>bounds-checked reads inside the buffer\<close>
named_theorems byte_simps \<open>packing and unpacking of words as bytes\<close>

section \<open>Bounds-checked reads\<close>

definition rd :: "'a list \<Rightarrow> nat \<Rightarrow> 'a option" where
  "rd xs i = (if i < length xs then Some (xs ! i) else None)"

definition rd_n :: "'a list \<Rightarrow> nat \<Rightarrow> nat \<Rightarrow> 'a list option" where
  "rd_n xs i n = (if i + n \<le> length xs then Some (take n (drop i xs)) else None)"

lemma rd_in [rd_simps]: "i < length xs \<Longrightarrow> rd xs i = Some (xs ! i)"
  by (simp add: rd_def)

lemma rd_n_in [rd_simps]: "i + n \<le> length xs \<Longrightarrow> rd_n xs i n = Some (take n (drop i xs))"
  by (simp add: rd_n_def)

lemma rd_eq_None_iff: "rd xs i = None \<longleftrightarrow> length xs \<le> i"
  by (simp add: rd_def)

lemma rd_n_SomeD: "rd_n xs i n = Some ys \<Longrightarrow> length ys = n \<and> i + n \<le> length xs"
  by (auto simp: rd_n_def split: if_splits)

lemma take_drop_take: "k + m \<le> n \<Longrightarrow> take k (drop m (take n xs)) = take k (drop m xs)"
  by (simp add: drop_take min_def)

lemma find_SomeD: "List.find P xs = Some x \<Longrightarrow> x \<in> set xs \<and> P x"
  by (induction xs) (auto split: if_splits)

section \<open>Little-endian packing\<close>

definition le16 :: "u8 \<Rightarrow> u8 \<Rightarrow> u16" where
  "le16 b0 b1 = ucast b0 OR push_bit 8 (ucast b1)"

definition le32 :: "u8 \<Rightarrow> u8 \<Rightarrow> u8 \<Rightarrow> u8 \<Rightarrow> u32" where
  "le32 b0 b1 b2 b3 =
     ucast b0 OR push_bit 8 (ucast b1) OR push_bit 16 (ucast b2) OR push_bit 24 (ucast b3)"

lemma le16_lo [byte_simps]: "ucast (le16 b0 b1) = b0"
  by (rule bit_word_eqI) (auto simp: le16_def bit_simps dest: bit_imp_le_length)

lemma le16_hi [byte_simps]: "ucast (drop_bit 8 (le16 b0 b1)) = b1"
  by (rule bit_word_eqI) (auto simp: le16_def bit_simps dest: bit_imp_le_length)

lemma le16_of_bytes [byte_simps]:
  "le16 (ucast v) (ucast (drop_bit 8 v)) = (v :: u16)"
  by (rule bit_word_eqI) (auto simp: le16_def bit_simps dest: bit_imp_le_length)

lemma le16_inject: "le16 a b = le16 c d \<longleftrightarrow> a = c \<and> b = d"
  by (metis le16_lo le16_hi)

lemma le32_b0 [byte_simps]: "ucast (le32 b0 b1 b2 b3) = b0"
  by (rule bit_word_eqI) (auto simp: le32_def bit_simps dest: bit_imp_le_length)

lemma le32_b1 [byte_simps]: "ucast (drop_bit 8 (le32 b0 b1 b2 b3)) = b1"
  by (rule bit_word_eqI) (auto simp: le32_def bit_simps dest: bit_imp_le_length)

lemma le32_b2 [byte_simps]: "ucast (drop_bit 16 (le32 b0 b1 b2 b3)) = b2"
  by (rule bit_word_eqI) (auto simp: le32_def bit_simps dest: bit_imp_le_length)

lemma le32_b3 [byte_simps]: "ucast (drop_bit 24 (le32 b0 b1 b2 b3)) = b3"
  by (rule bit_word_eqI) (auto simp: le32_def bit_simps dest: bit_imp_le_length)

lemma le32_of_bytes [byte_simps]:
  "le32 (ucast v) (ucast (drop_bit 8 v)) (ucast (drop_bit 16 v)) (ucast (drop_bit 24 v)) = (v :: u32)"
proof (rule bit_word_eqI)
  fix n assume "n < LENGTH(32)"
  then consider "n < 8" | "8 \<le> n" "n < 16" | "16 \<le> n" "n < 24" | "24 \<le> n" "n < 32"
    by force
  then show "bit (le32 (ucast v) (ucast (drop_bit 8 v)) (ucast (drop_bit 16 v))
      (ucast (drop_bit 24 v))) n = bit v n"
    by cases (auto simp: le32_def bit_simps)
qed

lemma unat_u8_less: "unat (b :: u8) < 256"
proof -
  have "unat b < 2 ^ LENGTH(8)" by (rule unsigned_less)
  then show ?thesis by simp
qed

section \<open>Hexadecimal digits\<close>

text \<open>\<open>hex_lc\<close> and \<open>hex_uc\<close> are the digits \<open>%02x\<close> and \<open>%02X\<close> print.\<close>

definition hex_lc :: "nat \<Rightarrow> char" where
  "hex_lc n = char_of (if n < 10 then 48 + n else 87 + n)"

definition hex_uc :: "nat \<Rightarrow> char" where
  "hex_uc n = char_of (if n < 10 then 48 + n else 55 + n)"

definition fmt_02x :: "u8 \<Rightarrow> string" where
  "fmt_02x b = [hex_lc (unat b div 16), hex_lc (unat b mod 16)]"

definition fmt_02X :: "u8 \<Rightarrow> string" where
  "fmt_02X b = [hex_uc (unat b div 16), hex_uc (unat b mod 16)]"

lemma length_fmt_02x [simp]: "length (fmt_02x b) = 2"
  by (simp add: fmt_02x_def)

lemma length_fmt_02X [simp]: "length (fmt_02X b) = 2"
  by (simp add: fmt_02X_def)

end
