(* ===== verification/Ble_Uuid.thy ===== *)
theory Ble_Uuid
  imports Prelude
begin

text \<open>
  The class \<open>ESPBTUUID\<close> of \<open>components/esp32_ble/ble_uuid.h\<close> and \<open>ble_uuid.cpp\<close>:
  a Bluetooth UUID of 2, 4 or 16 bytes stored least significant byte first in a 16-byte
  array. The model keeps the array (\<open>raw\<close>, always 16 bytes) and the length; pointers to
  16 bytes are byte lists of which the first 16 are read. The union of
  \<open>esp_bt_uuid_t\<close> is its 16 bytes, read as the little-endian host does.
\<close>

section \<open>The data\<close>

record ESPBTUUID =
  raw :: bytes
  len :: nat

record esp_bt_uuid_t =
  bt_len :: nat
  bt_union :: bytes

definition bt_uuid16 :: "esp_bt_uuid_t \<Rightarrow> u16" where
  "bt_uuid16 u = le16 (bt_union u ! 0) (bt_union u ! 1)"

definition bt_uuid32 :: "esp_bt_uuid_t \<Rightarrow> u32" where
  "bt_uuid32 u = le32 (bt_union u ! 0) (bt_union u ! 1) (bt_union u ! 2) (bt_union u ! 3)"

definition uuid_default :: ESPBTUUID where
  "uuid_default = \<lparr>raw = replicate 16 0, len = 0\<rparr>"

section \<open>Constructors\<close>

definition from_uint16 :: "u16 \<Rightarrow> ESPBTUUID" where
  "from_uint16 v =
     uuid_default\<lparr>len := 2,
       raw := (raw uuid_default)[0 := ucast (v AND 0xff), 1 := ucast (drop_bit 8 v AND 0xff)]\<rparr>"

definition from_uint32 :: "u32 \<Rightarrow> ESPBTUUID" where
  "from_uint32 v =
     uuid_default\<lparr>len := 4,
       raw := (raw uuid_default)[0 := ucast (v AND 0xff), 1 := ucast (drop_bit 8 v AND 0xff),
                2 := ucast (drop_bit 16 v AND 0xff), 3 := ucast (drop_bit 24 v AND 0xff)]\<rparr>"

definition from_raw :: "bytes \<Rightarrow> ESPBTUUID" where
  "from_raw d = \<lparr>raw = take 16 d, len = 16\<rparr>"

definition from_raw_reversed :: "bytes \<Rightarrow> ESPBTUUID" where
  "from_raw_reversed d = \<lparr>raw = map (\<lambda>i. d ! (15 - i)) [0..<16], len = 16\<rparr>"

text \<open>\<open>std::memcpy\<close> of the first \<open>n\<close> bytes over the zeroed array.\<close>

definition raw_prefix :: "bytes \<Rightarrow> nat \<Rightarrow> bytes" where
  "raw_prefix d n = take n d @ drop n (raw uuid_default)"

definition from_raw_n :: "bytes \<Rightarrow> nat \<Rightarrow> ESPBTUUID" where
  "from_raw_n d l = (let n = (if l \<le> 16 then l else 16) in \<lparr>raw = raw_prefix d n, len = n\<rparr>)"

definition from_raw_list :: "bytes \<Rightarrow> ESPBTUUID" where
  "from_raw_list d =
     (let n = (if length d \<le> 16 then length d else 16) in \<lparr>raw = raw_prefix d n, len = n\<rparr>)"

definition uuid_nibble :: "char \<Rightarrow> u8 option" where
  "uuid_nibble c =
     (let n = (of_char c :: nat) in
      if 48 \<le> n \<and> n \<le> 57 then Some (of_nat (n - 48))
      else if 97 \<le> n \<and> n \<le> 102 then Some (of_nat (n - 97 + 10))
      else if 65 \<le> n \<and> n \<le> 70 then Some (of_nat (n - 65 + 10))
      else None)"

text \<open>
  The loop of \<open>from_uuid_str\<close>: \<open>acc\<close> is \<open>bytes[0..nbytes)\<close>, \<open>hi\<close> the pending high
  nibble (\<open>None\<close> for the code's \<open>-1\<close>). It ends at the NUL, at 16 bytes, or at a
  character that is neither a dash nor a hexadecimal digit.
\<close>

fun uuid_scan :: "string \<Rightarrow> bytes \<Rightarrow> u8 option \<Rightarrow> bytes" where
  "uuid_scan [] acc hi = acc"
| "uuid_scan (c # p) acc hi =
     (if c = CHR 0x00 \<or> \<not> length acc < 16 then acc
      else if c = CHR ''-'' then uuid_scan p acc hi
      else case uuid_nibble c of
        None \<Rightarrow> acc
      | Some nib \<Rightarrow>
          (case hi of
             None \<Rightarrow> uuid_scan p acc (Some nib)
           | Some h \<Rightarrow> uuid_scan p (acc @ [push_bit 4 h OR nib]) None))"

definition from_uuid_str :: "string \<Rightarrow> ESPBTUUID" where
  "from_uuid_str s =
     (let bs = uuid_scan s [] None; nbytes = length bs in
      if nbytes = 16 then from_raw_reversed bs
      else \<lparr>raw = raw_prefix bs nbytes, len = nbytes\<rparr>)"

definition from_uuid :: "esp_bt_uuid_t \<Rightarrow> ESPBTUUID" where
  "from_uuid u =
     (if bt_len u = 2 then from_uint16 (bt_uuid16 u)
      else if bt_len u = 4 then from_uint32 (bt_uuid32 u)
      else from_raw (bt_union u))"

section \<open>Accessors\<close>

definition get_16bit :: "ESPBTUUID \<Rightarrow> u16" where
  "get_16bit u = le16 (raw u ! 0) (raw u ! 1)"

definition get_32bit :: "ESPBTUUID \<Rightarrow> u32" where
  "get_32bit u = le32 (raw u ! 0) (raw u ! 1) (raw u ! 2) (raw u ! 3)"

definition get_uuid :: "ESPBTUUID \<Rightarrow> esp_bt_uuid_t" where
  "get_uuid u =
     (let z = replicate 16 (0 :: u8) in
      if len u = 2 then
        (let v = get_16bit u in
         \<lparr>bt_len = len u, bt_union = z[0 := ucast v, 1 := ucast (drop_bit 8 v)]\<rparr>)
      else if len u = 4 then
        (let v = get_32bit u in
         \<lparr>bt_len = len u, bt_union = z[0 := ucast v, 1 := ucast (drop_bit 8 v),
            2 := ucast (drop_bit 16 v), 3 := ucast (drop_bit 24 v)]\<rparr>)
      else \<lparr>bt_len = len u, bt_union = raw u\<rparr>)"

definition base_lsb :: bytes where
  "base_lsb = [0xFB, 0x34, 0x9B, 0x5F, 0x80, 0x00, 0x00, 0x80,
               0x00, 0x10, 0x00, 0x00, 0x00, 0x00, 0x00, 0x00]"

definition as_128bit :: "ESPBTUUID \<Rightarrow> ESPBTUUID" where
  "as_128bit u =
     (if len u = 16 then u
      else let v = (if len u = 2 then ucast (get_16bit u) else get_32bit u) in
        \<lparr>raw = base_lsb[12 := ucast (v AND 0xff), 13 := ucast (drop_bit 8 v AND 0xff),
                 14 := ucast (drop_bit 16 v AND 0xff), 15 := ucast (drop_bit 24 v AND 0xff)],
         len = 16\<rparr>)"

definition uuid_dashed :: "(u8 \<Rightarrow> string) \<Rightarrow> bytes \<Rightarrow> string" where
  "uuid_dashed f r =
     f (r ! 0) @ f (r ! 1) @ f (r ! 2) @ f (r ! 3) @ ''-'' @ f (r ! 4) @ f (r ! 5) @ ''-'' @
     f (r ! 6) @ f (r ! 7) @ ''-'' @ f (r ! 8) @ f (r ! 9) @ ''-'' @
     f (r ! 10) @ f (r ! 11) @ f (r ! 12) @ f (r ! 13) @ f (r ! 14) @ f (r ! 15)"

definition to_str :: "ESPBTUUID \<Rightarrow> string" where
  "to_str u = (let full = as_128bit u in uuid_dashed fmt_02x (rev (raw full)))"

definition fmt_04X :: "u16 \<Rightarrow> string" where
  "fmt_04X v = fmt_02X (ucast (drop_bit 8 v)) @ fmt_02X (ucast v)"

definition fmt_08X :: "u32 \<Rightarrow> string" where
  "fmt_08X v = fmt_04X (ucast (drop_bit 16 v)) @ fmt_04X (ucast v)"

definition to_string :: "ESPBTUUID \<Rightarrow> string" where
  "to_string u =
     (if len u = 2 then ''0x'' @ fmt_04X (get_16bit u)
      else if len u = 4 then ''0x'' @ fmt_08X (get_32bit u)
      else uuid_dashed fmt_02X (raw u))"

definition contains :: "ESPBTUUID \<Rightarrow> u8 \<Rightarrow> u8 \<Rightarrow> bool" where
  "contains u d1 d2 =
     (if len u = 2 then raw u ! 0 = d1 \<and> raw u ! 1 = d2
      else if len u < 2 then False
      else list_ex (\<lambda>i. raw u ! i = d1 \<and> raw u ! (i + 1) = d2) [0..<len u - 1])"

definition uuid_eq :: "ESPBTUUID \<Rightarrow> ESPBTUUID \<Rightarrow> bool" where
  "uuid_eq a b = (if len a \<noteq> len b then False else take (len a) (raw a) = take (len b) (raw b))"

section \<open>Well-formed values\<close>

text \<open>
  Every constructor leaves a 16-byte array, a length of at most 16, and zeros beyond the
  length (\<open>memset\<close> in the default constructor).
\<close>

definition wf_uuid :: "ESPBTUUID \<Rightarrow> bool" where
  "wf_uuid u \<longleftrightarrow> length (raw u) = 16 \<and> len u \<le> 16 \<and> list_all (\<lambda>b. b = 0) (drop (len u) (raw u))"

lemma list16E:
  assumes "length xs = 16"
  obtains a b c d e f g h i j k l m n p q where "xs = [a, b, c, d, e, f, g, h, i, j, k, l, m, n, p, q]"
  using assms by (auto simp: eval_nat_numeral length_Suc_conv)

lemma zeros16: "replicate 16 (0 :: u8) = [0,0,0,0,0,0,0,0,0,0,0,0,0,0,0,0]"
  by (simp add: eval_nat_numeral)

lemma ucast_byte_mask [byte_simps]:
  "ucast ((w :: u16) AND 255) = (ucast w :: u8)" "ucast ((v :: u32) AND 255) = (ucast v :: u8)"
proof -
  have m: "(255 :: u16) = mask 8" "(255 :: u32) = mask 8" by (simp_all add: mask_eq_exp_minus_1)
  show "ucast (w AND 255) = (ucast w :: u8)" unfolding m by (rule bit_word_eqI) (simp add: bit_simps)
  show "ucast (v AND 255) = (ucast v :: u8)" unfolding m by (rule bit_word_eqI) (simp add: bit_simps)
qed

lemma length_raw_prefix [simp]: "n \<le> length d \<Longrightarrow> n \<le> 16 \<Longrightarrow> length (raw_prefix d n) = 16"
  by (simp add: raw_prefix_def uuid_default_def)

lemma wf_raw_prefix: "n \<le> length d \<Longrightarrow> n \<le> 16 \<Longrightarrow> wf_uuid \<lparr>raw = raw_prefix d n, len = n\<rparr>"
  by (simp add: wf_uuid_def raw_prefix_def uuid_default_def list_all_iff)

lemma wf_uuid_default [simp]: "wf_uuid uuid_default"
  by (simp add: wf_uuid_def uuid_default_def list_all_iff)

lemma wf_from_uint16 [simp]: "wf_uuid (from_uint16 v)"
  by (simp add: wf_uuid_def from_uint16_def uuid_default_def zeros16)

lemma wf_from_uint32 [simp]: "wf_uuid (from_uint32 v)"
  by (simp add: wf_uuid_def from_uint32_def uuid_default_def zeros16)

lemma wf_from_raw [simp]: "16 \<le> length d \<Longrightarrow> wf_uuid (from_raw d)"
  by (simp add: wf_uuid_def from_raw_def)

lemma wf_from_raw_reversed [simp]: "wf_uuid (from_raw_reversed d)"
  by (simp add: wf_uuid_def from_raw_reversed_def)

lemma wf_from_raw_n [simp]: "l \<le> length d \<Longrightarrow> wf_uuid (from_raw_n d l)"
  by (auto simp: from_raw_n_def Let_def intro!: wf_raw_prefix)

lemma wf_from_raw_list [simp]: "wf_uuid (from_raw_list d)"
  by (auto simp: from_raw_list_def Let_def intro!: wf_raw_prefix)

lemma length_base_lsb [simp]: "length base_lsb = 16"
  by (simp add: base_lsb_def)

lemma wf_as_128bit [simp]: "wf_uuid u \<Longrightarrow> wf_uuid (as_128bit u)"
  by (simp add: as_128bit_def wf_uuid_def Let_def)

lemma len_as_128bit [simp]: "len (as_128bit u) = 16"
  by (simp add: as_128bit_def Let_def)

lemma as_128bit_id: "len u = 16 \<Longrightarrow> as_128bit u = u"
  by (simp add: as_128bit_def)

section \<open>Parsing never overruns its buffer\<close>

lemma uuid_scan_le: "length acc \<le> 16 \<Longrightarrow> length (uuid_scan p acc hi) \<le> 16"
  by (induction p acc hi rule: uuid_scan.induct) (auto split: option.splits)

lemma wf_from_uuid_str [simp]: "wf_uuid (from_uuid_str s)"
  using uuid_scan_le [of "[]" s None]
  by (auto simp: from_uuid_str_def Let_def intro: wf_raw_prefix)

section \<open>Hexadecimal round trip\<close>

lemma of_char_hex:
  "n < 16 \<Longrightarrow> of_char (hex_lc n) = (if n < 10 then 48 + n else 87 + n)"
  "n < 16 \<Longrightarrow> of_char (hex_uc n) = (if n < 10 then 48 + n else 55 + n)"
  by (simp_all add: hex_lc_def hex_uc_def of_char_of)

lemma uuid_nibble_hex:
  "n < 16 \<Longrightarrow> uuid_nibble (hex_lc n) = Some (of_nat n)"
  "n < 16 \<Longrightarrow> uuid_nibble (hex_uc n) = Some (of_nat n)"
  by (simp_all add: uuid_nibble_def of_char_hex)

lemma hex_not_special:
  assumes "n < 16"
  shows "hex_lc n \<noteq> CHR 0x00" "hex_lc n \<noteq> CHR ''-''" "hex_uc n \<noteq> CHR 0x00" "hex_uc n \<noteq> CHR ''-''"
  using of_char_hex [OF assms] by (auto split: if_splits)

lemma byte_nibbles: "push_bit 4 (of_nat (unat b div 16)) OR of_nat (unat b mod 16) = (b :: u8)"
proof -
  have "of_nat (unat b div 16) = drop_bit 4 b"
    by (simp add: drop_bit_eq_div word_arith_nat_div)
  moreover have "of_nat (unat b mod 16) = take_bit 4 b"
    by (simp add: take_bit_eq_mod word_arith_nat_mod)
  moreover have "push_bit 4 (drop_bit 4 b) OR take_bit 4 b = b"
    by (rule bit_word_eqI) (auto simp: bit_simps)
  ultimately show ?thesis by simp
qed

lemma unat_byte_div16: "unat (b :: u8) div 16 < 16"
  using unat_u8_less [of b] by simp

lemma uuid_scan_hex [simp]:
  assumes "length acc < 16"
  shows "uuid_scan (fmt_02x b @ p) acc None = uuid_scan p (acc @ [b]) None"
    and "uuid_scan (fmt_02X b @ p) acc None = uuid_scan p (acc @ [b]) None"
  using assms by (simp_all add: fmt_02x_def fmt_02X_def unat_byte_div16 uuid_nibble_hex
      hex_not_special byte_nibbles)

lemma uuid_scan_hex_last [simp]:
  assumes "length acc < 16"
  shows "uuid_scan (fmt_02x b) acc None = acc @ [b]" "uuid_scan (fmt_02X b) acc None = acc @ [b]"
  using uuid_scan_hex [OF assms, of b "[]"] by simp_all

lemma uuid_scan_dash [simp]: "length acc < 16 \<Longrightarrow> uuid_scan (CHR ''-'' # p) acc hi = uuid_scan p acc hi"
  by simp

declare uuid_scan.simps(2) [simp del]

lemma uuid_scan_full [simp]: "length acc = 16 \<Longrightarrow> uuid_scan p acc hi = acc"
  by (cases p) (simp_all add: uuid_scan.simps)

text \<open>Scanning a dashed 36-character form, in either case, yields the 16 bytes in print order.\<close>

lemma uuid_scan_dashed:
  assumes "length r = 16" and f: "f = fmt_02x \<or> f = fmt_02X"
  shows "uuid_scan (uuid_dashed f r) [] None = r"
  using assms(1) by (elim list16E) (use f in \<open>auto simp: uuid_dashed_def\<close>)

lemma from_raw_reversed_rev: "length r = 16 \<Longrightarrow> from_raw_reversed (rev r) = \<lparr>raw = r, len = 16\<rparr>"
  by (elim list16E) (simp add: from_raw_reversed_def upt_rec)

lemma from_uuid_str_dashed:
  assumes "length r = 16" "f = fmt_02x \<or> f = fmt_02X"
  shows "from_uuid_str (uuid_dashed f (rev r)) = \<lparr>raw = r, len = 16\<rparr>"
  using assms by (simp add: from_uuid_str_def Let_def uuid_scan_dashed from_raw_reversed_rev)

section \<open>Values survive packing\<close>

lemma get_16bit_from_uint16 [simp]: "get_16bit (from_uint16 v) = v"
  by (simp add: get_16bit_def from_uint16_def uuid_default_def zeros16 byte_simps)

lemma get_32bit_from_uint32 [simp]: "get_32bit (from_uint32 v) = v"
  by (simp add: get_32bit_def from_uint32_def uuid_default_def zeros16 byte_simps)

lemma len_from [simp]: "len (from_uint16 v) = 2" "len (from_uint32 w) = 4" "len (from_raw d) = 16"
  by (simp_all add: from_uint16_def from_uint32_def from_raw_def)

lemma raw_from_uint16: "raw (from_uint16 v) = [ucast v, ucast (drop_bit 8 v), 0,0,0,0,0,0,0,0,0,0,0,0,0,0]"
  by (simp add: from_uint16_def uuid_default_def zeros16 byte_simps)

lemma raw_from_uint32: "raw (from_uint32 v) = [ucast v, ucast (drop_bit 8 v), ucast (drop_bit 16 v),
    ucast (drop_bit 24 v), 0,0,0,0,0,0,0,0,0,0,0,0]"
  by (simp add: from_uint32_def uuid_default_def zeros16 byte_simps)

text \<open>A well-formed value of short length is one of the two packing constructors.\<close>

lemma wf_len2: "wf_uuid u \<Longrightarrow> len u = 2 \<Longrightarrow> u = from_uint16 (get_16bit u)"
  by (cases u, simp add: wf_uuid_def, elim conjE list16E)
    (simp add: from_uint16_def get_16bit_def uuid_default_def zeros16 byte_simps)

lemma wf_len4: "wf_uuid u \<Longrightarrow> len u = 4 \<Longrightarrow> u = from_uint32 (get_32bit u)"
  by (cases u, simp add: wf_uuid_def, elim conjE list16E)
    (simp add: from_uint32_def get_32bit_def uuid_default_def zeros16 byte_simps)

lemma bt_uuid_get_uuid:
  "len u = 2 \<Longrightarrow> bt_uuid16 (get_uuid u) = get_16bit u"
  "len u = 4 \<Longrightarrow> bt_uuid32 (get_uuid u) = get_32bit u"
  by (simp_all add: get_uuid_def bt_uuid16_def bt_uuid32_def Let_def zeros16 byte_simps)

lemma bt_len_get_uuid [simp]: "bt_len (get_uuid u) = len u"
  by (simp add: get_uuid_def Let_def)

lemma as_128bit_from_uint16:
  "as_128bit (from_uint16 v) = \<lparr>raw = take 12 base_lsb @ [ucast v, ucast (drop_bit 8 v), 0, 0], len = 16\<rparr>"
proof -
  have "ucast (drop_bit 16 (ucast v :: u32)) = (0 :: u8)" "ucast (drop_bit 24 (ucast v :: u32)) = (0 :: u8)"
    "ucast (drop_bit 8 (ucast v :: u32)) = (ucast (drop_bit 8 v) :: u8)" "ucast (ucast v :: u32) = (ucast v :: u8)"
    by (rule bit_word_eqI, auto simp: bit_simps dest: bit_imp_le_length)+
  then show ?thesis
    by (simp add: as_128bit_def Let_def byte_simps base_lsb_def)
qed

lemma as_128bit_from_uint32:
  "as_128bit (from_uint32 v) = \<lparr>raw = take 12 base_lsb @ [ucast v, ucast (drop_bit 8 v),
     ucast (drop_bit 16 v), ucast (drop_bit 24 v)], len = 16\<rparr>"
  by (simp add: as_128bit_def Let_def byte_simps base_lsb_def)

section \<open>Properties\<close>

text \<open>C9. Printing a UUID of any length with \<open>to_str\<close> and parsing the text again gives its
  128-bit expansion: what is exported to BlueZ is what is read back.\<close>

theorem from_uuid_str_to_str:
  assumes "wf_uuid u"
  shows "from_uuid_str (to_str u) = as_128bit u"
proof -
  from assms have "length (raw (as_128bit u)) = 16"
    using wf_as_128bit wf_uuid_def by blast
  then show ?thesis
    using len_as_128bit [of u] by (cases "as_128bit u") (simp add: to_str_def Let_def from_uuid_str_dashed)
qed

theorem from_uuid_str_to_str_witness:
  "to_str (from_uint16 0xfcd2) = ''0000fcd2-0000-1000-8000-00805f9b34fb'' \<and>
   from_uuid_str (to_str (from_uint16 0xfcd2)) = as_128bit (from_uint16 0xfcd2)"
proof
  show "to_str (from_uint16 0xfcd2) = ''0000fcd2-0000-1000-8000-00805f9b34fb''"
    by code_simp
  show "from_uuid_str (to_str (from_uint16 0xfcd2)) = as_128bit (from_uint16 0xfcd2)"
    by (rule from_uuid_str_to_str) simp
qed

text \<open>The tagged-union view loses nothing: \<open>from_uuid\<close> inverts \<open>get_uuid\<close> on every
  well-formed UUID of a valid Bluetooth length.\<close>

theorem from_uuid_get_uuid:
  assumes "wf_uuid u" and "len u \<in> {2, 4, 16}"
  shows "from_uuid (get_uuid u) = u"
  using assms wf_len2 [of u] wf_len4 [of u]
  by (auto simp: from_uuid_def bt_uuid_get_uuid)
    (simp add: get_uuid_def from_raw_def wf_uuid_def)

theorem from_uuid_get_uuid_witness:
  "from_uuid (get_uuid (from_uint32 0x12345678)) = from_uint32 0x12345678"
  by (rule from_uuid_get_uuid) simp_all

text \<open>\<open>operator==\<close> compares the length and that many bytes; on well-formed values it is
  equality, so it is reflexive, symmetric and transitive, and a 16-bit UUID never equals its own
  128-bit expansion.\<close>

theorem uuid_eq_iff:
  assumes "wf_uuid a" "wf_uuid b"
  shows "(uuid_eq a b \<longleftrightarrow> a = b) \<and> \<not> uuid_eq (from_uint16 v) (as_128bit (from_uint16 v))"
proof -
  have "drop (len a) (raw a) = drop (len b) (raw b)" if "len a = len b"
    using assms that by (intro nth_equalityI) (auto simp: wf_uuid_def list_all_length)
  then have "take (len a) (raw a) = take (len b) (raw b) \<Longrightarrow> len a = len b \<Longrightarrow> a = b"
    by (metis append_take_drop_id ESPBTUUID.equality old.unit.exhaust)
  then show ?thesis by (auto simp: uuid_eq_def)
qed

theorem uuid_eq_iff_witness:
  "(uuid_eq (from_uint16 0x1800) (from_uint16 0x1801) \<longleftrightarrow> from_uint16 0x1800 = from_uint16 0x1801) \<and>
   \<not> uuid_eq (from_uint16 0x1800) (as_128bit (from_uint16 0x1800))"
  by (rule uuid_eq_iff) simp_all

text \<open>A UUID read from BlueZ (36 characters) is never equal to a 16-bit one.\<close>

lemma dbus_uuid_not_short:
  assumes "length (uuid_scan s [] None) = 16"
  shows "\<not> uuid_eq (from_uuid_str s) (from_uint16 v)"
  using assms by (simp add: uuid_eq_def from_uuid_str_def Let_def from_raw_reversed_def)

text \<open>The byte-pair search used by service-data parsers finds a 16-bit UUID both in its short
  form and in its 128-bit expansion, and in the short form finds nothing else.\<close>

theorem contains_short:
  "contains (as_128bit (from_uint16 v)) (ucast v) (ucast (drop_bit 8 v)) \<and>
   (contains (from_uint16 v) a b \<longleftrightarrow> v = le16 a b)"
proof
  show "contains (as_128bit (from_uint16 v)) (ucast v) (ucast (drop_bit 8 v))"
    by (auto simp: contains_def as_128bit_from_uint16 base_lsb_def list_ex_iff intro!: bexI [of _ 12])
  show "contains (from_uint16 v) a b \<longleftrightarrow> v = le16 a b"
    by (auto simp: contains_def raw_from_uint16 byte_simps)
qed

end
