(* ===== verification/Ble_Device.thy ===== *)
theory Ble_Device
  imports Ble_Uuid
begin

text \<open>
  Scan results of \<open>components/esp32_ble_tracker\<close>: the class \<open>ESPBTDevice\<close>, the advertising-data
  parser \<open>parse_ad_payload\<close> of the raw HCI backend, iBeacon extraction and MAC addresses. Every
  read through a pointer is \<open>rd\<close> on the whole buffer, so an over-read would make the model \<open>None\<close>.
\<close>

section \<open>Data\<close>

record ServiceData =
  sd_uuid :: ESPBTUUID
  sd_data :: bytes

record ESPBTDevice =
  dev_address :: bytes
  dev_rssi :: int
  dev_name :: string
  tx_powers :: "int list"
  appearance :: "u16 option"
  ad_flag :: "u8 option"
  service_uuids :: "ESPBTUUID list"
  manufacturer_datas :: "ServiceData list"
  service_datas :: "ServiceData list"

definition device_default :: ESPBTDevice where
  "device_default =
     \<lparr>dev_address = replicate 6 0, dev_rssi = 0, dev_name = '''', tx_powers = [], appearance = None,
      ad_flag = None, service_uuids = [], manufacturer_datas = [], service_datas = []\<rparr>"

definition add_service_uuid :: "ESPBTUUID \<Rightarrow> ESPBTDevice \<Rightarrow> ESPBTDevice" where
  "add_service_uuid u d = d\<lparr>service_uuids := service_uuids d @ [u]\<rparr>"

definition add_manufacturer_data :: "ServiceData \<Rightarrow> ESPBTDevice \<Rightarrow> ESPBTDevice" where
  "add_manufacturer_data sd d = d\<lparr>manufacturer_datas := manufacturer_datas d @ [sd]\<rparr>"

definition add_service_data :: "ServiceData \<Rightarrow> ESPBTDevice \<Rightarrow> ESPBTDevice" where
  "add_service_data sd d = d\<lparr>service_datas := service_datas d @ [sd]\<rparr>"

definition add_tx_power :: "int \<Rightarrow> ESPBTDevice \<Rightarrow> ESPBTDevice" where
  "add_tx_power p d = d\<lparr>tx_powers := tx_powers d @ [p]\<rparr>"

definition int8_of :: "u8 \<Rightarrow> int" where
  "int8_of b = sint b"

text \<open>\<open>std::string(reinterpret_cast<const char *>(data), n)\<close>: the bytes as characters.\<close>

definition chars_of :: "bytes \<Rightarrow> string" where
  "chars_of bs = map (\<lambda>b. char_of (unat b)) bs"

section \<open>parse_ad_payload\<close>

text \<open>The three loops over packed UUID lists; \<open>off\<close> is \<open>data - payload\<close>.\<close>

function uuid16_loop :: "bytes \<Rightarrow> nat \<Rightarrow> nat \<Rightarrow> nat \<Rightarrow> ESPBTDevice \<Rightarrow> ESPBTDevice option" where
  "uuid16_loop pl off dl i d =
     (if i + 1 < dl then do {
        b0 \<leftarrow> rd pl (off + i); b1 \<leftarrow> rd pl (off + i + 1);
        uuid16_loop pl off dl (i + 2) (add_service_uuid (from_uint16 (le16 b0 b1)) d)
      } else Some d)"
  by pat_completeness auto
termination by (relation "measure (\<lambda>(pl, off, dl, i, d). dl - i)") auto

function uuid32_loop :: "bytes \<Rightarrow> nat \<Rightarrow> nat \<Rightarrow> nat \<Rightarrow> ESPBTDevice \<Rightarrow> ESPBTDevice option" where
  "uuid32_loop pl off dl i d =
     (if i + 3 < dl then do {
        b0 \<leftarrow> rd pl (off + i); b1 \<leftarrow> rd pl (off + i + 1);
        b2 \<leftarrow> rd pl (off + i + 2); b3 \<leftarrow> rd pl (off + i + 3);
        uuid32_loop pl off dl (i + 4) (add_service_uuid (from_uint32 (le32 b0 b1 b2 b3)) d)
      } else Some d)"
  by pat_completeness auto
termination by (relation "measure (\<lambda>(pl, off, dl, i, d). dl - i)") auto

function uuid128_loop :: "bytes \<Rightarrow> nat \<Rightarrow> nat \<Rightarrow> nat \<Rightarrow> ESPBTDevice \<Rightarrow> ESPBTDevice option" where
  "uuid128_loop pl off dl i d =
     (if i + 15 < dl then do {
        bs \<leftarrow> rd_n pl (off + i) 16;
        uuid128_loop pl off dl (i + 16) (add_service_uuid (from_raw bs) d)
      } else Some d)"
  by pat_completeness auto
termination by (relation "measure (\<lambda>(pl, off, dl, i, d). dl - i)") auto

text \<open>The body of the \<open>switch (type)\<close>.\<close>

text \<open>The types of the fields of an advertisement.\<close>

definition AD_FLAGS :: u8 where "AD_FLAGS = 0x01"
definition AD_INCOMPLETE_LIST_UUID16 :: u8 where "AD_INCOMPLETE_LIST_UUID16 = 0x02"
definition AD_COMPLETE_LIST_UUID16 :: u8 where "AD_COMPLETE_LIST_UUID16 = 0x03"
definition AD_INCOMPLETE_LIST_UUID32 :: u8 where "AD_INCOMPLETE_LIST_UUID32 = 0x04"
definition AD_COMPLETE_LIST_UUID32 :: u8 where "AD_COMPLETE_LIST_UUID32 = 0x05"
definition AD_INCOMPLETE_LIST_UUID128 :: u8 where "AD_INCOMPLETE_LIST_UUID128 = 0x06"
definition AD_COMPLETE_LIST_UUID128 :: u8 where "AD_COMPLETE_LIST_UUID128 = 0x07"
definition AD_SHORTENED_LOCAL_NAME :: u8 where "AD_SHORTENED_LOCAL_NAME = 0x08"
definition AD_COMPLETE_LOCAL_NAME :: u8 where "AD_COMPLETE_LOCAL_NAME = 0x09"
definition AD_TX_POWER_LEVEL :: u8 where "AD_TX_POWER_LEVEL = 0x0a"
definition AD_SERVICE_DATA_UUID16 :: u8 where "AD_SERVICE_DATA_UUID16 = 0x16"
definition AD_SERVICE_DATA_UUID32 :: u8 where "AD_SERVICE_DATA_UUID32 = 0x20"
definition AD_SERVICE_DATA_UUID128 :: u8 where "AD_SERVICE_DATA_UUID128 = 0x21"
definition AD_APPEARANCE :: u8 where "AD_APPEARANCE = 0x19"
definition AD_MANUFACTURER_DATA :: u8 where "AD_MANUFACTURER_DATA = 0xff"

lemmas AD_types = AD_FLAGS_def AD_INCOMPLETE_LIST_UUID16_def AD_COMPLETE_LIST_UUID16_def
  AD_INCOMPLETE_LIST_UUID32_def AD_COMPLETE_LIST_UUID32_def AD_INCOMPLETE_LIST_UUID128_def
  AD_COMPLETE_LIST_UUID128_def AD_SHORTENED_LOCAL_NAME_def AD_COMPLETE_LOCAL_NAME_def
  AD_TX_POWER_LEVEL_def AD_SERVICE_DATA_UUID16_def AD_SERVICE_DATA_UUID32_def
  AD_SERVICE_DATA_UUID128_def AD_APPEARANCE_def AD_MANUFACTURER_DATA_def

definition ad_field :: "bytes \<Rightarrow> u8 \<Rightarrow> nat \<Rightarrow> nat \<Rightarrow> ESPBTDevice \<Rightarrow> ESPBTDevice option" where
  "ad_field pl ty off dl d =
     (if ty = AD_FLAGS then
        (if 0 < dl then do { b \<leftarrow> rd pl off; Some (d\<lparr>ad_flag := Some b\<rparr>) } else Some d)
      else if ty = AD_INCOMPLETE_LIST_UUID16 \<or> ty = AD_COMPLETE_LIST_UUID16 then uuid16_loop pl off dl 0 d
      else if ty = AD_INCOMPLETE_LIST_UUID32 \<or> ty = AD_COMPLETE_LIST_UUID32 then uuid32_loop pl off dl 0 d
      else if ty = AD_INCOMPLETE_LIST_UUID128 \<or> ty = AD_COMPLETE_LIST_UUID128 then uuid128_loop pl off dl 0 d
      else if ty = AD_SHORTENED_LOCAL_NAME \<or> ty = AD_COMPLETE_LOCAL_NAME then do { bs \<leftarrow> rd_n pl off dl; Some (d\<lparr>dev_name := chars_of bs\<rparr>) }
      else if ty = AD_TX_POWER_LEVEL then
        (if 0 < dl then do { b \<leftarrow> rd pl off; Some (add_tx_power (int8_of b) d) } else Some d)
      else if ty = AD_APPEARANCE then
        (if 2 \<le> dl then do { b0 \<leftarrow> rd pl off; b1 \<leftarrow> rd pl (off + 1); Some (d\<lparr>appearance := Some (le16 b0 b1)\<rparr>) }
         else Some d)
      else if ty = AD_SERVICE_DATA_UUID16 then
        (if 2 \<le> dl then do {
           b0 \<leftarrow> rd pl off; b1 \<leftarrow> rd pl (off + 1);
           bs \<leftarrow> rd_n pl (off + 2) (dl - 2);
           Some (add_service_data \<lparr>sd_uuid = from_uint16 (le16 b0 b1), sd_data = bs\<rparr> d) }
         else Some d)
      else if ty = AD_SERVICE_DATA_UUID32 then
        (if 4 \<le> dl then do {
           b0 \<leftarrow> rd pl off; b1 \<leftarrow> rd pl (off + 1); b2 \<leftarrow> rd pl (off + 2); b3 \<leftarrow> rd pl (off + 3);
           bs \<leftarrow> rd_n pl (off + 4) (dl - 4);
           Some (add_service_data \<lparr>sd_uuid = from_uint32 (le32 b0 b1 b2 b3), sd_data = bs\<rparr> d) }
         else Some d)
      else if ty = AD_SERVICE_DATA_UUID128 then
        (if 16 \<le> dl then do {
           us \<leftarrow> rd_n pl off 16; bs \<leftarrow> rd_n pl (off + 16) (dl - 16);
           Some (add_service_data \<lparr>sd_uuid = from_raw us, sd_data = bs\<rparr> d) }
         else Some d)
      else if ty = AD_MANUFACTURER_DATA then
        (if 2 \<le> dl then do {
           b0 \<leftarrow> rd pl off; b1 \<leftarrow> rd pl (off + 1); bs \<leftarrow> rd_n pl off dl;
           Some (add_manufacturer_data \<lparr>sd_uuid = from_uint16 (le16 b0 b1), sd_data = bs\<rparr> d) }
         else Some d)
      else Some d)"

function ad_loop :: "bytes \<Rightarrow> nat \<Rightarrow> nat \<Rightarrow> ESPBTDevice \<Rightarrow> ESPBTDevice option" where
  "ad_loop pl n pos d =
     (if pos + 1 < n then do {
        field_len \<leftarrow> rd pl pos;
        if field_len = 0 \<or> pos + 1 + unat field_len > n then Some d
        else do {
          ty \<leftarrow> rd pl (pos + 1);
          d' \<leftarrow> ad_field pl ty (pos + 2) (unat field_len - 1) d;
          ad_loop pl n (pos + 1 + unat field_len) d'
        }
      } else Some d)"
  by pat_completeness auto
termination by (relation "measure (\<lambda>(pl, n, pos, d). n - pos)") auto

declare uuid16_loop.simps [simp del] uuid32_loop.simps [simp del] uuid128_loop.simps [simp del]
  ad_loop.simps [simp del]

definition parse_ad_payload :: "bytes \<Rightarrow> u8 \<Rightarrow> ESPBTDevice \<Rightarrow> ESPBTDevice option" where
  "parse_ad_payload pl n d = ad_loop pl (unat n) 0 d"

section \<open>What the parser computes\<close>

text \<open>
  Reference reading of an advertising payload: the sequence of AD structures (type, data), cut at
  the first zero or truncated length, and the effect of one structure.
\<close>

function ad_structs :: "bytes \<Rightarrow> (u8 \<times> bytes) list" where
  "ad_structs [] = []"
| "ad_structs (l # rest) =
     (if l = 0 \<or> length rest < unat l then []
      else (hd rest, take (unat l - 1) (tl rest)) # ad_structs (drop (unat l) rest))"
  by pat_completeness auto
termination by (relation "measure length") auto

declare ad_structs.simps(2) [simp del]

fun uuids16 :: "bytes \<Rightarrow> ESPBTUUID list" where
  "uuids16 (a # b # r) = from_uint16 (le16 a b) # uuids16 r"
| "uuids16 _ = []"

fun uuids32 :: "bytes \<Rightarrow> ESPBTUUID list" where
  "uuids32 (a # b # c # e # r) = from_uint32 (le32 a b c e) # uuids32 r"
| "uuids32 _ = []"

function uuids128 :: "bytes \<Rightarrow> ESPBTUUID list" where
  "uuids128 bs = (if length bs < 16 then [] else from_raw (take 16 bs) # uuids128 (drop 16 bs))"
  by pat_completeness auto
termination by (relation "measure length") auto

declare uuids128.simps [simp del]

definition add_uuids :: "ESPBTUUID list \<Rightarrow> ESPBTDevice \<Rightarrow> ESPBTDevice" where
  "add_uuids us d = d\<lparr>service_uuids := service_uuids d @ us\<rparr>"

lemma add_uuids_Nil [simp]: "add_uuids [] d = d"
  by (simp add: add_uuids_def)

lemma add_uuids_Cons: "add_uuids (u # us) d = add_uuids us (add_service_uuid u d)"
  by (simp add: add_uuids_def add_service_uuid_def)

definition apply_struct :: "u8 \<times> bytes \<Rightarrow> ESPBTDevice \<Rightarrow> ESPBTDevice" where
  "apply_struct = (\<lambda>(ty, x) d.
     if ty = 0x01 then (if x = [] then d else d\<lparr>ad_flag := Some (x ! 0)\<rparr>)
     else if ty = 0x02 \<or> ty = 0x03 then add_uuids (uuids16 x) d
     else if ty = 0x04 \<or> ty = 0x05 then add_uuids (uuids32 x) d
     else if ty = 0x06 \<or> ty = 0x07 then add_uuids (uuids128 x) d
     else if ty = 0x08 \<or> ty = 0x09 then d\<lparr>dev_name := chars_of x\<rparr>
     else if ty = 0x0a then (if x = [] then d else add_tx_power (int8_of (x ! 0)) d)
     else if ty = 0x19 then (if 2 \<le> length x then d\<lparr>appearance := Some (le16 (x ! 0) (x ! 1))\<rparr> else d)
     else if ty = 0x16 then
       (if 2 \<le> length x then add_service_data \<lparr>sd_uuid = from_uint16 (le16 (x ! 0) (x ! 1)), sd_data = drop 2 x\<rparr> d else d)
     else if ty = 0x20 then
       (if 4 \<le> length x
        then add_service_data \<lparr>sd_uuid = from_uint32 (le32 (x ! 0) (x ! 1) (x ! 2) (x ! 3)), sd_data = drop 4 x\<rparr> d
        else d)
     else if ty = 0x21 then
       (if 16 \<le> length x then add_service_data \<lparr>sd_uuid = from_raw (take 16 x), sd_data = drop 16 x\<rparr> d else d)
     else if ty = 0xff then
       (if 2 \<le> length x then add_manufacturer_data \<lparr>sd_uuid = from_uint16 (le16 (x ! 0) (x ! 1)), sd_data = x\<rparr> d else d)
     else d)"

text \<open>Each list loop consumes the data from its index on.\<close>

lemma slice_Cons: "off + i < length pl \<Longrightarrow> i < dl \<Longrightarrow>
    take (dl - i) (drop (off + i) pl) = pl ! (off + i) # take (dl - Suc i) (drop (off + Suc i) pl)"
proof -
  assume "off + i < length pl" "i < dl"
  then have "drop (off + i) pl = pl ! (off + i) # drop (off + Suc i) pl" "dl - i = Suc (dl - Suc i)"
    by (simp_all add: Cons_nth_drop_Suc)
  then show ?thesis by simp
qed

lemma uuid16_loop_eq:
  "off + dl \<le> length pl \<Longrightarrow>
     uuid16_loop pl off dl i d = Some (add_uuids (uuids16 (take (dl - i) (drop (off + i) pl))) d)"
proof (induction pl off dl i d rule: uuid16_loop.induct)
  case (1 pl off dl i d)
  show ?case
  proof (cases "i + 1 < dl")
    case True
    with 1 show ?thesis
      by (simp add: uuid16_loop.simps [of pl off dl i d] rd_simps slice_Cons [of off i]
          slice_Cons [of off "Suc i", simplified] add_uuids_Cons)
  next
    case False
    then have "dl - i = 0 \<or> dl - i = 1" by auto
    then have "uuids16 (take (dl - i) (drop (off + i) pl)) = []"
      by (cases "drop (off + i) pl") auto
    with False show ?thesis by (simp add: uuid16_loop.simps [of pl off dl i d])
  qed
qed

lemma uuids32_short: "length xs < 4 \<Longrightarrow> uuids32 xs = []"
  by (cases xs rule: uuids32.cases) auto

lemma uuid32_loop_eq:
  "off + dl \<le> length pl \<Longrightarrow>
     uuid32_loop pl off dl i d = Some (add_uuids (uuids32 (take (dl - i) (drop (off + i) pl))) d)"
proof (induction pl off dl i d rule: uuid32_loop.induct)
  case (1 pl off dl i d)
  show ?case
  proof (cases "i + 3 < dl")
    case True
    with 1 show ?thesis
      by (simp add: uuid32_loop.simps [of pl off dl i d] rd_simps eval_nat_numeral slice_Cons [of off i]
          slice_Cons [of off "Suc i", simplified] slice_Cons [of off "Suc (Suc i)", simplified]
          slice_Cons [of off "Suc (Suc (Suc i))", simplified] add_uuids_Cons)
  next
    case False
    then show ?thesis by (simp add: uuid32_loop.simps [of pl off dl i d] uuids32_short)
  qed
qed

lemma uuid128_loop_eq:
  "off + dl \<le> length pl \<Longrightarrow>
     uuid128_loop pl off dl i d = Some (add_uuids (uuids128 (take (dl - i) (drop (off + i) pl))) d)"
proof (induction pl off dl i d rule: uuid128_loop.induct)
  case (1 pl off dl i d)
  show ?case
  proof (cases "i + 15 < dl")
    case True
    then have r: "rd_n pl (off + i) 16 = Some (take 16 (drop (off + i) pl))"
      using 1(2) by (intro rd_n_in) simp
    have "drop 16 (take (dl - i) (drop (off + i) pl)) = take (dl - (i + 16)) (drop (off + (i + 16)) pl)"
      by (simp add: drop_take ac_simps)
    then show ?thesis using True 1 r
      by (simp add: uuid128_loop.simps [of pl off dl i d] add_uuids_Cons
          uuids128.simps [of "take (dl - i) (drop (off + i) pl)"])
  next
    case False
    then show ?thesis
      by (simp add: uuid128_loop.simps [of pl off dl i d] uuids128.simps [of "take (dl - i) (drop (off + i) pl)"])
  qed
qed

text \<open>One field: no read leaves the buffer, and the result is the effect of its structure.\<close>

lemma ad_field_eq:
  assumes "off + dl \<le> length pl"
  shows "ad_field pl ty off dl d = Some (apply_struct (ty, take dl (drop off pl)) d)"
proof -
  have len: "length (take dl (drop off pl)) = dl" using assms by simp
  then have "take dl (drop off pl) = [] \<longleftrightarrow> dl = 0" by (metis length_0_conv)
  moreover have "drop k (take dl (drop off pl)) = take (dl - k) (drop (off + k) pl)" for k
    by (simp add: drop_take add.commute)
  ultimately show ?thesis using assms len
    by (simp add: ad_field_def AD_types apply_struct_def rd_simps uuid16_loop_eq uuid32_loop_eq uuid128_loop_eq)
qed

text \<open>The structure at position \<open>pos\<close> of the first \<open>n\<close> bytes, when it fits.\<close>

lemma ad_structs_at:
  assumes "n \<le> length pl" "pos + 1 < n" "pl ! pos \<noteq> 0" "pos + 1 + unat (pl ! pos) \<le> n"
  shows "ad_structs (drop pos (take n pl)) = (pl ! (pos + 1), take (unat (pl ! pos) - 1) (drop (pos + 2) pl))
    # ad_structs (drop (pos + 1 + unat (pl ! pos)) (take n pl))"
proof -
  let ?fl = "unat (pl ! pos)"
  have fl: "0 < ?fl" using assms(3) by (simp add: unat_gt_0)
  have s: "drop pos (take n pl) = pl ! pos # drop (Suc pos) (take n pl)"
    using assms(1,2) by (simp flip: Cons_nth_drop_Suc [of pos "take n pl"])
  have hd: "hd (drop (Suc pos) (take n pl)) = pl ! (pos + 1)"
    using assms(1,2) by (simp add: hd_drop_conv_nth)
  have "tl (drop (Suc pos) (take n pl)) = drop (pos + 2) (take n pl)"
    by (simp only: tl_drop drop_Suc [symmetric] add_2_eq_Suc')
  then have tl: "take (?fl - 1) (tl (drop (Suc pos) (take n pl))) = take (?fl - 1) (drop (pos + 2) pl)"
    using assms(4) fl by (simp only:) (rule take_drop_take, simp)
  have lr: "\<not> (pl ! pos = 0 \<or> length (drop (Suc pos) (take n pl)) < ?fl)" using assms by auto
  have dr: "drop ?fl (drop (Suc pos) (take n pl)) = drop (pos + 1 + ?fl) (take n pl)"
    unfolding drop_drop by (simp only: add.commute add_Suc_right Suc_eq_plus1 ac_simps)
  show ?thesis using lr unfolding s ad_structs.simps(2) hd tl dr by argo
qed

lemma ad_loop_eq:
  "n \<le> length pl \<Longrightarrow> ad_loop pl n pos d = Some (fold apply_struct (ad_structs (drop pos (take n pl))) d)"
proof (induction pl n pos d rule: ad_loop.induct)
  case (1 pl n pos d)
  let ?fl = "unat (pl ! pos)"
  show ?case
  proof (cases "pos + 1 < n")
    case False
    then have "length (drop pos (take n pl)) \<le> 1" by simp
    then have "ad_structs (drop pos (take n pl)) = []"
      by (cases "drop pos (take n pl)") (auto simp: ad_structs.simps unat_gt_0)
    with False show ?thesis by (simp add: ad_loop.simps [of pl n pos d])
  next
    case True
    have s: "drop pos (take n pl) = pl ! pos # drop (Suc pos) (take n pl)"
      using True 1(2) by (simp flip: Cons_nth_drop_Suc [of pos "take n pl"])
    have r: "rd pl pos = Some (pl ! pos)" using True 1(2) by (simp add: rd_simps)
    show ?thesis
    proof (cases "pl ! pos = 0 \<or> pos + 1 + ?fl > n")
      case stop: True
      then show ?thesis using True 1(2) r
        by (auto simp: ad_loop.simps [of pl n pos d] s ad_structs.simps)
    next
      case go: False
      then have fl: "0 < ?fl" by (simp add: unat_gt_0)
      let ?d = "apply_struct (pl ! (pos + 1), take (?fl - 1) (drop (pos + 2) pl)) d"
      have f: "ad_field pl (pl ! (pos + 1)) (pos + 2) (?fl - 1) d = Some ?d"
        using go fl 1(2) by (intro ad_field_eq) simp
      have r1: "rd pl (pos + 1) = Some (pl ! (pos + 1))" using True 1(2) by (simp add: rd_simps)
      have IH: "ad_loop pl n (pos + 1 + ?fl) ?d = Some (fold apply_struct (ad_structs (drop (pos + 1 + ?fl) (take n pl))) ?d)"
        using "1.IH" [OF True r go r1 f 1(2)] .
      have "ad_structs (drop pos (take n pl)) =
          (pl ! (pos + 1), take (?fl - 1) (drop (pos + 2) pl)) # ad_structs (drop (pos + 1 + ?fl) (take n pl))"
        using 1(2) True go by (intro ad_structs_at) auto
      then have "fold apply_struct (ad_structs (drop pos (take n pl))) d =
          fold apply_struct (ad_structs (drop (pos + 1 + ?fl) (take n pl))) ?d"
        by (simp only: fold_simps)
      then show ?thesis
        by (subst ad_loop.simps) (simp only: True go r r1 f IH if_True if_False Option.bind.bind_lunit)
    qed
  qed
qed

text \<open>C7. The advertising-data parser never reads outside its buffer, on any bytes whatsoever, and
  computes exactly the reference reading: the effects, in order, of the AD structures before the
  first zero or truncated length.\<close>

theorem parse_ad_payload_correct:
  assumes "unat n \<le> length pl"
  shows "parse_ad_payload pl n d = Some (fold apply_struct (ad_structs (take (unat n) pl)) d)"
  using ad_loop_eq [OF assms, of 0 d] by (simp add: parse_ad_payload_def)

theorem parse_ad_payload_correct_witness:
  "parse_ad_payload [0x02, 0x01, 0x06, 0x05, 0x16, 0xD2, 0xFC, 0x40, 0x01, 0x00, 0x09] 9 device_default =
     Some (fold apply_struct (ad_structs (take (unat (9 :: u8))
       [0x02, 0x01, 0x06, 0x05, 0x16, 0xD2, 0xFC, 0x40, 0x01, 0x00, 0x09])) device_default) \<and>
   ad_structs [0x02, 0x01, 0x06, 0x05, 0x16, 0xD2, 0xFC, 0x40, 0x01] =
     [(0x01, [0x06]), (0x16, [0xD2, 0xFC, 0x40, 0x01])]"
proof
  show "parse_ad_payload [0x02, 0x01, 0x06, 0x05, 0x16, 0xD2, 0xFC, 0x40, 0x01, 0x00, 0x09] 9 device_default =
     Some (fold apply_struct (ad_structs (take (unat (9 :: u8))
       [0x02, 0x01, 0x06, 0x05, 0x16, 0xD2, 0xFC, 0x40, 0x01, 0x00, 0x09])) device_default)"
    by (rule parse_ad_payload_correct) simp
  show "ad_structs [0x02, 0x01, 0x06, 0x05, 0x16, 0xD2, 0xFC, 0x40, 0x01] =
     [(0x01, [0x06]), (0x16, [0xD2, 0xFC, 0x40, 0x01])]"
    by (simp add: ad_structs.simps)
qed


section \<open>MAC addresses\<close>

definition address_str :: "ESPBTDevice \<Rightarrow> string" where
  "address_str d =
     fmt_02X (dev_address d ! 5) @ '':'' @ fmt_02X (dev_address d ! 4) @ '':'' @ fmt_02X (dev_address d ! 3) @ '':'' @
     fmt_02X (dev_address d ! 2) @ '':'' @ fmt_02X (dev_address d ! 1) @ '':'' @ fmt_02X (dev_address d ! 0)"

definition address_uint64 :: "ESPBTDevice \<Rightarrow> u64" where
  "address_uint64 d = fold (\<lambda>i v. push_bit 8 v OR ucast (dev_address d ! i)) [5, 4, 3, 2, 1, 0] 0"

text \<open>
  One \<open>%02x\<close> conversion of \<open>sscanf\<close>: leading white space, an optional sign, then at most two
  characters in all. An item that is only the prefix \<open>0x\<close> is a matching failure.
\<close>

definition is_space :: "char \<Rightarrow> bool" where
  "is_space c \<longleftrightarrow> c \<in> {CHR '' '', CHR 0x09, CHR 0x0A, CHR 0x0B, CHR 0x0C, CHR 0x0D}"

definition hex_digits_val :: "string \<Rightarrow> u32" where
  "hex_digits_val ds = foldl (\<lambda>v c. push_bit 4 v OR (case uuid_nibble c of None \<Rightarrow> 0 | Some n \<Rightarrow> ucast n)) 0 ds"

definition scan_02x :: "string \<Rightarrow> (u32 \<times> string) option" where
  "scan_02x s =
     (let s1 = dropWhile is_space s;
          (neg, s2, w) = (case s1 of
              [] \<Rightarrow> (False, s1, 2)
            | c # t \<Rightarrow> if c = CHR ''-'' then (True, t, 1) else if c = CHR ''+'' then (False, t, 1) else (False, s1, 2));
          ds = takeWhile (\<lambda>c. uuid_nibble c \<noteq> None) (take w s2)
      in if w = 2 \<and> (take 2 s2 = ''0x'' \<or> take 2 s2 = ''0X'') then None
         else if ds = [] then None
         else Some (if neg then - hex_digits_val ds else hex_digits_val ds, drop (length ds) s2))"

definition scan_colon :: "string \<Rightarrow> string option" where
  "scan_colon s = (case s of [] \<Rightarrow> None | c # t \<Rightarrow> if c = CHR '':'' then Some t else None)"

text \<open>\<open>sscanf(str, "%02x:...:%02x") != 6\<close> is failure; the six values are stored reversed.\<close>

definition parse_bdaddr :: "string \<Rightarrow> bytes option" where
  "parse_bdaddr str = do {
     (v0, s0) \<leftarrow> scan_02x (takeWhile (\<lambda>c. c \<noteq> CHR 0x00) str); s0 \<leftarrow> scan_colon s0;
     (v1, s1) \<leftarrow> scan_02x s0; s1 \<leftarrow> scan_colon s1;
     (v2, s2) \<leftarrow> scan_02x s1; s2 \<leftarrow> scan_colon s2;
     (v3, s3) \<leftarrow> scan_02x s2; s3 \<leftarrow> scan_colon s3;
     (v4, s4) \<leftarrow> scan_02x s3; s4 \<leftarrow> scan_colon s4;
     (v5, s5) \<leftarrow> scan_02x s4;
     Some [ucast v5, ucast v4, ucast v3, ucast v2, ucast v1, ucast v0]
   }"

section \<open>iBeacon\<close>

record ESPBLEiBeacon =
  sub_type :: u8
  ib_length :: u8
  proximity_uuid :: bytes
  ib_major :: u16
  ib_minor :: u16
  signal_power :: int

text \<open>\<open>memcpy\<close> of 23 bytes into the packed struct, integers in host (little-endian) order.\<close>

definition ibeacon_of :: "bytes \<Rightarrow> ESPBLEiBeacon" where
  "ibeacon_of b =
     \<lparr>sub_type = b ! 0, ib_length = b ! 1, proximity_uuid = take 16 (drop 2 b),
      ib_major = le16 (b ! 18) (b ! 19), ib_minor = le16 (b ! 20) (b ! 21), signal_power = int8_of (b ! 22)\<rparr>"

definition from_manufacturer_data :: "ServiceData \<Rightarrow> ESPBLEiBeacon option" where
  "from_manufacturer_data sd =
     (let x = sd_data sd in
      if length x < 2 + 23 then None
      else if x ! 0 \<noteq> 0x4c \<or> x ! 1 \<noteq> 0x00 then None
      else if x ! 2 \<noteq> 0x02 \<or> x ! 3 \<noteq> 0x15 then None
      else Some (ibeacon_of (take 23 (drop 2 x))))"

definition get_major :: "ESPBLEiBeacon \<Rightarrow> u16" where
  "get_major b = drop_bit 8 (ib_major b) OR push_bit 8 (ib_major b AND 0xff)"

definition get_minor :: "ESPBLEiBeacon \<Rightarrow> u16" where
  "get_minor b = drop_bit 8 (ib_minor b) OR push_bit 8 (ib_minor b AND 0xff)"

definition ibeacon_uuid :: "ESPBLEiBeacon \<Rightarrow> ESPBTUUID" where
  "ibeacon_uuid b = from_raw_reversed (proximity_uuid b)"

fun first_ibeacon :: "ServiceData list \<Rightarrow> ESPBLEiBeacon option" where
  "first_ibeacon [] = None"
| "first_ibeacon (it # its) =
     (case from_manufacturer_data it of Some r \<Rightarrow> Some r | None \<Rightarrow> first_ibeacon its)"

definition get_ibeacon :: "ESPBTDevice \<Rightarrow> ESPBLEiBeacon option" where
  "get_ibeacon d = first_ibeacon (manufacturer_datas d)"

section \<open>BlueZ Device1 properties\<close>

text \<open>
  The property dictionary of \<open>org.bluez.Device1\<close> as sd-bus delivers it: one entry per property,
  in message order, with the value at the D-Bus type BlueZ documents for that name. An entry of
  any other name is \<open>P_Other\<close>.
\<close>

datatype device1_prop =
    P_Address string
  | P_Name string
  | P_RSSI u16
  | P_TxPower u16
  | P_Appearance u16
  | P_UUIDs "string list"
  | P_ManufacturerData "(u16 \<times> bytes) list"
  | P_ServiceData "(string \<times> bytes) list"
  | P_Other string

definition prop_step :: "device1_prop \<Rightarrow> ESPBTDevice \<times> bool \<Rightarrow> ESPBTDevice \<times> bool" where
  "prop_step p = (\<lambda>(d, have).
     case p of
       P_Address addr \<Rightarrow>
         (case parse_bdaddr addr of Some bd \<Rightarrow> (d\<lparr>dev_address := bd\<rparr>, True) | None \<Rightarrow> (d, have))
     | P_Name nm \<Rightarrow> (d\<lparr>dev_name := nm\<rparr>, have)
     | P_RSSI v \<Rightarrow> (d\<lparr>dev_rssi := int8_of (ucast v)\<rparr>, have)
     | P_TxPower v \<Rightarrow> (add_tx_power (int8_of (ucast v)) d, have)
     | P_Appearance a \<Rightarrow> (d\<lparr>appearance := Some a\<rparr>, have)
     | P_UUIDs us \<Rightarrow> (fold (\<lambda>u. add_service_uuid (from_uuid_str u)) us d, have)
     | P_ManufacturerData ms \<Rightarrow>
         (fold (\<lambda>(company, payload). add_manufacturer_data
            \<lparr>sd_uuid = from_uint16 company,
             sd_data = [ucast (company AND 0xff), ucast (drop_bit 8 company)] @ payload\<rparr>) ms d, have)
     | P_ServiceData ss \<Rightarrow>
         (fold (\<lambda>(u, x). add_service_data \<lparr>sd_uuid = from_uuid_str u, sd_data = x\<rparr>) ss d, have)
     | P_Other k \<Rightarrow> (d, have))"

definition parse_device1_props :: "device1_prop list \<Rightarrow> ESPBTDevice \<Rightarrow> ESPBTDevice \<times> bool" where
  "parse_device1_props ps d = fold prop_step ps (d, False)"

section \<open>Address round trips\<close>

lemma hex_uc_plain:
  assumes "n < 16"
  shows "\<not> is_space (hex_uc n)" "hex_uc n \<noteq> CHR ''-''" "hex_uc n \<noteq> CHR ''+''"
    "hex_uc n \<noteq> CHR ''x''" "hex_uc n \<noteq> CHR ''X''" "hex_uc n \<noteq> CHR 0x00" "hex_uc n \<noteq> CHR '':''"
  using of_char_hex(2) [OF assms] assms by (auto simp: is_space_def split: if_splits)

lemma byte_nibbles32:
  "push_bit 4 (ucast (of_nat (unat b div 16) :: u8)) OR ucast (of_nat (unat b mod 16) :: u8) = (ucast (b :: u8) :: u32)"
proof -
  have "(ucast b :: u32) = ucast (push_bit 4 (of_nat (unat b div 16)) OR of_nat (unat b mod 16) :: u8)"
    by (simp only: byte_nibbles)
  also have "\<dots> = push_bit 4 (ucast (of_nat (unat b div 16) :: u8)) OR ucast (of_nat (unat b mod 16) :: u8)"
  proof -
    have "(of_nat (unat b div 16) :: u8) = drop_bit 4 b"
      by (simp add: drop_bit_eq_div word_arith_nat_div)
    then show ?thesis
      by (simp only:) (rule bit_word_eqI, auto simp: bit_simps dest: bit_imp_le_length)
  qed
  finally show ?thesis by simp
qed

lemma scan_02x_hex:
  assumes "m < 16" "n < 16"
  shows "scan_02x (hex_uc m # hex_uc n # rest) =
     Some (push_bit 4 (ucast (of_nat m :: u8)) OR ucast (of_nat n :: u8), rest)"
proof -
  have m: "dropWhile is_space (hex_uc m # hex_uc n # rest) = hex_uc m # hex_uc n # rest"
    using hex_uc_plain [OF assms(1)] by simp
  show ?thesis
    unfolding scan_02x_def m Let_def
    using hex_uc_plain [OF assms(1)] hex_uc_plain [OF assms(2)] uuid_nibble_hex(2) [OF assms(1)]
      uuid_nibble_hex(2) [OF assms(2)]
    by (simp add: hex_digits_val_def)
qed

lemma scan_02x_fmt: "scan_02x (fmt_02X b @ rest) = Some (ucast b, rest)"
  using scan_02x_hex [OF unat_byte_div16, of "unat b mod 16" b rest]
  by (simp only: fmt_02X_def append.simps byte_nibbles32)

lemma scan_02x_fmt_last: "scan_02x (fmt_02X b) = Some (ucast b, [])"
  using scan_02x_fmt [of b "[]"] by simp

lemma no_nul_fmt: "CHR 0x00 \<notin> set (fmt_02X b)"
  using hex_uc_plain(6) [OF unat_byte_div16 [of b]] hex_uc_plain(6) [of "unat b mod 16"]
  by (auto simp: fmt_02X_def)

lemma list6E:
  assumes "length xs = 6"
  obtains a b c d e f where "xs = [a, b, c, d, e, f]"
  using assms by (auto simp: eval_nat_numeral length_Suc_conv)

lemma ucast_u8_u32_u8 [simp]: "ucast (ucast (b :: u8) :: u32) = b"
  by (rule bit_word_eqI) (auto simp: bit_simps)

lemma parse_address_str:
  assumes "length (dev_address d) = 6"
  shows "parse_bdaddr (address_str d) = Some (dev_address d)"
proof -
  from assms obtain a b c e f g where d: "dev_address d = [a, b, c, e, f, g]" by (rule list6E)
  have tw: "takeWhile (\<lambda>c. c \<noteq> CHR 0x00) (address_str d) = address_str d"
    using no_nul_fmt by (intro takeWhile_eq_all_conv [THEN iffD2]) (auto simp: address_str_def)
  show ?thesis
    unfolding parse_bdaddr_def tw by (simp add: address_str_def d scan_02x_fmt scan_02x_fmt_last scan_colon_def)
qed

text \<open>The MAC text printed for a device is read back by the D-Bus address parser as the same
  six bytes in the same order.\<close>
theorem parse_bdaddr_address_str:
  assumes "length (dev_address d) = 6"
  shows "parse_bdaddr (address_str d) = Some (dev_address d)"
  by (rule parse_address_str [OF assms])

theorem parse_bdaddr_address_str_witness:
  "parse_bdaddr (address_str (device_default\<lparr>dev_address := [0x01, 0x23, 0x45, 0x67, 0x89, 0xAB]\<rparr>)) =
     Some [0x01, 0x23, 0x45, 0x67, 0x89, 0xAB] \<and>
   address_str (device_default\<lparr>dev_address := [0x01, 0x23, 0x45, 0x67, 0x89, 0xAB]\<rparr>) = ''AB:89:67:45:23:01''"
proof
  show "parse_bdaddr (address_str (device_default\<lparr>dev_address := [0x01, 0x23, 0x45, 0x67, 0x89, 0xAB]\<rparr>)) =
     Some [0x01, 0x23, 0x45, 0x67, 0x89, 0xAB]"
    using parse_bdaddr_address_str [of "device_default\<lparr>dev_address := [0x01, 0x23, 0x45, 0x67, 0x89, 0xAB]\<rparr>"] by simp
  show "address_str (device_default\<lparr>dev_address := [0x01, 0x23, 0x45, 0x67, 0x89, 0xAB]\<rparr>) = ''AB:89:67:45:23:01''"
    by (simp add: address_str_def fmt_02X_def hex_uc_def) code_simp
qed

text \<open>The 48-bit integer of an address, and the bytes of the integer.\<close>

lemma address_uint64_bytes:
  assumes "dev_address d = [a, b, c, e, f, g]"
  shows "map (\<lambda>k. ucast (drop_bit (8 * k) (address_uint64 d)) :: u8) [0, 1, 2, 3, 4, 5] = [a, b, c, e, f, g]"
    and "drop_bit 48 (address_uint64 d) = 0"
proof -
  have v: "address_uint64 d = push_bit 8 (push_bit 8 (push_bit 8 (push_bit 8 (push_bit 8 (ucast g) OR ucast f) OR ucast e) OR ucast c) OR ucast b) OR ucast a"
    using assms by (simp add: address_uint64_def)
  show "map (\<lambda>k. ucast (drop_bit (8 * k) (address_uint64 d)) :: u8) [0, 1, 2, 3, 4, 5] = [a, b, c, e, f, g]"
    unfolding v by simp (intro conjI; rule bit_word_eqI; auto simp: bit_simps dest: bit_imp_le_length)
  show "drop_bit 48 (address_uint64 d) = 0"
    unfolding v by (rule bit_word_eqI) (auto simp: bit_simps dest: bit_imp_le_length)
qed

end
