(* ===== verification/Gatt_Types.thy ===== *)
theory Gatt_Types
  imports Ble_Device "HOL-Library.AList"
begin

text \<open>
  Types shared by the GATT client (\<open>components/esp32_ble_client\<close>) and the Bluetooth proxy: the
  connection states and status codes of \<open>esp32_ble_tracker.h\<close>, the events and commands exchanged
  between the main thread and the BlueZ worker, and the discovered service tree. An event's owned
  buffer \<open>data\<close> is its list of bytes (empty for \<open>nullptr\<close>).
\<close>

section \<open>States and status codes\<close>

datatype ClientState = INIT | DISCONNECTING | IDLE | DISCOVERED | CONNECTING | CONNECTED | ESTABLISHED

datatype ConnectionType = V1 | V3_WITH_CACHE | V3_WITHOUT_CACHE

definition client_state_to_string :: "ClientState \<Rightarrow> string" where
  "client_state_to_string st =
     (case st of INIT \<Rightarrow> ''INIT'' | DISCONNECTING \<Rightarrow> ''DISCONNECTING'' | IDLE \<Rightarrow> ''IDLE''
      | DISCOVERED \<Rightarrow> ''DISCOVERED'' | CONNECTING \<Rightarrow> ''CONNECTING'' | CONNECTED \<Rightarrow> ''CONNECTED''
      | ESTABLISHED \<Rightarrow> ''ESTABLISHED'')"

definition ESP_GATT_OK :: int where "ESP_GATT_OK = 0x0"
definition ESP_GATT_INVALID_HANDLE :: int where "ESP_GATT_INVALID_HANDLE = 0x01"
definition ESP_GATT_NOT_FOUND :: int where "ESP_GATT_NOT_FOUND = 0x0a"
definition ESP_GATT_ERROR :: int where "ESP_GATT_ERROR = 0x85"
definition ESP_GATT_CONN_TIMEOUT :: int where "ESP_GATT_CONN_TIMEOUT = 0x93"
definition ESP_GATT_NOT_CONNECTED :: int where "ESP_GATT_NOT_CONNECTED = 0x9f"

lemmas gatt_codes = ESP_GATT_OK_def ESP_GATT_INVALID_HANDLE_def ESP_GATT_NOT_FOUND_def
  ESP_GATT_ERROR_def ESP_GATT_CONN_TIMEOUT_def ESP_GATT_NOT_CONNECTED_def

section \<open>The service tree\<close>

record BLEDescriptor =
  desc_uuid :: ESPBTUUID
  desc_handle :: u16

record BLECharacteristic =
  chr_uuid :: ESPBTUUID
  chr_handle :: u16
  chr_properties :: u8
  chr_descriptors :: "BLEDescriptor list"

record BLEService =
  svc_uuid :: ESPBTUUID
  start_handle :: u16
  end_handle :: u16
  svc_characteristics :: "BLECharacteristic list"

section \<open>Commands and events\<close>

datatype HostGattCommand =
    C_CONNECT
  | C_DISCONNECT
  | C_READ_CHAR u16
  | C_READ_DESC u16
  | C_WRITE_CHAR u16 bytes bool
  | C_WRITE_DESC u16 bytes bool
  | C_SET_NOTIFY u16 bool
  | C_READ_RSSI
  | C_PAIR
  | C_PASSKEY_REPLY u32
  | C_CONFIRM_REPLY bool
  | C_REMOVE_BOND

datatype EventKind =
    E_CONNECTED | E_DISCONNECTED | E_SERVICES_DISCOVERED | E_READ_COMPLETE | E_WRITE_COMPLETE
  | E_DESC_READ | E_DESC_WRITE | E_NOTIFY | E_NOTIFY_REGISTERED | E_RSSI | E_PASSKEY_REQUEST
  | E_PASSKEY_NOTIFY | E_NUMERIC_COMPARE | E_PAIRING_COMPLETE

record HostGattEvent =
  ev_kind :: EventKind
  ev_handle :: u16
  ev_status :: int
  ev_data :: bytes
  ev_len :: u16
  ev_rssi :: int
  ev_passkey :: u32
  disc_reason :: int
  ev_mtu :: u16
  pairing_success :: bool
  ev_services :: "BLEService list"

definition gatt_event :: "EventKind \<Rightarrow> HostGattEvent" where
  "gatt_event k =
     \<lparr>ev_kind = k, ev_handle = 0, ev_status = 0, ev_data = [], ev_len = 0, ev_rssi = 0,
      ev_passkey = 0, disc_reason = 0, ev_mtu = 23, pairing_success = False, ev_services = []\<rparr>"

end
