(* ===== verification/Gatt_Host.thy ===== *)
theory Gatt_Host
  imports Gatt_Types
begin

text \<open>
  The BlueZ side of the GATT client, \<open>components/esp32_ble_client/ble_gatt_host.{h,cpp}\<close>: the class
  \<open>BLEGattHost\<close> (command queue, event queue, handle maps, discovery, reads, writes, notifications,
  pairing) and the process-wide worker \<open>BLEGattHostThread\<close> with its list of hosts. What BlueZ
  answers is the argument \<open>bluez\<close>; the method calls made are recorded in \<open>h_calls\<close>.
\<close>

section \<open>Environment\<close>

text \<open>
  One field per question the code asks. \<open>None\<close> is a failed call (\<open>r < 0\<close>). Property lists keep
  message order; a \<open>Handle\<close> that cannot be read as a uint16 is \<open>GP_Handle None\<close>.
  \<open>map_order\<close> is the iteration order of \<open>std::unordered_map\<close>.
\<close>

datatype gatt_prop =
    GP_UUID string
  | GP_Handle "u16 option"
  | GP_Parent string
  | GP_Flags "string list"
  | GP_Other

type_synonym managed_object = "string \<times> (string \<times> gatt_prop list) list"

datatype ObjKind = K_CHAR | K_DESC

record ObjEntry =
  obj_path :: string
  obj_kind :: ObjKind
  parent_char_handle :: u16

record bluez =
  bz_open_bus :: bool
  bz_connected :: "bool option"
  bz_connect :: "nat \<Rightarrow> (string \<times> string) option"
  bz_connected_after :: "bool option"
  bz_services_resolved :: "bool option"
  bz_managed_objects :: "managed_object list option"
  bz_name :: "string option"
  bz_alias :: "string option"
  bz_appearance :: "u16 option"
  bz_char_mtu :: "string \<Rightarrow> u16 option"
  bz_read_value :: "string \<Rightarrow> bytes option option"
  bz_write_value :: "string \<Rightarrow> bytes \<Rightarrow> bool \<Rightarrow> bool"
  bz_notify_call :: "string \<Rightarrow> bool \<Rightarrow> bool"
  bz_rssi :: "u16 option"
  bz_pair :: "string option"
  map_order :: "(u16 \<times> ObjEntry) list \<Rightarrow> (u16 \<times> ObjEntry) list"

datatype host_call =
    H_Connect
  | H_Disconnect
  | H_ReadValue string
  | H_WriteValue string bytes bool
  | H_StartNotify string
  | H_StopNotify string
  | H_EnsureAgent
  | H_Pair
  | H_RemoveDevice string
  | H_AgentPasskey nat u32
  | H_AgentAccept nat
  | H_AgentReject nat

section \<open>State\<close>

text \<open>\<open>pending_agent_reply\<close> holds the identity of the parked method call.\<close>

record gatt_host =
  h_adapter :: string
  h_device_path :: string
  h_bus :: bool
  h_bus_open :: bool
  discovered :: bool
  discovering :: bool
  handle_map :: "(u16 \<times> ObjEntry) list"
  synthetic_reads :: "(u16 \<times> bytes) list"
  notify_subs :: "(string \<times> u16) list"
  pending_agent_reply :: "nat option"
  commands :: "HostGattCommand list"
  events :: "HostGattEvent list"
  h_calls :: "host_call list"

definition new_host :: "string \<Rightarrow> string \<Rightarrow> gatt_host" where
  "new_host adapter path =
     \<lparr>h_adapter = adapter, h_device_path = path, h_bus = False, h_bus_open = False, discovered = False,
      discovering = False, handle_map = [], synthetic_reads = [], notify_subs = [],
      pending_agent_reply = None, commands = [], events = [], h_calls = []\<rparr>"

definition enqueue_command :: "HostGattCommand \<Rightarrow> gatt_host \<Rightarrow> gatt_host" where
  "enqueue_command c h = h\<lparr>commands := commands h @ [c]\<rparr>"

text \<open>The requests of the main thread; the client waits for none of them.\<close>

definition host_disconnect :: "gatt_host \<Rightarrow> gatt_host" where
  "host_disconnect = enqueue_command C_DISCONNECT"

definition host_read_char :: "u16 \<Rightarrow> gatt_host \<Rightarrow> gatt_host" where
  "host_read_char handle = enqueue_command (C_READ_CHAR handle)"

definition host_read_desc :: "u16 \<Rightarrow> gatt_host \<Rightarrow> gatt_host" where
  "host_read_desc handle = enqueue_command (C_READ_DESC handle)"

definition host_write_char :: "u16 \<Rightarrow> bytes \<Rightarrow> bool \<Rightarrow> gatt_host \<Rightarrow> gatt_host" where
  "host_write_char handle data response = enqueue_command (C_WRITE_CHAR handle data response)"

definition host_write_desc :: "u16 \<Rightarrow> bytes \<Rightarrow> bool \<Rightarrow> gatt_host \<Rightarrow> gatt_host" where
  "host_write_desc handle data response = enqueue_command (C_WRITE_DESC handle data response)"

definition host_set_notify :: "u16 \<Rightarrow> bool \<Rightarrow> gatt_host \<Rightarrow> gatt_host" where
  "host_set_notify handle enable = enqueue_command (C_SET_NOTIFY handle enable)"

definition host_read_rssi :: "gatt_host \<Rightarrow> gatt_host" where
  "host_read_rssi = enqueue_command C_READ_RSSI"

definition host_pair :: "gatt_host \<Rightarrow> gatt_host" where
  "host_pair = enqueue_command C_PAIR"

definition host_passkey_reply :: "u32 \<Rightarrow> gatt_host \<Rightarrow> gatt_host" where
  "host_passkey_reply passkey = enqueue_command (C_PASSKEY_REPLY passkey)"

definition host_confirm_reply :: "bool \<Rightarrow> gatt_host \<Rightarrow> gatt_host" where
  "host_confirm_reply accept = enqueue_command (C_CONFIRM_REPLY accept)"

definition host_remove_bond :: "gatt_host \<Rightarrow> gatt_host" where
  "host_remove_bond = enqueue_command C_REMOVE_BOND"

lemmas host_requests [simp] = host_disconnect_def host_read_rssi_def host_pair_def host_passkey_reply_def
  host_confirm_reply_def host_remove_bond_def

definition post_event :: "HostGattEvent \<Rightarrow> gatt_host \<Rightarrow> gatt_host" where
  "post_event ev h = h\<lparr>events := events h @ [ev]\<rparr>"

definition drain_events :: "gatt_host \<Rightarrow> HostGattEvent list \<times> gatt_host" where
  "drain_events h = (events h, h\<lparr>events := []\<rparr>)"

definition hcall :: "host_call \<Rightarrow> gatt_host \<Rightarrow> gatt_host" where
  "hcall c h = h\<lparr>h_calls := h_calls h @ [c]\<rparr>"

section \<open>Discovery\<close>

datatype GattKind = G_SERVICE | G_CHAR | G_DESC | G_OTHER

record GattObj =
  g_path :: string
  g_kind :: GattKind
  g_uuid :: ESPBTUUID
  g_handle :: u16
  g_has_handle :: bool
  g_parent :: string
  g_props :: u8

definition gattobj_default :: GattObj where
  "gattobj_default = \<lparr>g_path = '''', g_kind = G_OTHER, g_uuid = uuid_default, g_handle = 0,
     g_has_handle = False, g_parent = '''', g_props = 0\<rparr>"

definition flag_to_prop :: "string \<Rightarrow> u8" where
  "flag_to_prop flag =
     (if flag = ''broadcast'' then 0x01
      else if flag = ''read'' then 0x02
      else if flag = ''write-without-response'' then 0x04
      else if flag = ''write'' then 0x08
      else if flag = ''notify'' then 0x10
      else if flag = ''indicate'' then 0x20
      else if flag = ''authenticated-signed-writes'' then 0x40
      else if flag = ''extended-properties'' then 0x80
      else 0)"

definition gatt_iface_prop :: "bool \<Rightarrow> gatt_prop \<Rightarrow> GattObj \<Rightarrow> GattObj" where
  "gatt_iface_prop is_char p obj =
     (case p of
        GP_UUID u \<Rightarrow> obj\<lparr>g_uuid := from_uuid_str u\<rparr>
      | GP_Handle (Some h) \<Rightarrow> obj\<lparr>g_handle := h, g_has_handle := True\<rparr>
      | GP_Handle None \<Rightarrow> obj
      | GP_Parent q \<Rightarrow> obj\<lparr>g_parent := q\<rparr>
      | GP_Flags fs \<Rightarrow>
          (if is_char then obj\<lparr>g_props := fold (\<lambda>f v. v OR flag_to_prop f) fs (g_props obj)\<rparr> else obj)
      | GP_Other \<Rightarrow> obj)"

definition parse_gatt_iface_props :: "string \<Rightarrow> gatt_prop list \<Rightarrow> GattObj \<Rightarrow> GattObj" where
  "parse_gatt_iface_props iface props obj =
     (let is_char = (iface = ''org.bluez.GattCharacteristic1'');
          is_desc = (iface = ''org.bluez.GattDescriptor1'');
          is_svc = (iface = ''org.bluez.GattService1'');
          obj1 = (if is_char then obj\<lparr>g_kind := G_CHAR\<rparr>
                  else if is_desc then obj\<lparr>g_kind := G_DESC\<rparr>
                  else if is_svc then obj\<lparr>g_kind := G_SERVICE\<rparr> else obj)
      in fold (gatt_iface_prop is_char) props obj1)"

definition is_gatt_iface :: "string \<Rightarrow> bool" where
  "is_gatt_iface iface \<longleftrightarrow> iface = ''org.bluez.GattService1'' \<or>
     iface = ''org.bluez.GattCharacteristic1'' \<or> iface = ''org.bluez.GattDescriptor1''"

definition under_device :: "string \<Rightarrow> string \<Rightarrow> bool" where
  "under_device dev path \<longleftrightarrow>
     take (length dev) path = dev \<and> length dev < length path \<and> path ! length dev = CHR ''/''"

definition read_object :: "string \<Rightarrow> managed_object \<Rightarrow> GattObj list" where
  "read_object dev mo =
     (let under = under_device dev (fst mo);
          obj = fold (\<lambda>(iface, props) o1.
                  if under \<and> is_gatt_iface iface then parse_gatt_iface_props iface props o1 else o1)
                (snd mo) (gattobj_default\<lparr>g_path := fst mo\<rparr>)
      in if under \<and> g_kind obj \<noteq> G_OTHER then [obj] else [])"

text \<open>The three nested loops over \<open>objs\<close>; a missing handle ends them with \<open>False\<close>, leaving the
  handle map as it is at that moment.\<close>

fun walk_descs :: "GattObj list \<Rightarrow> GattObj \<Rightarrow> (u16 \<times> ObjEntry) list \<Rightarrow> BLEDescriptor list \<Rightarrow>
    bool \<times> (u16 \<times> ObjEntry) list \<times> BLEDescriptor list" where
  "walk_descs [] c hm acc = (True, hm, acc)"
| "walk_descs (d # ds) c hm acc =
     (if g_kind d \<noteq> G_DESC \<or> g_parent d \<noteq> g_path c then walk_descs ds c hm acc
      else if \<not> g_has_handle d then (False, hm, acc)
      else walk_descs ds c
        (AList.update (g_handle d) \<lparr>obj_path = g_path d, obj_kind = K_DESC, parent_char_handle = g_handle c\<rparr> hm)
        (acc @ [\<lparr>desc_uuid = g_uuid d, desc_handle = g_handle d\<rparr>]))"

fun walk_chars :: "GattObj list \<Rightarrow> GattObj list \<Rightarrow> GattObj \<Rightarrow> (u16 \<times> ObjEntry) list \<Rightarrow>
    BLECharacteristic list \<Rightarrow> bool \<times> (u16 \<times> ObjEntry) list \<times> BLECharacteristic list" where
  "walk_chars objs [] s hm acc = (True, hm, acc)"
| "walk_chars objs (c # cs) s hm acc =
     (if g_kind c \<noteq> G_CHAR \<or> g_parent c \<noteq> g_path s then walk_chars objs cs s hm acc
      else if \<not> g_has_handle c then (False, hm, acc)
      else
        let hm1 = AList.update (g_handle c)
                    \<lparr>obj_path = g_path c, obj_kind = K_CHAR, parent_char_handle = g_handle c\<rparr> hm;
            (ok, hm2, ds) = walk_descs objs c hm1 []
        in if \<not> ok then (False, hm2, acc)
           else walk_chars objs cs s hm2
             (acc @ [\<lparr>chr_uuid = g_uuid c, chr_handle = g_handle c, chr_properties = g_props c,
                      chr_descriptors = ds\<rparr>]))"

fun walk_services :: "GattObj list \<Rightarrow> GattObj list \<Rightarrow> (u16 \<times> ObjEntry) list \<Rightarrow> BLEService list \<Rightarrow>
    bool \<times> (u16 \<times> ObjEntry) list \<times> BLEService list" where
  "walk_services objs [] hm acc = (True, hm, acc)"
| "walk_services objs (s # ss) hm acc =
     (if g_kind s \<noteq> G_SERVICE then walk_services objs ss hm acc
      else
        let (ok, hm1, cs) = walk_chars objs objs s hm []
        in if \<not> ok then (False, hm1, acc)
           else walk_services objs ss hm1
             (acc @ [\<lparr>svc_uuid = g_uuid s, start_handle = g_handle s, end_handle = g_handle s,
                      svc_characteristics = cs\<rparr>]))"

definition bytes_of_string :: "string \<Rightarrow> bytes" where
  "bytes_of_string s = map (\<lambda>c. of_nat (of_char c)) s"

definition gap_char :: "u16 \<Rightarrow> u16 \<Rightarrow> BLECharacteristic" where
  "gap_char h u = \<lparr>chr_uuid = from_uint16 u, chr_handle = h, chr_properties = 0x02, chr_descriptors = []\<rparr>"

definition synthesize_gap_service :: "bluez \<Rightarrow> gatt_host \<Rightarrow> BLEService list \<Rightarrow> gatt_host \<times> BLEService list" where
  "synthesize_gap_service bz h out =
     (let h1 = h\<lparr>synthetic_reads := []\<rparr> in
      if list_ex (\<lambda>s. uuid_eq (svc_uuid s) (from_uint16 0x1800)) out then (h1, out)
      else if \<not> h_bus h then (h1, out)
      else
        let name = (case bz_name bz of
                      Some (c # n) \<Rightarrow> bytes_of_string (c # n)
                    | _ \<Rightarrow> (case bz_alias bz of Some (c # n) \<Rightarrow> bytes_of_string (c # n) | _ \<Rightarrow> []));
            app = (case bz_appearance bz of Some a \<Rightarrow> a | None \<Rightarrow> 0);
            gap = \<lparr>svc_uuid = from_uint16 0x1800, start_handle = 0xFF00, end_handle = 0xFF03,
                   svc_characteristics = [gap_char 0xFF01 0x2A00, gap_char 0xFF02 0x2A01, gap_char 0xFF03 0x2AA6]\<rparr>;
            sr = AList.update 0xFF03 [0x01] (AList.update 0xFF02 [ucast (app AND 0xFF), ucast (drop_bit 8 app)]
                   (AList.update 0xFF01 name []))
        in (h1\<lparr>synthetic_reads := sr\<rparr>, out @ [gap]))"

definition walk_gatt_tree :: "bluez \<Rightarrow> gatt_host \<Rightarrow> (bool \<times> gatt_host) \<times> BLEService list" where
  "walk_gatt_tree bz h =
     (if \<not> h_bus h then ((False, h), [])
      else case bz_managed_objects bz of
        None \<Rightarrow> ((False, h), [])
      | Some mos \<Rightarrow>
          let objs = concat (map (read_object (h_device_path h)) mos);
              (ok, hm, out) = walk_services objs objs [] [];
              h1 = h\<lparr>handle_map := hm\<rparr>
          in if \<not> ok then ((False, h1), out)
             else let (h2, out2) = synthesize_gap_service bz h1 out in ((True, h2), out2))"

fun first_mtu :: "bluez \<Rightarrow> (u16 \<times> ObjEntry) list \<Rightarrow> u16" where
  "first_mtu bz [] = 23"
| "first_mtu bz (kv # kvs) =
     (if obj_kind (snd kv) \<noteq> K_CHAR then first_mtu bz kvs
      else case bz_char_mtu bz (obj_path (snd kv)) of
        Some mtu \<Rightarrow> if 23 \<le> mtu then mtu else first_mtu bz kvs
      | None \<Rightarrow> first_mtu bz kvs)"

definition acquire_mtu :: "bluez \<Rightarrow> gatt_host \<Rightarrow> u16" where
  "acquire_mtu bz h = first_mtu bz (map_order bz (handle_map h))"

definition do_disconnect :: "gatt_host \<Rightarrow> gatt_host" where
  "do_disconnect h =
     (if \<not> h_bus_open h then post_event (gatt_event E_DISCONNECTED) h else hcall H_Disconnect h)"

definition try_start_discovery :: "bluez \<Rightarrow> gatt_host \<Rightarrow> gatt_host" where
  "try_start_discovery bz h =
     (if discovered h \<or> discovering h then h
      else
        let h1 = h\<lparr>discovering := True\<rparr>;
            ((ok, h2), tree) = walk_gatt_tree bz h1
        in if \<not> ok then do_disconnect (h2\<lparr>discovering := False\<rparr>)
           else
             let h3 = h2\<lparr>discovered := True\<rparr>;
                 ev = (gatt_event E_SERVICES_DISCOVERED)\<lparr>ev_mtu := acquire_mtu bz h3, ev_services := tree\<rparr>
             in post_event ev (h3\<lparr>discovering := False\<rparr>))"

definition worker_on_connected_changed :: "bluez \<Rightarrow> bool \<Rightarrow> gatt_host \<Rightarrow> gatt_host" where
  "worker_on_connected_changed bz conn h =
     (if conn then
        let h1 = post_event (gatt_event E_CONNECTED) h in
        if h_bus h1 \<and> bz_services_resolved bz = Some True then try_start_discovery bz h1 else h1
      else
        post_event (gatt_event E_DISCONNECTED)
          (h\<lparr>discovered := False, discovering := False, handle_map := []\<rparr>))"

section \<open>Connecting\<close>

fun strstr :: "string \<Rightarrow> string \<Rightarrow> bool" where
  "strstr [] needle \<longleftrightarrow> needle = []"
| "strstr (c # cs) needle \<longleftrightarrow> take (length needle) (c # cs) = needle \<or> strstr cs needle"

definition host_open_bus :: "bluez \<Rightarrow> gatt_host \<Rightarrow> bool \<times> gatt_host" where
  "host_open_bus bz h =
     (if h_bus_open h then (True, h)
      else if \<not> bz_open_bus bz then (False, h)
      else (True, h\<lparr>h_bus := True, h_bus_open := True\<rparr>))"

definition host_close_bus :: "gatt_host \<Rightarrow> gatt_host" where
  "host_close_bus h = h\<lparr>h_bus := False, h_bus_open := False\<rparr>"

text \<open>The \<open>for\<close> loop over \<open>attempt\<close>; the first argument counts the passes left.\<close>

fun connect_attempts :: "bluez \<Rightarrow> nat \<Rightarrow> nat \<Rightarrow> gatt_host \<Rightarrow> gatt_host" where
  "connect_attempts bz 0 attempt h = h"
| "connect_attempts bz (Suc n) attempt h =
     (let h1 = hcall H_Connect h in
      case bz_connect bz attempt of
        None \<Rightarrow> h1
      | Some (name, msg) \<Rightarrow>
          let abort_local = strstr msg ''le-connection-abort-by-local'';
              not_found = (strstr name ''UnknownObject'' \<or> strstr name ''DoesNotExist'');
              already_connected = strstr name ''AlreadyConnected''
          in if already_connected then worker_on_connected_changed bz True h1
             else if abort_local \<and> attempt = 0 then connect_attempts bz n (attempt + 1) h1
             else if bz_connected_after bz = Some True then worker_on_connected_changed bz True h1
             else post_event ((gatt_event E_DISCONNECTED)\<lparr>disc_reason := (if not_found then 0x0a else 0x85)\<rparr>) h1)"

definition do_connect :: "bluez \<Rightarrow> gatt_host \<Rightarrow> gatt_host" where
  "do_connect bz h =
     (let (ok, h1) = host_open_bus bz h in
      if \<not> ok then h1
      else if bz_connected bz = Some True then worker_on_connected_changed bz True h1
      else connect_attempts bz 2 0 h1)"

section \<open>RSSI and pairing\<close>

definition do_read_rssi :: "bluez \<Rightarrow> gatt_host \<Rightarrow> gatt_host" where
  "do_read_rssi bz h =
     (let ev = gatt_event E_RSSI in
      post_event
        (if h_bus h then
           (case bz_rssi bz of Some r \<Rightarrow> ev\<lparr>ev_rssi := sint (ucast r :: u8)\<rparr> | None \<Rightarrow> ev)
         else ev) h)"

definition do_pair :: "bluez \<Rightarrow> gatt_host \<Rightarrow> gatt_host" where
  "do_pair bz h =
     (if \<not> h_bus h then h
      else
        let ok = (case bz_pair bz of None \<Rightarrow> True | Some name \<Rightarrow> strstr name ''AlreadyExists'')
        in post_event ((gatt_event E_PAIRING_COMPLETE)\<lparr>pairing_success := ok\<rparr>) (hcall H_Pair (hcall H_EnsureAgent h)))"

definition do_passkey_reply :: "u32 \<Rightarrow> gatt_host \<Rightarrow> gatt_host" where
  "do_passkey_reply passkey h =
     (case pending_agent_reply h of
        None \<Rightarrow> h
      | Some m \<Rightarrow> hcall (H_AgentPasskey m passkey) (h\<lparr>pending_agent_reply := None\<rparr>))"

definition do_confirm_reply :: "bool \<Rightarrow> gatt_host \<Rightarrow> gatt_host" where
  "do_confirm_reply accept h =
     (case pending_agent_reply h of
        None \<Rightarrow> h
      | Some m \<Rightarrow>
          hcall (if accept then H_AgentAccept m else H_AgentReject m) (h\<lparr>pending_agent_reply := None\<rparr>))"

definition do_remove_bond :: "gatt_host \<Rightarrow> gatt_host" where
  "do_remove_bond h = (if \<not> h_bus h then h else hcall (H_RemoveDevice (h_device_path h)) h)"

definition agent_request_passkey :: "nat \<Rightarrow> gatt_host \<Rightarrow> gatt_host" where
  "agent_request_passkey m h =
     post_event (gatt_event E_PASSKEY_REQUEST) (h\<lparr>pending_agent_reply := Some m\<rparr>)"

definition agent_display_passkey :: "u32 \<Rightarrow> gatt_host \<Rightarrow> gatt_host" where
  "agent_display_passkey pk h = post_event ((gatt_event E_PASSKEY_NOTIFY)\<lparr>ev_passkey := pk\<rparr>) h"

definition agent_request_confirmation :: "nat \<Rightarrow> u32 \<Rightarrow> gatt_host \<Rightarrow> gatt_host" where
  "agent_request_confirmation m pk h =
     post_event ((gatt_event E_NUMERIC_COMPARE)\<lparr>ev_passkey := pk\<rparr>) (h\<lparr>pending_agent_reply := Some m\<rparr>)"

section \<open>Reads, writes and notifications\<close>

text \<open>\<open>read_ay\<close>: an unreadable or empty array leaves the buffer null; the length is cast to uint16.\<close>

definition read_ay :: "bytes option \<Rightarrow> HostGattEvent \<Rightarrow> HostGattEvent" where
  "read_ay r ev = (case r of None \<Rightarrow> ev\<lparr>ev_len := 0\<rparr> | Some bs \<Rightarrow> ev\<lparr>ev_data := bs, ev_len := of_nat (length bs)\<rparr>)"

definition do_read :: "bluez \<Rightarrow> u16 \<Rightarrow> bool \<Rightarrow> gatt_host \<Rightarrow> gatt_host" where
  "do_read bz handle is_desc h =
     (let kind = (if is_desc then E_DESC_READ else E_READ_COMPLETE) in
      case (if is_desc then None else map_of (synthetic_reads h) handle) of
        Some bs \<Rightarrow>
          post_event ((gatt_event E_READ_COMPLETE)\<lparr>ev_handle := handle, ev_status := ESP_GATT_OK,
            ev_len := of_nat (length bs), ev_data := take (unat (of_nat (length bs) :: u16)) bs\<rparr>) h
      | None \<Rightarrow>
          (case map_of (handle_map h) handle of
             None \<Rightarrow> post_event ((gatt_event kind)\<lparr>ev_handle := handle, ev_status := ESP_GATT_INVALID_HANDLE\<rparr>) h
           | Some e \<Rightarrow>
               let h1 = hcall (H_ReadValue (obj_path e)) h;
                   ev = (gatt_event kind)\<lparr>ev_handle := handle\<rparr>
               in post_event
                    (case bz_read_value bz (obj_path e) of
                       None \<Rightarrow> ev\<lparr>ev_status := ESP_GATT_ERROR\<rparr>
                     | Some r \<Rightarrow> read_ay r (ev\<lparr>ev_status := ESP_GATT_OK\<rparr>)) h1))"

definition do_write :: "bluez \<Rightarrow> u16 \<Rightarrow> bytes \<Rightarrow> bool \<Rightarrow> bool \<Rightarrow> gatt_host \<Rightarrow> gatt_host" where
  "do_write bz handle data response is_desc h =
     (let ev = (gatt_event (if is_desc then E_DESC_WRITE else E_WRITE_COMPLETE))\<lparr>ev_handle := handle\<rparr> in
      case map_of (handle_map h) handle of
        None \<Rightarrow> post_event (ev\<lparr>ev_status := ESP_GATT_INVALID_HANDLE\<rparr>) h
      | Some e \<Rightarrow>
          post_event
            (ev\<lparr>ev_status := (if bz_write_value bz (obj_path e) data response then ESP_GATT_OK else ESP_GATT_ERROR)\<rparr>)
            (hcall (H_WriteValue (obj_path e) data response) h))"

definition subscribe_value :: "string \<Rightarrow> u16 \<Rightarrow> gatt_host \<Rightarrow> gatt_host" where
  "subscribe_value path handle h =
     (if map_of (notify_subs h) path \<noteq> None then h
      else h\<lparr>notify_subs := AList.update path handle (notify_subs h)\<rparr>)"

definition do_set_notify :: "bluez \<Rightarrow> u16 \<Rightarrow> bool \<Rightarrow> gatt_host \<Rightarrow> gatt_host" where
  "do_set_notify bz handle enable h =
     (let ev = (gatt_event E_NOTIFY_REGISTERED)\<lparr>ev_handle := handle\<rparr>;
          bad = post_event (ev\<lparr>ev_status := ESP_GATT_INVALID_HANDLE\<rparr>) h
      in case map_of (handle_map h) handle of
           None \<Rightarrow> bad
         | Some e \<Rightarrow>
             if obj_kind e \<noteq> K_CHAR then bad
             else
               let h1 = hcall (if enable then H_StartNotify (obj_path e) else H_StopNotify (obj_path e)) h
               in if \<not> bz_notify_call bz (obj_path e) enable
                  then post_event (ev\<lparr>ev_status := ESP_GATT_ERROR\<rparr>) h1
                  else post_event (ev\<lparr>ev_status := ESP_GATT_OK\<rparr>)
                    (if enable then subscribe_value (obj_path e) handle h1
                     else h1\<lparr>notify_subs := AList.delete (obj_path e) (notify_subs h1)\<rparr>))"

section \<open>Signals and the command queue\<close>

text \<open>Entries of the \<open>a{sv}\<close> of a PropertiesChanged signal, in message order.\<close>

datatype value_prop = VP_Value "bytes option" | VP_Other

definition value_entry :: "u16 \<Rightarrow> value_prop \<Rightarrow> gatt_host \<Rightarrow> gatt_host" where
  "value_entry handle p h =
     (case p of
        VP_Value r \<Rightarrow> post_event (read_ay r ((gatt_event E_NOTIFY)\<lparr>ev_handle := handle\<rparr>)) h
      | VP_Other \<Rightarrow> h)"

definition on_value_changed :: "string \<Rightarrow> string \<Rightarrow> value_prop list \<Rightarrow> gatt_host \<Rightarrow> gatt_host" where
  "on_value_changed path iface props h =
     (case map_of (notify_subs h) path of
        None \<Rightarrow> h
      | Some handle \<Rightarrow>
          if iface \<noteq> ''org.bluez.GattCharacteristic1'' then h
          else fold (value_entry handle) props h)"

datatype device_prop = DP_Connected bool | DP_ServicesResolved bool | DP_Other

definition props_entry :: "bluez \<Rightarrow> device_prop \<Rightarrow> gatt_host \<Rightarrow> gatt_host" where
  "props_entry bz p h =
     (case p of
        DP_Connected c \<Rightarrow> worker_on_connected_changed bz c h
      | DP_ServicesResolved r \<Rightarrow> (if r then try_start_discovery bz h else h)
      | DP_Other \<Rightarrow> h)"

definition host_on_properties_changed :: "bluez \<Rightarrow> string \<Rightarrow> device_prop list \<Rightarrow> gatt_host \<Rightarrow> gatt_host" where
  "host_on_properties_changed bz iface props h =
     (if iface \<noteq> ''org.bluez.Device1'' then h else fold (props_entry bz) props h)"

definition do_command :: "bluez \<Rightarrow> HostGattCommand \<Rightarrow> gatt_host \<Rightarrow> gatt_host" where
  "do_command bz c h =
     (case c of
        C_CONNECT \<Rightarrow> do_connect bz h
      | C_DISCONNECT \<Rightarrow> do_disconnect h
      | C_READ_CHAR handle \<Rightarrow> do_read bz handle False h
      | C_READ_DESC handle \<Rightarrow> do_read bz handle True h
      | C_WRITE_CHAR handle data resp \<Rightarrow> do_write bz handle data resp False h
      | C_WRITE_DESC handle data resp \<Rightarrow> do_write bz handle data resp True h
      | C_SET_NOTIFY handle enable \<Rightarrow> do_set_notify bz handle enable h
      | C_READ_RSSI \<Rightarrow> do_read_rssi bz h
      | C_PAIR \<Rightarrow> do_pair bz h
      | C_PASSKEY_REPLY pk \<Rightarrow> do_passkey_reply pk h
      | C_CONFIRM_REPLY accept \<Rightarrow> do_confirm_reply accept h
      | C_REMOVE_BOND \<Rightarrow> do_remove_bond h)"

definition host_process_commands :: "bluez \<Rightarrow> gatt_host \<Rightarrow> gatt_host" where
  "host_process_commands bz h = fold (do_command bz) (commands h) (h\<lparr>commands := []\<rparr>)"


text \<open>A write to a configuration descriptor is not intercepted: whatever its data, it becomes a WriteValue on the descriptor,
  which BlueZ refuses, and nothing is subscribed.\<close>

lemma cccd_write_not_intercepted:
  assumes "map_of (handle_map h) n = Some e"
  shows "h_calls (do_write bz n data resp True h) = h_calls h @ [H_WriteValue (obj_path e) data resp]
    \<and> notify_subs (do_write bz n data resp True h) = notify_subs h"
  using assms by (simp add: do_write_def post_event_def hcall_def Let_def)

section \<open>What the operations post\<close>

text \<open>The frame of every worker operation: \<open>posts P h h'\<close> says that \<open>h'\<close> has the commands of \<open>h\<close> and
  its events, followed by new ones whose list satisfies \<open>P\<close>.\<close>

definition posts :: "(HostGattEvent list \<Rightarrow> bool) \<Rightarrow> gatt_host \<Rightarrow> gatt_host \<Rightarrow> bool" where
  "posts P h h' \<longleftrightarrow> commands h' = commands h \<and> (\<exists>es. events h' = events h @ es \<and> P es)"

named_theorems host_frame \<open>field projections of the elementary host updates\<close>

lemma events_post_event [host_frame]: "events (post_event ev h) = events h @ [ev]"
  and commands_post_event [host_frame]: "commands (post_event ev h) = commands h"
  and bus_post_event [host_frame]: "h_bus (post_event ev h) = h_bus h"
  and bus_open_post_event [host_frame]: "h_bus_open (post_event ev h) = h_bus_open h"
  and discovered_post_event [host_frame]: "discovered (post_event ev h) = discovered h"
  and discovering_post_event [host_frame]: "discovering (post_event ev h) = discovering h"
  and handle_map_post_event [host_frame]: "handle_map (post_event ev h) = handle_map h"
  and synthetic_post_event [host_frame]: "synthetic_reads (post_event ev h) = synthetic_reads h"
  and calls_post_event [host_frame]: "h_calls (post_event ev h) = h_calls h"
  by (simp_all add: post_event_def)

lemma events_hcall [host_frame]: "events (hcall c h) = events h"
  and commands_hcall [host_frame]: "commands (hcall c h) = commands h"
  and bus_hcall [host_frame]: "h_bus (hcall c h) = h_bus h"
  and bus_open_hcall [host_frame]: "h_bus_open (hcall c h) = h_bus_open h"
  and discovered_hcall [host_frame]: "discovered (hcall c h) = discovered h"
  and discovering_hcall [host_frame]: "discovering (hcall c h) = discovering h"
  and handle_map_hcall [host_frame]: "handle_map (hcall c h) = handle_map h"
  and synthetic_hcall [host_frame]: "synthetic_reads (hcall c h) = synthetic_reads h"
  and calls_hcall [host_frame]: "h_calls (hcall c h) = h_calls h @ [c]"
  by (simp_all add: hcall_def)

lemma subscribe_value_frame [host_frame]:
  "events (subscribe_value p n h) = events h" "commands (subscribe_value p n h) = commands h"
  "h_bus (subscribe_value p n h) = h_bus h" "h_bus_open (subscribe_value p n h) = h_bus_open h"
  "discovered (subscribe_value p n h) = discovered h" "discovering (subscribe_value p n h) = discovering h"
  "handle_map (subscribe_value p n h) = handle_map h"
  by (simp_all add: subscribe_value_def)

lemma posts_trans: "posts P h h1 \<Longrightarrow> posts Q h1 h2 \<Longrightarrow> (\<And>a b. P a \<Longrightarrow> Q b \<Longrightarrow> R (a @ b)) \<Longrightarrow> posts R h h2"
  by (fastforce simp: posts_def)

lemma posts_mono: "posts P h h' \<Longrightarrow> (\<And>es. P es \<Longrightarrow> Q es) \<Longrightarrow> posts Q h h'"
  by (auto simp: posts_def)

subsection \<open>Completions\<close>

definition is_completion :: "EventKind \<Rightarrow> bool" where
  "is_completion k \<longleftrightarrow> k \<in> {E_READ_COMPLETE, E_WRITE_COMPLETE, E_DESC_READ, E_DESC_WRITE,
     E_NOTIFY_REGISTERED, E_RSSI}"

definition completions :: "HostGattEvent list \<Rightarrow> (EventKind \<times> u16) list" where
  "completions es = map (\<lambda>e. (ev_kind e, ev_handle e)) (filter (\<lambda>e. is_completion (ev_kind e)) es)"

definition answer_to :: "HostGattCommand \<Rightarrow> (EventKind \<times> u16) list" where
  "answer_to c =
     (case c of
        C_READ_CHAR handle \<Rightarrow> [(E_READ_COMPLETE, handle)]
      | C_READ_DESC handle \<Rightarrow> [(E_DESC_READ, handle)]
      | C_WRITE_CHAR handle data resp \<Rightarrow> [(E_WRITE_COMPLETE, handle)]
      | C_WRITE_DESC handle data resp \<Rightarrow> [(E_DESC_WRITE, handle)]
      | C_SET_NOTIFY handle enable \<Rightarrow> [(E_NOTIFY_REGISTERED, handle)]
      | C_READ_RSSI \<Rightarrow> [(E_RSSI, 0)]
      | _ \<Rightarrow> [])"

lemma completions_append: "completions (xs @ ys) = completions xs @ completions ys"
  by (simp add: completions_def)

lemma completions_Nil: "completions [] = []"
  by (simp add: completions_def)

lemma kind_gatt_event [simp]: "ev_kind (gatt_event k) = k" "ev_handle (gatt_event k) = 0"
  by (simp_all add: gatt_event_def)

abbreviation answers :: "(EventKind \<times> u16) list \<Rightarrow> gatt_host \<Rightarrow> gatt_host \<Rightarrow> bool" where
  "answers cs h h' \<equiv> posts (\<lambda>es. completions es = cs) h h'"

lemma answers_trans: "answers cs h h1 \<Longrightarrow> answers ds h1 h2 \<Longrightarrow> answers (cs @ ds) h h2"
  by (erule (1) posts_trans) (simp add: completions_append)

lemma answers_none: "events h' = events h \<Longrightarrow> commands h' = commands h \<Longrightarrow> answers [] h h'"
  by (simp add: posts_def completions_Nil)

lemma answers_one:
  "events h' = events h @ [ev] \<Longrightarrow> commands h' = commands h \<Longrightarrow>
   cs = (if is_completion (ev_kind ev) then [(ev_kind ev, ev_handle ev)] else []) \<Longrightarrow> answers cs h h'"
  by (simp add: posts_def completions_def)

lemma walk_frame:
  assumes "walk_gatt_tree bz h = ((ok, h'), out)"
  shows "events h' = events h" "commands h' = commands h" "h_bus h' = h_bus h"
    "h_bus_open h' = h_bus_open h" "discovered h' = discovered h" "discovering h' = discovering h"
  using assms
  by (auto simp: walk_gatt_tree_def synthesize_gap_service_def Let_def split: if_splits option.splits prod.splits)

lemma answers_disconnect: "answers [] h (do_disconnect h)"
  unfolding do_disconnect_def
  by (auto intro: answers_none answers_one simp: host_frame is_completion_def)

lemma try_start_discovery_skip: "discovered h \<or> discovering h \<Longrightarrow> try_start_discovery bz h = h"
  by (simp add: try_start_discovery_def)

lemma try_start_discovery_fail:
  "\<not> discovered h \<Longrightarrow> \<not> discovering h \<Longrightarrow> walk_gatt_tree bz (h\<lparr>discovering := True\<rparr>) = ((False, h2), tree) \<Longrightarrow>
   try_start_discovery bz h = do_disconnect (h2\<lparr>discovering := False\<rparr>)"
  by (simp add: try_start_discovery_def)

lemma try_start_discovery_ok:
  "\<not> discovered h \<Longrightarrow> \<not> discovering h \<Longrightarrow> walk_gatt_tree bz (h\<lparr>discovering := True\<rparr>) = ((True, h2), tree) \<Longrightarrow>
   try_start_discovery bz h =
     post_event ((gatt_event E_SERVICES_DISCOVERED)
         \<lparr>ev_mtu := acquire_mtu bz (h2\<lparr>discovered := True\<rparr>), ev_services := tree\<rparr>)
       (h2\<lparr>discovered := True, discovering := False\<rparr>)"
  by (simp add: try_start_discovery_def Let_def)

lemma try_start_discovery_cases:
  obtains (skip) "discovered h \<or> discovering h" "try_start_discovery bz h = h"
  | (fail) h2 tree where "\<not> discovered h" "\<not> discovering h"
      "walk_gatt_tree bz (h\<lparr>discovering := True\<rparr>) = ((False, h2), tree)"
      "try_start_discovery bz h = do_disconnect (h2\<lparr>discovering := False\<rparr>)"
  | (ok) h2 tree where "\<not> discovered h" "\<not> discovering h"
      "walk_gatt_tree bz (h\<lparr>discovering := True\<rparr>) = ((True, h2), tree)"
      "try_start_discovery bz h =
         post_event ((gatt_event E_SERVICES_DISCOVERED)
             \<lparr>ev_mtu := acquire_mtu bz (h2\<lparr>discovered := True\<rparr>), ev_services := tree\<rparr>)
           (h2\<lparr>discovered := True, discovering := False\<rparr>)"
proof -
  obtain b h2 tree where w: "walk_gatt_tree bz (h\<lparr>discovering := True\<rparr>) = ((b, h2), tree)"
    by (metis surj_pair)
  show thesis
  proof (cases "discovered h \<or> discovering h")
    case True then show thesis using skip try_start_discovery_skip by simp
  next
    case False
    then have n: "\<not> discovered h" "\<not> discovering h" by simp_all
    show thesis
    proof (cases b)
      case True show thesis by (rule ok [OF n]) (use w True try_start_discovery_ok [OF n] in simp_all)
    next
      case False show thesis by (rule fail [OF n]) (use w False try_start_discovery_fail [OF n] in simp_all)
    qed
  qed
qed

lemma answers_discovery: "answers [] h (try_start_discovery bz h)"
proof (cases rule: try_start_discovery_cases [of h bz])
  case skip then show ?thesis by (simp add: answers_none)
next
  case (fail h2 tree)
  have "answers [] h (h2\<lparr>discovering := False\<rparr>)"
    using walk_frame [OF fail(3)] by (simp add: answers_none)
  from answers_trans [OF this answers_disconnect] show ?thesis by (simp add: fail(4))
next
  case (ok h2 tree)
  show ?thesis unfolding ok(4)
    by (rule answers_one, simp add: host_frame walk_frame [OF ok(3)], simp add: host_frame walk_frame [OF ok(3)])
      (simp add: is_completion_def)
qed

lemma answers_connected_changed: "answers [] h (worker_on_connected_changed bz c h)"
proof -
  have a: "answers [] h (post_event (gatt_event E_CONNECTED) h)"
    by (auto intro: answers_one simp: host_frame is_completion_def)
  have d: "answers [] h (post_event (gatt_event E_DISCONNECTED)
      (h\<lparr>discovered := False, discovering := False, handle_map := []\<rparr>))"
    by (auto intro: answers_one simp: host_frame is_completion_def)
  show ?thesis
    using answers_trans [OF a answers_discovery] a d
    by (auto simp: worker_on_connected_changed_def Let_def)
qed

lemma host_open_bus_frame:
  assumes "host_open_bus bz h = (ok, h1)"
  shows "events h1 = events h" "commands h1 = commands h" "discovered h1 = discovered h"
    "discovering h1 = discovering h" "handle_map h1 = handle_map h" "h_calls h1 = h_calls h"
    "synthetic_reads h1 = synthetic_reads h"
  using assms by (auto simp: host_open_bus_def split: if_splits)

lemma answers_attempts: "answers [] h (connect_attempts bz n k h)"
proof (induction n arbitrary: k h)
  case 0 show ?case by (simp add: answers_none)
next
  case (Suc n)
  have c: "answers [] h (hcall H_Connect h)" by (simp add: answers_none host_frame)
  have d: "answers [] h (post_event ((gatt_event E_DISCONNECTED)\<lparr>disc_reason := x\<rparr>) (hcall H_Connect h))" for x
    by (rule answers_one, simp add: host_frame, simp add: host_frame) (simp add: is_completion_def)
  show ?case
    using answers_trans [OF c Suc.IH [of "hcall H_Connect h" "k + 1"]] answers_trans [OF c answers_connected_changed] c d
    by (auto simp: Let_def split: option.split)
qed

lemma answers_connect: "answers [] h (do_connect bz h)"
proof -
  obtain ok h1 where o: "host_open_bus bz h = (ok, h1)" by fastforce
  have a: "answers [] h h1" using host_open_bus_frame [OF o] by (simp add: answers_none)
  show ?thesis
    using a answers_trans [OF a answers_attempts [of h1]] answers_trans [OF a answers_connected_changed]
    by (simp add: do_connect_def o)
qed

lemma read_ay_kind [simp]: "ev_kind (read_ay r ev) = ev_kind ev" "ev_handle (read_ay r ev) = ev_handle ev"
  by (simp_all add: read_ay_def split: option.split)

lemma answers_read:
  "answers [(if is_desc then E_DESC_READ else E_READ_COMPLETE, handle)] h (do_read bz handle is_desc h)"
proof -
  consider "is_desc" | bs where "\<not> is_desc" "map_of (synthetic_reads h) handle = Some bs"
    | "\<not> is_desc" "map_of (synthetic_reads h) handle = None" by fastforce
  then show ?thesis
    by cases (auto simp: do_read_def Let_def host_frame is_completion_def split: option.split intro!: answers_one)
qed

lemma answers_write:
  "answers [(if is_desc then E_DESC_WRITE else E_WRITE_COMPLETE, handle)] h (do_write bz handle data resp is_desc h)"
  by (auto simp: do_write_def Let_def host_frame is_completion_def split: option.split intro!: answers_one)

lemma answers_set_notify: "answers [(E_NOTIFY_REGISTERED, handle)] h (do_set_notify bz handle enable h)"
  by (auto simp: do_set_notify_def Let_def host_frame is_completion_def split: option.split intro!: answers_one)

lemma answers_rssi: "answers [(E_RSSI, 0)] h (do_read_rssi bz h)"
  by (auto simp: do_read_rssi_def Let_def host_frame is_completion_def split: option.split intro!: answers_one)

lemma answers_pairing:
  "answers [] h (do_pair bz h)" "answers [] h (do_passkey_reply pk h)"
  "answers [] h (do_confirm_reply acc h)" "answers [] h (do_remove_bond h)"
proof -
  show "answers [] h (do_pair bz h)"
    by (auto simp: do_pair_def Let_def answers_none host_frame is_completion_def intro!: answers_one)
  show "answers [] h (do_passkey_reply pk h)"
    by (auto simp: do_passkey_reply_def host_frame split: option.split intro!: answers_none)
  show "answers [] h (do_confirm_reply acc h)"
    by (auto simp: do_confirm_reply_def host_frame split: option.split intro!: answers_none)
  show "answers [] h (do_remove_bond h)"
    by (auto simp: do_remove_bond_def host_frame intro!: answers_none)
qed

lemmas answers_ops = answers_connect answers_disconnect answers_read answers_write answers_set_notify
  answers_rssi answers_pairing

lemma answers_command: "answers (answer_to c) h (do_command bz c h)"
  using answers_ops answers_read [of False] answers_read [of True] answers_write [of False] answers_write [of True]
  by (cases c) (simp_all add: do_command_def answer_to_def)

lemma answers_commands: "answers (concat (map answer_to cs)) h (fold (do_command bz) cs h)"
proof (induction cs arbitrary: h)
  case Nil show ?case by (simp add: answers_none)
next
  case (Cons c cs) show ?case using answers_trans [OF answers_command Cons.IH] by simp
qed

text \<open>C2. One pass of the worker over the command queue answers every queued read, write, notification and
  RSSI command by exactly one completion event carrying that command's handle, in the order of the queue;
  other commands post no completion, no event already queued is lost or reordered, and the queue is empty.\<close>
theorem commands_answered_once:
  "\<exists>es. events (host_process_commands bz h) = events h @ es
     \<and> completions es = concat (map answer_to (commands h))
     \<and> commands (host_process_commands bz h) = []"
  using answers_commands [of "commands h" "h\<lparr>commands := []\<rparr>" bz]
  by (simp add: host_process_commands_def posts_def)


section \<open>Discovery against a reference tree\<close>

text \<open>The service tree as comprehensions over the objects, by parent links.\<close>

definition services_of :: "GattObj list \<Rightarrow> GattObj list" where
  "services_of objs = filter (\<lambda>s. g_kind s = G_SERVICE) objs"

definition chrs_of :: "GattObj list \<Rightarrow> GattObj \<Rightarrow> GattObj list" where
  "chrs_of objs s = filter (\<lambda>c. g_kind c = G_CHAR \<and> g_parent c = g_path s) objs"

definition descs_of :: "GattObj list \<Rightarrow> GattObj \<Rightarrow> GattObj list" where
  "descs_of objs c = filter (\<lambda>d. g_kind d = G_DESC \<and> g_parent d = g_path c) objs"

definition tree_desc :: "GattObj \<Rightarrow> BLEDescriptor" where
  "tree_desc d = \<lparr>desc_uuid = g_uuid d, desc_handle = g_handle d\<rparr>"

definition tree_char :: "GattObj list \<Rightarrow> GattObj \<Rightarrow> BLECharacteristic" where
  "tree_char objs c = \<lparr>chr_uuid = g_uuid c, chr_handle = g_handle c, chr_properties = g_props c,
     chr_descriptors = map tree_desc (descs_of objs c)\<rparr>"

definition tree_service :: "GattObj list \<Rightarrow> GattObj \<Rightarrow> BLEService" where
  "tree_service objs s = \<lparr>svc_uuid = g_uuid s, start_handle = g_handle s, end_handle = g_handle s,
     svc_characteristics = map (tree_char objs) (chrs_of objs s)\<rparr>"

definition gatt_tree :: "GattObj list \<Rightarrow> BLEService list" where
  "gatt_tree objs = map (tree_service objs) (services_of objs)"

definition char_has_handles :: "GattObj list \<Rightarrow> GattObj \<Rightarrow> bool" where
  "char_has_handles objs c \<longleftrightarrow> g_has_handle c \<and> list_all g_has_handle (descs_of objs c)"

definition tree_has_handles :: "GattObj list \<Rightarrow> bool" where
  "tree_has_handles objs \<longleftrightarrow>
     list_all (\<lambda>s. list_all (char_has_handles objs) (chrs_of objs s)) (services_of objs)"

definition char_handles :: "BLECharacteristic \<Rightarrow> u16 set" where
  "char_handles c = insert (chr_handle c) (desc_handle ` set (chr_descriptors c))"

definition tree_handles :: "BLEService list \<Rightarrow> u16 set" where
  "tree_handles ss = (\<Union>s\<in>set ss. \<Union>c\<in>set (svc_characteristics s). char_handles c)"

text \<open>An entry of the handle map names an object that has this handle, of the entry's kind.\<close>

definition hm_ok :: "GattObj list \<Rightarrow> (u16 \<times> ObjEntry) list \<Rightarrow> bool" where
  "hm_ok objs hm \<longleftrightarrow> (\<forall>n e. map_of hm n = Some e \<longrightarrow>
     (\<exists>x\<in>set objs. g_handle x = n \<and> g_path x = obj_path e
        \<and> g_kind x = (case obj_kind e of K_CHAR \<Rightarrow> G_CHAR | K_DESC \<Rightarrow> G_DESC)))"

lemma dom_AList_update: "dom (map_of (AList.update k v m)) = insert k (dom (map_of m))"
  by (simp only: update_conv' dom_fun_upd) simp

lemma hm_ok_update:
  "hm_ok objs hm \<Longrightarrow> x \<in> set objs \<Longrightarrow> g_kind x = (case obj_kind e of K_CHAR \<Rightarrow> G_CHAR | K_DESC \<Rightarrow> G_DESC) \<Longrightarrow>
   g_path x = obj_path e \<Longrightarrow> hm_ok objs (AList.update (g_handle x) e hm)"
  by (auto simp: hm_ok_def update_conv')

lemma walk_descs_ok:
  assumes "list_all g_has_handle (descs_of ds c)" "hm_ok objs hm" "set ds \<subseteq> set objs"
  obtains hm' where "walk_descs ds c hm acc = (True, hm', acc @ map tree_desc (descs_of ds c))"
    "hm_ok objs hm'" "dom (map_of hm') = dom (map_of hm) \<union> g_handle ` set (descs_of ds c)"
  using assms
proof (induction ds arbitrary: hm acc thesis)
  case Nil then show ?case by (simp add: descs_of_def)
next
  case (Cons d ds)
  show ?case
  proof (cases "g_kind d \<noteq> G_DESC \<or> g_parent d \<noteq> g_path c")
    case True
    then have e: "descs_of (d # ds) c = descs_of ds c" by (auto simp: descs_of_def)
    show ?thesis
      by (rule Cons.IH [of hm acc]) (use Cons.prems True in \<open>auto simp: e\<close>)
  next
    case False
    then have e: "descs_of (d # ds) c = d # descs_of ds c" by (simp add: descs_of_def)
    let ?hm = "AList.update (g_handle d) \<lparr>obj_path = g_path d, obj_kind = K_DESC, parent_char_handle = g_handle c\<rparr> hm"
    have h: "hm_ok objs ?hm" using Cons.prems False by (auto intro!: hm_ok_update)
    show ?thesis
      by (rule Cons.IH [of ?hm "acc @ [tree_desc d]"])
        (use Cons.prems False h in \<open>auto simp: e tree_desc_def dom_AList_update\<close>)
  qed
qed

lemma walk_descs_fail: "\<not> list_all g_has_handle (descs_of ds c) \<Longrightarrow> \<not> fst (walk_descs ds c hm acc)"
  by (induction ds arbitrary: hm acc) (auto simp: descs_of_def)

lemma walk_chars_ok:
  assumes "list_all (char_has_handles objs) (chrs_of cs s)" "hm_ok objs hm" "set cs \<subseteq> set objs"
  obtains hm' where "walk_chars objs cs s hm acc = (True, hm', acc @ map (tree_char objs) (chrs_of cs s))"
    "hm_ok objs hm'"
    "dom (map_of hm') = dom (map_of hm) \<union> (\<Union>c\<in>set (chrs_of cs s). char_handles (tree_char objs c))"
  using assms
proof (induction cs arbitrary: hm acc thesis)
  case Nil then show ?case by (simp add: chrs_of_def)
next
  case (Cons c cs)
  show ?case
  proof (cases "g_kind c \<noteq> G_CHAR \<or> g_parent c \<noteq> g_path s")
    case True
    then have e: "chrs_of (c # cs) s = chrs_of cs s" by (auto simp: chrs_of_def)
    show ?thesis by (rule Cons.IH [of hm acc]) (use Cons.prems True in \<open>auto simp: e\<close>)
  next
    case False
    then have e: "chrs_of (c # cs) s = c # chrs_of cs s" by (simp add: chrs_of_def)
    let ?hm = "AList.update (g_handle c) \<lparr>obj_path = g_path c, obj_kind = K_CHAR, parent_char_handle = g_handle c\<rparr> hm"
    have h: "hm_ok objs ?hm" using Cons.prems False by (auto intro!: hm_ok_update)
    have d: "g_has_handle c" "list_all g_has_handle (descs_of objs c)"
      using Cons.prems(2) by (simp_all add: e char_has_handles_def)
    obtain hm2 where w: "walk_descs objs c ?hm [] = (True, hm2, map tree_desc (descs_of objs c))"
      and hm2: "hm_ok objs hm2" "dom (map_of hm2) = dom (map_of ?hm) \<union> g_handle ` set (descs_of objs c)"
      using walk_descs_ok [OF d(2) h subset_refl, of "[]"] by auto
    obtain hm3 where w3: "walk_chars objs cs s hm2 (acc @ [tree_char objs c])
        = (True, hm3, (acc @ [tree_char objs c]) @ map (tree_char objs) (chrs_of cs s))"
      and hm3: "hm_ok objs hm3"
        "dom (map_of hm3) = dom (map_of hm2) \<union> (\<Union>c\<in>set (chrs_of cs s). char_handles (tree_char objs c))"
      using Cons.IH [OF _ _ hm2(1), of "acc @ [tree_char objs c]"] Cons.prems by (auto simp: e)
    have u: "desc_handle ` tree_desc ` A = g_handle ` A" for A
      by (simp add: image_image tree_desc_def)
    show ?thesis
    proof (rule Cons.prems(1))
      show "walk_chars objs (c # cs) s hm acc = (True, hm3, acc @ map (tree_char objs) (chrs_of (c # cs) s))"
        using False d w w3 by (simp add: e tree_char_def Let_def)
      show "hm_ok objs hm3" by (rule hm3(1))
      show "dom (map_of hm3) = dom (map_of hm) \<union> (\<Union>c\<in>set (chrs_of (c # cs) s). char_handles (tree_char objs c))"
        by (auto simp: e hm3(2) hm2(2) char_handles_def tree_char_def u dom_AList_update)
    qed
  qed
qed

lemma walk_chars_fail:
  "\<not> list_all (char_has_handles objs) (chrs_of cs s) \<Longrightarrow> \<not> fst (walk_chars objs cs s hm acc)"
proof (induction cs arbitrary: hm acc)
  case Nil then show ?case by (simp add: chrs_of_def)
next
  case (Cons c cs)
  show ?case
  proof (cases "g_kind c \<noteq> G_CHAR \<or> g_parent c \<noteq> g_path s")
    case True
    then have "chrs_of (c # cs) s = chrs_of cs s" by (auto simp: chrs_of_def)
    then show ?thesis using Cons True by simp
  next
    case False
    then have e: "chrs_of (c # cs) s = c # chrs_of cs s" by (simp add: chrs_of_def)
    let ?hm = "AList.update (g_handle c) \<lparr>obj_path = g_path c, obj_kind = K_CHAR, parent_char_handle = g_handle c\<rparr> hm"
    obtain ok hm2 ds where w: "walk_descs objs c ?hm [] = (ok, hm2, ds)" by (metis surj_pair)
    consider "\<not> g_has_handle c" | "\<not> list_all g_has_handle (descs_of objs c)"
      | "\<not> list_all (char_has_handles objs) (chrs_of cs s)"
      using Cons.prems unfolding e list.pred_inject(2) char_has_handles_def [of objs c] by blast
    then show ?thesis
    proof cases
      case 1 then show ?thesis using False by simp
    next
      case 2
      from walk_descs_fail [OF this, of ?hm "[]"] have "\<not> ok" by (simp add: w)
      then show ?thesis using False w by (simp add: Let_def)
    next
      case 3 show ?thesis using False w Cons.IH [OF 3] by (simp add: Let_def)
    qed
  qed
qed

lemma walk_services_ok:
  assumes "list_all (\<lambda>s. list_all (char_has_handles objs) (chrs_of objs s)) (services_of ss)" "hm_ok objs hm"
  obtains hm' where "walk_services objs ss hm acc = (True, hm', acc @ map (tree_service objs) (services_of ss))"
    "hm_ok objs hm'"
    "dom (map_of hm') = dom (map_of hm) \<union> tree_handles (map (tree_service objs) (services_of ss))"
  using assms
proof (induction ss arbitrary: hm acc thesis)
  case Nil then show ?case by (simp add: services_of_def tree_handles_def)
next
  case (Cons s ss)
  show ?case
  proof (cases "g_kind s = G_SERVICE")
    case False
    then have e: "services_of (s # ss) = services_of ss" by (simp add: services_of_def)
    show ?thesis by (rule Cons.IH [of hm acc]) (use Cons.prems False in \<open>auto simp: e\<close>)
  next
    case True
    then have e: "services_of (s # ss) = s # services_of ss" by (simp add: services_of_def)
    have cs: "list_all (char_has_handles objs) (chrs_of objs s)" using Cons.prems by (simp add: e)
    obtain hm2 where w: "walk_chars objs objs s hm [] = (True, hm2, map (tree_char objs) (chrs_of objs s))"
      and hm2: "hm_ok objs hm2"
        "dom (map_of hm2) = dom (map_of hm) \<union> (\<Union>c\<in>set (chrs_of objs s). char_handles (tree_char objs c))"
      using walk_chars_ok [OF cs Cons.prems(3) subset_refl, of "[]"] by auto
    obtain hm3 where w3: "walk_services objs ss hm2 (acc @ [tree_service objs s])
        = (True, hm3, (acc @ [tree_service objs s]) @ map (tree_service objs) (services_of ss))"
      and hm3: "hm_ok objs hm3"
        "dom (map_of hm3) = dom (map_of hm2) \<union> tree_handles (map (tree_service objs) (services_of ss))"
      using Cons.IH [OF _ _ hm2(1), of "acc @ [tree_service objs s]"] Cons.prems by (auto simp: e)
    show ?thesis
    proof (rule Cons.prems(1))
      show "walk_services objs (s # ss) hm acc
          = (True, hm3, acc @ map (tree_service objs) (services_of (s # ss)))"
        using True w w3 by (simp add: e tree_service_def Let_def)
      show "hm_ok objs hm3" by (rule hm3(1))
      show "dom (map_of hm3)
          = dom (map_of hm) \<union> tree_handles (map (tree_service objs) (services_of (s # ss)))"
        by (auto simp: e hm3(2) hm2(2) tree_handles_def tree_service_def)
    qed
  qed
qed

lemma walk_services_fail:
  "\<not> list_all (\<lambda>s. list_all (char_has_handles objs) (chrs_of objs s)) (services_of ss) \<Longrightarrow>
   \<not> fst (walk_services objs ss hm acc)"
proof (induction ss arbitrary: hm acc)
  case Nil then show ?case by (simp add: services_of_def)
next
  case (Cons s ss)
  obtain ok hm2 cs where w: "walk_chars objs objs s hm [] = (ok, hm2, cs)" by (metis surj_pair)
  show ?case
  proof (cases "list_all (char_has_handles objs) (chrs_of objs s)")
    case False
    from walk_chars_fail [OF this, of hm "[]"] have "\<not> ok" by (simp add: w)
    then show ?thesis using Cons w by (cases "g_kind s = G_SERVICE") (simp_all add: services_of_def Let_def)
  next
    case True
    then show ?thesis using Cons w by (cases "g_kind s = G_SERVICE") (simp_all add: services_of_def Let_def)
  qed
qed

lemma tree_handles_append: "tree_handles (a @ b) = tree_handles a \<union> tree_handles b"
  by (auto simp: tree_handles_def)

definition device_objects :: "string \<Rightarrow> managed_object list \<Rightarrow> GattObj list" where
  "device_objects dev mos = concat (map (read_object dev) mos)"

text \<open>What the client may be told about: handles of the map and of the synthetic service.\<close>

definition routable :: "gatt_host \<Rightarrow> u16 set" where
  "routable h = dom (map_of (handle_map h)) \<union> dom (map_of (synthetic_reads h))"

lemma synthesize_gap:
  assumes "synthesize_gap_service bz h out = (h2, out2)"
  shows "handle_map h2 = handle_map h" "\<exists>gap. out2 = out @ gap \<and> tree_handles gap = dom (map_of (synthetic_reads h2))
    \<and> list_all (\<lambda>s. svc_uuid s = from_uint16 0x1800) gap"
  using assms
  by (auto simp: synthesize_gap_service_def Let_def tree_handles_def char_handles_def gap_char_def dom_AList_update split: if_splits)

lemma walk_gatt_tree_ok:
  assumes "h_bus h" "bz_managed_objects bz = Some mos" "tree_has_handles (device_objects (h_device_path h) mos)"
  obtains h' gap where "walk_gatt_tree bz h = ((True, h'), gatt_tree (device_objects (h_device_path h) mos) @ gap)"
    "hm_ok (device_objects (h_device_path h) mos) (handle_map h')"
    "tree_handles (gatt_tree (device_objects (h_device_path h) mos) @ gap) = routable h'"
    "dom (map_of (handle_map h')) = tree_handles (gatt_tree (device_objects (h_device_path h) mos))"
    "list_all (\<lambda>s. svc_uuid s = from_uint16 0x1800) gap"
proof -
  let ?objs = "device_objects (h_device_path h) mos"
  have th: "list_all (\<lambda>s. list_all (char_has_handles ?objs) (chrs_of ?objs s)) (services_of ?objs)"
    using assms(3) by (simp add: tree_has_handles_def)
  have n: "hm_ok ?objs []" by (simp add: hm_ok_def)
  obtain hm where w: "walk_services ?objs ?objs [] [] = (True, hm, gatt_tree ?objs)"
    and hm: "hm_ok ?objs hm" "dom (map_of hm) = tree_handles (gatt_tree ?objs)"
    using walk_services_ok [OF th n, of "[]"] by (auto simp: gatt_tree_def)
  obtain h2 out2 where g: "synthesize_gap_service bz (h\<lparr>handle_map := hm\<rparr>) (gatt_tree ?objs) = (h2, out2)"
    by fastforce
  from synthesize_gap(2) [OF g] obtain gap where gap: "out2 = gatt_tree ?objs @ gap"
    "tree_handles gap = dom (map_of (synthetic_reads h2))" "list_all (\<lambda>s. svc_uuid s = from_uint16 0x1800) gap" by blast
  show thesis
  proof (rule that [of h2 gap])
    show "walk_gatt_tree bz h = ((True, h2), gatt_tree ?objs @ gap)"
      using assms(1,2) w g gap by (simp add: walk_gatt_tree_def device_objects_def Let_def)
    show "hm_ok ?objs (handle_map h2)" using synthesize_gap(1) [OF g] hm by simp
    show "tree_handles (gatt_tree ?objs @ gap) = routable h2"
      using synthesize_gap(1) [OF g] hm gap by (simp add: tree_handles_append routable_def)
  qed (use synthesize_gap(1) [OF g] hm gap in auto)
qed

lemma walk_gatt_tree_fail:
  assumes "h_bus h" "bz_managed_objects bz = Some mos"
    "\<not> tree_has_handles (device_objects (h_device_path h) mos)"
  shows "\<not> fst (fst (walk_gatt_tree bz h))"
proof -
  let ?objs = "device_objects (h_device_path h) mos"
  obtain ok hm out where w: "walk_services ?objs ?objs [] [] = (ok, hm, out)" by (metis surj_pair)
  have "\<not> ok" using walk_services_fail [of ?objs ?objs "[]" "[]"] assms(3) w by (simp add: tree_has_handles_def)
  then show ?thesis using assms(1,2) w by (simp add: walk_gatt_tree_def device_objects_def Let_def)
qed

text \<open>C3. Discovery on an idle host with an open bus. When every characteristic and descriptor linked into
  the tree has a Handle, exactly one event is posted, SERVICES_DISCOVERED with the tree of services,
  characteristics and descriptors linked by parent path (plus the synthetic GAP service when it is added),
  its handles are exactly those the host can route, and each entry of the handle map names an object
  that has this handle. When some Handle is missing, no event is posted, Disconnect is called and the
  host is not marked as discovered.\<close>
theorem discovery_correct:
  assumes "h_bus h" "h_bus_open h" "\<not> discovered h" "\<not> discovering h" "bz_managed_objects bz = Some mos"
  shows "if tree_has_handles (device_objects (h_device_path h) mos)
    then (\<exists>ev gap. events (try_start_discovery bz h) = events h @ [ev]
      \<and> ev_kind ev = E_SERVICES_DISCOVERED
      \<and> ev_services ev = gatt_tree (device_objects (h_device_path h) mos) @ gap
      \<and> tree_handles (ev_services ev) = routable (try_start_discovery bz h)
      \<and> hm_ok (device_objects (h_device_path h) mos) (handle_map (try_start_discovery bz h))
      \<and> discovered (try_start_discovery bz h) \<and> \<not> discovering (try_start_discovery bz h))
    else events (try_start_discovery bz h) = events h
      \<and> h_calls (try_start_discovery bz h) = h_calls h @ [H_Disconnect]
      \<and> \<not> discovered (try_start_discovery bz h) \<and> \<not> discovering (try_start_discovery bz h)"
proof (cases "tree_has_handles (device_objects (h_device_path h) mos)")
  case True
  obtain h2 gap where w: "walk_gatt_tree bz (h\<lparr>discovering := True\<rparr>)
      = ((True, h2), gatt_tree (device_objects (h_device_path h) mos) @ gap)"
    and hm: "hm_ok (device_objects (h_device_path h) mos) (handle_map h2)"
    and r: "tree_handles (gatt_tree (device_objects (h_device_path h) mos) @ gap) = routable h2"
  proof (rule walk_gatt_tree_ok [of "h\<lparr>discovering := True\<rparr>" bz mos])
    show "h_bus (h\<lparr>discovering := True\<rparr>)" "bz_managed_objects bz = Some mos"
      "tree_has_handles (device_objects (h_device_path (h\<lparr>discovering := True\<rparr>)) mos)" using assms True by simp_all
  qed simp
  show ?thesis
    using True hm r walk_frame [OF w]
    by (auto simp: try_start_discovery_ok [OF assms(3,4) w] host_frame routable_def)
next
  case False
  obtain ok h2 tree where w: "walk_gatt_tree bz (h\<lparr>discovering := True\<rparr>) = ((ok, h2), tree)" by (metis surj_pair)
  have nok: "ok = False" using walk_gatt_tree_fail [of "h\<lparr>discovering := True\<rparr>" bz mos] assms False w by simp
  have c: "h_calls h2 = h_calls h"
    using w by (auto simp: walk_gatt_tree_def synthesize_gap_service_def Let_def split: if_splits option.splits prod.splits)
  show ?thesis
    using False walk_frame [OF w] c assms
    by (simp add: try_start_discovery_fail [OF assms(3,4) w [unfolded nok]] do_disconnect_def host_frame)
qed


definition demo_bluez :: bluez where
  "demo_bluez = \<lparr>bz_open_bus = True, bz_connected = Some False, bz_connect = (\<lambda>_. None), bz_connected_after = Some True,
     bz_services_resolved = Some True,
     bz_managed_objects = Some
       [(''/d/s1'', [(''org.bluez.GattService1'', [GP_UUID ''180f''])]),
        (''/d/s1/c2'', [(''org.bluez.GattCharacteristic1'',
            [GP_UUID ''2a19'', GP_Parent ''/d/s1'', GP_Handle (Some 3), GP_Flags [''read'', ''notify'']])]),
        (''/other/s1'', [(''org.bluez.GattService1'', [])])],
     bz_name = None, bz_alias = None, bz_appearance = None, bz_char_mtu = (\<lambda>_. Some 185),
     bz_read_value = (\<lambda>_. Some (Some [42])), bz_write_value = (\<lambda>_ _ _. True), bz_notify_call = (\<lambda>_ _. True),
     bz_rssi = None, bz_pair = None, map_order = (\<lambda>m. m)\<rparr>"

definition demo_host :: gatt_host where
  "demo_host = (new_host ''hci0'' ''/d'')\<lparr>h_bus := True, h_bus_open := True\<rparr>"

lemmas demo_defs = demo_bluez_def demo_host_def new_host_def

lemma discovery_correct_witness:
  "\<exists>ev. events (try_start_discovery demo_bluez demo_host) = [ev] \<and> ev_kind ev = E_SERVICES_DISCOVERED
     \<and> discovered (try_start_discovery demo_bluez demo_host)"
proof -
  have t: "tree_has_handles (device_objects (h_device_path demo_host) (the (bz_managed_objects demo_bluez)))"
    by (simp add: demo_defs device_objects_def read_object_def under_device_def is_gatt_iface_def
        parse_gatt_iface_props_def gatt_iface_prop_def gattobj_default_def tree_has_handles_def services_of_def
        chrs_of_def char_has_handles_def descs_of_def Let_def)
  have h: "h_bus demo_host" "h_bus_open demo_host" "\<not> discovered demo_host" "\<not> discovering demo_host"
    "events demo_host = []"
    by (simp_all add: demo_defs)
  have m: "bz_managed_objects demo_bluez = Some (the (bz_managed_objects demo_bluez))"
    by (simp add: demo_defs)
  from discovery_correct [OF h(1-4) m] t h(5) show ?thesis by auto
qed

section \<open>Connecting: outcomes\<close>

definition connect_calls :: "gatt_host \<Rightarrow> gatt_host \<Rightarrow> nat" where
  "connect_calls h h' = count_list (h_calls h') H_Connect - count_list (h_calls h) H_Connect"

lemma count_list_append': "count_list (xs @ ys) x = count_list xs x + count_list ys x"
  by (induction xs) simp_all

lemma worker_on_connected_calls:
  "count_list (h_calls (worker_on_connected_changed bz c h)) H_Connect = count_list (h_calls h) H_Connect"
proof -
  have d: "count_list (h_calls (do_disconnect x)) H_Connect = count_list (h_calls x) H_Connect" for x
    by (simp add: do_disconnect_def host_frame count_list_append')
  have w: "h_calls h2 = h_calls x" if "walk_gatt_tree bz x = ((ok, h2), tree)" for ok h2 tree x
    using that by (auto simp: walk_gatt_tree_def synthesize_gap_service_def Let_def
        split: if_splits option.splits prod.splits)
  have t: "count_list (h_calls (try_start_discovery bz x)) H_Connect = count_list (h_calls x) H_Connect" for x
    by (cases rule: try_start_discovery_cases [of x bz]) (simp_all add: d host_frame w)
  show ?thesis by (simp add: worker_on_connected_changed_def Let_def t host_frame)
qed

lemma worker_on_connected_first: 
  "\<exists>es. events (worker_on_connected_changed bz True h) = events h @ gatt_event E_CONNECTED # es"
proof -
  let ?h1 = "post_event (gatt_event E_CONNECTED) h"
  obtain es where "events (try_start_discovery bz ?h1) = events ?h1 @ es"
    using answers_discovery [of ?h1 bz] by (auto simp: posts_def)
  then show ?thesis by (auto simp: worker_on_connected_changed_def Let_def host_frame)
qed

text \<open>What a CONNECT command can end in, apart from a bus that cannot be opened.\<close>

datatype connect_outcome = CO_Signal | CO_Connected | CO_Failed int

fun outcome_of :: "(string \<times> string) option \<Rightarrow> (string \<times> string) option \<Rightarrow> bool \<Rightarrow> connect_outcome" where
  "outcome_of None _ up = CO_Signal"
| "outcome_of (Some (n, m)) second up =
     (if strstr n ''AlreadyConnected'' then CO_Connected
      else if strstr m ''le-connection-abort-by-local'' then
        (case second of
           None \<Rightarrow> CO_Signal
         | Some (n2, m2) \<Rightarrow>
             if strstr n2 ''AlreadyConnected'' \<or> up then CO_Connected
             else CO_Failed (if strstr n2 ''UnknownObject'' \<or> strstr n2 ''DoesNotExist'' then 0x0a else 0x85))
      else if up then CO_Connected
      else CO_Failed (if strstr n ''UnknownObject'' \<or> strstr n ''DoesNotExist'' then 0x0a else 0x85))"

definition outcome_events :: "connect_outcome \<Rightarrow> HostGattEvent list \<Rightarrow> bool" where
  "outcome_events co es =
     (case co of
        CO_Signal \<Rightarrow> es = []
      | CO_Connected \<Rightarrow> (\<exists>rest. es = gatt_event E_CONNECTED # rest)
      | CO_Failed r \<Rightarrow> es = [(gatt_event E_DISCONNECTED)\<lparr>disc_reason := r\<rparr>])"

lemma connect_two:
  "\<exists>es. events (connect_attempts bz 2 0 h) = events h @ es
     \<and> outcome_events (outcome_of (bz_connect bz 0) (bz_connect bz 1) (bz_connected_after bz = Some True)) es"
proof -
  let ?c = "hcall H_Connect h"
  obtain e1 where e1: "events (worker_on_connected_changed bz True ?c) = events h @ gatt_event E_CONNECTED # e1"
    using worker_on_connected_first [of bz ?c] by (auto simp: host_frame)
  obtain e2 where e2: "events (worker_on_connected_changed bz True (hcall H_Connect ?c)) = events h @ gatt_event E_CONNECTED # e2"
    using worker_on_connected_first [of bz "hcall H_Connect ?c"] by (auto simp: host_frame)
  show ?thesis
    by (cases "bz_connect bz 0"; cases "bz_connect bz 1")
      (auto simp: numeral_2_eq_2 host_frame outcome_events_def e1 e2 Let_def)
qed

lemma connect_two_calls:
  "connect_calls h (connect_attempts bz 2 0 h) =
     (case bz_connect bz 0 of
        Some (n, m) \<Rightarrow> if \<not> strstr n ''AlreadyConnected'' \<and> strstr m ''le-connection-abort-by-local'' then 2 else 1
      | None \<Rightarrow> 1)"
  by (cases "bz_connect bz 0"; cases "bz_connect bz 1")
    (auto simp: numeral_2_eq_2 connect_calls_def host_frame worker_on_connected_calls count_list_append' Let_def)



end
