(* ===== verification/Gatt_Run.thy ===== *)
theory Gatt_Run
  imports Gatt_Host
begin

text \<open>
  The executions of \<open>BLEGattHost\<close> as a step relation: the main thread enqueues commands and drains
  events, the worker runs the command queue and dispatches the D-Bus signals and agent calls, in any
  order and with any answers of BlueZ. A state carries the host and the list of all events drained so
  far. The second part is the worker \<open>BLEGattHostThread\<close> (\<open>attach\<close>, \<open>detach\<close>, one pass of \<open>run_\<close>)
  over a store of hosts.
\<close>

section \<open>Executions\<close>

type_synonym host_run = "gatt_host \<times> HostGattEvent list"

inductive host_step :: "host_run \<Rightarrow> host_run \<Rightarrow> bool" where
  HS_enqueue: "host_step (h, log) (enqueue_command c h, log)"
| HS_drain: "host_step (h, log) (snd (drain_events h), log @ fst (drain_events h))"
| HS_commands: "host_step (h, log) (host_process_commands bz h, log)"
| HS_props: "host_step (h, log) (host_on_properties_changed bz iface props h, log)"
| HS_value: "host_step (h, log) (on_value_changed path iface vals h, log)"
| HS_request_passkey: "host_step (h, log) (agent_request_passkey m h, log)"
| HS_display_passkey: "host_step (h, log) (agent_display_passkey pk h, log)"
| HS_confirmation: "host_step (h, log) (agent_request_confirmation m pk h, log)"

inductive host_reach :: "host_run \<Rightarrow> bool" where
  HR_start: "host_reach (new_host adapter path, [])"
| HR_step: "host_reach s \<Longrightarrow> host_step s t \<Longrightarrow> host_reach t"

section \<open>At most one discovery per connection\<close>

text \<open>Runs over a list of events; \<open>True\<close> means that services have been reported since the last
  DISCONNECTED. A second report in that state is an error.\<close>

fun sd_run :: "bool \<Rightarrow> HostGattEvent list \<Rightarrow> bool option" where
  "sd_run b [] = Some b"
| "sd_run b (e # es) =
     (if ev_kind e = E_SERVICES_DISCOVERED then (if b then None else sd_run True es)
      else sd_run (b \<and> ev_kind e \<noteq> E_DISCONNECTED) es)"

lemma sd_run_append: "sd_run b (xs @ ys) = Option.bind (sd_run b xs) (\<lambda>b'. sd_run b' ys)"
  by (induction xs arbitrary: b) auto

definition sd_safe :: "gatt_host \<Rightarrow> gatt_host \<Rightarrow> bool" where
  "sd_safe h h' \<longleftrightarrow> (\<not> discovering h \<longrightarrow> \<not> discovering h')
     \<and> (\<exists>es. events h' = events h @ es
          \<and> (\<forall>b. (b \<longrightarrow> discovered h) \<longrightarrow> (\<exists>b'. sd_run b es = Some b' \<and> (b' \<longrightarrow> discovered h'))))"

lemma sd_safe_refl:
  "events h' = events h \<Longrightarrow> discovered h' = discovered h \<Longrightarrow> discovering h' = discovering h \<Longrightarrow> sd_safe h h'"
  by (simp add: sd_safe_def)

lemma sd_safe_trans:
  assumes "sd_safe h h1" "sd_safe h1 h2" shows "sd_safe h h2"
proof -
  obtain es where es: "events h1 = events h @ es"
    "\<And>b. (b \<longrightarrow> discovered h) \<Longrightarrow> \<exists>b'. sd_run b es = Some b' \<and> (b' \<longrightarrow> discovered h1)"
    using assms(1) by (auto simp: sd_safe_def)
  obtain fs where fs: "events h2 = events h1 @ fs"
    "\<And>b. (b \<longrightarrow> discovered h1) \<Longrightarrow> \<exists>b'. sd_run b fs = Some b' \<and> (b' \<longrightarrow> discovered h2)"
    using assms(2) by (auto simp: sd_safe_def)
  have "\<exists>b'. sd_run b (es @ fs) = Some b' \<and> (b' \<longrightarrow> discovered h2)" if "b \<longrightarrow> discovered h" for b
    using es(2) [OF that] fs(2) by (auto simp: sd_run_append)
  then show ?thesis using assms es(1) fs(1) by (auto simp: sd_safe_def)
qed

lemma sd_safe_event:
  assumes "events h' = events h @ [ev]" "ev_kind ev \<noteq> E_SERVICES_DISCOVERED"
    "ev_kind ev = E_DISCONNECTED \<or> discovered h' = discovered h" "discovering h \<or> \<not> discovering h'"
  shows "sd_safe h h'"
  using assms by (auto simp: sd_safe_def)

lemma sd_safe_hcall: "sd_safe h (hcall c h)"
  by (rule sd_safe_refl) (simp_all add: host_frame)

lemma sd_safe_post: "ev_kind ev \<noteq> E_SERVICES_DISCOVERED \<Longrightarrow> sd_safe h (post_event ev h)"
  by (rule sd_safe_event [of _ _ ev]) (simp_all add: host_frame)

lemma sd_safe_post_hcall: "ev_kind ev \<noteq> E_SERVICES_DISCOVERED \<Longrightarrow> sd_safe h (post_event ev (hcall c h))"
  by (rule sd_safe_trans [OF sd_safe_hcall sd_safe_post])

lemma sd_safe_disconnect: "sd_safe h (do_disconnect h)"
  by (auto simp: do_disconnect_def sd_safe_hcall intro!: sd_safe_post)

lemma sd_safe_discovery: "sd_safe h (try_start_discovery bz h)"
proof (cases rule: try_start_discovery_cases [of h bz])
  case skip then show ?thesis by (simp add: sd_safe_refl)
next
  case (fail h2 tree)
  note fr = walk_frame [OF fail(3)]
  have "sd_safe h (h2\<lparr>discovering := False\<rparr>)" using fr fail by (auto intro!: sd_safe_refl)
  from sd_safe_trans [OF this sd_safe_disconnect] show ?thesis by (simp add: fail(4))
next
  case (ok h2 tree)
  note fr = walk_frame [OF ok(3)]
  show ?thesis using ok(1) fr by (auto simp: ok(4) sd_safe_def host_frame)
qed

lemma sd_safe_connected_changed: "sd_safe h (worker_on_connected_changed bz c h)"
proof (cases c)
  case True
  have a: "sd_safe h (post_event (gatt_event E_CONNECTED) h)" by (simp add: sd_safe_post)
  show ?thesis using True a sd_safe_trans [OF a sd_safe_discovery]
    by (simp add: worker_on_connected_changed_def Let_def)
next
  case False
  then show ?thesis by (auto simp: worker_on_connected_changed_def sd_safe_def host_frame)
qed

lemma sd_safe_attempts: "sd_safe h (connect_attempts bz n k h)"
proof (induction n arbitrary: k h)
  case 0 show ?case by (simp add: sd_safe_refl)
next
  case (Suc n)
  show ?case
    using sd_safe_trans [OF sd_safe_hcall Suc.IH] sd_safe_trans [OF sd_safe_hcall sd_safe_connected_changed]
      sd_safe_hcall sd_safe_post_hcall
    by (auto simp: Let_def split: option.split)
qed

lemma sd_safe_connect: "sd_safe h (do_connect bz h)"
proof -
  obtain ok h1 where o: "host_open_bus bz h = (ok, h1)" by fastforce
  have a: "sd_safe h h1" using host_open_bus_frame [OF o] by (simp add: sd_safe_refl)
  show ?thesis
    using a sd_safe_trans [OF a sd_safe_attempts] sd_safe_trans [OF a sd_safe_connected_changed]
    by (simp add: do_connect_def o)
qed

lemma sd_safe_read: "sd_safe h (do_read bz handle d h)"
  by (auto simp: do_read_def Let_def split: option.split intro!: sd_safe_post sd_safe_post_hcall)

lemma sd_safe_write: "sd_safe h (do_write bz handle data r d h)"
  by (auto simp: do_write_def Let_def split: option.split intro!: sd_safe_post sd_safe_post_hcall)

lemma sd_safe_set_notify: "sd_safe h (do_set_notify bz handle enable h)"
  by (auto simp: do_set_notify_def Let_def host_frame split: option.split
      intro!: sd_safe_post sd_safe_post_hcall sd_safe_event)

lemma sd_safe_rssi: "sd_safe h (do_read_rssi bz h)"
  by (auto simp: do_read_rssi_def Let_def split: option.split intro!: sd_safe_post)

lemma sd_safe_pair: "sd_safe h (do_pair bz h)"
  by (auto simp: do_pair_def Let_def sd_safe_refl intro!: sd_safe_trans [OF sd_safe_hcall sd_safe_post_hcall])

lemma sd_safe_replies:
  "sd_safe h (do_passkey_reply pk h)" "sd_safe h (do_confirm_reply acc h)" "sd_safe h (do_remove_bond h)"
  by (auto simp: do_passkey_reply_def do_confirm_reply_def do_remove_bond_def host_frame
      split: option.split intro!: sd_safe_refl)

lemma sd_safe_command: "sd_safe h (do_command bz c h)"
  by (cases c) (simp_all add: do_command_def sd_safe_connect sd_safe_disconnect sd_safe_read sd_safe_write
      sd_safe_set_notify sd_safe_rssi sd_safe_pair sd_safe_replies)

lemma sd_safe_fold: "(\<And>x h. sd_safe h (f x h)) \<Longrightarrow> sd_safe h (fold f xs h)"
proof (induction xs arbitrary: h)
  case Nil show ?case by (simp add: sd_safe_refl)
next
  case (Cons x xs)
  from sd_safe_trans [OF Cons.prems Cons.IH [OF Cons.prems]] show ?case by simp
qed

lemma sd_safe_commands: "sd_safe h (host_process_commands bz h)"
proof -
  have "sd_safe h (h\<lparr>commands := []\<rparr>)" by (rule sd_safe_refl) simp_all
  from sd_safe_trans [OF this sd_safe_fold [of "do_command bz", OF sd_safe_command]]
  show ?thesis by (simp add: host_process_commands_def)
qed

lemma sd_safe_props: "sd_safe h (host_on_properties_changed bz iface props h)"
proof -
  have "sd_safe h (props_entry bz p h)" for p h
    by (cases p) (simp_all add: props_entry_def sd_safe_connected_changed sd_safe_discovery sd_safe_refl)
  then show ?thesis by (simp add: host_on_properties_changed_def sd_safe_fold sd_safe_refl)
qed

lemma sd_safe_value: "sd_safe h (on_value_changed path iface vals h)"
proof -
  have "sd_safe h (value_entry n p h)" for n p h
    by (cases p) (simp_all add: value_entry_def sd_safe_post sd_safe_refl)
  then show ?thesis by (simp add: on_value_changed_def sd_safe_fold sd_safe_refl split: option.split)
qed

lemma sd_safe_agent:
  "sd_safe h (agent_request_passkey m h)" "sd_safe h (agent_display_passkey pk h)"
  "sd_safe h (agent_request_confirmation m pk h)"
  by (auto simp: agent_request_passkey_def agent_display_passkey_def agent_request_confirmation_def host_frame
      intro!: sd_safe_event)

definition run_inv :: "host_run \<Rightarrow> bool" where
  "run_inv s \<longleftrightarrow> \<not> discovering (fst s)
     \<and> (\<exists>b. sd_run False (snd s @ events (fst s)) = Some b \<and> (b \<longrightarrow> discovered (fst s)))"

lemma run_inv_safe:
  assumes "sd_safe h h'" "run_inv (h, log)" shows "run_inv (h', log)"
proof -
  obtain es where es: "events h' = events h @ es"
    "\<And>b. (b \<longrightarrow> discovered h) \<Longrightarrow> \<exists>b'. sd_run b es = Some b' \<and> (b' \<longrightarrow> discovered h')"
    using assms(1) by (auto simp: sd_safe_def)
  obtain b where b: "sd_run False (log @ events h) = Some b" "b \<longrightarrow> discovered h"
    using assms(2) by (auto simp: run_inv_def)
  have "sd_run False (log @ events h') = sd_run b es"
    using b(1) es(1) sd_run_append [of False "log @ events h" es] by simp
  then show ?thesis using assms es(2) [OF b(2)] by (auto simp: run_inv_def sd_safe_def)
qed

lemma run_inv_step: "host_step s t \<Longrightarrow> run_inv s \<Longrightarrow> run_inv t"
proof (induction rule: host_step.induct)
  case (HS_enqueue h log c)
  then show ?case by (simp add: run_inv_def enqueue_command_def)
next
  case (HS_drain h log)
  then show ?case by (simp add: run_inv_def drain_events_def)
qed (blast intro: run_inv_safe sd_safe_commands sd_safe_props sd_safe_value sd_safe_agent)+

lemma run_inv_reach: "host_reach s \<Longrightarrow> run_inv s"
proof (induction rule: host_reach.induct)
  case HR_start show ?case by (simp add: run_inv_def new_host_def) (rule exI [of _ False], simp)
next
  case HR_step then show ?case by (blast intro: run_inv_step)
qed

lemma sd_run_between:
  assumes "sd_run b (xs @ e1 # ys @ e2 # zs) \<noteq> None"
    "ev_kind e1 = E_SERVICES_DISCOVERED" "ev_kind e2 = E_SERVICES_DISCOVERED"
  shows "E_DISCONNECTED \<in> ev_kind ` set ys"
proof (rule ccontr)
  assume n: "E_DISCONNECTED \<notin> ev_kind ` set ys"
  have "sd_run True (ys @ e2 # zs) = None"
    using n assms(3) by (induction ys) auto
  then show False using assms(1,2) by (auto simp: sd_run_append split: if_splits Option.bind_splits)
qed




section \<open>The worker thread\<close>

text \<open>Hosts are identified by numbers; \<open>sys_store\<close> is the heap, where a destroyed host is \<open>None\<close>. A pass
  that would use a destroyed host is \<open>None\<close>. Waking the loop and starting the thread do not change
  this state; \<open>eventfd_ok\<close> is the result of \<open>eventfd()\<close>.\<close>

record gatt_thread =
  th_running :: bool
  th_hosts :: "nat list"
  th_clients :: "nat list"
  th_agent_registered :: bool

definition ensure_started :: "bool \<Rightarrow> gatt_thread \<Rightarrow> gatt_thread" where
  "ensure_started eventfd_ok t = (if th_running t then t else t\<lparr>th_running := eventfd_ok\<rparr>)"

definition attach :: "bool \<Rightarrow> nat \<Rightarrow> gatt_thread \<Rightarrow> gatt_thread" where
  "attach efd i t = (let t1 = ensure_started efd t in t1\<lparr>th_hosts := th_hosts t1 @ [i]\<rparr>)"

definition detach :: "nat \<Rightarrow> gatt_thread \<Rightarrow> gatt_thread" where
  "detach i t = t\<lparr>th_hosts := remove1 i (th_hosts t)\<rparr>"

definition attach_worker_client :: "bool \<Rightarrow> nat \<Rightarrow> gatt_thread \<Rightarrow> gatt_thread" where
  "attach_worker_client efd i t = (let t1 = ensure_started efd t in t1\<lparr>th_clients := th_clients t1 @ [i]\<rparr>)"

definition detach_worker_client :: "nat \<Rightarrow> gatt_thread \<Rightarrow> gatt_thread" where
  "detach_worker_client i t = t\<lparr>th_clients := remove1 i (th_clients t)\<rparr>"

definition ensure_agent :: "bool \<Rightarrow> bool \<Rightarrow> bool \<Rightarrow> gatt_thread \<Rightarrow> gatt_thread" where
  "ensure_agent bus export_ok register_ok t =
     (if th_agent_registered t \<or> \<not> bus then t
      else if \<not> export_ok then t
      else if \<not> register_ok then t
      else t\<lparr>th_agent_registered := True\<rparr>)"

type_synonym host_store = "nat \<Rightarrow> gatt_host option"

text \<open>The body of the loop of \<open>run_\<close> over the snapshot of the hosts.\<close>

fun run_pass :: "(nat \<Rightarrow> bluez) \<Rightarrow> nat list \<Rightarrow> host_store \<Rightarrow> host_store option" where
  "run_pass env [] store = Some store"
| "run_pass env (i # is) store =
     (case store i of
        None \<Rightarrow> None
      | Some h \<Rightarrow> run_pass env is (store(i \<mapsto> host_process_commands (env i) h)))"

record gatt_system =
  sys_thread :: gatt_thread
  sys_store :: host_store

definition host_connect :: "bool \<Rightarrow> nat \<Rightarrow> gatt_system \<Rightarrow> gatt_system" where
  "host_connect efd i s =
     \<lparr>sys_thread = attach efd i (sys_thread s),
      sys_store = (sys_store s)(i := map_option (enqueue_command C_CONNECT) (sys_store s i))\<rparr>"

definition host_destroy :: "nat \<Rightarrow> gatt_system \<Rightarrow> gatt_system" where
  "host_destroy i s = \<lparr>sys_thread = detach i (sys_thread s), sys_store = (sys_store s)(i := None)\<rparr>"

lemma process_twice [simp]:
  "host_process_commands bz' (host_process_commands bz h) = host_process_commands bz h"
proof -
  have "commands (host_process_commands bz h) = []"
    using answers_commands [of "commands h" "h\<lparr>commands := []\<rparr>" bz]
    by (simp add: host_process_commands_def posts_def)
  then show ?thesis by (simp add: host_process_commands_def [of bz'])
qed

lemma run_pass_store:
  "set is \<subseteq> dom store \<Longrightarrow> run_pass env is store =
     Some (\<lambda>i. if i \<in> set is then map_option (host_process_commands (env i)) (store i) else store i)"
proof (induction "is" arbitrary: store)
  case Nil show ?case by simp
next
  case (Cons i "is")
  then obtain h where h: "store i = Some h" by auto
  let ?st = "store(i \<mapsto> host_process_commands (env i) h)"
  have "run_pass env is ?st =
      Some (\<lambda>j. if j \<in> set is then map_option (host_process_commands (env j)) (?st j) else ?st j)"
    by (rule Cons.IH) (use Cons.prems in auto)
  then show ?case by (auto simp: h fun_eq_iff)
qed

text \<open>A pass of the worker over attached hosts that are all alive succeeds and runs each of their
  command queues exactly once, whatever the order of the list and however often a host is in it; a host
  that is not attached is untouched.\<close>
theorem worker_pass_serves_all:
  assumes "\<forall>i\<in>set is. store i \<noteq> None"
  shows "\<exists>store'. run_pass env is store = Some store'
    \<and> (\<forall>i. store' i = (if i \<in> set is then map_option (host_process_commands (env i)) (store i) else store i))"
proof -
  have "set is \<subseteq> dom store" using assms by auto
  from run_pass_store [OF this] show ?thesis by simp
qed

lemma worker_pass_serves_all_witness:
  "\<exists>store'. run_pass (\<lambda>_. demo_bluez) [7, 7] [7 \<mapsto> enqueue_command C_DISCONNECT demo_host] = Some store'
    \<and> store' 7 = Some (host_process_commands demo_bluez (enqueue_command C_DISCONNECT demo_host))"
  using worker_pass_serves_all [of "[7, 7]" "[7 \<mapsto> enqueue_command C_DISCONNECT demo_host]" "\<lambda>_. demo_bluez"]
  by auto

text \<open>Registration by \<open>connect\<close> is not idempotent: every call adds an entry, the destructor removes one,
  so that a host connected twice and destroyed leaves an entry to freed memory, which the next
  pass uses.\<close>
theorem connect_registers_again:
  "count_list (th_hosts (sys_thread (host_connect efd i s))) i = Suc (count_list (th_hosts (sys_thread s)) i)
    \<and> run_pass env (th_hosts (sys_thread (host_destroy i (host_connect efd i (host_connect efd i s)))))
         (sys_store (host_destroy i (host_connect efd i (host_connect efd i s)))) = None"
proof -
  have d: "run_pass env is store = None" if "store i = None" "i \<in> set is" for "is" and store :: host_store
    using that
  proof (induction "is" arbitrary: store)
    case (Cons j "is") then show ?case by (cases "store j"; cases "j = i") auto
  qed simp
  have m: "i \<in> set (remove1 i (xs @ [i, i]))" for xs by (simp add: remove1_append)
  show ?thesis
    using d [OF _ m, of "(sys_store (host_connect efd i (host_connect efd i s)))(i := None)"]
    by (simp add: host_connect_def host_destroy_def attach_def detach_def ensure_started_def Let_def)
qed

end
