(* ===== verification/Gatt_Agent.thy ===== *)
theory Gatt_Agent
  imports Gatt_Run
begin

text \<open>
  The pairing agent of \<open>BLEGattHostThread\<close> (\<open>components/esp32_ble_client/ble_gatt_host.cpp\<close>): the export and
  registration of the Agent1 object by the first host that pairs, the method calls of BlueZ and their way to the host of the
  device, the parked replies, and the answers the hosts' commands give.

  A bus is known by the host that opened it. \<open>ag_calls\<close> are the buses on which the method calls came in, a call is known
  by its index there; \<open>ag_log\<close> are the answers sent: the call, the bus, and the answer. \<open>ag_objects\<close> are the buses that
  carry the agent object; \<open>ag_home\<close> is the one that BlueZ has registered, until it is closed.
\<close>

section \<open>State\<close>

datatype agent_answer = AA_empty | AA_passkey u32 | AA_accept | AA_rejected

datatype agent_call =
    AC_release
  | AC_cancel
  | AC_request_passkey "string option"
  | AC_display_passkey "string option" u32 u16
  | AC_request_confirmation "string option" u32

record agent_system =
  ag_sys :: gatt_system
  ag_objects :: "nat list"
  ag_home :: "nat option"
  ag_calls :: "nat list"
  ag_log :: "(nat \<times> nat \<times> agent_answer) list"

definition new_agent_system :: agent_system where
  "new_agent_system = \<lparr>ag_sys = \<lparr>sys_thread = \<lparr>th_running = False, th_hosts = [], th_clients = [],
     th_agent_registered = False\<rparr>, sys_store = \<lambda>_. None\<rparr>, ag_objects = [], ag_home = None, ag_calls = [], ag_log = []\<rparr>"

abbreviation ag_store :: "agent_system \<Rightarrow> host_store" where
  "ag_store s \<equiv> sys_store (ag_sys s)"

abbreviation ag_hosts :: "agent_system \<Rightarrow> nat list" where
  "ag_hosts s \<equiv> th_hosts (sys_thread (ag_sys s))"

definition put_host :: "nat \<Rightarrow> gatt_host \<Rightarrow> agent_system \<Rightarrow> agent_system" where
  "put_host i h s = s\<lparr>ag_sys := (ag_sys s)\<lparr>sys_store := (ag_store s)(i \<mapsto> h)\<rparr>\<rparr>"

text \<open>\<open>sd_bus_reply_method_return\<close> and \<open>sd_bus_reply_method_errorf\<close> answer on the bus of the call.\<close>

definition reply :: "nat \<Rightarrow> agent_answer \<Rightarrow> agent_system \<Rightarrow> agent_system" where
  "reply m a s = s\<lparr>ag_log := ag_log s @ [(m, ag_calls s ! m, a)]\<rparr>"

section \<open>Registration\<close>

text \<open>What the bus answers; a bus that carries the object refuses to export it again.\<close>

record agent_env =
  ae_bluez :: bluez
  ae_export :: bool
  ae_register :: bool

definition host_ensure_agent :: "agent_env \<Rightarrow> nat \<Rightarrow> bool \<Rightarrow> agent_system \<Rightarrow> agent_system" where
  "host_ensure_agent env i bus s =
    (let t = sys_thread (ag_sys s); ok = (ae_export env \<and> i \<notin> set (ag_objects s));
         t' = ensure_agent bus ok (ae_register env) t
     in s\<lparr>ag_sys := (ag_sys s)\<lparr>sys_thread := t'\<rparr>,
          ag_objects := (if \<not> th_agent_registered t \<and> bus \<and> ok then i # ag_objects s else ag_objects s),
          ag_home := (if \<not> th_agent_registered t \<and> th_agent_registered t' then Some i else ag_home s)\<rparr>)"

section \<open>The methods of the agent\<close>

text \<open>\<open>find_host_by_device_\<close>: the outer \<open>None\<close> is the use of a destroyed host.\<close>

fun find_host_by_device :: "host_store \<Rightarrow> nat list \<Rightarrow> string \<Rightarrow> nat option option" where
  "find_host_by_device store [] path = Some None"
| "find_host_by_device store (i # is) path =
     (case store i of
        None \<Rightarrow> None
      | Some h \<Rightarrow> if h_device_path h = path then Some (Some i) else find_host_by_device store is path)"

definition find_host :: "string option \<Rightarrow> agent_system \<Rightarrow> nat option option" where
  "find_host dev s = (case dev of None \<Rightarrow> Some None | Some path \<Rightarrow> find_host_by_device (ag_store s) (ag_hosts s) path)"

definition agent_release :: "nat \<Rightarrow> agent_system \<Rightarrow> agent_system" where
  "agent_release m s = reply m AA_empty s"

definition agent_cancel :: "nat \<Rightarrow> agent_system \<Rightarrow> agent_system" where
  "agent_cancel m s = reply m AA_empty s"

definition on_host :: "nat \<Rightarrow> (gatt_host \<Rightarrow> gatt_host) \<Rightarrow> agent_system \<Rightarrow> agent_system" where
  "on_host i f s = (case ag_store s i of None \<Rightarrow> s | Some h \<Rightarrow> put_host i (f h) s)"

definition thread_request_passkey :: "nat \<Rightarrow> string option \<Rightarrow> agent_system \<Rightarrow> agent_system option" where
  "thread_request_passkey m dev s = (case find_host dev s of
       None \<Rightarrow> None
     | Some None \<Rightarrow> Some (reply m AA_rejected s)
     | Some (Some i) \<Rightarrow> Some (on_host i (agent_request_passkey m) s))"

definition thread_display_passkey :: "nat \<Rightarrow> string option \<Rightarrow> u32 \<Rightarrow> u16 \<Rightarrow> agent_system \<Rightarrow> agent_system option" where
  "thread_display_passkey m dev passkey entered s = (case find_host dev s of
       None \<Rightarrow> None
     | Some None \<Rightarrow> Some (reply m AA_empty s)
     | Some (Some i) \<Rightarrow> Some (reply m AA_empty (on_host i (agent_display_passkey passkey) s)))"

definition thread_request_confirmation :: "nat \<Rightarrow> string option \<Rightarrow> u32 \<Rightarrow> agent_system \<Rightarrow> agent_system option" where
  "thread_request_confirmation m dev passkey s = (case find_host dev s of
       None \<Rightarrow> None
     | Some None \<Rightarrow> Some (reply m AA_rejected s)
     | Some (Some i) \<Rightarrow> Some (on_host i (agent_request_confirmation m passkey) s))"

text \<open>The vtable.\<close>

definition agent_vtable :: "agent_call \<Rightarrow> nat \<Rightarrow> agent_system \<Rightarrow> agent_system option" where
  "agent_vtable c m s = (case c of
       AC_release \<Rightarrow> Some (agent_release m s)
     | AC_cancel \<Rightarrow> Some (agent_cancel m s)
     | AC_request_passkey dev \<Rightarrow> thread_request_passkey m dev s
     | AC_display_passkey dev pk entered \<Rightarrow> thread_display_passkey m dev pk entered s
     | AC_request_confirmation dev pk \<Rightarrow> thread_request_confirmation m dev pk s)"

definition agent_dispatch :: "nat \<Rightarrow> agent_call \<Rightarrow> agent_system \<Rightarrow> agent_system option" where
  "agent_dispatch b c s = agent_vtable c (length (ag_calls s)) (s\<lparr>ag_calls := ag_calls s @ [b]\<rparr>)"

section \<open>The commands of a host\<close>

text \<open>The answer in a call of the bus. A passkey and an acceptance are sent on the host's own bus.\<close>

fun answer_of :: "nat \<Rightarrow> nat list \<Rightarrow> host_call \<Rightarrow> (nat \<times> nat \<times> agent_answer) list" where
  "answer_of i calls (H_AgentPasskey m pk) = [(m, i, AA_passkey pk)]"
| "answer_of i calls (H_AgentAccept m) = [(m, i, AA_accept)]"
| "answer_of i calls (H_AgentReject m) = [(m, calls ! m, AA_rejected)]"
| "answer_of i calls _ = []"

text \<open>One command: pairing registers the agent first.\<close>

definition agent_do_command :: "agent_env \<Rightarrow> nat \<Rightarrow> HostGattCommand \<Rightarrow> agent_system \<Rightarrow> agent_system" where
  "agent_do_command env i c s = (case ag_store s i of
       None \<Rightarrow> s
     | Some h \<Rightarrow>
         (let s1 = (if c = C_PAIR \<and> h_bus h then host_ensure_agent env i (h_bus h) s else s);
              h' = do_command (ae_bluez env) c h
          in (put_host i h' s1)\<lparr>ag_log := ag_log s1
                @ concat (map (answer_of i (ag_calls s1)) (drop (length (h_calls h)) (h_calls h')))\<rparr>))"

definition agent_process_commands :: "agent_env \<Rightarrow> nat \<Rightarrow> agent_system \<Rightarrow> agent_system" where
  "agent_process_commands env i s = (case ag_store s i of
       None \<Rightarrow> s
     | Some h \<Rightarrow> fold (agent_do_command env i) (commands h) (put_host i (h\<lparr>commands := []\<rparr>) s))"

definition agent_host_destroy :: "nat \<Rightarrow> agent_system \<Rightarrow> agent_system" where
  "agent_host_destroy i s = s\<lparr>ag_sys := host_destroy i (ag_sys s), ag_objects := removeAll i (ag_objects s),
     ag_home := (if ag_home s = Some i then None else ag_home s)\<rparr>"

section \<open>Executions\<close>

inductive agent_step :: "agent_system \<Rightarrow> agent_system \<Rightarrow> bool" where
  AG_create: "ag_store s i = None \<Longrightarrow> agent_step s (put_host i (new_host adapter path) s)"
| AG_connect: "ag_store s i \<noteq> None \<Longrightarrow> agent_step s (s\<lparr>ag_sys := host_connect efd i (ag_sys s)\<rparr>)"
| AG_destroy: "agent_step s (agent_host_destroy i s)"
| AG_enqueue: "agent_step s (on_host i (enqueue_command c) s)"
| AG_drain: "agent_step s (on_host i (\<lambda>h. snd (drain_events h)) s)"
| AG_process: "i \<in> set (ag_hosts s) \<Longrightarrow> ag_store s i \<noteq> None \<Longrightarrow> agent_step s (agent_process_commands env i s)"
| AG_props: "agent_step s (on_host i (host_on_properties_changed bz iface props) s)"
| AG_value: "agent_step s (on_host i (on_value_changed path iface vals) s)"
| AG_call: "b \<in> set (ag_objects s) \<Longrightarrow> agent_dispatch b c s = Some s' \<Longrightarrow> agent_step s s'"

section \<open>Calls and answers\<close>

text \<open>What the agent is for BlueZ: calls come in, are answered at once or parked for a host, where one answer or nothing
  follows. A state is the number of calls, the calls answered, and the call parked for each host.\<close>

type_synonym call_state = "nat \<times> nat list \<times> (nat \<Rightarrow> nat option)"

inductive call_step :: "call_state \<Rightarrow> call_state \<Rightarrow> bool" where
  CS_reply: "call_step (n, as, p) (n + 1, as @ [n], p)"
| CS_park: "call_step (n, as, p) (n + 1, as, p(i \<mapsto> n))"
| CS_answer: "p i = Some m \<Longrightarrow> call_step (n, as, p) (n, as @ [m], p(i := None))"
| CS_drop: "call_step (n, as, p) (n, as, p(i := None))"

inductive_cases call_stepE: "call_step (n, as, p) t"

definition parked :: "agent_system \<Rightarrow> nat \<Rightarrow> nat option" where
  "parked s i = Option.bind (ag_store s i) pending_agent_reply"

definition calls_of :: "agent_system \<Rightarrow> call_state" where
  "calls_of s = (length (ag_calls s), map fst (ag_log s), parked s)"

subsection \<open>Commands that answer nothing\<close>

definition quiet :: "gatt_host \<Rightarrow> gatt_host \<Rightarrow> bool" where
  "quiet h h' \<longleftrightarrow> pending_agent_reply h' = pending_agent_reply h
     \<and> (\<exists>cs. h_calls h' = h_calls h @ cs \<and> (\<forall>c\<in>set cs. \<forall>i calls. answer_of i calls c = []))"

lemma quiet_refl: "pending_agent_reply h' = pending_agent_reply h \<Longrightarrow> h_calls h' = h_calls h \<Longrightarrow> quiet h h'"
  by (simp add: quiet_def)

lemma quiet_trans: "quiet h h1 \<Longrightarrow> quiet h1 h2 \<Longrightarrow> quiet h h2"
  unfolding quiet_def by fastforce

lemma quiet_hcall: "(\<And>i calls. answer_of i calls c = []) \<Longrightarrow> quiet h (hcall c h)"
  by (simp add: quiet_def hcall_def)

lemma quiet_post: "quiet h (post_event ev h)"
  by (simp add: quiet_def post_event_def)

lemma quiet_disconnect: "quiet h (do_disconnect h)"
  by (simp add: do_disconnect_def quiet_post quiet_hcall)

lemma quiet_discovery: "quiet h (try_start_discovery bz h)"
proof (cases rule: try_start_discovery_cases [of h bz])
  case skip then show ?thesis by (simp add: quiet_refl)
next
  case (fail h2 tree)
  have "quiet h (h2\<lparr>discovering := False\<rparr>)" using fail(3)
    by (auto simp: walk_gatt_tree_def synthesize_gap_service_def Let_def quiet_def split: if_splits option.splits prod.splits)
  from quiet_trans [OF this quiet_disconnect] show ?thesis by (simp add: fail(4))
next
  case (ok h2 tree)
  have "quiet h (h2\<lparr>discovered := True, discovering := False\<rparr>)" using ok(3)
    by (auto simp: walk_gatt_tree_def synthesize_gap_service_def Let_def quiet_def split: if_splits option.splits prod.splits)
  from quiet_trans [OF this quiet_post] show ?thesis by (simp add: ok(4))
qed

lemma quiet_connected_changed: "quiet h (worker_on_connected_changed bz c h)"
  using quiet_trans [OF quiet_post quiet_discovery] quiet_post [of h]
  by (auto simp: worker_on_connected_changed_def Let_def quiet_def post_event_def)

lemma quiet_attempts: "quiet h (connect_attempts bz n k h)"
proof (induction n arbitrary: k h)
  case 0 show ?case by (simp add: quiet_refl)
next
  case (Suc n)
  have c: "quiet h (hcall H_Connect h)" by (simp add: quiet_hcall)
  show ?case
    using quiet_trans [OF c Suc.IH [of "hcall H_Connect h" "k + 1"]] quiet_trans [OF c quiet_connected_changed]
      quiet_trans [OF c quiet_post] c
    by (auto simp: Let_def split: option.split)
qed

lemma quiet_connect: "quiet h (do_connect bz h)"
proof -
  obtain ok h1 where b: "host_open_bus bz h = (ok, h1)" by fastforce
  then have "quiet h h1" by (auto simp: host_open_bus_def quiet_def split: if_splits)
  note a = quiet_trans [OF this]
  show ?thesis using \<open>quiet h h1\<close> a [OF quiet_attempts [of h1]] a [OF quiet_connected_changed]
    by (simp add: do_connect_def b)
qed

lemma quiet_pair: "quiet h (do_pair bz h)"
proof -
  have "quiet h (hcall H_Pair (hcall H_EnsureAgent h))" by (rule quiet_trans; rule quiet_hcall) simp_all
  from quiet_trans [OF this quiet_post] show ?thesis by (simp add: do_pair_def quiet_refl)
qed

lemma quiet_fold: "(\<And>x h. quiet h (f x h)) \<Longrightarrow> quiet h (fold f xs h)"
  by (induction xs arbitrary: h) (auto intro: quiet_trans quiet_refl)

lemma quiet_io:
  "quiet h (do_read bz ch is_desc h)" "quiet h (do_write bz ch data resp is_desc h)"
  "quiet h (do_set_notify bz ch en h)" "quiet h (do_read_rssi bz h)" "quiet h (do_remove_bond h)"
  by (auto simp: do_read_def do_write_def do_set_notify_def do_read_rssi_def do_remove_bond_def Let_def quiet_def
      post_event_def hcall_def subscribe_value_def split: option.split)

lemma quiet_signals: "quiet h (on_value_changed path iface vals h)" "quiet h (host_on_properties_changed bz iface props h)"
proof -
  have "quiet h (value_entry ch p h)" for ch p h
    by (simp add: value_entry_def quiet_post quiet_refl split: value_prop.split)
  from quiet_fold [of "value_entry _", OF this] show "quiet h (on_value_changed path iface vals h)"
    by (simp add: on_value_changed_def quiet_refl split: option.split)
  have "quiet h (props_entry bz p h)" for p h
    by (simp add: props_entry_def quiet_connected_changed quiet_discovery quiet_refl split: device_prop.split)
  from quiet_fold [of "props_entry bz", OF this] show "quiet h (host_on_properties_changed bz iface props h)"
    by (simp add: host_on_properties_changed_def quiet_refl)
qed

lemma quiet_command:
  assumes "c \<notin> range C_PASSKEY_REPLY" "c \<notin> range C_CONFIRM_REPLY"
  shows "quiet h (do_command bz c h)"
  using assms by (cases c) (simp_all add: do_command_def quiet_connect quiet_disconnect quiet_io quiet_pair)

subsection \<open>The program implements the calls\<close>

lemma parked_put [simp]: "parked (put_host i h s) = (parked s)(i := pending_agent_reply h)"
  by (simp add: parked_def put_host_def fun_eq_iff)

lemma put_frame [simp]: "ag_calls (put_host i h s) = ag_calls s" "ag_log (put_host i h s) = ag_log s"
  by (simp_all add: put_host_def)

lemma parked_ext: "ag_store s = ag_store s' \<Longrightarrow> parked s = parked s'"
  by (simp add: parked_def fun_eq_iff)

lemma ensure_frame [simp]:
  "ag_store (host_ensure_agent env i b s) = ag_store s" "ag_calls (host_ensure_agent env i b s) = ag_calls s"
  "ag_log (host_ensure_agent env i b s) = ag_log s"
  by (simp_all add: host_ensure_agent_def Let_def)

lemma log_upd [simp]: "parked (s\<lparr>ag_log := l\<rparr>) = parked s" "parked (s\<lparr>ag_calls := ks\<rparr>) = parked s"
  by (simp_all add: parked_def fun_eq_iff)

lemma quiet_calls:
  assumes "ag_store s i = Some h" "quiet h h'"
  shows "calls_of (put_host i h' s) = calls_of s"
  using assms by (auto simp: calls_of_def quiet_def parked_def fun_eq_iff put_host_def)

lemma command_calls:
  assumes "ag_store s i = Some h"
  shows "calls_of (agent_do_command env i c s) = calls_of s \<or> call_step (calls_of s) (calls_of (agent_do_command env i c s))"
proof (cases "\<exists>m. pending_agent_reply h = Some m \<and> ((\<exists>pk. c = C_PASSKEY_REPLY pk) \<or> (\<exists>a. c = C_CONFIRM_REPLY a))")
  case True
  then obtain m where m: "pending_agent_reply h = Some m" "parked s i = Some m"
    "(\<exists>pk. c = C_PASSKEY_REPLY pk) \<or> (\<exists>a. c = C_CONFIRM_REPLY a)" using assms by (auto simp: parked_def)
  have "calls_of (agent_do_command env i c s) = (length (ag_calls s), map fst (ag_log s) @ [m], (parked s)(i := None))"
    using m(1,3) assms
    by (auto simp: calls_of_def agent_do_command_def do_command_def do_passkey_reply_def do_confirm_reply_def hcall_def)
  then show ?thesis using CS_answer [where p = "parked s", OF m(2)] by (simp add: calls_of_def)
next
  case False
  have q: "quiet h (do_command (ae_bluez env) c h)"
  proof (cases "pending_agent_reply h = None")
    case True
    then show ?thesis
      by (cases c) (simp_all add: do_command_def quiet_connect quiet_disconnect quiet_io quiet_pair do_passkey_reply_def
          do_confirm_reply_def quiet_refl)
  next
    case n: False
    then show ?thesis using False by (intro quiet_command) auto
  qed
  then obtain cs where cs: "h_calls (do_command (ae_bluez env) c h) = h_calls h @ cs"
    "\<forall>c\<in>set cs. \<forall>i calls. answer_of i calls c = []" by (auto simp: quiet_def)
  have e: "concat (map (answer_of i calls) cs) = []" for i calls using cs(2) by simp
  have p: "pending_agent_reply (do_command (ae_bluez env) c h) = pending_agent_reply h" using q by (simp add: quiet_def)
  define h' where "h' = do_command (ae_bluez env) c h"
  have "calls_of (agent_do_command env i c s) = calls_of s"
    unfolding agent_do_command_def assms option.case h'_def [symmetric]
    using assms cs(1) p by (auto simp: calls_of_def Let_def e h'_def [symmetric] parked_def fun_eq_iff put_host_def)
  then show ?thesis ..
qed

lemma command_alive: "ag_store s i \<noteq> None \<Longrightarrow> ag_store (agent_do_command env i c s) i \<noteq> None"
  by (auto simp: agent_do_command_def put_host_def Let_def)

lemma commands_calls:
  "ag_store s i \<noteq> None \<Longrightarrow> call_step\<^sup>*\<^sup>* (calls_of s) (calls_of (fold (agent_do_command env i) cs s))"
proof (induction cs arbitrary: s)
  case Nil show ?case by simp
next
  case (Cons c cs)
  obtain h where "ag_store s i = Some h" using Cons.prems by auto
  from command_calls [OF this, of env c] Cons.IH [OF command_alive [OF Cons.prems], of env c] show ?case
    by (auto intro: converse_rtranclp_into_rtranclp)
qed

lemma find_host_alive: "find_host dev s = Some (Some i) \<Longrightarrow> ag_store s i \<noteq> None"
proof -
  have "find_host_by_device st is path = Some (Some i) \<Longrightarrow> st i \<noteq> None" for st "is" path
    by (induction "is") (auto split: option.splits if_splits)
  then show "find_host dev s = Some (Some i) \<Longrightarrow> ag_store s i \<noteq> None"
    by (auto simp: find_host_def split: option.splits)
qed

lemma dispatch_calls:
  assumes "agent_dispatch b c s = Some s'" shows "call_step (calls_of s) (calls_of s')"
proof -
  let ?n = "length (ag_calls s)" and ?s = "s\<lparr>ag_calls := ag_calls s @ [b]\<rparr>"
  have now: "calls_of s' = (?n + 1, map fst (ag_log s) @ [?n], parked s)" if "s' = reply ?n a ?s" for a
    using that by (simp add: reply_def calls_of_def)
  have park: "calls_of s' = (?n + 1, map fst (ag_log s), (parked s)(i \<mapsto> ?n))"
    if "s' = on_host i f ?s" "\<And>h. pending_agent_reply (f h) = Some ?n" "find_host dev ?s = Some (Some i)" for i f dev
    using that find_host_alive [OF that(3)] by (auto simp: on_host_def calls_of_def)
  have shown: "calls_of s' = (?n + 1, map fst (ag_log s) @ [?n], parked s)"
    if "s' = reply ?n a (on_host i (agent_display_passkey pk) ?s)" for a i pk
    using that by (auto simp: reply_def calls_of_def on_host_def agent_display_passkey_def post_event_def parked_def
        fun_eq_iff put_host_def split: option.split)
  show ?thesis
  proof (cases c)
    case (AC_request_passkey dev)
    then show ?thesis using assms now park [of _ "agent_request_passkey ?n" dev] CS_reply CS_park
      by (auto simp: agent_dispatch_def agent_vtable_def thread_request_passkey_def agent_request_passkey_def
          post_event_def calls_of_def split: option.splits)
  next
    case (AC_request_confirmation dev pk)
    then show ?thesis using assms now park [of _ "agent_request_confirmation ?n pk" dev] CS_reply CS_park
      by (auto simp: agent_dispatch_def agent_vtable_def thread_request_confirmation_def agent_request_confirmation_def
          post_event_def calls_of_def split: option.splits)
  next
    case (AC_display_passkey dev pk e)
    then show ?thesis using assms now shown CS_reply
      by (auto simp: agent_dispatch_def agent_vtable_def thread_display_passkey_def calls_of_def split: option.splits)
  qed (use assms now CS_reply in \<open>auto simp: agent_dispatch_def agent_vtable_def agent_release_def agent_cancel_def calls_of_def\<close>)
qed

lemma on_host_quiet: "(\<And>h. quiet h (f h)) \<Longrightarrow> calls_of (on_host i f s) = calls_of s"
  by (auto simp: on_host_def quiet_calls split: option.split)

text \<open>The agent, the hosts and their commands implement the calls: each step of the program is
  zero or more steps in which a call comes in and is answered or parked, a parked call is answered, or one is dropped.\<close>
lemma step_calls:
  "agent_step s t \<Longrightarrow> call_step\<^sup>*\<^sup>* (calls_of s) (calls_of t)"
proof (induction rule: agent_step.induct)
  case (AG_create s i adapter path)
  have "parked s i = None" using AG_create by (simp add: parked_def)
  then have "(parked s)(i := None) = parked s" by auto
  then show ?case by (simp add: calls_of_def new_host_def)
next
  case (AG_connect s i efd)
  have "parked (s\<lparr>ag_sys := host_connect efd i (ag_sys s)\<rparr>) = parked s"
    by (cases "ag_store s i") (auto simp: parked_def host_connect_def enqueue_command_def fun_eq_iff)
  then show ?case by (simp add: calls_of_def)
next
  case (AG_destroy s i)
  have "parked (agent_host_destroy i s) = (parked s)(i := None)"
    by (auto simp: parked_def agent_host_destroy_def host_destroy_def fun_eq_iff)
  then have "call_step (calls_of s) (calls_of (agent_host_destroy i s))"
    by (simp add: calls_of_def agent_host_destroy_def CS_drop)
  then show ?case by (rule r_into_rtranclp)
next
  case (AG_process i s env)
  then obtain h where h: "ag_store s i = Some h" by auto
  have "calls_of (put_host i (h\<lparr>commands := []\<rparr>) s) = calls_of s" by (rule quiet_calls [OF h]) (simp add: quiet_refl)
  with commands_calls [of "put_host i (h\<lparr>commands := []\<rparr>) s" i env "commands h"] h show ?case
    by (simp add: agent_process_commands_def put_host_def)
next
  case (AG_call b s c s') show ?case using dispatch_calls [OF AG_call(2)] by (rule r_into_rtranclp)
qed (simp_all add: on_host_quiet quiet_signals quiet_refl enqueue_command_def drain_events_def)

lemma steps_calls: "agent_step\<^sup>*\<^sup>* s t \<Longrightarrow> call_step\<^sup>*\<^sup>* (calls_of s) (calls_of t)"
  by (induction rule: rtranclp_induct) (auto dest: step_calls)

subsection \<open>One answer at most\<close>

definition calls_ok :: "call_state \<Rightarrow> bool" where
  "calls_ok s = (case s of (n, as, p) \<Rightarrow> distinct as \<and> set as \<subseteq> {..<n}
     \<and> (\<forall>i m. p i = Some m \<longrightarrow> m < n \<and> m \<notin> set as) \<and> (\<forall>i j m. p i = Some m \<longrightarrow> p j = Some m \<longrightarrow> i = j))"

lemma calls_ok_step: "call_step s t \<Longrightarrow> calls_ok s \<Longrightarrow> calls_ok t"
  by (induction rule: call_step.induct) (auto simp: calls_ok_def less_Suc_eq split: if_splits)

lemma calls_ok_steps: "call_step\<^sup>*\<^sup>* s t \<Longrightarrow> calls_ok s \<Longrightarrow> calls_ok t"
  by (induction rule: rtranclp_induct) (auto intro: calls_ok_step)

lemma calls_ok_new: "calls_ok (calls_of new_agent_system)"
  by (simp add: calls_ok_def calls_of_def new_agent_system_def parked_def)

lemma reachable_calls_ok: "agent_step\<^sup>*\<^sup>* new_agent_system s \<Longrightarrow> calls_ok (calls_of s)"
  using calls_ok_steps [OF steps_calls calls_ok_new] .

text \<open>C36. In every execution each method call that BlueZ makes to the pairing agent is answered at most once, no answer is
  sent to a call that was not made, a call that is parked for a host has not been answered, and no call is parked for two
  hosts.\<close>
theorem agent_answered_once:
  assumes "agent_step\<^sup>*\<^sup>* new_agent_system s"
  shows "distinct (map fst (ag_log s)) \<and> fst ` set (ag_log s) \<subseteq> {..<length (ag_calls s)}
    \<and> (\<forall>i m. parked s i = Some m \<longrightarrow> m \<notin> fst ` set (ag_log s))
    \<and> (\<forall>i j m. parked s i = Some m \<longrightarrow> parked s j = Some m \<longrightarrow> i = j)"
  using reachable_calls_ok [OF assms] by (auto simp: calls_ok_def calls_of_def)

subsection \<open>A second request\<close>

definition forgotten :: "nat \<Rightarrow> call_state \<Rightarrow> bool" where
  "forgotten m s = (case s of (n, as, p) \<Rightarrow> m < n \<and> m \<notin> set as \<and> (\<forall>i. p i \<noteq> Some m))"

lemma forgotten_step: "call_step s t \<Longrightarrow> forgotten m s \<Longrightarrow> forgotten m t"
  by (induction rule: call_step.induct) (auto simp: forgotten_def)

lemma forgotten_steps: "call_step\<^sup>*\<^sup>* s t \<Longrightarrow> forgotten m s \<Longrightarrow> forgotten m t"
  by (induction rule: rtranclp_induct) (auto intro: forgotten_step)

text \<open>C37. When BlueZ asks a host for a passkey or a confirmation while an earlier call is parked for it, the earlier call is
  overwritten: in no later state of any execution is it answered.\<close>
theorem overwritten_call_never_answered:
  assumes "agent_step\<^sup>*\<^sup>* new_agent_system s" "parked s i = Some m"
    "agent_dispatch b c s = Some s1" "parked s1 i \<noteq> Some m" "agent_step\<^sup>*\<^sup>* s1 t"
  shows "m \<notin> fst ` set (ag_log t)"
proof -
  have ok: "calls_ok (calls_of s)" by (rule reachable_calls_ok [OF assms(1)])
  have n: "length (ag_calls s1) = length (ag_calls s) + 1"
    using assms(3) by (auto simp: agent_dispatch_def agent_vtable_def thread_request_passkey_def thread_display_passkey_def
        thread_request_confirmation_def agent_release_def agent_cancel_def reply_def on_host_def split: agent_call.splits option.splits)
  have "m < length (ag_calls s)" using ok assms(2) by (auto simp: calls_ok_def calls_of_def)
  then have lt: "m < Suc (length (ag_calls s))" by simp
  have "forgotten m (calls_of s1)"
    using dispatch_calls [OF assms(3), unfolded calls_of_def] ok assms(2,4) n lt
    by (elim call_stepE) (auto simp: calls_of_def forgotten_def calls_ok_def split: if_splits)
  from forgotten_steps [OF steps_calls [OF assms(5)] this] show ?thesis by (simp add: forgotten_def calls_of_def)
qed

subsection \<open>The registration is not renewed\<close>

lemma command_home:
  assumes "th_agent_registered (sys_thread (ag_sys s))"
  shows "sys_thread (ag_sys (agent_do_command env i c s)) = sys_thread (ag_sys s) \<and> ag_home (agent_do_command env i c s) = ag_home s"
  using assms by (auto simp: agent_do_command_def host_ensure_agent_def ensure_agent_def Let_def put_host_def split: option.split)

lemma commands_home:
  "th_agent_registered (sys_thread (ag_sys s)) \<Longrightarrow>
   sys_thread (ag_sys (fold (agent_do_command env i) cs s)) = sys_thread (ag_sys s)
     \<and> ag_home (fold (agent_do_command env i) cs s) = ag_home s"
proof (induction cs arbitrary: s)
  case (Cons c cs)
  from command_home [OF Cons.prems, of env i c] Cons.IH [of "agent_do_command env i c s"] Cons.prems show ?case by simp
qed simp

lemma on_host_home [simp]: "sys_thread (ag_sys (on_host i f s)) = sys_thread (ag_sys s)" "ag_home (on_host i f s) = ag_home s"
  by (simp_all add: on_host_def put_host_def split: option.split)

lemma step_home:
  assumes "agent_step s t" "th_agent_registered (sys_thread (ag_sys s))" "ag_home s = None"
  shows "th_agent_registered (sys_thread (ag_sys t)) \<and> ag_home t = None"
  using assms
proof (induction rule: agent_step.induct)
  case (AG_connect s i efd)
  then show ?case by (simp add: host_connect_def attach_def ensure_started_def Let_def)
next
  case (AG_process i s env)
  then show ?case
    using commands_home [of "put_host i h (s)" env i for h]
    by (auto simp: agent_process_commands_def put_host_def split: option.split)
next
  case (AG_call b s c s')
  then show ?case
    by (auto simp: agent_dispatch_def agent_vtable_def thread_request_passkey_def thread_display_passkey_def
        thread_request_confirmation_def agent_release_def agent_cancel_def reply_def split: agent_call.splits option.splits)
qed (simp_all add: put_host_def agent_host_destroy_def host_destroy_def detach_def)

text \<open>Once the host that registered the agent is destroyed, the agent is gone for good: no host that pairs later registers
  one again.\<close>
theorem agent_gone_for_good:
  assumes "th_agent_registered (sys_thread (ag_sys s))" "ag_home s = Some i" "agent_step\<^sup>*\<^sup>* (agent_host_destroy i s) t"
  shows "ag_home t = None"
proof -
  have "th_agent_registered (sys_thread (ag_sys t)) \<and> ag_home t = None" using assms(3)
  proof (induction rule: rtranclp_induct)
    case base show ?case using assms(1,2) by (simp add: agent_host_destroy_def host_destroy_def detach_def)
  next
    case (step u v) from step_home [OF step(2)] step(3) show ?case by simp
  qed
  then show ?thesis ..
qed

section \<open>A scenario\<close>

text \<open>Hosts 1 and 2 connect, host 1 pairs and registers the agent, and BlueZ asks for the passkey of host 2.\<close>

definition pair_env :: agent_env where
  "pair_env = \<lparr>ae_bluez = demo_bluez\<lparr>bz_open_bus := True, bz_connected := Some True, bz_services_resolved := None,
     bz_pair := None\<rparr>, ae_export = True, ae_register = True\<rparr>"

definition demo_connected :: agent_system where
  "demo_connected = (let s = put_host 2 (new_host [] ''/b'') (put_host 1 (new_host [] ''/a'') new_agent_system);
     s1 = s\<lparr>ag_sys := host_connect True 1 (ag_sys s)\<rparr> in s1\<lparr>ag_sys := host_connect True 2 (ag_sys s1)\<rparr>)"

definition demo_registered :: agent_system where
  "demo_registered = agent_process_commands pair_env 2
     (agent_process_commands pair_env 1 (on_host 1 (enqueue_command C_PAIR) demo_connected))"

definition demo_asked :: agent_system where
  "demo_asked = the (agent_dispatch 1 (AC_request_passkey (Some ''/b'')) demo_registered)"

definition demo_answered :: agent_system where
  "demo_answered = agent_process_commands pair_env 2 (on_host 2 (enqueue_command (C_PASSKEY_REPLY 123456)) demo_asked)"

lemma agent_reach_step: "agent_step\<^sup>*\<^sup>* a b \<Longrightarrow> agent_step b c \<Longrightarrow> c = d \<Longrightarrow> agent_step\<^sup>*\<^sup>* a d"
  by auto

lemma demo_connected_reach: "agent_step\<^sup>*\<^sup>* new_agent_system demo_connected"
proof -
  have "agent_step\<^sup>*\<^sup>* new_agent_system (put_host 1 (new_host [] ''/a'') new_agent_system)"
    by (rule r_into_rtranclp, rule AG_create) (simp add: new_agent_system_def)
  then have "agent_step\<^sup>*\<^sup>* new_agent_system (put_host 2 (new_host [] ''/b'') (put_host 1 (new_host [] ''/a'') new_agent_system))"
    by (rule agent_reach_step [OF _ AG_create refl]) (simp add: new_agent_system_def put_host_def)
  from agent_reach_step [OF agent_reach_step [OF this AG_connect [where i = 1 and efd = True] refl]
      AG_connect [where i = 2 and efd = True]]
  show ?thesis by (simp add: demo_connected_def Let_def put_host_def new_agent_system_def host_connect_def)
qed

lemma demo_registered_facts:
  "ag_home demo_registered = Some 1" "ag_objects demo_registered = [1]" "ag_hosts demo_registered = [1, 2]"
  "ag_store demo_registered 2 \<noteq> None" "parked demo_registered 2 = None"
  by code_simp+

lemma demo_registered_reach: "agent_step\<^sup>*\<^sup>* new_agent_system demo_registered"
  unfolding demo_registered_def
  by (rule agent_reach_step [OF agent_reach_step [OF agent_reach_step [OF demo_connected_reach AG_enqueue refl]
        AG_process refl] AG_process refl]; code_simp)

lemma demo_asked_step: "agent_dispatch 1 (AC_request_passkey (Some ''/b'')) demo_registered = Some demo_asked"
proof -
  have "agent_dispatch 1 (AC_request_passkey (Some ''/b'')) demo_registered \<noteq> None" by code_simp
  then show ?thesis by (simp add: demo_asked_def)
qed

lemma demo_asked_reach: "agent_step\<^sup>*\<^sup>* new_agent_system demo_asked"
  by (rule agent_reach_step [OF demo_registered_reach AG_call [OF _ demo_asked_step] refl])
    (simp add: demo_registered_facts)

lemma demo_asked_facts: "parked demo_asked 2 = Some 0" "ag_log demo_asked = []" "ag_objects demo_asked = [1]"
  by code_simp+

lemma demo_answered_reach: "agent_step\<^sup>*\<^sup>* new_agent_system demo_answered"
  unfolding demo_answered_def
  by (rule agent_reach_step [OF agent_reach_step [OF demo_asked_reach AG_enqueue refl] AG_process refl]; code_simp)

lemma agent_answered_once_witness:
  "map fst (ag_log demo_answered) = [0] \<and> fst ` set (ag_log demo_answered) \<subseteq> {..<length (ag_calls demo_answered)}"
proof -
  have "map fst (ag_log demo_answered) = [0]" by code_simp
  with agent_answered_once [OF demo_answered_reach] show ?thesis by blast
qed

text \<open>BlueZ asks again before the first call is answered.\<close>

definition demo_asked_again :: agent_system where
  "demo_asked_again = the (agent_dispatch 1 (AC_request_passkey (Some ''/b'')) demo_asked)"

definition demo_second_answered :: agent_system where
  "demo_second_answered = agent_process_commands pair_env 2 (on_host 2 (enqueue_command (C_PASSKEY_REPLY 123456)) demo_asked_again)"

lemma overwritten_call_never_answered_witness:
  "map fst (ag_log demo_second_answered) = [1] \<and> 0 \<notin> fst ` set (ag_log demo_second_answered)"
proof -
  have "agent_dispatch 1 (AC_request_passkey (Some ''/b'')) demo_asked \<noteq> None" by code_simp
  then have d: "agent_dispatch 1 (AC_request_passkey (Some ''/b'')) demo_asked = Some demo_asked_again"
    by (simp add: demo_asked_again_def)
  have p: "parked demo_asked_again 2 \<noteq> Some 0" by code_simp
  have r: "agent_step\<^sup>*\<^sup>* demo_asked_again demo_second_answered"
    unfolding demo_second_answered_def
    by (rule agent_reach_step [OF agent_reach_step [OF rtranclp.rtrancl_refl AG_enqueue refl] AG_process refl]; code_simp)
  have "map fst (ag_log demo_second_answered) = [1]" by code_simp
  with overwritten_call_never_answered [OF demo_asked_reach demo_asked_facts(1) d p r] show ?thesis by blast
qed

section \<open>The bus of an answer\<close>

text \<open>A reply of the application answers the parked call, with what the application said, on the bus of the host.\<close>

lemma reply_effect:
  assumes "ag_store s i = Some h" "pending_agent_reply h = Some m"
  shows "ag_log (agent_do_command env i (C_PASSKEY_REPLY pk) s) = ag_log s @ [(m, i, AA_passkey pk)]
    \<and> ag_log (agent_do_command env i (C_CONFIRM_REPLY True) s) = ag_log s @ [(m, i, AA_accept)]
    \<and> ag_log (agent_do_command env i (C_CONFIRM_REPLY False) s) = ag_log s @ [(m, ag_calls s ! m, AA_rejected)]"
  using assms by (simp add: agent_do_command_def do_command_def do_passkey_reply_def do_confirm_reply_def hcall_def)

text \<open>A passkey is answered on a bus that the call did not come from: the call came in on the bus of the host that
  registered the agent, the answer goes out on the bus of the host it is about.\<close>
theorem answered_on_other_bus:
  "\<exists>s. agent_step\<^sup>*\<^sup>* new_agent_system s \<and> ag_calls s = [1] \<and> ag_log s = [(0, 2, AA_passkey 123456)]"
proof (intro exI conjI)
  show "agent_step\<^sup>*\<^sup>* new_agent_system demo_answered" by (rule demo_answered_reach)
  show "ag_calls demo_answered = [1]" "ag_log demo_answered = [(0, 2, AA_passkey 123456)]" by code_simp+
qed

text \<open>A passkey request is answered without a passkey when the application accepts a confirmation.\<close>
lemma passkey_request_accepted:
  "ag_log (agent_do_command pair_env 2 (C_CONFIRM_REPLY True) demo_asked) = [(0, 2, AA_accept)]"
  by code_simp

text \<open>When RegisterAgent fails, the object stays on the bus, which then refuses to export it again: this host cannot
  register the agent any more.\<close>
lemma failed_registration_final:
  assumes "\<not> th_agent_registered (sys_thread (ag_sys s))" "ae_export env" "\<not> ae_register env" "i \<notin> set (ag_objects s)"
  shows "host_ensure_agent env' i True (host_ensure_agent env i True s) = host_ensure_agent env i True s
    \<and> ag_home (host_ensure_agent env i True s) = ag_home s"
  using assms by (simp add: host_ensure_agent_def ensure_agent_def Let_def)

end
