(* ===== verification/Bthome.thy ===== *)
theory Bthome
  imports Prelude Complex_Main
begin

text \<open>
  The BTHome v2 service-data encoder, \<open>components/bthome_advertiser/bthome_encoder.{h,cpp}\<close>.
  A C++ \<open>double\<close> is its value: a finite binary64 number as the rational it denotes, an
  infinity, or NaN. Division by a table factor rounds the exact quotient to the nearest
  binary64 value, ties to even; \<open>std::llround\<close> rounds half away from zero, and its result
  on an argument that does not fit a \<open>long long\<close> is not specified by the standard, so it is
  the parameter \<open>unspec\<close> of the encoder.
\<close>

section \<open>Binary64 division and llround\<close>

datatype f64 = F_fin rat | F_inf bool | F_nan

text \<open>Exponent of the leading bit: \<open>lg_up\<close> for values of at least 1, \<open>lg_dn\<close> below 1; 1074
  halvings reach the least subnormal.\<close>

function lg_up :: "rat \<Rightarrow> nat" where
  "lg_up q = (if q < 2 then 0 else Suc (lg_up (q / 2)))"
  by pat_completeness auto
termination
proof (relation "measure (\<lambda>q. nat \<lfloor>q\<rfloor>)")
  fix q :: rat
  assume "\<not> q < 2"
  then have "q / 2 \<le> q - 1" by simp
  then have "\<lfloor>q / 2\<rfloor> \<le> \<lfloor>q - 1\<rfloor>" by (rule floor_mono)
  also have "\<dots> < \<lfloor>q\<rfloor>" by simp
  finally show "(q / 2, q) \<in> measure (\<lambda>q. nat \<lfloor>q\<rfloor>)"
    using \<open>\<not> q < 2\<close> by (simp add: le_floor_iff nat_less_eq_zless)
qed simp

declare lg_up.simps [simp del]

fun lg_dn :: "nat \<Rightarrow> rat \<Rightarrow> nat" where
  "lg_dn 0 q = 0"
| "lg_dn (Suc n) q = (if 1 \<le> q then 0 else Suc (lg_dn n (2 * q)))"

definition f64_exp :: "rat \<Rightarrow> int" where
  "f64_exp q = (if 1 \<le> q then int (lg_up q) - 52 else max (- int (lg_dn 1074 q) - 52) (- 1074))"

definition pow2 :: "int \<Rightarrow> rat" where
  "pow2 e = (if 0 \<le> e then 2 ^ nat e else 1 / 2 ^ nat (- e))"

definition round_half_even :: "rat \<Rightarrow> int" where
  "round_half_even q =
     (let f = \<lfloor>q\<rfloor>; r = q - of_int f in
      if r < 1 / 2 then f else if 1 / 2 < r then f + 1 else if even f then f else f + 1)"

definition f64_round :: "rat \<Rightarrow> rat" where
  "f64_round q =
     (if q = 0 then 0
      else let u = pow2 (f64_exp \<bar>q\<bar>) in of_int (round_half_even (q / u)) * u)"

fun f64_div :: "f64 \<Rightarrow> rat \<Rightarrow> f64" where
  "f64_div (F_fin a) b =
     (let r = f64_round (a / b) in if 2 ^ 1024 \<le> \<bar>r\<bar> then F_inf (0 < r) else F_fin r)"
| "f64_div (F_inf s) b = F_inf s"
| "f64_div F_nan b = F_nan"

definition round_half_away :: "rat \<Rightarrow> int" where
  "round_half_away q = (if 0 \<le> q then \<lfloor>q + 1 / 2\<rfloor> else - \<lfloor>1 / 2 - q\<rfloor>)"

fun llround :: "(f64 \<Rightarrow> u64) \<Rightarrow> f64 \<Rightarrow> int" where
  "llround unspec (F_fin q) =
     (let r = round_half_away q in
      if - (2 ^ 63) \<le> r \<and> r < 2 ^ 63 then r else sint (unspec (F_fin q)))"
| "llround unspec x = sint (unspec x)"

section \<open>The encoder\<close>

record BTHomeObject =
  object_id :: u8
  bt_value :: f64

record Spec =
  spec_id :: u8
  spec_size :: nat
  spec_signed :: bool
  spec_factor :: rat

definition F_0_01 :: rat where "F_0_01 = 5764607523034235 / 576460752303423488"
definition F_0_001 :: rat where "F_0_001 = 1152921504606847 / 1152921504606846976"

definition BTHOME_V2_DEVICE_INFO :: u8 where "BTHOME_V2_DEVICE_INFO = 0x40"

definition spec_TABLE :: "Spec list" where
  "spec_TABLE =
    [\<lparr>spec_id = 0x00, spec_size = 1, spec_signed = False, spec_factor = 1\<rparr>,
     \<lparr>spec_id = 0x01, spec_size = 1, spec_signed = False, spec_factor = 1\<rparr>,
     \<lparr>spec_id = 0x02, spec_size = 2, spec_signed = True, spec_factor = F_0_01\<rparr>,
     \<lparr>spec_id = 0x03, spec_size = 2, spec_signed = False, spec_factor = F_0_01\<rparr>,
     \<lparr>spec_id = 0x04, spec_size = 3, spec_signed = False, spec_factor = F_0_01\<rparr>,
     \<lparr>spec_id = 0x05, spec_size = 3, spec_signed = False, spec_factor = F_0_01\<rparr>,
     \<lparr>spec_id = 0x0C, spec_size = 2, spec_signed = False, spec_factor = F_0_001\<rparr>,
     \<lparr>spec_id = 0x12, spec_size = 2, spec_signed = False, spec_factor = 1\<rparr>,
     \<lparr>spec_id = 0x13, spec_size = 2, spec_signed = False, spec_factor = 1\<rparr>,
     \<lparr>spec_id = 0x14, spec_size = 2, spec_signed = False, spec_factor = F_0_01\<rparr>,
     \<lparr>spec_id = 0x10, spec_size = 1, spec_signed = False, spec_factor = 1\<rparr>,
     \<lparr>spec_id = 0x21, spec_size = 1, spec_signed = False, spec_factor = 1\<rparr>,
     \<lparr>spec_id = 0x23, spec_size = 1, spec_signed = False, spec_factor = 1\<rparr>]"

definition bthome_object_spec :: "u8 \<Rightarrow> (nat \<times> bool \<times> rat) option" where
  "bthome_object_spec oid =
     map_option (\<lambda>s. (spec_size s, spec_signed s, spec_factor s)) (find (\<lambda>s. spec_id s = oid) spec_TABLE)"

definition clamp_raw :: "nat \<Rightarrow> bool \<Rightarrow> int \<Rightarrow> int" where
  "clamp_raw sz sd raw0 =
     (if sd then
        (let lo = - (2 ^ (sz * 8 - 1)); hi = 2 ^ (sz * 8 - 1) - 1;
             r1 = (if raw0 < lo then lo else raw0)
         in if r1 > hi then hi else r1)
      else
        (let r1 = (if raw0 < 0 then 0 else raw0);
             umax = (if 8 \<le> sz then - 1 else 2 ^ (sz * 8) - 1 :: u64)
         in if (word_of_int r1 :: u64) > umax then sint umax else r1))"

definition emit_le :: "nat \<Rightarrow> u64 \<Rightarrow> bytes" where
  "emit_le sz u = map (\<lambda>i. ucast (drop_bit (8 * i) u AND 0xFF)) [0..<sz]"

definition encode_object :: "(f64 \<Rightarrow> u64) \<Rightarrow> BTHomeObject \<Rightarrow> bytes" where
  "encode_object unspec ob =
     (case bthome_object_spec (object_id ob) of
        None \<Rightarrow> []
      | Some (sz, sd, factor) \<Rightarrow>
          object_id ob #
          emit_le sz (word_of_int (clamp_raw sz sd (llround unspec (f64_div (bt_value ob) factor)))))"

definition build_bthome_payload :: "(f64 \<Rightarrow> u64) \<Rightarrow> BTHomeObject list \<Rightarrow> bool \<Rightarrow> bytes" where
  "build_bthome_payload unspec objects encrypted =
     (BTHOME_V2_DEVICE_INFO OR (if encrypted then 0x01 else 0x00)) #
     concat (map (encode_object unspec) (sort_key object_id objects))"

section \<open>Rounding errors\<close>

lemma round_half_even_error: "\<bar>of_int (round_half_even q) - q\<bar> \<le> 1 / 2"
proof -
  have "of_int \<lfloor>q\<rfloor> \<le> q" "q < of_int \<lfloor>q\<rfloor> + 1" by linarith+
  then show ?thesis by (simp add: round_half_even_def Let_def abs_le_iff field_simps)
qed

lemma round_half_away_error: "\<bar>of_int (round_half_away q) - q\<bar> \<le> 1 / 2"
proof (cases "0 \<le> q")
  case True
  then show ?thesis unfolding round_half_away_def abs_le_iff by (simp; linarith)
next
  case False
  then show ?thesis unfolding round_half_away_def abs_le_iff by (simp; linarith)
qed

lemma pow2_pos: "0 < pow2 e"
  by (simp add: pow2_def)

lemma pow2_mono: "e \<le> e' \<Longrightarrow> pow2 e \<le> pow2 e'"
proof (cases "0 \<le> e \<or> e' < 0")
  case True
  assume "e \<le> e'"
  with True show ?thesis
    by (auto simp: pow2_def intro!: power_increasing divide_left_mono)
next
  case False
  have "(1 :: rat) / 2 ^ nat (- e) \<le> 1" by simp
  also have "(1 :: rat) \<le> 2 ^ nat e'" by simp
  finally show ?thesis using False by (simp add: pow2_def)
qed

lemma f64_round_error: "\<bar>f64_round q - q\<bar> \<le> pow2 (f64_exp \<bar>q\<bar>) / 2"
proof (cases "q = 0")
  case True
  then show ?thesis using pow2_pos [of "f64_exp 0"] by (simp add: f64_round_def)
next
  case False
  let ?u = "pow2 (f64_exp \<bar>q\<bar>)"
  have u: "0 < ?u" by (rule pow2_pos)
  have "f64_round q - q = (of_int (round_half_even (q / ?u)) - q / ?u) * ?u"
    using False u by (simp add: f64_round_def Let_def left_diff_distrib)
  also have "\<bar>\<dots>\<bar> = \<bar>of_int (round_half_even (q / ?u)) - q / ?u\<bar> * ?u"
    using u by (simp add: abs_mult)
  also have "\<dots> \<le> 1 / 2 * ?u"
    using u by (intro mult_right_mono round_half_even_error) auto
  finally show ?thesis by simp
qed

lemma lg_up_le: "q < 2 ^ Suc k \<Longrightarrow> lg_up q \<le> k"
proof (induction k arbitrary: q)
  case 0
  then show ?case by (simp add: lg_up.simps)
next
  case (Suc k)
  show ?case
  proof (cases "q < 2")
    case True
    then show ?thesis by (simp add: lg_up.simps)
  next
    case False
    have "q / 2 < 2 ^ Suc k" using Suc.prems by simp
    then have "lg_up (q / 2) \<le> k" by (rule Suc.IH)
    with False show ?thesis by (simp add: lg_up.simps [of q])
  qed
qed

lemma f64_exp_le: "\<bar>q\<bar> < 2 ^ Suc k \<Longrightarrow> k \<le> 52 \<Longrightarrow> f64_exp \<bar>q\<bar> \<le> int k - 52"
  using lg_up_le [of "\<bar>q\<bar>" k] by (auto simp: f64_exp_def)

lemma f64_round_error_24: "\<bar>q\<bar> < 2 ^ 24 \<Longrightarrow> \<bar>f64_round q - q\<bar> \<le> 1 / 2 ^ 30"
proof -
  assume "\<bar>q\<bar> < 2 ^ 24"
  then have "f64_exp \<bar>q\<bar> \<le> - 29" using f64_exp_le [of q 23] by simp
  then have "pow2 (f64_exp \<bar>q\<bar>) \<le> pow2 (- 29)" by (rule pow2_mono)
  with f64_round_error [of q] show ?thesis by (simp add: pow2_def)
qed

section \<open>Clamping\<close>

definition field_lo :: "nat \<Rightarrow> bool \<Rightarrow> int" where
  "field_lo sz sd = (if sd then - (2 ^ (8 * sz - 1)) else 0)"

definition field_hi :: "nat \<Rightarrow> bool \<Rightarrow> int" where
  "field_hi sz sd = (if sd then 2 ^ (8 * sz - 1) - 1 else 2 ^ (8 * sz) - 1)"

lemma spec_size_range: "bthome_object_spec i = Some (sz, sd, f) \<Longrightarrow> sz = 1 \<or> sz = 2 \<or> sz = 3"
  by (auto simp: bthome_object_spec_def spec_TABLE_def split: if_splits)

lemma spec_factor_range: "bthome_object_spec i = Some (sz, sd, f) \<Longrightarrow> f = 1 \<or> f = F_0_01 \<or> f = F_0_001"
  by (auto simp: bthome_object_spec_def spec_TABLE_def split: if_splits)

lemma llround_range: "- (2 ^ 63) \<le> llround unspec x \<and> llround unspec x < 2 ^ 63"
proof -
  have "- (2 ^ 63) \<le> sint (w :: u64) \<and> sint w < 2 ^ 63" for w
    using sint_ge [of w] sint_lt [of w] by simp
  then show ?thesis by (cases "(unspec, x)" rule: llround.cases) (auto simp: Let_def)
qed

lemma clamp_raw_eq:
  assumes "sz = 1 \<or> sz = 2 \<or> sz = 3" "- (2 ^ 63) \<le> r" "r < 2 ^ 63"
  shows "clamp_raw sz sd r = max (field_lo sz sd) (min r (field_hi sz sd))"
proof (cases sd)
  case True
  then show ?thesis using assms(1) by (auto simp: clamp_raw_def field_lo_def field_hi_def Let_def)
next
  case False
  have "(word_of_int n :: u64) > word_of_int m \<longleftrightarrow> n > m" if "0 \<le> m" "m < 2 ^ 63" "0 \<le> n" "n < 2 ^ 63" for m n
  proof -
    have "take_bit 64 m = m" "take_bit 64 n = n"
      using that by (auto simp: take_bit_int_eq_self_iff)
    then show ?thesis using that by (simp add: word_less_def unsigned_of_int)
  qed
  from this [of 255 "max 0 r"] this [of 65535 "max 0 r"] this [of 16777215 "max 0 r"] assms(2,3)
  have "(word_of_int (max 0 r) :: u64) > 255 \<longleftrightarrow> max 0 r > 255"
    "(word_of_int (max 0 r) :: u64) > 65535 \<longleftrightarrow> max 0 r > 65535"
    "(word_of_int (max 0 r) :: u64) > 16777215 \<longleftrightarrow> max 0 r > 16777215" by simp_all
  then show ?thesis
    using assms(1) False by (auto simp: clamp_raw_def field_lo_def field_hi_def Let_def max_def split: if_splits)
qed

definition field_value :: "(f64 \<Rightarrow> u64) \<Rightarrow> BTHomeObject \<Rightarrow> int" where
  "field_value unspec ob =
     (case bthome_object_spec (object_id ob) of
        None \<Rightarrow> 0
      | Some (sz, sd, f) \<Rightarrow>
          max (field_lo sz sd) (min (llround unspec (f64_div (bt_value ob) f)) (field_hi sz sd)))"

section \<open>A reference decoder\<close>

text \<open>Little-endian value of a field, two's complement when signed, and the reader a BTHome
  receiver runs over the bytes after the device-information byte.\<close>

fun le_val :: "bytes \<Rightarrow> int" where
  "le_val [] = 0"
| "le_val (b # bs) = uint b + 256 * le_val bs"

definition field_decode :: "bool \<Rightarrow> bytes \<Rightarrow> int" where
  "field_decode sd bs =
     (let v = le_val bs; n = 8 * length bs in
      if sd \<and> 2 ^ (n - 1) \<le> v then v - 2 ^ n else v)"

function bthome_decode :: "bytes \<Rightarrow> (u8 \<times> int) list option" where
  "bthome_decode [] = Some []"
| "bthome_decode (i # bs) =
     (case bthome_object_spec i of
        None \<Rightarrow> None
      | Some (sz, sd, f) \<Rightarrow>
          if length bs < sz then None
          else map_option (\<lambda>r. (i, field_decode sd (take sz bs)) # r) (bthome_decode (drop sz bs)))"
  by pat_completeness auto
termination
  by (relation "measure length") auto

declare bthome_decode.simps(2) [simp del]

lemma le_val_append: "le_val (xs @ ys) = le_val xs + 256 ^ length xs * le_val ys"
  by (induction xs) (simp_all add: algebra_simps)

lemma length_emit_le [simp]: "length (emit_le sz u) = sz"
  by (simp add: emit_le_def)

lemma uint_byte_of: "uint (ucast (drop_bit k (u :: u64) AND 0xFF) :: u8) = (uint u div 2 ^ k) mod 256"
proof -
  have "(ucast (drop_bit k u AND 0xFF) :: u8) = ucast (drop_bit k u)"
  proof -
    have m: "(0xFF :: u64) = mask 8" by (simp add: mask_eq_exp_minus_1)
    show ?thesis unfolding m by (rule bit_word_eqI) (simp add: bit_simps)
  qed
  moreover have "uint (drop_bit k u) = uint u div 2 ^ k"
    by (simp add: unsigned_drop_bit_eq bintr_uint flip: drop_bit_eq_div)
  ultimately show ?thesis
    by (simp only: unsigned_ucast_eq take_bit_eq_mod) simp
qed

lemma le_val_emit: "le_val (emit_le sz u) = uint u mod 2 ^ (8 * sz)"
proof (induction sz)
  case 0
  then show ?case by (simp add: emit_le_def)
next
  case (Suc n)
  have "emit_le (Suc n) u = emit_le n u @ [ucast (drop_bit (8 * n) u AND 0xFF)]"
    by (simp add: emit_le_def)
  then have "le_val (emit_le (Suc n) u) = uint u mod 2 ^ (8 * n) + 256 ^ n * ((uint u div 2 ^ (8 * n)) mod 256)"
    using Suc.IH by (simp add: le_val_append uint_byte_of)
  also have "(256 :: int) ^ n = 2 ^ (8 * n)" by (simp add: power_mult)
  also have "uint u mod 2 ^ (8 * n) + 2 ^ (8 * n) * (uint u div 2 ^ (8 * n) mod 256) = uint u mod (2 ^ (8 * n) * 256)"
    by (simp add: zmod_zmult2_eq)
  also have "(2 :: int) ^ (8 * n) * 256 = 2 ^ (8 * Suc n)" by (simp add: power_add)
  finally show ?case .
qed

lemma int_mod_negative: "(v :: int) < 0 \<Longrightarrow> - m \<le> v \<Longrightarrow> v mod m = v + m"
proof -
  assume "v < 0" "- m \<le> v"
  then have "(v + m) mod m = v + m" by (intro mod_pos_pos_trivial) auto
  then show ?thesis by simp
qed

lemma field_decode_emit:
  assumes sz: "sz = 1 \<or> sz = 2 \<or> sz = 3" and "field_lo sz sd \<le> v" "v \<le> field_hi sz sd"
  shows "field_decode sd (emit_le sz (word_of_int v)) = v"
proof -
  have "uint (word_of_int v :: u64) mod 2 ^ (8 * sz) = v mod 2 ^ (8 * sz)"
    using sz by (auto simp: unsigned_of_int take_bit_eq_mod mod_mod_cancel)
  also have "\<dots> = (if 0 \<le> v then v else v + 2 ^ (8 * sz))"
    using assms by (cases sd) (auto simp: field_lo_def field_hi_def int_mod_negative)
  finally have "le_val (emit_le sz (word_of_int v)) = (if 0 \<le> v then v else v + 2 ^ (8 * sz))"
    by (simp only: le_val_emit)
  with assms show ?thesis
    by (cases sd) (auto simp: field_decode_def Let_def field_lo_def field_hi_def)
qed

lemma field_value_range:
  "bthome_object_spec (object_id ob) = Some (sz, sd, f) \<Longrightarrow>
     field_lo sz sd \<le> field_value unspec ob \<and> field_value unspec ob \<le> field_hi sz sd"
  by (frule spec_size_range) (auto simp: field_value_def field_lo_def field_hi_def)

lemma encode_object_known:
  assumes "bthome_object_spec (object_id ob) = Some (sz, sd, f)"
  shows "encode_object unspec ob = object_id ob # emit_le sz (word_of_int (field_value unspec ob))"
  using assms llround_range [of unspec "f64_div (bt_value ob) f"] clamp_raw_eq [OF spec_size_range [OF assms]]
  by (simp add: encode_object_def field_value_def)

lemma decode_encode_append:
  "bthome_decode (encode_object unspec ob @ rest) =
     (if bthome_object_spec (object_id ob) = None then bthome_decode rest
      else map_option (\<lambda>r. (object_id ob, field_value unspec ob) # r) (bthome_decode rest))"
proof (cases "bthome_object_spec (object_id ob)")
  case None
  then show ?thesis by (simp add: encode_object_def)
next
  case (Some t)
  then obtain sz sd f where s: "bthome_object_spec (object_id ob) = Some (sz, sd, f)" by (cases t) auto
  from field_decode_emit [OF spec_size_range [OF s]] field_value_range [OF s, of unspec] s show ?thesis
    by (simp add: encode_object_known [OF s] bthome_decode.simps(2))
qed

definition known_object :: "BTHomeObject \<Rightarrow> bool" where
  "known_object ob \<longleftrightarrow> bthome_object_spec (object_id ob) \<noteq> None"

lemma decode_concat:
  "bthome_decode (concat (map (encode_object unspec) obs)) =
     Some (map (\<lambda>ob. (object_id ob, field_value unspec ob)) (filter known_object obs))"
  by (induction obs) (auto simp: decode_encode_append known_object_def)

section \<open>Properties\<close>

text \<open>Decoding a payload gives back exactly the known objects, in the stable ascending order
  of their ids, each with its scaled value clamped to the field's range, whatever \<open>llround\<close>
  returns for unrepresentable arguments; the first byte is the version-2 device information
  with the encryption flag.\<close>

theorem bthome_roundtrip:
  "hd (build_bthome_payload unspec obs enc) = (if enc then 0x41 else 0x40) \<and>
   bthome_decode (tl (build_bthome_payload unspec obs enc)) =
     Some (map (\<lambda>ob. (object_id ob, field_value unspec ob)) (filter known_object (sort_key object_id obs)))"
  by (simp add: build_bthome_payload_def decode_concat BTHOME_V2_DEVICE_INFO_def)

text \<open>The value of one field: when the exact quotient value / factor lies in the field's range, the integer is
  within 1/2 + 2^-30 of it: binary64 division and \<open>llround\<close> cost at most that, and the clamp never moves the result
  further away.\<close>

lemma field_value_accuracy:
  assumes "bthome_object_spec (object_id ob) = Some (sz, sd, f)" and "bt_value ob = F_fin v"
    and "of_int (field_lo sz sd) \<le> v / f" and "v / f \<le> of_int (field_hi sz sd)"
  shows "\<bar>of_int (field_value unspec ob) - v / f\<bar> \<le> 1 / 2 + 1 / 2 ^ 30"
proof -
  define q where "q = v / f"
  have q: "\<bar>q\<bar> < 2 ^ 24"
    using spec_size_range [OF assms(1)] assms(3,4)
    by (cases sd) (auto simp: q_def field_lo_def field_hi_def abs_less_iff)
  define r where "r = f64_round q"
  from q have r: "\<bar>r - q\<bar> \<le> 1 / 2 ^ 30" unfolding r_def by (rule f64_round_error_24)
  define n where "n = round_half_away r"
  have n: "\<bar>of_int n - r\<bar> \<le> 1 / 2" unfolding n_def by (rule round_half_away_error)
  have "\<bar>of_int n\<bar> < (2 :: rat) ^ 25" using q r n by (auto simp: abs_if split: if_splits)
  then have "\<bar>n\<bar> < 2 ^ 25" by (metis of_int_abs of_int_less_iff of_int_numeral of_int_power)
  then have nb: "- (2 ^ 25) < n" "n < 2 ^ 25" by (auto simp: abs_less_iff)
  have "\<bar>r\<bar> < 2 ^ 25" using q r by (auto simp: abs_if split: if_splits)
  also have "(2 :: rat) ^ 25 \<le> 2 ^ 1024" by (rule power_increasing) auto
  finally have "llround unspec (f64_div (bt_value ob) f) = n"
    using nb by (simp add: assms(2) Let_def flip: q_def r_def n_def) 
  then have fv: "field_value unspec ob = max (field_lo sz sd) (min n (field_hi sz sd))"
    using assms(1) by (simp add: field_value_def)
  have "\<bar>of_int (max (field_lo sz sd) (min n (field_hi sz sd))) - q\<bar> \<le> \<bar>of_int n - q\<bar>"
    using assms(3,4) unfolding q_def [symmetric] by (auto simp: max_def min_def abs_if)
  also have "\<dots> \<le> 1 / 2 + 1 / 2 ^ 30" using n r abs_triangle_ineq [of "of_int n - r" "r - q"] by simp
  finally show ?thesis by (simp add: fv q_def)
qed

text \<open>Whether a field read from the payload stands for an object: its identifier, and, for a finite value in the
  range of the field, a number close to value / factor.\<close>

definition accurate_field :: "BTHomeObject \<Rightarrow> u8 \<times> int \<Rightarrow> bool" where
  "accurate_field ob fld \<longleftrightarrow> fst fld = object_id ob \<and>
     (case (bthome_object_spec (object_id ob), bt_value ob) of
        (Some (sz, sd, f), F_fin v) \<Rightarrow>
          of_int (field_lo sz sd) \<le> v / f \<and> v / f \<le> of_int (field_hi sz sd)
            \<longrightarrow> \<bar>of_int (snd fld) - v / f\<bar> \<le> 1 / 2 + 1 / 2 ^ 30
      | _ \<Rightarrow> True)"

lemma accurate_field_value: "accurate_field ob (object_id ob, field_value unspec ob)"
  using field_value_accuracy [of ob] by (simp add: accurate_field_def split: option.split f64.split prod.split)



lemma floor_rat_numeral: "\<lfloor>numeral a / numeral b :: rat\<rfloor> = numeral a div numeral b"
  using floor_divide_of_int_eq [of "numeral a" "numeral b", where 'a = rat] by simp

text \<open>The golden payload of the unit test: 25.06 C, 50.55 % and 93 % battery, as the doubles
  nearest to these decimals.\<close>

definition golden_objects :: "BTHomeObject list" where
  "golden_objects =
    [\<lparr>object_id = 0x02, bt_value = F_fin (7053762916369039 / 281474976710656)\<rparr>,
     \<lparr>object_id = 0x03, bt_value = F_fin (3557140018180915 / 70368744177664)\<rparr>,
     \<lparr>object_id = 0x01, bt_value = F_fin 93\<rparr>]"

lemma golden_quotients:
  "f64_div (F_fin (7053762916369039 / 281474976710656)) F_0_01 = F_fin 2506"
  "f64_div (F_fin (3557140018180915 / 70368744177664)) F_0_01 = F_fin 5055"
  "f64_div (F_fin 93) 1 = F_fin 93"
  by (simp_all add: F_0_01_def f64_round_def f64_exp_def Let_def lg_up.simps pow2_def
      round_half_even_def floor_rat_numeral)

lemma golden_bytes:
  "emit_le 2 2506 = [0xCA, 0x09]" "emit_le 2 5055 = [0xBF, 0x13]" "emit_le 1 93 = [0x5D]"
  by (simp_all add: emit_le_def upt_rec)

lemma golden_specs:
  "bthome_object_spec 0x02 = Some (2, True, F_0_01)" "bthome_object_spec 0x03 = Some (2, False, F_0_01)"
  "bthome_object_spec 0x01 = Some (1, False, 1)"
  by (simp_all add: bthome_object_spec_def spec_TABLE_def)

lemma golden_encode:
  "encode_object unspec \<lparr>object_id = 0x02, bt_value = F_fin (7053762916369039 / 281474976710656)\<rparr> = [0x02, 0xCA, 0x09]"
  "encode_object unspec \<lparr>object_id = 0x03, bt_value = F_fin (3557140018180915 / 70368744177664)\<rparr> = [0x03, 0xBF, 0x13]"
  "encode_object unspec \<lparr>object_id = 0x01, bt_value = F_fin 93\<rparr> = [0x01, 0x5D]"
  unfolding encode_object_def BTHomeObject.simps golden_specs option.case prod.case golden_quotients
  by (simp_all add: round_half_away_def clamp_raw_eq field_lo_def field_hi_def floor_rat_numeral golden_bytes
      golden_bytes(3) [simplified] del: f64_div.simps)

lemma golden_sorted:
  "sort_key object_id golden_objects =
    [\<lparr>object_id = 0x01, bt_value = F_fin 93\<rparr>,
     \<lparr>object_id = 0x02, bt_value = F_fin (7053762916369039 / 281474976710656)\<rparr>,
     \<lparr>object_id = 0x03, bt_value = F_fin (3557140018180915 / 70368744177664)\<rparr>]"
  by (simp add: golden_objects_def word_le_nat_alt)

lemma golden_payload:
  "build_bthome_payload unspec golden_objects False = [0x40, 0x01, 0x5D, 0x02, 0xCA, 0x09, 0x03, 0xBF, 0x13]"
  by (simp only: build_bthome_payload_def golden_sorted golden_encode list.map concat.simps append.simps
      BTHOME_V2_DEVICE_INFO_def if_False) simp


end
