(* ===== verification/Ble_Advert.thy ===== *)
theory Ble_Advert
  imports Ble_Device Bthome
begin

text \<open>
  The two broadcast advertisers, \<open>components/bthome_advertiser/bthome_advertiser.cpp\<close> and
  \<open>components/esp32_ble_beacon/esp32_ble_beacon.cpp\<close>: a component that, on the worker thread,
  opens a bus once, exports an \<open>LEAdvertisement1\<close> object and registers it with BlueZ. The results
  of the sd-bus calls are the arguments \<open>sdbus_env\<close>; the calls made are recorded in \<open>adv_calls\<close>.
\<close>

section \<open>State, environment and events\<close>

datatype dbus_call = ExportAdvertisement | RegisterAdvertisement | UnregisterAdvertisement

record sdbus_env =
  open_ok :: bool
  export_ok :: bool
  new_msg_ok :: bool
  dispatch_ok :: bool

record adv =
  adv_bus :: bool
  adv_slot :: bool
  bus_open :: bool
  adv_started :: bool
  start_requested :: bool
  adv_registered :: bool
  attached :: bool
  adv_payload :: bytes
  adv_calls :: "dbus_call list"

definition adv_init :: adv where
  "adv_init = \<lparr>adv_bus = False, adv_slot = False, bus_open = False, adv_started = False,
     start_requested = False, adv_registered = False, attached = False, adv_payload = [], adv_calls = []\<rparr>"

datatype adv_event =
    Ev_setup
  | Ev_process sdbus_env
  | Ev_register_reply bool
  | Ev_release
  | Ev_destroy

definition adv_call :: "dbus_call \<Rightarrow> adv \<Rightarrow> adv" where
  "adv_call c s = s\<lparr>adv_calls := adv_calls s @ [c]\<rparr>"

section \<open>BTHome advertiser\<close>

definition bthome_open_bus :: "sdbus_env \<Rightarrow> adv \<Rightarrow> bool \<times> adv" where
  "bthome_open_bus env s =
     (if bus_open s then (True, s)
      else if \<not> open_ok env then (False, s)
      else (True, s\<lparr>adv_bus := True, bus_open := True\<rparr>))"

definition bthome_register_advertisement :: "sdbus_env \<Rightarrow> adv \<Rightarrow> adv" where
  "bthome_register_advertisement env s =
     (if \<not> adv_bus s then s
      else if \<not> adv_slot s \<and> \<not> export_ok env then adv_call ExportAdvertisement s
      else let s1 = (if \<not> adv_slot s then (adv_call ExportAdvertisement s)\<lparr>adv_slot := True\<rparr> else s) in
        if \<not> new_msg_ok env then s1
        else if \<not> dispatch_ok env then s1
        else (adv_call RegisterAdvertisement s1)\<lparr>adv_registered := True\<rparr>)"

definition bthome_do_start :: "sdbus_env \<Rightarrow> adv \<Rightarrow> adv" where
  "bthome_do_start env s =
     (if adv_started s then s
      else let s1 = s\<lparr>adv_started := True\<rparr>; (ok, s2) = bthome_open_bus env s1 in
        if \<not> ok then s2 else bthome_register_advertisement env s2)"

definition bthome_worker_process_commands :: "sdbus_env \<Rightarrow> adv \<Rightarrow> adv" where
  "bthome_worker_process_commands env s =
     (let req = start_requested s; s1 = s\<lparr>start_requested := False\<rparr> in
      if req then bthome_do_start env s1 else s1)"

definition bthome_setup :: "(f64 \<Rightarrow> u64) \<Rightarrow> BTHomeObject list \<Rightarrow> bool \<Rightarrow> adv \<Rightarrow> adv" where
  "bthome_setup unspec ms enc s =
     s\<lparr>adv_payload := build_bthome_payload unspec ms enc, attached := True, start_requested := True\<rparr>"

definition bthome_on_register_adv_reply :: "bool \<Rightarrow> adv \<Rightarrow> adv" where
  "bthome_on_register_adv_reply err s = (if err then s\<lparr>adv_registered := False\<rparr> else s)"

definition bthome_unregister_advertisement :: "adv \<Rightarrow> adv" where
  "bthome_unregister_advertisement s =
     (if \<not> adv_registered s \<or> \<not> adv_bus s then s
      else (adv_call UnregisterAdvertisement s)\<lparr>adv_registered := False\<rparr>)"

definition bthome_adv_release :: "adv \<Rightarrow> adv" where
  "bthome_adv_release s = s\<lparr>adv_registered := False\<rparr>"

definition bthome_destroy :: "adv \<Rightarrow> adv" where
  "bthome_destroy s =
     (let s1 = (if attached s then s\<lparr>attached := False\<rparr> else s);
          s2 = bthome_unregister_advertisement s1
      in s2\<lparr>adv_slot := False, adv_bus := False\<rparr>)"

definition bthome_ad_estimate :: "bytes \<Rightarrow> nat" where
  "bthome_ad_estimate payload = length payload + 4 + 3 + 4"

definition bthome_adv_service_data :: "adv \<Rightarrow> (string \<times> bytes) list" where
  "bthome_adv_service_data s = [(''0000fcd2-0000-1000-8000-00805f9b34fb'', adv_payload s)]"

definition bthome_adv_type :: string where "bthome_adv_type = ''broadcast''"

definition bthome_adv_service_uuids :: "string list" where
  "bthome_adv_service_uuids = [''0000fcd2-0000-1000-8000-00805f9b34fb'']"

definition bthome_adv_includes :: "string list" where "bthome_adv_includes = []"

fun bthome_step :: "(f64 \<Rightarrow> u64) \<Rightarrow> BTHomeObject list \<Rightarrow> bool \<Rightarrow> adv_event \<Rightarrow> adv \<Rightarrow> adv" where
  "bthome_step unspec ms enc Ev_setup s = bthome_setup unspec ms enc s"
| "bthome_step unspec ms enc (Ev_process env) s = bthome_worker_process_commands env s"
| "bthome_step unspec ms enc (Ev_register_reply err) s = bthome_on_register_adv_reply err s"
| "bthome_step unspec ms enc Ev_release s = bthome_adv_release s"
| "bthome_step unspec ms enc Ev_destroy s = bthome_destroy s"

section \<open>iBeacon advertiser\<close>

record beacon_cfg =
  bc_uuid :: bytes
  bc_major :: u16
  bc_minor :: u16
  measured_power :: u8

definition build_ibeacon_payload :: "beacon_cfg \<Rightarrow> bytes" where
  "build_ibeacon_payload c =
     [0x02, 0x15] @ bc_uuid c @
     [ucast (drop_bit 8 (bc_major c)), ucast (bc_major c AND 0xFF),
      ucast (drop_bit 8 (bc_minor c)), ucast (bc_minor c AND 0xFF), measured_power c]"

definition beacon_open_bus :: "sdbus_env \<Rightarrow> adv \<Rightarrow> bool \<times> adv" where
  "beacon_open_bus env s =
     (if bus_open s then (True, s)
      else if \<not> open_ok env then (False, s)
      else (True, s\<lparr>adv_bus := True, bus_open := True\<rparr>))"

definition beacon_register_advertisement :: "sdbus_env \<Rightarrow> adv \<Rightarrow> adv" where
  "beacon_register_advertisement env s =
     (if \<not> adv_bus s then s
      else if \<not> adv_slot s \<and> \<not> export_ok env then adv_call ExportAdvertisement s
      else let s1 = (if \<not> adv_slot s then (adv_call ExportAdvertisement s)\<lparr>adv_slot := True\<rparr> else s) in
        if \<not> new_msg_ok env then s1
        else if \<not> dispatch_ok env then s1
        else (adv_call RegisterAdvertisement s1)\<lparr>adv_registered := True\<rparr>)"

definition beacon_do_start :: "sdbus_env \<Rightarrow> adv \<Rightarrow> adv" where
  "beacon_do_start env s =
     (if adv_started s then s
      else let s1 = s\<lparr>adv_started := True\<rparr>; (ok, s2) = beacon_open_bus env s1 in
        if \<not> ok then s2 else beacon_register_advertisement env s2)"

definition beacon_worker_process_commands :: "sdbus_env \<Rightarrow> adv \<Rightarrow> adv" where
  "beacon_worker_process_commands env s =
     (let req = start_requested s; s1 = s\<lparr>start_requested := False\<rparr> in
      if req then beacon_do_start env s1 else s1)"

definition beacon_setup :: "beacon_cfg \<Rightarrow> adv \<Rightarrow> adv" where
  "beacon_setup c s = s\<lparr>adv_payload := build_ibeacon_payload c, start_requested := True\<rparr>"

definition beacon_on_register_adv_reply :: "bool \<Rightarrow> adv \<Rightarrow> adv" where
  "beacon_on_register_adv_reply err s = (if err then s\<lparr>adv_registered := False\<rparr> else s)"

definition beacon_adv_release :: "adv \<Rightarrow> adv" where
  "beacon_adv_release s = s\<lparr>adv_registered := False\<rparr>"

definition beacon_adv_manufacturer_data :: "adv \<Rightarrow> (u16 \<times> bytes) list" where
  "beacon_adv_manufacturer_data s = [(0x004C, adv_payload s)]"

definition beacon_adv_type :: string where "beacon_adv_type = ''broadcast''"

definition beacon_adv_includes :: "string list" where "beacon_adv_includes = []"

text \<open>The class has no destructor of its own: \<open>Ev_destroy\<close> changes nothing at BlueZ.\<close>

fun beacon_step :: "beacon_cfg \<Rightarrow> adv_event \<Rightarrow> adv \<Rightarrow> adv" where
  "beacon_step c Ev_setup s = beacon_setup c s"
| "beacon_step c (Ev_process env) s = beacon_worker_process_commands env s"
| "beacon_step c (Ev_register_reply err) s = beacon_on_register_adv_reply err s"
| "beacon_step c Ev_release s = beacon_adv_release s"
| "beacon_step c Ev_destroy s = s"

section \<open>The contract both advertisers keep\<close>

definition adv_inv :: "adv \<Rightarrow> bool" where
  "adv_inv s \<longleftrightarrow>
     count_list (adv_calls s) RegisterAdvertisement \<le> (if adv_started s then 1 else 0) \<and>
     (adv_registered s \<longrightarrow> adv_started s \<and> adv_bus s \<and> RegisterAdvertisement \<in> set (adv_calls s))"

text \<open>
  A one-shot advertiser: its steps keep \<open>adv_inv\<close> and never take back the start. The client
  lemmas speak of whole event sequences.
\<close>

locale one_shot_advertiser =
  fixes step :: "adv_event \<Rightarrow> adv \<Rightarrow> adv"
  assumes step_inv: "adv_inv s \<Longrightarrow> adv_inv (step e s)"
    and step_started: "adv_started s \<Longrightarrow> adv_started (step e s)"
    and step_calls: "\<exists>cs. adv_calls (step e s) = adv_calls s @ cs"
begin

lemma run_inv: "adv_inv s \<Longrightarrow> adv_inv (fold step es s)"
  by (induction es arbitrary: s) (simp_all add: step_inv)

lemma run_calls: "\<exists>cs. adv_calls (fold step es s) = adv_calls s @ cs"
proof (induction es arbitrary: s)
  case (Cons e es)
  from Cons [of "step e s"] step_calls [of e s] show ?case by auto
qed simp

lemma at_most_once: "count_list (adv_calls (fold step es adv_init)) RegisterAdvertisement \<le> 1"
  using run_inv [of adv_init es] by (auto simp: adv_inv_def adv_init_def split: if_splits)

text \<open>Once the single registration has been sent, no later event sends another one.\<close>

lemma never_again:
  assumes "adv_inv s" "RegisterAdvertisement \<in> set (adv_calls s)"
  shows "\<exists>cs. adv_calls (fold step es s) = adv_calls s @ cs \<and> RegisterAdvertisement \<notin> set cs"
proof -
  obtain cs where cs: "adv_calls (fold step es s) = adv_calls s @ cs" using run_calls by blast
  have "count_list (adv_calls (fold step es s)) RegisterAdvertisement \<le> 1"
    using run_inv [OF assms(1), of es] by (auto simp: adv_inv_def split: if_splits)
  moreover have "0 < count_list (adv_calls s) RegisterAdvertisement"
    using assms(2) by (simp add: count_list_0_iff zero_less_iff_neq_zero)
  ultimately have "count_list cs RegisterAdvertisement = 0" by (simp add: cs)
  then show ?thesis using cs by (auto simp: count_list_0_iff)
qed

end

lemmas bthome_defs = bthome_open_bus_def bthome_register_advertisement_def bthome_do_start_def
  bthome_worker_process_commands_def bthome_setup_def bthome_on_register_adv_reply_def
  bthome_unregister_advertisement_def bthome_adv_release_def bthome_destroy_def adv_call_def Let_def

lemmas beacon_defs = beacon_open_bus_def beacon_register_advertisement_def beacon_do_start_def
  beacon_worker_process_commands_def beacon_setup_def beacon_on_register_adv_reply_def
  beacon_adv_release_def adv_call_def Let_def

interpretation bthome: one_shot_advertiser "bthome_step unspec ms enc"
proof
  fix s :: adv and e :: adv_event
  show "adv_inv s \<Longrightarrow> adv_inv (bthome_step unspec ms enc e s)"
    by (cases e) (auto simp: adv_inv_def bthome_defs split: if_splits)
  show "adv_started s \<Longrightarrow> adv_started (bthome_step unspec ms enc e s)"
    by (cases e) (auto simp: bthome_defs)
  show "\<exists>cs. adv_calls (bthome_step unspec ms enc e s) = adv_calls s @ cs"
    by (cases e) (auto simp: bthome_defs)
qed

interpretation beacon: one_shot_advertiser "beacon_step cfg"
proof
  fix s :: adv and e :: adv_event
  show "adv_inv s \<Longrightarrow> adv_inv (beacon_step cfg e s)"
    by (cases e) (auto simp: adv_inv_def beacon_defs split: if_splits)
  show "adv_started s \<Longrightarrow> adv_started (beacon_step cfg e s)"
    by (cases e) (auto simp: beacon_defs)
  show "\<exists>cs. adv_calls (beacon_step cfg e s) = adv_calls s @ cs"
    by (cases e) (auto simp: beacon_defs)
qed

lemma get_major_eq: "get_major b = le16 (ucast (drop_bit 8 (ib_major b))) (ucast (ib_major b))"
  and get_minor_eq: "get_minor b = le16 (ucast (drop_bit 8 (ib_minor b))) (ucast (ib_minor b))"
proof -
  have "drop_bit 8 v OR push_bit 8 (v AND 0xff) = le16 (ucast (drop_bit 8 v)) (ucast v)" for v :: u16
  proof -
    have m: "(0xff :: u16) = mask 8" by (simp add: mask_eq_exp_minus_1)
    show ?thesis unfolding m by (rule bit_word_eqI) (auto simp: le16_def bit_simps dest: bit_imp_le_length)
  qed
  then show "get_major b = le16 (ucast (drop_bit 8 (ib_major b))) (ucast (ib_major b))"
    "get_minor b = le16 (ucast (drop_bit 8 (ib_minor b))) (ucast (ib_minor b))"
    by (simp_all only: get_major_def get_minor_def)
qed

section \<open>Properties\<close>

text \<open>C11. Whatever the order of setup, worker passes, BlueZ replies, releases and teardown, and
  whatever sd-bus returns, each advertiser sends \<open>RegisterAdvertisement\<close> at most once in its
  life, and considers itself registered only if it did: a release or an error reply is never
  followed by a new registration.\<close>

theorem advertisers_register_once:
  "count_list (adv_calls (fold (bthome_step unspec ms enc) es adv_init)) RegisterAdvertisement \<le> 1 \<and>
   count_list (adv_calls (fold (beacon_step cfg) es adv_init)) RegisterAdvertisement \<le> 1 \<and>
   adv_inv (fold (bthome_step unspec ms enc) es adv_init) \<and> adv_inv (fold (beacon_step cfg) es adv_init)"
  using bthome.at_most_once [of unspec ms enc es] beacon.at_most_once [of cfg es]
    bthome.run_inv [of adv_init unspec ms enc es] beacon.run_inv [of adv_init cfg es]
  by (simp add: adv_inv_def adv_init_def)

text \<open>A healthy start registers: setup and one worker pass with every sd-bus call
  succeeding export the object, send the registration once, and expose the encoded payload as the
  service data of UUID 0xFCD2; teardown then withdraws it, so no advertising instance leaks.\<close>

theorem bthome_lifecycle:
  assumes "open_ok env" "export_ok env" "new_msg_ok env" "dispatch_ok env"
  shows "let s = fold (bthome_step unspec ms enc) [Ev_setup, Ev_process env] adv_init in
     adv_calls s = [ExportAdvertisement, RegisterAdvertisement] \<and> adv_registered s \<and>
     bthome_adv_service_data s = [(to_str (from_uint16 0xfcd2), build_bthome_payload unspec ms enc)] \<and>
     adv_calls (bthome_step unspec ms enc Ev_destroy s) =
       [ExportAdvertisement, RegisterAdvertisement, UnregisterAdvertisement] \<and>
     \<not> adv_registered (bthome_step unspec ms enc Ev_destroy s)"
proof -
  have u: "to_str (from_uint16 0xfcd2) = ''0000fcd2-0000-1000-8000-00805f9b34fb''" by code_simp
  show ?thesis unfolding u using assms
    by (simp add: bthome_defs adv_init_def bthome_adv_service_data_def)
qed

theorem bthome_lifecycle_witness:
  "let s = fold (bthome_step (\<lambda>_. 0) [] False)
       [Ev_setup, Ev_process \<lparr>open_ok = True, export_ok = True, new_msg_ok = True, dispatch_ok = True\<rparr>] adv_init in
     adv_calls s = [ExportAdvertisement, RegisterAdvertisement] \<and> adv_registered s \<and>
     bthome_adv_service_data s = [(to_str (from_uint16 0xfcd2), build_bthome_payload (\<lambda>_. 0) [] False)] \<and>
     adv_calls (bthome_step (\<lambda>_. 0) [] False Ev_destroy s) =
       [ExportAdvertisement, RegisterAdvertisement, UnregisterAdvertisement] \<and>
     \<not> adv_registered (bthome_step (\<lambda>_. 0) [] False Ev_destroy s)"
  by (rule bthome_lifecycle) simp_all

text \<open>The identity \<open>dump_config\<close> logs is the canonical form of the UUID receivers read.\<close>

definition beacon_dump_uuid :: "beacon_cfg \<Rightarrow> string" where
  "beacon_dump_uuid c = concat (map (\<lambda>ii.
     [hex_lc (unat (drop_bit 4 (bc_uuid c ! ii))), hex_lc (unat (bc_uuid c ! ii AND 0x0F))]
     @ (if ii = 3 \<or> ii = 5 \<or> ii = 7 \<or> ii = 9 then ''-'' else [])) [0..<16])"

lemma byte_digits: "[hex_lc (unat (drop_bit 4 b)), hex_lc (unat ((b :: u8) AND 0x0F))] = fmt_02x b"
proof -
  have "b AND 0x0F = take_bit 4 b" by (simp add: take_bit_eq_mask mask_eq_exp_minus_1)
  then show ?thesis by (simp add: fmt_02x_def unsigned_drop_bit_eq take_bit_eq_mod drop_bit_eq_div unat_mod unat_div)
qed

lemma beacon_dump_canonical:
  assumes "length (bc_uuid c) = 16"
  shows "beacon_dump_uuid c = to_str (from_raw_reversed (bc_uuid c))"
proof -
  from assms obtain a b e f g h i j k l m n p q r t where
    u: "bc_uuid c = [a, b, e, f, g, h, i, j, k, l, m, n, p, q, r, t]" by (rule list16E)
  show ?thesis
    unfolding beacon_dump_uuid_def byte_digits
    by (simp add: u to_str_def as_128bit_id from_raw_reversed_def uuid_dashed_def upt_rec)
qed

text \<open>Round trip on the air: the manufacturer data a beacon advertises, received by the tracker
  as BlueZ properties, is recognised as an iBeacon with the configured major, minor, measured
  power and proximity UUID.\<close>

theorem ibeacon_roundtrip:
  assumes "length (bc_uuid c) = 16"
  shows "\<exists>b. get_ibeacon (fst (parse_device1_props
            [P_ManufacturerData (beacon_adv_manufacturer_data (beacon_step c Ev_setup s))] device_default)) = Some b \<and>
     get_major b = bc_major c \<and> get_minor b = bc_minor c \<and>
     signal_power b = int8_of (measured_power c) \<and> to_str (ibeacon_uuid b) = uuid_dashed fmt_02x (bc_uuid c)"
proof -
  from assms obtain a b e f g h i j k l m n p q r t where
    u: "bc_uuid c = [a, b, e, f, g, h, i, j, k, l, m, n, p, q, r, t]" by (rule list16E)
  show ?thesis
    by (simp add: parse_device1_props_def prop_step_def get_ibeacon_def beacon_adv_manufacturer_data_def beacon_setup_def
        build_ibeacon_payload_def u add_manufacturer_data_def device_default_def from_manufacturer_data_def Let_def
        ibeacon_of_def get_major_eq get_minor_eq byte_simps ibeacon_uuid_def to_str_def
        as_128bit_id from_raw_reversed_def upt_rec)
qed

theorem ibeacon_roundtrip_witness:
  "\<exists>b. get_ibeacon (fst (parse_device1_props
        [P_ManufacturerData (beacon_adv_manufacturer_data (beacon_step
           \<lparr>bc_uuid = replicate 16 0xAB, bc_major = 10, bc_minor = 20, measured_power = 0xC5\<rparr> Ev_setup adv_init))]
        device_default)) = Some b \<and>
     get_major b = 10 \<and> get_minor b = 20 \<and> signal_power b = - 59 \<and>
     to_str (ibeacon_uuid b) = uuid_dashed fmt_02x (replicate 16 0xAB)"
  using ibeacon_roundtrip [of "\<lparr>bc_uuid = replicate 16 0xAB, bc_major = 10, bc_minor = 20, measured_power = 0xC5\<rparr>" adv_init]
  by (simp add: int8_of_def)

end
