(* ===== verification/Server_Objects.thy ===== *)
theory Server_Objects
  imports Ble_Uuid
begin

text \<open>
  The objects of a GATT server as the application builds them: \<open>BLEService\<close>, \<open>BLECharacteristic\<close> and
  \<open>BLEDescriptor\<close> of \<open>components/esp32_ble_server\<close>, and the advertisement that \<open>ESP32BLE\<close>
  (\<open>components/esp32_ble/ble.cpp\<close>) assembles for its backend.

  The objects refer to each other by pointers and are shared with the worker's exported tree; a pointer
  is an index into the store \<open>srv_objects\<close>, and allocation appends. User callbacks are parameters where
  they are called: the value of the characteristic after the callback.
\<close>

section \<open>Descriptors\<close>

record srv_desc =
  dsc_uuid :: ESPBTUUID
  dsc_value :: bytes
  dsc_max_len :: u16
  dsc_read :: bool
  dsc_write :: bool
  dsc_chr :: "nat option"
  dsc_created :: bool

definition new_desc :: "ESPBTUUID \<Rightarrow> u16 \<Rightarrow> bool \<Rightarrow> bool \<Rightarrow> srv_desc" where
  "new_desc u max_len r w = \<lparr>dsc_uuid = u, dsc_value = [], dsc_max_len = max_len, dsc_read = r, dsc_write = w,
     dsc_chr = None, dsc_created = False\<rparr>"

definition desc_set_value :: "bytes \<Rightarrow> srv_desc \<Rightarrow> srv_desc" where
  "desc_set_value data d = (if unat (dsc_max_len d) < length data then d else d\<lparr>dsc_value := data\<rparr>)"

definition ble2902 :: srv_desc where
  "ble2902 = desc_set_value [0, 0] (new_desc (from_uint16 0x2902) 2 True True)"

definition desc_do_create :: "nat \<Rightarrow> srv_desc \<Rightarrow> srv_desc" where
  "desc_do_create c d = d\<lparr>dsc_chr := Some c, dsc_created := True\<rparr>"

text \<open>A write of a client; the write callback of a descriptor cannot reach its value.\<close>

definition desc_host_on_write :: "bytes \<Rightarrow> srv_desc \<Rightarrow> srv_desc" where
  "desc_host_on_write data d = d\<lparr>dsc_value := data\<rparr>"

section \<open>Characteristics\<close>

definition PROPERTY_READ :: u32 where "PROPERTY_READ = 1"
definition PROPERTY_WRITE :: u32 where "PROPERTY_WRITE = 2"
definition PROPERTY_NOTIFY :: u32 where "PROPERTY_NOTIFY = 4"
definition PROPERTY_BROADCAST :: u32 where "PROPERTY_BROADCAST = 8"
definition PROPERTY_INDICATE :: u32 where "PROPERTY_INDICATE = 16"
definition PROPERTY_WRITE_NR :: u32 where "PROPERTY_WRITE_NR = 32"

record srv_char =
  sc_uuid :: ESPBTUUID
  sc_props :: u32
  sc_value :: bytes
  sc_descs :: "nat list"
  sc_service :: "nat option"
  sc_gatt_server :: bool
  sc_object_path :: string
  sc_created :: bool

definition set_property_bit :: "u32 \<Rightarrow> bool \<Rightarrow> srv_char \<Rightarrow> srv_char" where
  "set_property_bit b v c = c\<lparr>sc_props := (if v then sc_props c OR b else sc_props c AND (NOT b))\<rparr>"

definition new_char :: "ESPBTUUID \<Rightarrow> u32 \<Rightarrow> srv_char" where
  "new_char u p =
    (let c0 = \<lparr>sc_uuid = u, sc_props = 0, sc_value = [], sc_descs = [], sc_service = None,
        sc_gatt_server = False, sc_object_path = [], sc_created = False\<rparr>;
         c1 = set_property_bit PROPERTY_BROADCAST (p AND PROPERTY_BROADCAST \<noteq> 0) c0;
         c2 = set_property_bit PROPERTY_INDICATE (p AND PROPERTY_INDICATE \<noteq> 0) c1;
         c3 = set_property_bit PROPERTY_NOTIFY (p AND PROPERTY_NOTIFY \<noteq> 0) c2;
         c4 = set_property_bit PROPERTY_READ (p AND PROPERTY_READ \<noteq> 0) c3;
         c5 = set_property_bit PROPERTY_WRITE (p AND PROPERTY_WRITE \<noteq> 0) c4
     in set_property_bit PROPERTY_WRITE_NR (p AND PROPERTY_WRITE_NR \<noteq> 0) c5)"

definition char_set_value :: "bytes \<Rightarrow> srv_char \<Rightarrow> srv_char" where
  "char_set_value data c = c\<lparr>sc_value := data\<rparr>"

definition add_descriptor :: "nat \<Rightarrow> srv_char \<Rightarrow> srv_char" where
  "add_descriptor d c = c\<lparr>sc_descs := sc_descs c @ [d]\<rparr>"

definition remove_descriptor :: "nat \<Rightarrow> srv_char \<Rightarrow> srv_char" where
  "remove_descriptor d c = c\<lparr>sc_descs := filter (\<lambda>x. x \<noteq> d) (sc_descs c)\<rparr>"

text \<open>\<open>host_on_read\<close> and \<open>host_on_write\<close>: \<open>cb\<close> is the value after the callback, if there is one, for the
  connection, the data and the value before.\<close>

definition char_host_on_read :: "(u16 \<Rightarrow> bytes \<Rightarrow> bytes) option \<Rightarrow> u16 \<Rightarrow> srv_char \<Rightarrow> srv_char" where
  "char_host_on_read cb conn_id c = (case cb of None \<Rightarrow> c | Some f \<Rightarrow> c\<lparr>sc_value := f conn_id (sc_value c)\<rparr>)"

definition char_host_on_write :: "(bytes \<Rightarrow> u16 \<Rightarrow> bytes \<Rightarrow> bytes) option \<Rightarrow> bytes \<Rightarrow> u16 \<Rightarrow> srv_char \<Rightarrow> srv_char" where
  "char_host_on_write cb data conn_id c =
    (let c1 = c\<lparr>sc_value := data\<rparr> in
     case cb of None \<Rightarrow> c1 | Some f \<Rightarrow> c1\<lparr>sc_value := f data conn_id (sc_value c1)\<rparr>)"

definition host_has_notify :: "srv_char \<Rightarrow> bool" where
  "host_has_notify c \<longleftrightarrow> sc_props c AND (PROPERTY_NOTIFY OR PROPERTY_INDICATE) \<noteq> 0"

section \<open>Services and the store\<close>

datatype service_state = SVC_INIT | SVC_CREATED | SVC_RUNNING

record srv_service =
  sv_uuid :: ESPBTUUID
  sv_chars :: "nat list"
  sv_inst_id :: u8
  sv_advertise :: bool
  sv_server :: bool
  sv_state :: service_state

record srv_objects =
  ob_descs :: "srv_desc list"
  ob_chars :: "srv_char list"
  ob_services :: "srv_service list"

definition new_service :: "ESPBTUUID \<Rightarrow> u8 \<Rightarrow> bool \<Rightarrow> srv_service" where
  "new_service u inst advertise =
     \<lparr>sv_uuid = u, sv_chars = [], sv_inst_id = inst, sv_advertise = advertise, sv_server = False, sv_state = SVC_INIT\<rparr>"

definition service_get_char :: "srv_objects \<Rightarrow> ESPBTUUID \<Rightarrow> srv_service \<Rightarrow> nat option" where
  "service_get_char ob u s = List.find (\<lambda>c. uuid_eq (sc_uuid (ob_chars ob ! c)) u) (sv_chars s)"

definition create_characteristic :: "nat \<Rightarrow> ESPBTUUID \<Rightarrow> u32 \<Rightarrow> srv_objects \<Rightarrow> nat \<times> srv_objects" where
  "create_characteristic s u p ob =
    (let c = length (ob_chars ob); svc = ob_services ob ! s
     in (c, ob\<lparr>ob_chars := ob_chars ob @ [new_char u p],
              ob_services := (ob_services ob)[s := svc\<lparr>sv_chars := sv_chars svc @ [c]\<rparr>]\<rparr>))"

definition on_desc :: "nat \<Rightarrow> (srv_desc \<Rightarrow> srv_desc) \<Rightarrow> srv_objects \<Rightarrow> srv_objects" where
  "on_desc d f ob = ob\<lparr>ob_descs := (ob_descs ob)[d := f (ob_descs ob ! d)]\<rparr>"

definition on_char :: "nat \<Rightarrow> (srv_char \<Rightarrow> srv_char) \<Rightarrow> srv_objects \<Rightarrow> srv_objects" where
  "on_char c f ob = ob\<lparr>ob_chars := (ob_chars ob)[c := f (ob_chars ob ! c)]\<rparr>"

definition on_service :: "nat \<Rightarrow> (srv_service \<Rightarrow> srv_service) \<Rightarrow> srv_objects \<Rightarrow> srv_objects" where
  "on_service s f ob = ob\<lparr>ob_services := (ob_services ob)[s := f (ob_services ob ! s)]\<rparr>"

definition char_do_create :: "nat \<Rightarrow> nat \<Rightarrow> srv_objects \<Rightarrow> srv_objects" where
  "char_do_create s c ob =
    (let ob1 = on_char c (\<lambda>x. x\<lparr>sc_service := Some s\<rparr>) ob;
         ob2 = fold (\<lambda>d. on_desc d (desc_do_create c)) (sc_descs (ob_chars ob1 ! c)) ob1
     in on_char c (\<lambda>x. x\<lparr>sc_created := True\<rparr>) ob2)"

definition service_do_create :: "nat \<Rightarrow> srv_objects \<Rightarrow> srv_objects" where
  "service_do_create s ob =
     on_service s (\<lambda>x. x\<lparr>sv_server := True, sv_state := SVC_CREATED\<rparr>) (fold (char_do_create s) (sv_chars (ob_services ob ! s)) ob)"

section \<open>The advertisement\<close>

record host_adv =
  ha_manufacturer_data :: bytes
  ha_manufacturer_company :: u16
  ha_service_data :: bytes
  ha_service_uuids :: "ESPBTUUID list"
  ha_appearance :: u16
  ha_local_name :: string
  ha_include_name :: bool
  ha_active :: bool

text \<open>\<open>eb_pushed\<close> are the advertisements handed to the backend, in order; raw advertisement callbacks are
  counted.\<close>

record esp32_ble =
  eb_adv :: host_adv
  eb_backend :: bool
  eb_pushed :: "host_adv list"
  eb_raw_callbacks :: nat
  eb_raw_calls :: nat

definition push_advertising :: "esp32_ble \<Rightarrow> esp32_ble" where
  "push_advertising e = (if eb_backend e then e\<lparr>eb_pushed := eb_pushed e @ [eb_adv e]\<rparr> else e)"

definition advertising_start :: "esp32_ble \<Rightarrow> esp32_ble" where
  "advertising_start e = push_advertising
     (e\<lparr>eb_adv := (eb_adv e)\<lparr>ha_active := True\<rparr>, eb_raw_calls := eb_raw_calls e + eb_raw_callbacks e\<rparr>)"

definition advertising_set_service_data :: "bytes \<Rightarrow> esp32_ble \<Rightarrow> esp32_ble" where
  "advertising_set_service_data d e = push_advertising (e\<lparr>eb_adv := (eb_adv e)\<lparr>ha_service_data := d\<rparr>\<rparr>)"

definition advertising_set_manufacturer_data :: "bytes \<Rightarrow> esp32_ble \<Rightarrow> esp32_ble" where
  "advertising_set_manufacturer_data d e = push_advertising (e\<lparr>eb_adv := (eb_adv e)\<lparr>ha_manufacturer_data := d\<rparr>\<rparr>)"

definition advertising_set_appearance :: "u16 \<Rightarrow> esp32_ble \<Rightarrow> esp32_ble" where
  "advertising_set_appearance a e = e\<lparr>eb_adv := (eb_adv e)\<lparr>ha_appearance := a\<rparr>\<rparr>"

definition advertising_set_service_data_and_name :: "bytes \<Rightarrow> bool \<Rightarrow> esp32_ble \<Rightarrow> esp32_ble" where
  "advertising_set_service_data_and_name d n e =
     push_advertising (e\<lparr>eb_adv := (eb_adv e)\<lparr>ha_service_data := d, ha_include_name := n\<rparr>\<rparr>)"

definition advertising_add_service_uuid :: "ESPBTUUID \<Rightarrow> esp32_ble \<Rightarrow> esp32_ble" where
  "advertising_add_service_uuid u e =
    (if list_ex (\<lambda>v. uuid_eq v u) (ha_service_uuids (eb_adv e)) then e
     else push_advertising (e\<lparr>eb_adv := (eb_adv e)\<lparr>ha_service_uuids := ha_service_uuids (eb_adv e) @ [u]\<rparr>\<rparr>))"

fun remove_uuid :: "ESPBTUUID \<Rightarrow> ESPBTUUID list \<Rightarrow> ESPBTUUID list" where
  "remove_uuid u [] = []"
| "remove_uuid u (v # vs) = (if uuid_eq v u then vs else v # remove_uuid u vs)"

definition advertising_remove_service_uuid :: "ESPBTUUID \<Rightarrow> esp32_ble \<Rightarrow> esp32_ble" where
  "advertising_remove_service_uuid u e =
     push_advertising (e\<lparr>eb_adv := (eb_adv e)\<lparr>ha_service_uuids := remove_uuid u (ha_service_uuids (eb_adv e))\<rparr>\<rparr>)"

definition register_raw_advertisement_callback :: "esp32_ble \<Rightarrow> esp32_ble" where
  "register_raw_advertisement_callback e = e\<lparr>eb_raw_callbacks := eb_raw_callbacks e + 1\<rparr>"

definition service_start :: "nat \<Rightarrow> srv_objects \<times> esp32_ble \<Rightarrow> srv_objects \<times> esp32_ble" where
  "service_start s p = (case p of (ob, e) \<Rightarrow>
     (on_service s (\<lambda>x. x\<lparr>sv_state := SVC_RUNNING\<rparr>) ob,
      if sv_advertise (ob_services ob ! s) \<and> sv_server (ob_services ob ! s)
      then advertising_add_service_uuid (sv_uuid (ob_services ob ! s)) e else e))"

section \<open>Properties of the objects\<close>

lemma remove_descriptor_gone: "d \<notin> set (sc_descs (remove_descriptor d c))"
  by (simp add: remove_descriptor_def)

end
