(* ===== verification/Text.thy ===== *)
theory Text
  imports Prelude
begin

text \<open>
  The string functions of the C and C++ standard library that the components use, on strings as
  character lists: \<open>std::string::find\<close>, C strings that end at the first NUL, \<open>snprintf\<close> with its
  buffer limit, decimal printing and \<open>strtoul\<close>, \<open>tolower\<close>. With them the lemmas on searching in
  concatenations, and the round trip of decimal numbers.
\<close>

named_theorems text_simps \<open>searching and cutting strings\<close>

section \<open>Searching\<close>

fun strfind :: "string \<Rightarrow> string \<Rightarrow> nat option" where
  "strfind p [] = (if p = [] then Some 0 else None)"
| "strfind p (c # s) = (if take (length p) (c # s) = p then Some 0 else map_option Suc (strfind p s))"

definition find_from :: "string \<Rightarrow> string \<Rightarrow> nat \<Rightarrow> nat option" where
  "find_from p s i = (if i \<le> length s then map_option ((+) i) (strfind p (drop i s)) else None)"

definition cstr :: "string \<Rightarrow> string" where
  "cstr s = takeWhile (\<lambda>c. c \<noteq> CHR 0x00) s"

definition snprintf :: "nat \<Rightarrow> string \<Rightarrow> string" where
  "snprintf n s = take (n - 1) s"

definition CRLF :: string where
  "CRLF = [CHR 0x0D, CHR 0x0A]"

lemma strfind_bound: "strfind p s = Some i \<Longrightarrow> i + length p \<le> length s"
proof (induction s arbitrary: i)
  case Nil then show ?case by (simp split: if_splits)
next
  case (Cons c s)
  show ?case
  proof (cases "take (length p) (c # s) = p")
    case True
    then have "length p \<le> length (c # s)" by (metis length_take min.cobounded1)
    then show ?thesis using Cons.prems True by simp
  next
    case False then show ?thesis using Cons by auto
  qed
qed

lemma strfind_match: "strfind p s = Some i \<Longrightarrow> take (length p) (drop i s) = p"
  by (induction s arbitrary: i) (auto split: if_splits)

lemma strfind_char_None [text_simps]: "strfind [c] s = None \<longleftrightarrow> c \<notin> set s"
  by (induction s) (auto split: if_splits)

lemma strfind_char [text_simps]: "c \<notin> set a \<Longrightarrow> strfind [c] (a @ c # b) = Some (length a)"
  by (induction a) auto

lemma strfind_None_take: "strfind p s = None \<Longrightarrow> i < length s \<Longrightarrow> take (length p) (drop i s) \<noteq> p"
proof (induction s arbitrary: i)
  case Nil then show ?case by simp
next
  case (Cons c s) then show ?case by (cases i) (auto split: if_splits)
qed

text \<open>A pattern whose first character does not occur before is found where it starts.\<close>

lemma strfind_skip:
  "p \<noteq> [] \<Longrightarrow> hd p \<notin> set a \<Longrightarrow> strfind p (a @ b) = map_option ((+) (length a)) (strfind p b)"
proof (induction a)
  case Nil then show ?case by (simp add: option.map_ident_strong)
next
  case (Cons c a)
  have "take (length p) (c # a @ b) \<noteq> p"
    using Cons.prems by (cases p) auto
  then show ?case using Cons by (simp add: option.map_comp comp_def)
qed

lemma strfind_here: "p \<noteq> [] \<Longrightarrow> strfind p (p @ b) = Some 0"
  by (cases p) auto

lemma strfind_line: "p \<noteq> [] \<Longrightarrow> hd p \<notin> set a \<Longrightarrow> strfind p (a @ p @ b) = Some (length a)"
  by (simp add: strfind_skip strfind_here)

lemma strfind_none: "p \<noteq> [] \<Longrightarrow> hd p \<notin> set a \<Longrightarrow> strfind p a = None"
  using strfind_skip [of p a "[]"] by simp

text \<open>More input does not move the first occurrence.\<close>

lemma strfind_append: "strfind p s = Some i \<Longrightarrow> strfind p (s @ t) = Some i"
proof (induction s arbitrary: i)
  case Nil then show ?case by (cases t) (auto split: if_splits)
next
  case (Cons c s)
  show ?case
  proof (cases "take (length p) (c # s) = p")
    case True
    then have "length p \<le> length (c # s)" by (metis length_take min.cobounded1)
    then have "take (length p) (c # s @ t) = p" using True by (metis append_Cons take_all_iff take_append
          append_Nil2 diff_is_0_eq' take0)
    then show ?thesis using True Cons.prems by simp
  next
    case False
    then obtain j where j: "strfind p s = Some j" "i = Suc j" using Cons.prems by auto
    show ?thesis
    proof (cases "take (length p) (c # s @ t) = p")
      case True
      have "j + length p \<le> length s" by (rule strfind_bound [OF j(1)])
      then have "take (length p) (c # s @ t) = take (length p) (c # s)"
        by (metis append_Cons le_add2 le_SucI length_Cons order_trans take_append append_Nil2 diff_is_0_eq' take0)
      then show ?thesis using True False by simp
    next
      case F: False
      then show ?thesis using Cons.IH [OF j(1)] j(2) by simp
    qed
  qed
qed

section \<open>Characters\<close>

definition tolower :: "char \<Rightarrow> char" where
  "tolower c = (if 65 \<le> (of_char c :: nat) \<and> (of_char c :: nat) \<le> 90 then char_of ((of_char c :: nat) + 32) else c)"

definition lowercase :: "string \<Rightarrow> string" where
  "lowercase s = map tolower s"

definition is_digit :: "char \<Rightarrow> bool" where
  "is_digit c \<longleftrightarrow> 48 \<le> (of_char c :: nat) \<and> (of_char c :: nat) \<le> 57"

definition isspace :: "char \<Rightarrow> bool" where
  "isspace c \<longleftrightarrow> c = CHR '' '' \<or> (9 \<le> (of_char c :: nat) \<and> (of_char c :: nat) \<le> 13)"

lemma tolower_idem [simp]: "tolower (tolower c) = tolower c"
  by (auto simp: tolower_def of_char_of)

lemma lowercase_idem [simp]: "lowercase (lowercase s) = lowercase s"
  by (simp add: lowercase_def)

section \<open>Decimal numbers\<close>

fun dec :: "nat \<Rightarrow> string" where
  "dec n = (if n < 10 then [char_of (48 + n)] else dec (n div 10) @ [char_of (48 + n mod 10)])"

declare dec.simps [simp del]

definition dec_val :: "string \<Rightarrow> nat" where
  "dec_val s = foldl (\<lambda>v c. 10 * v + ((of_char c :: nat) - 48)) 0 s"

text \<open>\<open>strtoul (s, &endptr, 10)\<close> with \<open>unsigned long\<close> of 64 bits: \<open>None\<close> when no digit was read or the
  value is out of range (\<open>errno = ERANGE\<close>); a minus sign negates the value in \<open>unsigned long\<close>.\<close>

definition strtoul :: "string \<Rightarrow> u64 option" where
  "strtoul s = (let s1 = dropWhile isspace (cstr s);
      neg = (s1 \<noteq> [] \<and> hd s1 = CHR ''-'');
      s2 = (if s1 \<noteq> [] \<and> (hd s1 = CHR ''-'' \<or> hd s1 = CHR ''+'') then tl s1 else s1);
      ds = takeWhile is_digit s2
    in if ds = [] \<or> 2 ^ 64 \<le> dec_val ds then None
       else Some (if neg then - of_nat (dec_val ds) else of_nat (dec_val ds)))"

lemma dec_digits: "list_all is_digit (dec n)"
proof (induction n rule: dec.induct)
  case (1 n)
  show ?case
  proof (cases "n < 10")
    case True then show ?thesis by (subst dec.simps) (simp add: is_digit_def of_char_of)
  next
    case False
    have "is_digit (char_of (48 + n mod 10))" by (simp add: is_digit_def of_char_of less_Suc_eq_le [symmetric])
    then show ?thesis using 1 [OF False] False by (subst dec.simps) simp
  qed
qed

lemma dec_not_Nil [simp]: "dec n \<noteq> []"
  by (subst dec.simps) simp

lemma dec_val_dec [simp]: "dec_val (dec n) = n"
proof (induction n rule: dec.induct)
  case (1 n)
  show ?case
  proof (cases "n < 10")
    case True then show ?thesis by (subst dec.simps) (simp add: dec_val_def of_char_of)
  next
    case False
    have "dec_val (dec n) = 10 * dec_val (dec (n div 10)) + n mod 10"
      using False by (subst dec.simps) (simp add: dec_val_def of_char_of)
    then show ?thesis using 1 [OF False] by simp
  qed
qed

lemma digit_plain:
  assumes "is_digit c"
  shows "\<not> isspace c" "c \<noteq> CHR ''-''" "c \<noteq> CHR ''+''" "c \<noteq> CHR 0x00" "c \<noteq> CHR 0x0A" "c \<noteq> CHR 0x0D" "c \<noteq> CHR '' ''"
    "c \<noteq> CHR 0x09"
  using assms by (auto simp: is_digit_def isspace_def)

lemma set_dec: "c \<in> set (dec n) \<Longrightarrow> is_digit c"
  using dec_digits [of n] by (simp add: list_all_iff)

lemma dec_plain [simp]:
  "CHR 0x0D \<notin> set (dec n)" "CHR 0x0A \<notin> set (dec n)" "hd (dec n) \<noteq> CHR '' ''" "hd (dec n) \<noteq> CHR 0x09"
  using set_dec [of _ n] digit_plain hd_in_set [OF dec_not_Nil, of n] by metis+

lemma length_dec: "0 < n \<Longrightarrow> n < 10 ^ k \<Longrightarrow> length (dec n) \<le> k"
proof (induction k arbitrary: n)
  case 0 then show ?case by simp
next
  case (Suc k)
  show ?case
  proof (cases "n < 10")
    case True then show ?thesis by (subst dec.simps) simp
  next
    case False
    have "n div 10 < 10 ^ k" using Suc.prems by (simp add: less_mult_imp_div_less mult.commute)
    then have "length (dec (n div 10)) \<le> k" using Suc.IH [of "n div 10"] False by simp
    then show ?thesis using False by (subst dec.simps) simp
  qed
qed

lemma strtoul_dec [text_simps]: "n < 2 ^ 64 \<Longrightarrow> strtoul (dec n) = Some (of_nat n)"
proof -
  assume n: "n < 2 ^ 64"
  obtain c s where c: "dec n = c # s" using dec_not_Nil by (cases "dec n") auto
  have d: "is_digit c" using set_dec [of c n] c by simp
  have z: "cstr (dec n) = dec n" unfolding cstr_def takeWhile_eq_all_conv using set_dec digit_plain(4) by blast
  have w: "dropWhile isspace (dec n) = dec n" using digit_plain(1) [OF d] c by simp
  have t: "takeWhile is_digit (dec n) = dec n" unfolding takeWhile_eq_all_conv using set_dec by blast
  have h: "hd (dec n) \<noteq> CHR ''-''" "hd (dec n) \<noteq> CHR ''+''" using digit_plain [OF d] c by simp_all
  have "(dec n \<noteq> [] \<and> hd (dec n) = CHR ''-'') = False"
    "(dec n \<noteq> [] \<and> (hd (dec n) = CHR ''-'' \<or> hd (dec n) = CHR ''+'')) = False" using h by simp_all
  then show ?thesis unfolding strtoul_def z w Let_def using n by (simp add: t not_le del: takeWhile_eq_all_conv)
qed

end
