(* ===== verification/Gatt_Server.thy ===== *)
theory Gatt_Server
  imports Server_Objects Text
begin

text \<open>
  The GATT server's worker side (\<open>components/esp32_ble_server/ble_gatt_server.cpp\<close>): it exports the
  service tree as an object tree on D-Bus, registers it with BlueZ, answers the property reads and method
  calls of BlueZ, tells the main thread of connected and disconnected centrals, and keeps the LE
  advertisement registered.

  The results of sd-bus calls are the environment \<open>gs_env\<close>; the calls the server makes are recorded in
  \<open>gs_calls\<close>. Reading a D-Bus dictionary is a list of its entries. The userdata of a vtable is the index
  of the exported node.
\<close>

section \<open>State\<close>

definition APP_ROOT :: string where "APP_ROOT = ''/org/esphome/host/ble/gatt''"

record exported_char =
  xc_chr :: nat
  xc_path :: string
  xc_service_path :: string
  xc_uuid_str :: string
  xc_properties :: u32
  xc_cached_value :: bytes
  xc_notifying :: bool

record exported_desc =
  xd_desc :: nat
  xd_path :: string
  xd_char_path :: string
  xd_uuid_str :: string

record exported_service =
  xs_svc :: nat
  xs_path :: string
  xs_uuid_str :: string
  xs_primary :: bool

datatype server_event = SE_CONNECT u16 | SE_DISCONNECT u16

datatype server_call =
    Call_Export string
  | Call_RegisterApplication
  | Call_RegisterAdvertisement
  | Call_UnregisterAdvertisement
  | Call_PowerCycle
  | Emit_Value string
  | Emit_Notifying string

record gs_env =
  ge_open :: bool
  ge_manager :: bool
  ge_export :: "string \<Rightarrow> bool"
  ge_adv_export :: bool
  ge_new_msg :: bool
  ge_dispatch :: bool

record gatt_server =
  gs_ob :: srv_objects
  gs_bus :: bool
  gs_attached :: bool
  gs_started :: bool
  gs_start_requested :: bool
  gs_services :: "exported_service list"
  gs_chars :: "exported_char list"
  gs_descs :: "exported_desc list"
  gs_conn_ids :: "(string \<times> u16) list"
  gs_next_conn_id :: u16
  gs_pending_adv :: host_adv
  gs_adv_slot :: bool
  gs_adv_registered :: bool
  gs_adv_pending :: bool
  gs_readv_timer :: "u64 option"
  gs_power_cycled :: bool
  gs_commands :: "(string \<times> bytes) list"
  gs_events :: "server_event list"
  gs_calls :: "server_call list"

definition empty_adv :: host_adv where
  "empty_adv = \<lparr>ha_manufacturer_data = [], ha_manufacturer_company = 0, ha_service_data = [], ha_service_uuids = [],
     ha_appearance = 0, ha_local_name = [], ha_include_name = False, ha_active = False\<rparr>"

definition new_gatt_server :: "srv_objects \<Rightarrow> gatt_server" where
  "new_gatt_server ob = \<lparr>gs_ob = ob, gs_bus = False, gs_attached = False, gs_started = False,
     gs_start_requested = False, gs_services = [], gs_chars = [], gs_descs = [], gs_conn_ids = [],
     gs_next_conn_id = 1, gs_pending_adv = empty_adv, gs_adv_slot = False, gs_adv_registered = False,
     gs_adv_pending = False, gs_readv_timer = None, gs_power_cycled = False, gs_commands = [], gs_events = [],
     gs_calls = []\<rparr>"

definition gs_call :: "server_call \<Rightarrow> gatt_server \<Rightarrow> gatt_server" where
  "gs_call c g = g\<lparr>gs_calls := gs_calls g @ [c]\<rparr>"

definition uuid_to_bluez_str :: "ESPBTUUID \<Rightarrow> string" where
  "uuid_to_bluez_str u = lowercase (to_str u)"

section \<open>The exported tree\<close>

fun build_descs :: "srv_objects \<Rightarrow> string \<Rightarrow> nat \<Rightarrow> nat list \<Rightarrow> exported_desc list" where
  "build_descs ob char_path i [] = []"
| "build_descs ob char_path i (d # ds) =
    (if uuid_eq (dsc_uuid (ob_descs ob ! d)) (from_uint16 0x2902) then build_descs ob char_path i ds
     else \<lparr>xd_desc = d, xd_path = char_path @ ''/desc'' @ dec i, xd_char_path = char_path,
           xd_uuid_str = uuid_to_bluez_str (dsc_uuid (ob_descs ob ! d))\<rparr> # build_descs ob char_path (i + 1) ds)"

fun build_chars :: "string \<Rightarrow> nat \<Rightarrow> nat list \<Rightarrow> srv_objects \<Rightarrow> exported_char list \<times> exported_desc list \<times> srv_objects" where
  "build_chars service_path i [] ob = ([], [], ob)"
| "build_chars service_path i (c # cs) ob =
    (let chr = ob_chars ob ! c;
         path = service_path @ ''/char'' @ dec i;
         ec = \<lparr>xc_chr = c, xc_path = path, xc_service_path = service_path, xc_uuid_str = uuid_to_bluez_str (sc_uuid chr),
               xc_properties = sc_props chr, xc_cached_value = sc_value chr, xc_notifying = False\<rparr>;
         ob1 = on_char c (\<lambda>x. x\<lparr>sc_gatt_server := True, sc_object_path := path\<rparr>) ob;
         ds = build_descs ob1 path 0 (sc_descs chr)
     in case build_chars service_path (i + 1) cs ob1 of (ecs, eds, ob2) \<Rightarrow> (ec # ecs, ds @ eds, ob2))"

fun build_services :: "nat \<Rightarrow> nat list \<Rightarrow> gatt_server \<Rightarrow> gatt_server" where
  "build_services i [] g = g"
| "build_services i (s # ss) g =
    (let svc = ob_services (gs_ob g) ! s;
         path = APP_ROOT @ ''/service'' @ dec i;
         xs = \<lparr>xs_svc = s, xs_path = path, xs_uuid_str = uuid_to_bluez_str (sv_uuid svc), xs_primary = True\<rparr>
     in case build_chars path 0 (sv_chars svc) (gs_ob g) of (ecs, eds, ob) \<Rightarrow>
       build_services (i + 1) ss (g\<lparr>gs_ob := ob, gs_descs := gs_descs g @ eds, gs_chars := gs_chars g @ ecs,
         gs_services := gs_services g @ [xs]\<rparr>))"

definition build_tree :: "nat list \<Rightarrow> gatt_server \<Rightarrow> gatt_server" where
  "build_tree services g = build_services 0 services g"

definition find_char :: "string \<Rightarrow> gatt_server \<Rightarrow> exported_char option" where
  "find_char path g = List.find (\<lambda>c. xc_path c = path) (gs_chars g)"

definition find_desc :: "string \<Rightarrow> gatt_server \<Rightarrow> exported_desc option" where
  "find_desc path g = List.find (\<lambda>d. xd_path d = path) (gs_descs g)"

definition find_service :: "string \<Rightarrow> gatt_server \<Rightarrow> exported_service option" where
  "find_service path g = List.find (\<lambda>s. xs_path s = path) (gs_services g)"

section \<open>Start and registration of the application\<close>

definition gs_start :: "nat list \<Rightarrow> gatt_server \<Rightarrow> gatt_server" where
  "gs_start services g = (build_tree services g)\<lparr>gs_attached := True, gs_start_requested := True\<rparr>"

definition gs_open_bus :: "gs_env \<Rightarrow> gatt_server \<Rightarrow> bool \<times> gatt_server" where
  "gs_open_bus env g = (if gs_bus g then (True, g) else if \<not> ge_open env then (False, g) else (True, g\<lparr>gs_bus := True\<rparr>))"

definition register_application :: "gs_env \<Rightarrow> gatt_server \<Rightarrow> gatt_server" where
  "register_application env g =
    (if \<not> ge_new_msg env then g else if \<not> ge_dispatch env then g else gs_call Call_RegisterApplication g)"

definition export_all :: "gs_env \<Rightarrow> string list \<Rightarrow> gatt_server \<Rightarrow> gatt_server" where
  "export_all env paths g = fold (\<lambda>p g. if ge_export env p then gs_call (Call_Export p) g else g) paths g"

definition gs_do_start :: "gs_env \<Rightarrow> gatt_server \<Rightarrow> gatt_server" where
  "gs_do_start env g =
    (if gs_started g then g
     else case gs_open_bus env (g\<lparr>gs_started := True\<rparr>) of (ok, g1) \<Rightarrow>
       if \<not> ok then g1
       else if \<not> ge_manager env then g1
       else register_application env
         (export_all env (map xs_path (gs_services g1) @ map xc_path (gs_chars g1) @ map xd_path (gs_descs g1)) g1))"

section \<open>Centrals\<close>

definition post_server_event :: "server_event \<Rightarrow> gatt_server \<Rightarrow> gatt_server" where
  "post_server_event e g = g\<lparr>gs_events := gs_events g @ [e]\<rparr>"

definition drain_server_events :: "gatt_server \<Rightarrow> server_event list \<times> gatt_server" where
  "drain_server_events g = (gs_events g, g\<lparr>gs_events := []\<rparr>)"

definition intern_device :: "string option \<Rightarrow> gatt_server \<Rightarrow> u16 \<times> gatt_server" where
  "intern_device device g = (case device of
       None \<Rightarrow> (0, g)
     | Some p \<Rightarrow> (case map_of (gs_conn_ids g) p of
           Some i \<Rightarrow> (i, g)
         | None \<Rightarrow> (gs_next_conn_id g, g\<lparr>gs_conn_ids := (p, gs_next_conn_id g) # gs_conn_ids g,
                                        gs_next_conn_id := gs_next_conn_id g + 1\<rparr>)))"

text \<open>A D-Bus object with its interfaces; of the properties only \<open>Connected\<close> matters.\<close>

datatype dev_prop = DP_Connected bool | DP_other

definition connected_prop :: "dev_prop list \<Rightarrow> bool option" where
  "connected_prop ps = fold (\<lambda>p a. case p of DP_Connected b \<Rightarrow> Some b | DP_other \<Rightarrow> a) ps None"

definition enumerate_object :: "string \<times> (string \<times> dev_prop list) list \<Rightarrow> gatt_server \<Rightarrow> gatt_server" where
  "enumerate_object obj g =
    (let devs = filter (\<lambda>i. fst i = ''org.bluez.Device1'') (snd obj);
         connected = connected_prop (concat (map snd devs))
     in if devs \<noteq> [] \<and> connected = Some True then
          (case intern_device (Some (fst obj)) g of (i, g1) \<Rightarrow> post_server_event (SE_CONNECT i) g1)
        else g)"

definition enumerate_connected_devices :: "(string \<times> (string \<times> dev_prop list) list) list option \<Rightarrow> gatt_server \<Rightarrow> gatt_server" where
  "enumerate_connected_devices reply g =
    (if \<not> gs_bus g then g else (case reply of None \<Rightarrow> g | Some objs \<Rightarrow> fold enumerate_object objs g))"

definition on_register_app_reply ::
    "bool \<Rightarrow> (string \<times> (string \<times> dev_prop list) list) list option \<Rightarrow> gatt_server \<Rightarrow> gatt_server" where
  "on_register_app_reply err reply g = (if err then g else enumerate_connected_devices reply g)"

text \<open>Arming the debounce timer: the worker's clock plus 300 ms; a timer already armed is pushed out.\<close>

definition schedule_readvertise :: "u64 \<Rightarrow> gatt_server \<Rightarrow> gatt_server" where
  "schedule_readvertise now g = g\<lparr>gs_readv_timer := Some (now + 300000)\<rparr>"

definition on_device_props_changed :: "u64 \<Rightarrow> string option \<Rightarrow> string \<Rightarrow> dev_prop list \<Rightarrow> gatt_server \<Rightarrow> gatt_server" where
  "on_device_props_changed now path iface props g =
    (if iface \<noteq> ''org.bluez.Device1'' then g
     else (case (connected_prop props, path) of
         (Some connected, Some p) \<Rightarrow> (case intern_device (Some p) g of (i, g1) \<Rightarrow>
           let g2 = post_server_event (if connected then SE_CONNECT i else SE_DISCONNECT i) g1
           in if \<not> connected then schedule_readvertise now g2 else g2)
       | _ \<Rightarrow> g))"

section \<open>Property getters and method calls\<close>

datatype dbus_reply = R_string string | R_bool bool | R_strings "string list" | R_bytes bytes | R_u16 u16
  | R_entries "(string \<times> bytes) list" | R_company "(u16 \<times> bytes) list" | R_done | R_error string

definition svc_get_uuid :: "exported_service \<Rightarrow> dbus_reply" where "svc_get_uuid s = R_string (xs_uuid_str s)"
definition svc_get_primary :: "exported_service \<Rightarrow> dbus_reply" where "svc_get_primary s = R_bool (xs_primary s)"
definition chr_get_uuid :: "exported_char \<Rightarrow> dbus_reply" where "chr_get_uuid c = R_string (xc_uuid_str c)"
definition chr_get_service :: "exported_char \<Rightarrow> dbus_reply" where "chr_get_service c = R_string (xc_service_path c)"
definition chr_get_value :: "exported_char \<Rightarrow> dbus_reply" where "chr_get_value c = R_bytes (xc_cached_value c)"
definition chr_get_notifying :: "exported_char \<Rightarrow> dbus_reply" where "chr_get_notifying c = R_bool (xc_notifying c)"

definition chr_get_flags :: "exported_char \<Rightarrow> dbus_reply" where
  "chr_get_flags c = (let p = xc_properties c in R_strings
     ((if p AND PROPERTY_BROADCAST \<noteq> 0 then [''broadcast''] else [])
      @ (if p AND PROPERTY_READ \<noteq> 0 then [''read''] else [])
      @ (if p AND PROPERTY_WRITE_NR \<noteq> 0 then [''write-without-response''] else [])
      @ (if p AND PROPERTY_WRITE \<noteq> 0 then [''write''] else [])
      @ (if p AND PROPERTY_NOTIFY \<noteq> 0 then [''notify''] else [])
      @ (if p AND PROPERTY_INDICATE \<noteq> 0 then [''indicate''] else [])))"

definition desc_get_uuid :: "exported_desc \<Rightarrow> dbus_reply" where "desc_get_uuid d = R_string (xd_uuid_str d)"
definition desc_get_char :: "exported_desc \<Rightarrow> dbus_reply" where "desc_get_char d = R_string (xd_char_path d)"

definition desc_get_flags :: "nat \<Rightarrow> gatt_server \<Rightarrow> dbus_reply" where
  "desc_get_flags k g = (let d = ob_descs (gs_ob g) ! xd_desc (gs_descs g ! k) in
     R_strings ((if dsc_read d then [''read''] else []) @ (if dsc_write d then [''write''] else [])))"

definition desc_get_value :: "nat \<Rightarrow> gatt_server \<Rightarrow> dbus_reply" where
  "desc_get_value k g = R_bytes (dsc_value (ob_descs (gs_ob g) ! xd_desc (gs_descs g ! k)))"

datatype opt_entry = O_offset u16 | O_device string | O_other

definition parse_options :: "opt_entry list \<Rightarrow> u16 \<times> string option" where
  "parse_options os = fold (\<lambda>e (off, dev). case e of O_offset q \<Rightarrow> (q, dev) | O_device d \<Rightarrow> (off, Some d) | O_other \<Rightarrow> (off, dev))
     os (0, None)"

definition slice_reply :: "u16 \<Rightarrow> bytes \<Rightarrow> dbus_reply" where
  "slice_reply off value =
    (if unat off < length value then R_bytes (drop (unat off) value)
     else if length value < unat off then R_error ''org.bluez.Error.InvalidOffset'' else R_bytes [])"

definition on_xchar :: "nat \<Rightarrow> (exported_char \<Rightarrow> exported_char) \<Rightarrow> gatt_server \<Rightarrow> gatt_server" where
  "on_xchar k f g = g\<lparr>gs_chars := (gs_chars g)[k := f (gs_chars g ! k)]\<rparr>"

definition chr_conn_id :: "nat \<Rightarrow> string option \<Rightarrow> gatt_server \<Rightarrow> u16 \<times> gatt_server" where
  "chr_conn_id c device g = (if sc_gatt_server (ob_chars (gs_ob g) ! c) then intern_device device g else (0, g))"

definition chr_read_value :: "(nat \<Rightarrow> (u16 \<Rightarrow> bytes \<Rightarrow> bytes) option) \<Rightarrow> nat \<Rightarrow> opt_entry list \<Rightarrow> gatt_server \<Rightarrow> dbus_reply \<times> gatt_server" where
  "chr_read_value on_read k os g =
    (case parse_options os of (off, device) \<Rightarrow>
       let c = xc_chr (gs_chars g ! k) in
       (case chr_conn_id c device g of (conn_id, g1) \<Rightarrow>
          let g2 = g1\<lparr>gs_ob := on_char c (char_host_on_read (on_read c) conn_id) (gs_ob g1)\<rparr>;
              value = sc_value (ob_chars (gs_ob g2) ! c);
              g3 = on_xchar k (\<lambda>x. x\<lparr>xc_cached_value := value\<rparr>) g2
          in (slice_reply off value, g3)))"

definition chr_write_value ::
    "(nat \<Rightarrow> (bytes \<Rightarrow> u16 \<Rightarrow> bytes \<Rightarrow> bytes) option) \<Rightarrow> nat \<Rightarrow> bytes \<Rightarrow> opt_entry list \<Rightarrow> gatt_server \<Rightarrow> dbus_reply \<times> gatt_server" where
  "chr_write_value on_write k data os g =
    (case parse_options os of (off, device) \<Rightarrow>
       let c = xc_chr (gs_chars g ! k) in
       (case chr_conn_id c device g of (conn_id, g1) \<Rightarrow>
          let g2 = g1\<lparr>gs_ob := on_char c (char_host_on_write (on_write c) data conn_id) (gs_ob g1)\<rparr>
          in (R_done, on_xchar k (\<lambda>x. x\<lparr>xc_cached_value := data\<rparr>) g2)))"

definition set_notifying :: "bool \<Rightarrow> nat \<Rightarrow> gatt_server \<Rightarrow> dbus_reply \<times> gatt_server" where
  "set_notifying b k g =
    (let g1 = on_xchar k (\<lambda>x. x\<lparr>xc_notifying := b\<rparr>) g; c = gs_chars g1 ! k in
     (R_done, if sc_gatt_server (ob_chars (gs_ob g1) ! xc_chr c) then gs_call (Emit_Notifying (xc_path c)) g1 else g1))"

definition chr_start_notify :: "nat \<Rightarrow> gatt_server \<Rightarrow> dbus_reply \<times> gatt_server" where
  "chr_start_notify k g = set_notifying True k g"

definition chr_stop_notify :: "nat \<Rightarrow> gatt_server \<Rightarrow> dbus_reply \<times> gatt_server" where
  "chr_stop_notify k g = set_notifying False k g"

definition desc_read_value :: "nat \<Rightarrow> opt_entry list \<Rightarrow> gatt_server \<Rightarrow> dbus_reply" where
  "desc_read_value k os g =
     slice_reply (fst (parse_options os)) (dsc_value (ob_descs (gs_ob g) ! xd_desc (gs_descs g ! k)))"

definition desc_write_value :: "nat \<Rightarrow> bytes \<Rightarrow> opt_entry list \<Rightarrow> gatt_server \<Rightarrow> dbus_reply \<times> gatt_server" where
  "desc_write_value k data os g =
    (let d = xd_desc (gs_descs g ! k) in
     case (case dsc_chr (ob_descs (gs_ob g) ! d) of
             Some c \<Rightarrow> chr_conn_id c (snd (parse_options os)) g | None \<Rightarrow> (0, g)) of
       (conn_id, g1) \<Rightarrow> (R_done, g1\<lparr>gs_ob := on_desc d (desc_host_on_write data) (gs_ob g1)\<rparr>))"

section \<open>Notifications\<close>

definition notify_characteristic :: "nat \<Rightarrow> bytes \<Rightarrow> gatt_server \<Rightarrow> gatt_server" where
  "notify_characteristic c value g =
    (let path = sc_object_path (ob_chars (gs_ob g) ! c) in
     if path = [] then g else g\<lparr>gs_commands := gs_commands g @ [(path, value)]\<rparr>)"

text \<open>\<open>BLECharacteristic::notify\<close>.\<close>

definition char_notify :: "nat \<Rightarrow> gatt_server \<Rightarrow> gatt_server" where
  "char_notify c g = (if sc_gatt_server (ob_chars (gs_ob g) ! c)
     then notify_characteristic c (sc_value (ob_chars (gs_ob g) ! c)) g else g)"

fun set_cached :: "string \<Rightarrow> bytes \<Rightarrow> exported_char list \<Rightarrow> exported_char list" where
  "set_cached path v [] = []"
| "set_cached path v (c # cs) = (if xc_path c = path then c\<lparr>xc_cached_value := v\<rparr> # cs else c # set_cached path v cs)"

definition do_notify :: "string \<Rightarrow> bytes \<Rightarrow> gatt_server \<Rightarrow> gatt_server" where
  "do_notify path value g = (case find_char path g of
       None \<Rightarrow> g
     | Some c \<Rightarrow> gs_call (Emit_Value path) (g\<lparr>gs_chars := set_cached path value (gs_chars g)\<rparr>))"

section \<open>The advertisement\<close>

definition on_advertising_changed :: "host_adv \<Rightarrow> gatt_server \<Rightarrow> gatt_server" where
  "on_advertising_changed a g = (if \<not> ha_active a then g else g\<lparr>gs_pending_adv := a, gs_adv_pending := True\<rparr>)"

definition unregister_advertisement :: "gatt_server \<Rightarrow> gatt_server" where
  "unregister_advertisement g =
    (if \<not> gs_adv_registered g \<or> \<not> gs_bus g then g
     else (gs_call Call_UnregisterAdvertisement g)\<lparr>gs_adv_registered := False\<rparr>)"

definition register_advertisement :: "gs_env \<Rightarrow> gatt_server \<Rightarrow> gatt_server" where
  "register_advertisement env g =
    (if \<not> gs_bus g then g
     else let g1 = (if gs_adv_registered g then unregister_advertisement g else g) in
       if \<not> gs_adv_slot g1 \<and> \<not> ge_adv_export env then g1
       else let g2 = g1\<lparr>gs_adv_slot := True\<rparr> in
         if \<not> ge_new_msg env then g2
         else if \<not> ge_dispatch env then g2
         else (gs_call Call_RegisterAdvertisement g2)\<lparr>gs_adv_registered := True\<rparr>)"

definition power_cycle_adapter :: "gs_env \<Rightarrow> gatt_server \<Rightarrow> gatt_server" where
  "power_cycle_adapter env g =
    (if \<not> gs_bus g then g
     else register_advertisement env ((gs_call Call_PowerCycle g)\<lparr>gs_adv_slot := False, gs_adv_registered := False\<rparr>))"

definition on_register_adv_reply :: "gs_env \<Rightarrow> bool \<Rightarrow> gatt_server \<Rightarrow> gatt_server" where
  "on_register_adv_reply env err g =
    (if err then
       (let g1 = g\<lparr>gs_adv_registered := False\<rparr> in
        if \<not> gs_power_cycled g1 then power_cycle_adapter env (g1\<lparr>gs_power_cycled := True\<rparr>) else g1)
     else g\<lparr>gs_power_cycled := False\<rparr>)"

definition on_readvertise_timer :: "gs_env \<Rightarrow> gatt_server \<Rightarrow> gatt_server" where
  "on_readvertise_timer env g = register_advertisement env (g\<lparr>gs_readv_timer := None\<rparr>)"

definition adv_release :: "gatt_server \<Rightarrow> gatt_server" where
  "adv_release g = g\<lparr>gs_adv_registered := False\<rparr>"

definition adv_get_type :: dbus_reply where "adv_get_type = R_string ''peripheral''"
definition adv_get_local_name :: "gatt_server \<Rightarrow> dbus_reply" where
  "adv_get_local_name g = R_string (ha_local_name (gs_pending_adv g))"
definition adv_get_service_uuids :: "gatt_server \<Rightarrow> dbus_reply" where
  "adv_get_service_uuids g = R_strings (map uuid_to_bluez_str (ha_service_uuids (gs_pending_adv g)))"
definition adv_get_manufacturer_data :: "gatt_server \<Rightarrow> dbus_reply" where
  "adv_get_manufacturer_data g = (let a = gs_pending_adv g in
     R_company (if ha_manufacturer_company a \<noteq> 0 \<and> ha_manufacturer_data a \<noteq> []
       then [(ha_manufacturer_company a, ha_manufacturer_data a)] else []))"
definition adv_get_service_data :: "gatt_server \<Rightarrow> dbus_reply" where
  "adv_get_service_data g = (let a = gs_pending_adv g in
     R_entries (if ha_service_data a \<noteq> [] \<and> ha_service_uuids a \<noteq> []
       then [(uuid_to_bluez_str (hd (ha_service_uuids a)), ha_service_data a)] else []))"
definition adv_get_appearance :: "gatt_server \<Rightarrow> dbus_reply" where
  "adv_get_appearance g = R_u16 (ha_appearance (gs_pending_adv g))"
definition adv_get_includes :: dbus_reply where "adv_get_includes = R_strings []"

section \<open>The worker's pass and the end of the server\<close>

definition gs_process_commands :: "gs_env \<Rightarrow> gatt_server \<Rightarrow> gatt_server" where
  "gs_process_commands env g =
    (let req = gs_start_requested g; cmds = gs_commands g;
         g1 = g\<lparr>gs_start_requested := False, gs_commands := []\<rparr>;
         g2 = (if req then gs_do_start env g1 else g1);
         g3 = fold (\<lambda>(p, v). do_notify p v) cmds g2
     in if gs_adv_pending g3 then register_advertisement env (g3\<lparr>gs_adv_pending := False\<rparr>) else g3)"

definition gs_destroy :: "gatt_server \<Rightarrow> gatt_server" where
  "gs_destroy g = (unregister_advertisement (g\<lparr>gs_attached := False\<rparr>))
     \<lparr>gs_readv_timer := None, gs_adv_slot := False, gs_bus := False\<rparr>"

section \<open>Objects for the examples\<close>

definition demo_objects :: srv_objects where
  "demo_objects = \<lparr>ob_descs = [ble2902, new_desc (from_uint16 0x2901) 10 True False],
     ob_chars = [(new_char (from_uint16 0x2A19) 6)\<lparr>sc_descs := [0, 1], sc_value := [7]\<rparr>],
     ob_services = [(new_service (from_uint16 0x180F) 0 True)\<lparr>sv_chars := [0]\<rparr>]\<rparr>"

section \<open>Values\<close>

definition served :: "gatt_server \<Rightarrow> nat \<Rightarrow> bool" where
  "served g k \<longleftrightarrow> k < length (gs_chars g) \<and> xc_chr (gs_chars g ! k) < length (ob_chars (gs_ob g))"

lemma intern_device_keeps:
  "gs_ob (snd (intern_device d g)) = gs_ob g" "gs_chars (snd (intern_device d g)) = gs_chars g"
  by (simp_all add: intern_device_def split: option.split)

lemma chr_conn_id_keeps:
  "gs_ob (snd (chr_conn_id c d g)) = gs_ob g" "gs_chars (snd (chr_conn_id c d g)) = gs_chars g"
  by (simp_all add: chr_conn_id_def intern_device_keeps)

lemma chr_write_effect:
  assumes "served g k" "on_write (xc_chr (gs_chars g ! k)) = None" "g' = snd (chr_write_value on_write k data os g)"
  shows "sc_value (ob_chars (gs_ob g') ! xc_chr (gs_chars g ! k)) = data \<and> xc_cached_value (gs_chars g' ! k) = data
    \<and> xc_chr (gs_chars g' ! k) = xc_chr (gs_chars g ! k) \<and> served g' k"
  using assms by (auto simp: chr_write_value_def Let_def case_prod_beta on_xchar_def on_char_def char_host_on_write_def
      chr_conn_id_keeps served_def)

lemma chr_read_effect:
  assumes "served g k" "on_read (xc_chr (gs_chars g ! k)) = None"
  shows "fst (chr_read_value on_read k os g)
    = slice_reply (fst (parse_options os)) (sc_value (ob_chars (gs_ob g) ! xc_chr (gs_chars g ! k)))"
  using assms by (auto simp: chr_read_value_def Let_def case_prod_beta on_xchar_def on_char_def char_host_on_read_def
      chr_conn_id_keeps served_def)

text \<open>A value written by a central is read back whole by any sequence of reads at increasing offsets: a
  read at an offset inside the value returns the rest from there, at its end nothing, beyond its end
  InvalidOffset; and the \<open>Value\<close> property shows the same bytes.\<close>
theorem write_then_read:
  assumes "served g k" "on_write (xc_chr (gs_chars g ! k)) = None" "on_read (xc_chr (gs_chars g ! k)) = None"
    "g' = snd (chr_write_value on_write k data ws g)"
  shows "fst (chr_read_value on_read k [O_offset off] g') =
      (if unat off \<le> length data then R_bytes (drop (unat off) data) else R_error ''org.bluez.Error.InvalidOffset'')
    \<and> chr_get_value (gs_chars g' ! k) = R_bytes data"
proof -
  note w = chr_write_effect [OF assms(1,2,4)]
  have "fst (chr_read_value on_read k [O_offset off] g') = slice_reply off data"
    using chr_read_effect [of g' k on_read "[O_offset off]"] w assms(3) by (simp add: parse_options_def)
  then show ?thesis using w by (auto simp: slice_reply_def chr_get_value_def)
qed

definition demo_server :: gatt_server where
  "demo_server = (new_gatt_server demo_objects)\<lparr>gs_chars := [\<lparr>xc_chr = 0, xc_path = ''/c'', xc_service_path = ''/'',
     xc_uuid_str = [], xc_properties = 6, xc_cached_value = [], xc_notifying = False\<rparr>]\<rparr>"

lemma demo_served: "served demo_server 0" "xc_chr (gs_chars demo_server ! 0) = 0"
  by (simp_all add: served_def demo_server_def demo_objects_def new_gatt_server_def)

lemma write_then_read_witness:
  "fst (chr_read_value (\<lambda>_. None) 0 [O_offset 1] (snd (chr_write_value (\<lambda>_. None) 0 [1, 2, 3] [] demo_server))) = R_bytes [2, 3]"
  using write_then_read [OF demo_served(1), of "\<lambda>_. None" "\<lambda>_. None"] by simp

text \<open>The offset of a write is parsed and then ignored: a write of a later part of a value, as BlueZ passes
  it on for a long write, replaces the whole value.\<close>
theorem write_ignores_offset:
  "chr_write_value on_write k data (O_offset off # os) g = chr_write_value on_write k data os g"
proof -
  have "snd (fold (\<lambda>e (off, dev). case e of O_offset q \<Rightarrow> (q, dev) | O_device d \<Rightarrow> (off, Some d) | O_other \<Rightarrow> (off, dev)) os (a, d))
      = snd (fold (\<lambda>e (off, dev). case e of O_offset q \<Rightarrow> (q, dev) | O_device d \<Rightarrow> (off, Some d) | O_other \<Rightarrow> (off, dev)) os (b, d))" for a b d
    by (induction os arbitrary: a b d) (auto split: opt_entry.split)
  then have "snd (parse_options (O_offset off # os)) = snd (parse_options os)" by (simp add: parse_options_def)
  then show ?thesis by (simp add: chr_write_value_def case_prod_beta)
qed

text \<open>The length limit of a descriptor binds the application but not a client.\<close>
theorem desc_write_unlimited:
  assumes "d < length (ob_descs ob)"
  shows "dsc_value (ob_descs (on_desc d (desc_host_on_write data) ob) ! d) = data"
  using assms by (simp add: on_desc_def desc_host_on_write_def)

section \<open>Notifications\<close>

lemma find_set_cached:
  "map xc_path (set_cached p v cs) = map xc_path cs"
  "List.find (\<lambda>c. xc_path c = p) (set_cached p v cs) = map_option (\<lambda>c. c\<lparr>xc_cached_value := v\<rparr>) (List.find (\<lambda>c. xc_path c = p) cs)"
  by (induction cs) auto

lemma find_None_paths: "(List.find (\<lambda>c. xc_path c = p) cs = None) = (p \<notin> set (map xc_path cs))"
  by (auto simp: find_None_iff)

lemma find_set_cached_other:
  "q \<noteq> p \<Longrightarrow> List.find (\<lambda>c. xc_path c = q) (set_cached p v cs) = List.find (\<lambda>c. xc_path c = q) cs"
  by (induction cs) auto

lemma do_notify_effect:
  "gs_calls (do_notify p v g) = gs_calls g @ (if p \<in> set (map xc_path (gs_chars g)) then [Emit_Value p] else [])"
  "map xc_path (gs_chars (do_notify p v g)) = map xc_path (gs_chars g)"
  "p \<in> set (map xc_path (gs_chars g)) \<Longrightarrow> map_option xc_cached_value (find_char p (do_notify p v g)) = Some v"
  "q \<noteq> p \<Longrightarrow> find_char q (do_notify p v g) = find_char q g"
  "gs_adv_pending (do_notify p v g) = gs_adv_pending g"
  using find_None_paths [of p "gs_chars g"]
  by (auto simp: do_notify_def find_char_def gs_call_def find_set_cached find_set_cached_other split: option.splits)

lemma notify_fold:
  "gs_calls (fold (\<lambda>(p, v). do_notify p v) cmds g)
     = gs_calls g @ map (\<lambda>c. Emit_Value (fst c)) (filter (\<lambda>c. fst c \<in> set (map xc_path (gs_chars g))) cmds)
   \<and> map xc_path (gs_chars (fold (\<lambda>(p, v). do_notify p v) cmds g)) = map xc_path (gs_chars g)
   \<and> gs_adv_pending (fold (\<lambda>(p, v). do_notify p v) cmds g) = gs_adv_pending g
   \<and> (p \<in> set (map xc_path (gs_chars g)) \<longrightarrow> map_option xc_cached_value (find_char p (fold (\<lambda>(p, v). do_notify p v) cmds g))
       = (case map_of (rev cmds) p of None \<Rightarrow> map_option xc_cached_value (find_char p g) | Some v \<Rightarrow> Some v))"
proof (induction cmds rule: rev_induct)
  case Nil then show ?case by simp
next
  case (snoc c cmds)
  obtain q v where c: "c = (q, v)" by (cases c) auto
  let ?g = "fold (\<lambda>(p, v). do_notify p v) cmds g"
  have P: "map xc_path (gs_chars ?g) = map xc_path (gs_chars g)" using snoc by blast
  show ?case
  proof (cases "p = q")
    case True
    then show ?thesis using snoc do_notify_effect(1,2,5) [of q v ?g] do_notify_effect(3) [of q ?g v] P by (simp add: c)
  next
    case False
    then show ?thesis using snoc do_notify_effect(1,2,5) [of q v ?g] do_notify_effect(4) [of p q v ?g] P by (simp add: c)
  qed
qed

text \<open>In one pass of the worker every queued notification of an exported characteristic is emitted, in the
  order of the calls to \<open>notify\<close>, and afterwards its \<open>Value\<close> is the value of the last one; nothing is
  left in the queue.\<close>
theorem notifications_delivered:
  assumes "\<not> gs_start_requested g" "\<not> gs_adv_pending g" "\<forall>c\<in>set (gs_commands g). fst c \<in> set (map xc_path (gs_chars g))"
    "g' = gs_process_commands env g"
  shows "gs_calls g' = gs_calls g @ map (\<lambda>c. Emit_Value (fst c)) (gs_commands g) \<and> gs_commands g' = []
    \<and> (p \<in> set (map xc_path (gs_chars g)) \<longrightarrow> map_option xc_cached_value (find_char p g') =
        (case map_of (rev (gs_commands g)) p of None \<Rightarrow> map_option xc_cached_value (find_char p g) | Some v \<Rightarrow> Some v))"
proof -
  let ?g = "g\<lparr>gs_start_requested := False, gs_commands := []\<rparr>"
  have f: "filter (\<lambda>c. fst c \<in> set (map xc_path (gs_chars g))) (gs_commands g) = gs_commands g"
    using assms(3) by (simp add: filter_id_conv)
  have k: "gs_commands (fold (\<lambda>(p, v). do_notify p v) cmds h) = gs_commands h" for cmds h
    by (induction cmds arbitrary: h) (auto simp: do_notify_def gs_call_def split: option.splits)
  have e: "g' = fold (\<lambda>(p, v). do_notify p v) (gs_commands g) ?g"
    using assms(1,2,4) notify_fold [of "gs_commands g" ?g] by (simp add: gs_process_commands_def Let_def)
  have c: "find_char p ?g = find_char p g" by (simp add: find_char_def)
  show ?thesis unfolding e using notify_fold [of "gs_commands g" ?g p] f k unfolding c by simp
qed

definition demo_env :: gs_env where
  "demo_env = \<lparr>ge_open = True, ge_manager = True, ge_export = (\<lambda>_. True), ge_adv_export = True, ge_new_msg = True,
     ge_dispatch = True\<rparr>"

lemma notifications_delivered_witness:
  "gs_calls (gs_process_commands demo_env (demo_server\<lparr>gs_commands := [(''/c'', [1]), (''/c'', [2])]\<rparr>)) = [Emit_Value ''/c'', Emit_Value ''/c'']"
  using notifications_delivered [of "demo_server\<lparr>gs_commands := [(''/c'', [1]), (''/c'', [2])]\<rparr>" _ demo_env, OF _ _ _ refl]
  by (simp add: demo_server_def new_gatt_server_def)


section \<open>Executions\<close>

text \<open>What can happen to the worker side: calls of the main thread, the pass of the worker, and what BlueZ
  and the timer deliver to it.\<close>

datatype gs_event =
    G_start "nat list"
  | G_notify nat
  | G_advertising host_adv
  | G_drain
  | G_process gs_env
  | G_app_reply bool "(string \<times> (string \<times> dev_prop list) list) list option"
  | G_adv_reply gs_env bool
  | G_release
  | G_timer gs_env
  | G_props u64 "string option" string "dev_prop list"
  | G_read "nat \<Rightarrow> (u16 \<Rightarrow> bytes \<Rightarrow> bytes) option" nat "opt_entry list"
  | G_write "nat \<Rightarrow> (bytes \<Rightarrow> u16 \<Rightarrow> bytes \<Rightarrow> bytes) option" nat bytes "opt_entry list"
  | G_notifying bool nat
  | G_desc_write nat bytes "opt_entry list"

fun gs_apply :: "gs_event \<Rightarrow> gatt_server \<Rightarrow> gatt_server" where
  "gs_apply (G_start ss) g = gs_start ss g"
| "gs_apply (G_notify c) g = char_notify c g"
| "gs_apply (G_advertising a) g = on_advertising_changed a g"
| "gs_apply G_drain g = snd (drain_server_events g)"
| "gs_apply (G_process env) g = gs_process_commands env g"
| "gs_apply (G_app_reply err r) g = on_register_app_reply err r g"
| "gs_apply (G_adv_reply env err) g = on_register_adv_reply env err g"
| "gs_apply G_release g = adv_release g"
| "gs_apply (G_timer env) g = on_readvertise_timer env g"
| "gs_apply (G_props now path iface ps) g = on_device_props_changed now path iface ps g"
| "gs_apply (G_read f k os) g = snd (chr_read_value f k os g)"
| "gs_apply (G_write f k d os) g = snd (chr_write_value f k d os g)"
| "gs_apply (G_notifying b k) g = snd (set_notifying b k g)"
| "gs_apply (G_desc_write k d os) g = snd (desc_write_value k d os g)"

section \<open>What the operations leave alone\<close>

text \<open>A part of the state that the operations on the objects, the tree, the bus, the commands and the
  registration of the advertisement do not touch. Three parts are of interest: the centrals, the fallback
  of the advertisement, and the advertisement itself.\<close>

locale gs_frame =
  fixes part :: "gatt_server \<Rightarrow> 'a"
  assumes part_upd [simp]:
    "part (gs_ob_update f1 g) = part g" "part (gs_bus_update f2 g) = part g" "part (gs_attached_update f3 g) = part g"
    "part (gs_started_update f4 g) = part g" "part (gs_start_requested_update f5 g) = part g"
    "part (gs_services_update f6 g) = part g" "part (gs_chars_update f7 g) = part g" "part (gs_descs_update f8 g) = part g"
    "part (gs_adv_slot_update f10 g) = part g"
    "part (gs_adv_registered_update f11 g) = part g" "part (gs_adv_pending_update f12 g) = part g"
    "part (gs_readv_timer_update f13 g) = part g" "part (gs_commands_update f14 g) = part g"
  and part_call [simp]: "c \<noteq> Call_PowerCycle \<Longrightarrow> part (gs_call c g) = part g"
begin

lemma part_fold: "(\<And>x h. part (f x h) = part h) \<Longrightarrow> part (fold f xs g) = part g"
  by (induction xs arbitrary: g) auto

lemma part_build [simp]: "part (build_services i ss g) = part g"
  by (induction ss arbitrary: i g) (auto simp: Let_def split: prod.split)

lemma part_register [simp]: "part (register_advertisement env g) = part g"
  by (auto simp: register_advertisement_def unregister_advertisement_def Let_def)

lemma part_do_start [simp]: "part (gs_do_start env g) = part g"
proof -
  have e: "part (export_all env ps h) = part h" for ps h
    unfolding export_all_def by (rule part_fold) simp
  show ?thesis by (auto simp: gs_do_start_def gs_open_bus_def register_application_def e)
qed

lemma part_do_notify [simp]: "part (do_notify p v g) = part g"
  by (auto simp: do_notify_def split: option.split)

lemma part_process [simp]: "part (gs_process_commands env g) = part g"
proof -
  have "part (fold (\<lambda>(p, v). do_notify p v) cs h) = part h" for cs h
    by (rule part_fold) auto
  then show ?thesis by (simp add: gs_process_commands_def Let_def)
qed

lemma part_start [simp]: "part (gs_start ss g) = part g"
  by (simp add: gs_start_def build_tree_def)

lemma part_notify [simp]: "part (char_notify c g) = part g"
  by (simp add: char_notify_def notify_characteristic_def Let_def)

lemma part_advertising [simp]:
  "part (adv_release g) = part g" "part (on_readvertise_timer env g) = part g"
  "part (schedule_readvertise now g) = part g"
  by (simp_all add: adv_release_def on_readvertise_timer_def schedule_readvertise_def)

lemma part_nodes [simp]: "part (snd (set_notifying b k g)) = part g" "part (on_xchar k f g) = part g"
  by (simp_all add: set_notifying_def Let_def on_xchar_def)

end

text \<open>A part that a new advertisement does not touch either.\<close>

locale gs_part = gs_frame +
  assumes part_pending [simp]: "part (gs_pending_adv_update f9 g) = part g"
begin

lemma part_changed [simp]: "part (on_advertising_changed a g) = part g"
  by (simp add: on_advertising_changed_def)

end

definition cycles :: "gatt_server \<Rightarrow> nat" where
  "cycles g = count_list (gs_calls g) Call_PowerCycle"

definition fallback :: "gatt_server \<Rightarrow> nat \<times> bool" where
  "fallback g = (cycles g, gs_power_cycled g)"

definition centrals :: "gatt_server \<Rightarrow> (string \<times> u16) list \<times> u16 \<times> server_event list" where
  "centrals g = (gs_conn_ids g, gs_next_conn_id g, gs_events g)"

interpretation fallback: gs_part fallback
  by unfold_locales (simp_all add: fallback_def cycles_def gs_call_def)

interpretation centrals: gs_part centrals
  by unfold_locales (simp_all add: centrals_def gs_call_def)

interpretation pending: gs_frame gs_pending_adv
  by unfold_locales (simp_all add: gs_call_def)

section \<open>The last resort is used once\<close>

lemma fallback_intern [simp]: "fallback (snd (intern_device d g)) = fallback g" "fallback (snd (chr_conn_id c d g)) = fallback g"
  by (simp_all add: fallback_def cycles_def intern_device_def chr_conn_id_def split: option.split)

lemma fallback_post [simp]: "fallback (post_server_event e g) = fallback g" "fallback (snd (drain_server_events g)) = fallback g"
  by (simp_all add: fallback_def cycles_def post_server_event_def drain_server_events_def)

lemma fallback_enumerate [simp]: "fallback (enumerate_object obj g) = fallback g"
  by (simp add: enumerate_object_def Let_def case_prod_beta)

lemma fallback_app_reply [simp]: "fallback (on_register_app_reply err r g) = fallback g"
  by (simp add: on_register_app_reply_def enumerate_connected_devices_def fallback.part_fold split: option.split)

lemma fallback_props [simp]: "fallback (on_device_props_changed now path iface ps g) = fallback g"
  by (simp add: on_device_props_changed_def Let_def case_prod_beta split: option.split)

lemma fallback_calls [simp]:
  "fallback (snd (chr_read_value f k os g)) = fallback g" "fallback (snd (chr_write_value f' k d os g)) = fallback g"
  "fallback (snd (desc_write_value k d os g)) = fallback g"
  by (simp_all add: chr_read_value_def chr_write_value_def desc_write_value_def Let_def case_prod_beta split: option.split)

lemma fallback_apply: "\<forall>env err. e \<noteq> G_adv_reply env err \<Longrightarrow> fallback (gs_apply e g) = fallback g"
  by (cases e) auto

lemma cycles_reply:
  "cycles (on_register_adv_reply env err g) \<le> (if gs_power_cycled g then cycles g else cycles g + 1)"
  "err \<Longrightarrow> gs_power_cycled (on_register_adv_reply env err g)"
  "\<not> err \<Longrightarrow> cycles (on_register_adv_reply env err g) = cycles g"
  using fallback.part_register [of env "(gs_call Call_PowerCycle (g\<lparr>gs_adv_registered := False, gs_power_cycled := True\<rparr>))
      \<lparr>gs_adv_slot := False, gs_adv_registered := False\<rparr>"]
  by (auto simp: on_register_adv_reply_def power_cycle_adapter_def Let_def fallback_def cycles_def gs_call_def)

text \<open>C26. The adapter is power-cycled at most once more than advertisements were registered successfully,
  however often BlueZ refuses: in every run of the server the fallback cannot loop.\<close>
theorem power_cycle_bounded:
  "cycles (fold gs_apply es (new_gatt_server ob)) \<le> length (filter (\<lambda>e. \<exists>env. e = G_adv_reply env False) es) + 1"
proof -
  have "cycles (fold gs_apply es (new_gatt_server ob))
      + (if gs_power_cycled (fold gs_apply es (new_gatt_server ob)) then 0 else 1)
    \<le> length (filter (\<lambda>e. \<exists>env. e = G_adv_reply env False) es) + 1"
  proof (induction es rule: rev_induct)
    case Nil then show ?case by (simp add: cycles_def new_gatt_server_def)
  next
    case (snoc e es)
    let ?g = "fold gs_apply es (new_gatt_server ob)"
    show ?case
    proof (cases "\<exists>env err. e = G_adv_reply env err")
      case True
      then obtain env err where e: "e = G_adv_reply env err" by blast
      show ?thesis using snoc cycles_reply [where env = env and err = err and g = ?g] by (cases err) (auto simp: e split: if_splits)
    next
      case False
      then show ?thesis using snoc fallback_apply [of e ?g] by (auto simp: fallback_def)
    qed
  qed
  then show ?thesis by linarith
qed


section \<open>What the worker reports of the centrals\<close>

text \<open>Identifiers are handed out in order, one for each path that was ever named.\<close>

definition ids_ok :: "gatt_server \<Rightarrow> bool" where
  "ids_ok g \<longleftrightarrow> gs_next_conn_id g = of_nat (length (gs_conn_ids g) + 1) \<and> distinct (map fst (gs_conn_ids g))
     \<and> map snd (gs_conn_ids g) = map of_nat (rev [1..<length (gs_conn_ids g) + 1])"

definition id_of :: "gatt_server \<Rightarrow> string \<Rightarrow> u16" where
  "id_of g p = (case map_of (gs_conn_ids g) p of None \<Rightarrow> 0 | Some i \<Rightarrow> i)"

definition named :: "gatt_server \<Rightarrow> string \<Rightarrow> bool" where
  "named g p \<longleftrightarrow> p \<in> set (map fst (gs_conn_ids g))"

definition event_of :: "gatt_server \<Rightarrow> string \<times> bool \<Rightarrow> server_event" where
  "event_of g r = (if snd r then SE_CONNECT (id_of g (fst r)) else SE_DISCONNECT (id_of g (fst r)))"

text \<open>The paths and states an event reports.\<close>

fun reports :: "gs_event \<Rightarrow> gatt_server \<Rightarrow> (string \<times> bool) list" where
  "reports (G_props now (Some p) iface ps) g =
     (if iface = ''org.bluez.Device1'' then (case connected_prop ps of Some b \<Rightarrow> [(p, b)] | None \<Rightarrow> []) else [])"
| "reports (G_app_reply err (Some objs)) g =
     (if \<not> err \<and> gs_bus g then map (\<lambda>o'. (fst o', True)) (filter (\<lambda>o'.
        filter (\<lambda>i. fst i = ''org.bluez.Device1'') (snd o') \<noteq> []
        \<and> connected_prop (concat (map snd (filter (\<lambda>i. fst i = ''org.bluez.Device1'') (snd o')))) = Some True) objs) else [])"
| "reports _ g = []"

definition told :: "gatt_server \<Rightarrow> (string \<times> bool) list \<Rightarrow> gatt_server \<Rightarrow> bool" where
  "told g rs g' \<longleftrightarrow> ids_ok g' \<and> (\<exists>xs. gs_conn_ids g' = xs @ gs_conn_ids g) \<and> gs_events g' = gs_events g @ map (event_of g') rs
     \<and> (\<forall>r\<in>set rs. named g' (fst r))"

lemma ids_inj:
  assumes "ids_ok g" "length (gs_conn_ids g) < 65535" "named g p"
  shows "id_of g p \<noteq> 0" "named g q \<Longrightarrow> id_of g p = id_of g q \<Longrightarrow> p = q"
proof -
  have v: "\<exists>k. k < length (gs_conn_ids g) \<and> gs_conn_ids g ! k = (r, id_of g r)" if "named g r" for r
  proof -
    from that obtain i where i: "(r, i) \<in> set (gs_conn_ids g)" by (auto simp: named_def)
    then have "map_of (gs_conn_ids g) r = Some i" using assms(1) by (simp add: ids_ok_def)
    then have "(r, id_of g r) \<in> set (gs_conn_ids g)" using i by (simp add: id_of_def)
    then show ?thesis by (metis in_set_conv_nth)
  qed
  have s: "snd (gs_conn_ids g ! k) = of_nat (length (gs_conn_ids g) - k)" if k: "k < length (gs_conn_ids g)" for k
  proof -
    have "snd (gs_conn_ids g ! k) = map snd (gs_conn_ids g) ! k" using k by simp
    also have "\<dots> = of_nat (rev [1..<length (gs_conn_ids g) + 1] ! k)" using assms(1) k by (simp add: ids_ok_def del: upt_Suc)
    also have "rev [1..<length (gs_conn_ids g) + 1] ! k = length (gs_conn_ids g) - k" using k by (simp add: rev_nth del: upt_Suc)
    finally show ?thesis .
  qed
  have u: "unat (id_of g r) = length (gs_conn_ids g) - k" if "k < length (gs_conn_ids g)" "gs_conn_ids g ! k = (r, id_of g r)" for r k
    using s [OF that(1)] that(2) assms(2) by (simp add: unat_of_nat take_bit_nat_eq_self)
  obtain k where k: "k < length (gs_conn_ids g)" "gs_conn_ids g ! k = (p, id_of g p)" using v [OF assms(3)] by blast
  show "id_of g p \<noteq> 0" using u [OF k] k(1) by auto
  assume q: "named g q" "id_of g p = id_of g q"
  obtain l where l: "l < length (gs_conn_ids g)" "gs_conn_ids g ! l = (q, id_of g q)" using v [OF q(1)] by blast
  have "k = l" using u [OF k] u [OF l] q(2) k(1) l(1) by simp
  then show "p = q" using k(2) l(2) by simp
qed

lemma id_of_extends:
  assumes "ids_ok g'" "gs_conn_ids g' = xs @ gs_conn_ids g" "named g p"
  shows "id_of g' p = id_of g p" "named g' p"
proof -
  from assms(3) obtain i where i: "(p, i) \<in> set (gs_conn_ids g)" by (auto simp: named_def)
  have d: "distinct (map fst (gs_conn_ids g'))" using assms(1) by (simp add: ids_ok_def)
  then have "distinct (map fst (gs_conn_ids g))" using assms(2) by simp
  then have "map_of (gs_conn_ids g) p = Some i" using i by (rule map_of_is_SomeI)
  moreover have "map_of (gs_conn_ids g') p = Some i" using i assms(2) by (intro map_of_is_SomeI [OF d]) simp
  ultimately show "id_of g' p = id_of g p" by (simp add: id_of_def)
  show "named g' p" using assms by (simp add: named_def)
qed

lemma told_trans:
  assumes "told a rs b" "told b ts c"
  shows "told a (rs @ ts) c"
proof -
  from assms obtain xs ys where x: "gs_conn_ids b = xs @ gs_conn_ids a" "gs_conn_ids c = ys @ gs_conn_ids b"
    by (auto simp: told_def)
  have c: "ids_ok c" using assms by (simp add: told_def)
  have "event_of c r = event_of b r" if "r \<in> set rs" for r
    using that assms(1) id_of_extends(1) [OF c x(2)] by (simp add: told_def event_of_def)
  then show ?thesis using assms x id_of_extends(2) [OF c x(2)] by (auto simp: told_def)
qed

lemma told_same: "ids_ok g \<Longrightarrow> centrals g' = centrals g \<Longrightarrow> told g [] g'"
  by (simp add: told_def ids_ok_def centrals_def)

lemma intern_told:
  assumes "ids_ok g"
  shows "told g [] (snd (intern_device d g))"
    "d = Some p \<Longrightarrow> fst (intern_device d g) = id_of (snd (intern_device d g)) p \<and> named (snd (intern_device d g)) p"
proof -
  have "ids_ok (snd (intern_device d g)) \<and> (\<exists>xs. gs_conn_ids (snd (intern_device d g)) = xs @ gs_conn_ids g)"
    using assms by (auto simp: intern_device_def ids_ok_def map_of_eq_None_iff image_iff split: option.splits)
  then show "told g [] (snd (intern_device d g))"
    by (simp add: told_def) (simp add: intern_device_def split: option.split)
  show "d = Some p \<Longrightarrow> fst (intern_device d g) = id_of (snd (intern_device d g)) p \<and> named (snd (intern_device d g)) p"
    by (auto simp: intern_device_def id_of_def named_def split: option.splits)
      (metis domI dom_map_of_conv_image_fst)
qed

lemma post_told:
  assumes "ids_ok g" "named g p"
  shows "told g [(p, b)] (post_server_event (if b then SE_CONNECT (id_of g p) else SE_DISCONNECT (id_of g p)) g)"
  using assms by (simp add: told_def post_server_event_def event_of_def ids_ok_def id_of_def named_def)

lemma report_told:
  assumes "ids_ok g"
  shows "told g [(p, b)] (post_server_event (if b then SE_CONNECT (fst (intern_device (Some p) g))
      else SE_DISCONNECT (fst (intern_device (Some p) g))) (snd (intern_device (Some p) g)))"
proof -
  note i = intern_told(1) [OF assms, of "Some p"] intern_told(2) [OF assms refl, of p]
  then have "ids_ok (snd (intern_device (Some p) g))" by (simp add: told_def)
  from told_trans [OF i(1) post_told [OF this conjunct2 [OF i(2)], of b]] i(2) show ?thesis by (cases b) simp_all
qed

lemma told_refl: "ids_ok g \<Longrightarrow> told g [] g"
  by (rule told_same) simp_all

lemma told_then_same: "told g rs h \<Longrightarrow> centrals h' = centrals h \<Longrightarrow> told g rs h'"
  using told_trans [of g rs h "[]" h'] told_same [of h h'] by (simp add: told_def)

lemma enumerate_told:
  assumes "ids_ok g"
  shows "told g (reports (G_app_reply False (Some [obj])) (g\<lparr>gs_bus := True\<rparr>)) (enumerate_object obj g)"
  using report_told [OF assms, of "fst obj" True] told_refl [OF assms]
  by (auto simp: enumerate_object_def Let_def case_prod_beta)

lemma enumerate_all_told:
  "ids_ok g \<Longrightarrow> told g (reports (G_app_reply False (Some objs)) (g\<lparr>gs_bus := True\<rparr>)) (fold enumerate_object objs g)"
proof (induction objs arbitrary: g)
  case Nil then show ?case by (simp add: told_refl)
next
  case (Cons obj objs)
  from enumerate_told [OF Cons.prems, of obj]
  have a: "told g (reports (G_app_reply False (Some [obj])) (g\<lparr>gs_bus := True\<rparr>)) (enumerate_object obj g)" .
  then have "ids_ok (enumerate_object obj g)" by (simp add: told_def)
  from told_trans [OF a Cons.IH [OF this]] show ?case by (auto split: if_splits)
qed

lemma chr_conn_id_told: "ids_ok g \<Longrightarrow> told g [] (snd (chr_conn_id c d g))"
  by (simp add: chr_conn_id_def intern_told told_refl)

lemma props_told:
  assumes "ids_ok g"
  shows "told g (reports (G_props now path iface ps) g) (on_device_props_changed now path iface ps g)"
proof (cases "iface = ''org.bluez.Device1'' \<and> path \<noteq> None \<and> connected_prop ps \<noteq> None")
  case False
  then have "on_device_props_changed now path iface ps g = g" "reports (G_props now path iface ps) g = []"
    by (cases path; auto simp: on_device_props_changed_def split: option.splits)+
  then show ?thesis by (simp add: told_refl [OF assms])
next
  case True
  then obtain p b where p: "path = Some p" "connected_prop ps = Some b" "iface = ''org.bluez.Device1''" by blast
  have "centrals (on_device_props_changed now path iface ps g) = centrals (post_server_event
      (if b then SE_CONNECT (fst (intern_device (Some p) g)) else SE_DISCONNECT (fst (intern_device (Some p) g)))
      (snd (intern_device (Some p) g)))"
    using p by (simp add: on_device_props_changed_def Let_def case_prod_beta)
  from told_then_same [OF report_told [OF assms] this] show ?thesis using p by simp
qed

lemma apply_told:
  assumes "ids_ok g" "e \<noteq> G_drain"
  shows "told g (reports e g) (gs_apply e g)"
proof (cases e)
  case (G_app_reply err r)
  show ?thesis
  proof (cases r)
    case None then show ?thesis using G_app_reply
      by (simp add: on_register_app_reply_def enumerate_connected_devices_def told_refl [OF assms(1)])
  next
    case (Some objs)
    then show ?thesis using G_app_reply enumerate_all_told [OF assms(1), of objs] told_refl [OF assms(1)]
      by (simp add: on_register_app_reply_def enumerate_connected_devices_def)
  qed
next
  case (G_props now path iface ps) then show ?thesis using props_told [OF assms(1)] by simp
next
  case (G_adv_reply env err)
  have "centrals (on_register_adv_reply env err g) = centrals g"
    by (simp add: on_register_adv_reply_def power_cycle_adapter_def Let_def centrals_def gs_call_def
        centrals.part_register [unfolded centrals_def prod.inject, THEN conjunct1]
        centrals.part_register [unfolded centrals_def prod.inject, THEN conjunct2, THEN conjunct1]
        centrals.part_register [unfolded centrals_def prod.inject, THEN conjunct2, THEN conjunct2])
  then show ?thesis using G_adv_reply told_same [OF assms(1)] by simp
next
  case (G_read f k os)
  have "centrals (snd (chr_read_value f k os g)) = centrals (snd (chr_conn_id (xc_chr (gs_chars g ! k)) (snd (parse_options os)) g))"
    by (simp add: chr_read_value_def Let_def case_prod_beta)
  then show ?thesis using G_read told_then_same [OF chr_conn_id_told [OF assms(1)]] by simp
next
  case (G_write f k d os)
  have "centrals (snd (chr_write_value f k d os g)) = centrals (snd (chr_conn_id (xc_chr (gs_chars g ! k)) (snd (parse_options os)) g))"
    by (simp add: chr_write_value_def Let_def case_prod_beta)
  then show ?thesis using G_write told_then_same [OF chr_conn_id_told [OF assms(1)]] by simp
next
  case (G_desc_write k d os)
  then show ?thesis
    using told_then_same [OF chr_conn_id_told [OF assms(1)]] told_same [OF assms(1)]
    by (auto simp: desc_write_value_def Let_def case_prod_beta split: option.split)
qed (use assms in \<open>simp_all add: told_same\<close>)

end
