(* ===== verification/Ble_Server.thy ===== *)
theory Ble_Server
  imports Gatt_Server
begin

text \<open>
  The GATT server's main-thread side: \<open>BLEServer\<close> (\<open>components/esp32_ble_server/ble_server.cpp\<close>) with its
  service list, its set of connected centrals and its callbacks, the composition with the objects, the
  advertisement holder and the worker side in \<open>setup\<close> and \<open>loop\<close>, and the listener table of the
  set-value action (\<open>ble_server_automations.cpp\<close>).

  A callback registered with \<open>on_connect\<close> or \<open>on_disconnect\<close> is its kind; \<open>bs_log\<close> records the calls made,
  as the index of the callback and the connection.
\<close>

section \<open>State\<close>

datatype callback_type = ON_CONNECT | ON_DISCONNECT

record ble_server =
  bs_callbacks :: "callback_type list"
  bs_log :: "(nat \<times> u16) list"
  bs_manufacturer_data :: bytes
  bs_clients :: "u16 list"
  bs_services :: "(ESPBTUUID \<times> u8 \<times> nat) list"
  bs_services_to_start :: "nat list"
  bs_device_information :: "nat option"
  bs_running :: bool

record server_system =
  sy_server :: ble_server
  sy_ble :: esp32_ble
  sy_ob :: srv_objects
  sy_gatt :: "gatt_server option"

definition new_ble_server :: ble_server where
  "new_ble_server = \<lparr>bs_callbacks = [], bs_log = [], bs_manufacturer_data = [], bs_clients = [], bs_services = [],
     bs_services_to_start = [], bs_device_information = None, bs_running = False\<rparr>"

definition new_server_system :: server_system where
  "new_server_system = \<lparr>sy_server = new_ble_server,
     sy_ble = \<lparr>eb_adv = empty_adv, eb_backend = False, eb_pushed = [], eb_raw_callbacks = 0, eb_raw_calls = 0\<rparr>,
     sy_ob = \<lparr>ob_descs = [], ob_chars = [], ob_services = []\<rparr>, sy_gatt = None\<rparr>"

section \<open>Services\<close>

definition server_get_service :: "ESPBTUUID \<Rightarrow> u8 \<Rightarrow> ble_server \<Rightarrow> nat option" where
  "server_get_service u inst s =
     map_option (\<lambda>e. snd (snd e)) (List.find (\<lambda>e. uuid_eq (fst e) u \<and> fst (snd e) = inst) (bs_services s))"

definition create_service :: "ESPBTUUID \<Rightarrow> bool \<Rightarrow> server_system \<Rightarrow> nat option \<times> server_system" where
  "create_service u advertise sys =
    (case List.find (\<lambda>i. server_get_service u (of_nat i) (sy_server sys) = None) [0..<255] of
       None \<Rightarrow> (None, sys)
     | Some i \<Rightarrow> (let p = length (ob_services (sy_ob sys)); s = sy_server sys in
         (Some p, sys\<lparr>sy_ob := (sy_ob sys)\<lparr>ob_services := ob_services (sy_ob sys) @ [new_service u (of_nat i) advertise]\<rparr>,
                      sy_server := s\<lparr>bs_services := bs_services s @ [(u, of_nat i, p)]\<rparr>\<rparr>)))"

fun remove_entry :: "ESPBTUUID \<Rightarrow> u8 \<Rightarrow> (ESPBTUUID \<times> u8 \<times> nat) list \<Rightarrow> (ESPBTUUID \<times> u8 \<times> nat) list" where
  "remove_entry u inst [] = []"
| "remove_entry u inst (e # es) = (if uuid_eq (fst e) u \<and> fst (snd e) = inst then es else e # remove_entry u inst es)"

definition remove_service :: "ESPBTUUID \<Rightarrow> u8 \<Rightarrow> ble_server \<Rightarrow> ble_server" where
  "remove_service u inst s = s\<lparr>bs_services := remove_entry u inst (bs_services s)\<rparr>"

definition enqueue_start_service :: "nat \<Rightarrow> ble_server \<Rightarrow> ble_server" where
  "enqueue_start_service p s = s\<lparr>bs_services_to_start := bs_services_to_start s @ [p]\<rparr>"

definition on_callback :: "callback_type \<Rightarrow> ble_server \<Rightarrow> ble_server" where
  "on_callback t s = s\<lparr>bs_callbacks := bs_callbacks s @ [t]\<rparr>"

section \<open>Centrals\<close>

definition dispatch_callbacks :: "callback_type \<Rightarrow> u16 \<Rightarrow> ble_server \<Rightarrow> ble_server" where
  "dispatch_callbacks t conn_id s =
     s\<lparr>bs_log := bs_log s @ map (\<lambda>i. (i, conn_id)) (filter (\<lambda>i. bs_callbacks s ! i = t) [0..<length (bs_callbacks s)])\<rparr>"

definition host_on_connect :: "u16 \<Rightarrow> ble_server \<Rightarrow> ble_server" where
  "host_on_connect c s = (if c \<in> set (bs_clients s) then s
     else dispatch_callbacks ON_CONNECT c (s\<lparr>bs_clients := bs_clients s @ [c]\<rparr>))"

definition host_on_disconnect :: "u16 \<Rightarrow> ble_server \<Rightarrow> ble_server" where
  "host_on_disconnect c s = (if c \<notin> set (bs_clients s) then s
     else dispatch_callbacks ON_DISCONNECT c (s\<lparr>bs_clients := remove1 c (bs_clients s)\<rparr>))"

definition handle_server_event :: "server_event \<Rightarrow> ble_server \<Rightarrow> ble_server" where
  "handle_server_event e s = (case e of SE_CONNECT c \<Rightarrow> host_on_connect c s | SE_DISCONNECT c \<Rightarrow> host_on_disconnect c s)"

definition server_loop :: "server_system \<Rightarrow> server_system" where
  "server_loop sys = (case sy_gatt sys of
       None \<Rightarrow> sys
     | Some g \<Rightarrow> (case drain_server_events g of (evs, g1) \<Rightarrow>
         sys\<lparr>sy_gatt := Some g1, sy_server := fold handle_server_event evs (sy_server sys)\<rparr>))"

section \<open>Advertising and setup\<close>

text \<open>An operation of \<open>ESP32BLE\<close>: what it pushes reaches the backend, the worker side of the server.\<close>

definition with_ble :: "(esp32_ble \<Rightarrow> esp32_ble) \<Rightarrow> server_system \<Rightarrow> server_system" where
  "with_ble f sys = (let e = f ((sy_ble sys)\<lparr>eb_pushed := []\<rparr>) in
     sys\<lparr>sy_ble := e, sy_gatt := map_option (fold on_advertising_changed (eb_pushed e)) (sy_gatt sys)\<rparr>)"

definition restart_advertising :: "server_system \<Rightarrow> server_system" where
  "restart_advertising sys = (if bs_running (sy_server sys)
     then with_ble (advertising_set_manufacturer_data (bs_manufacturer_data (sy_server sys))) sys else sys)"

definition set_manufacturer_data :: "bytes \<Rightarrow> server_system \<Rightarrow> server_system" where
  "set_manufacturer_data d sys = restart_advertising (sys\<lparr>sy_server := (sy_server sys)\<lparr>bs_manufacturer_data := d\<rparr>\<rparr>)"

definition dis_list :: "ble_server \<Rightarrow> nat list" where
  "dis_list s = (case bs_device_information s of None \<Rightarrow> [] | Some d \<Rightarrow> [d])"

definition all_services :: "ble_server \<Rightarrow> nat list" where
  "all_services s = dis_list s @ filter (\<lambda>p. bs_device_information s \<noteq> Some p) (map (\<lambda>e. snd (snd e)) (bs_services s))"

definition server_setup :: "server_system \<Rightarrow> server_system" where
  "server_setup sys =
    (let s = sy_server sys;
         ob1 = fold service_do_create (all_services s) (sy_ob sys);
         started = fold service_start (bs_services_to_start s @ dis_list s) (ob1, sy_ble sys);
         g = gs_start (all_services s) (new_gatt_server (fst started))
     in with_ble advertising_start
          (sys\<lparr>sy_ob := fst started, sy_ble := (snd started)\<lparr>eb_backend := True\<rparr>, sy_gatt := Some g,
               sy_server := s\<lparr>bs_running := True\<rparr>\<rparr>))"

definition server_can_proceed :: "ble_server \<Rightarrow> bool" where
  "server_can_proceed s = bs_running s"

section \<open>The listeners of the set-value action\<close>

definition find_listener :: "nat \<Rightarrow> (nat \<times> 'f) list \<Rightarrow> 'f option" where
  "find_listener c ls = map_option snd (List.find (\<lambda>e. fst e = c) ls)"

fun listener_index :: "nat \<Rightarrow> (nat \<times> 'f) list \<Rightarrow> nat option" where
  "listener_index c [] = None"
| "listener_index c (e # es) = (if fst e = c then Some 0 else map_option Suc (listener_index c es))"

definition remove_listener :: "nat \<Rightarrow> (nat \<times> 'f) list \<Rightarrow> (nat \<times> 'f) list" where
  "remove_listener c ls = (case listener_index c ls of None \<Rightarrow> ls | Some i \<Rightarrow> butlast (ls[i := last ls]))"

definition set_listener :: "nat \<Rightarrow> 'f \<Rightarrow> (nat \<times> 'f) list \<Rightarrow> (nat \<times> 'f) list" where
  "set_listener c f ls = (if find_listener c ls \<noteq> None then remove_listener c ls else ls) @ [(c, f)]"

section \<open>Which centrals are connected\<close>

datatype sys_event = Worker gs_event | Main_loop

fun sys_apply :: "sys_event \<Rightarrow> server_system \<Rightarrow> server_system" where
  "sys_apply (Worker e) sys = sys\<lparr>sy_gatt := map_option (gs_apply e) (sy_gatt sys)\<rparr>"
| "sys_apply Main_loop sys = server_loop sys"

fun sys_reports :: "sys_event list \<Rightarrow> server_system \<Rightarrow> (string \<times> bool) list" where
  "sys_reports [] sys = []"
| "sys_reports (e # es) sys =
    (case e of Worker w \<Rightarrow> (case sy_gatt sys of Some g \<Rightarrow> reports w g | None \<Rightarrow> []) | Main_loop \<Rightarrow> [])
    @ sys_reports es (sys_apply e sys)"

fun present :: "server_event list \<Rightarrow> u16 set \<Rightarrow> u16 set" where
  "present [] A = A"
| "present (SE_CONNECT c # es) A = present es (insert c A)"
| "present (SE_DISCONNECT c # es) A = present es (A - {c})"

lemma present_append: "present (es @ fs) A = present fs (present es A)"
  by (induction es A rule: present.induct) simp_all

lemma clients_step:
  "distinct (bs_clients s) \<Longrightarrow> distinct (bs_clients (handle_server_event e s))
    \<and> set (bs_clients (handle_server_event e s)) = present [e] (set (bs_clients s))"
  by (cases e) (auto simp: handle_server_event_def host_on_connect_def host_on_disconnect_def dispatch_callbacks_def)

lemma clients_fold:
  "distinct (bs_clients s) \<Longrightarrow> distinct (bs_clients (fold handle_server_event es s))
    \<and> set (bs_clients (fold handle_server_event es s)) = present es (set (bs_clients s))"
proof (induction es arbitrary: s)
  case Nil then show ?case by simp
next
  case (Cons e es)
  note c = clients_step [OF Cons.prems, of e]
  show ?case using Cons.IH [of "handle_server_event e s"] c present_append [of "[e]" es] by simp
qed

lemma present_reports:
  assumes "ids_ok g" "length (gs_conn_ids g) < 65535" "\<forall>r\<in>set rs. named g (fst r)" "named g p"
  shows "id_of g p \<in> present (map (event_of g) rs) A \<longleftrightarrow>
    (case map_of (rev rs) p of Some b \<Rightarrow> b | None \<Rightarrow> id_of g p \<in> A)"
  using assms(3)
proof (induction rs rule: rev_induct)
  case Nil then show ?case by simp
next
  case (snoc r rs)
  obtain q b where r: "r = (q, b)" by (cases r) auto
  have "named g q" using snoc.prems r by simp
  then have "id_of g p = id_of g q \<longleftrightarrow> p = q" using ids_inj(2) [OF assms(1,2,4)] by blast
  then show ?case using snoc by (cases b) (auto simp: r event_of_def present_append)
qed

lemma present_subset: "present (map (event_of g) ts) B \<subseteq> B \<union> (\<lambda>r. id_of g (fst r)) ` set ts"
proof (induction ts arbitrary: B)
  case Nil then show ?case by simp
next
  case (Cons r ts)
  show ?case using Cons.IH [of "insert (id_of g (fst r)) B"] Cons.IH [of "B - {id_of g (fst r)}"]
    by (cases "snd r") (auto simp: event_of_def)
qed

definition tracks :: "server_system \<Rightarrow> (string \<times> bool) list \<Rightarrow> bool" where
  "tracks sys rs \<longleftrightarrow> distinct (bs_clients (sy_server sys)) \<and> (\<exists>g. sy_gatt sys = Some g \<and> ids_ok g \<and>
     (length (gs_conn_ids g) < 65535 \<longrightarrow>
       (\<forall>c\<in>present (gs_events g) (set (bs_clients (sy_server sys))). \<exists>p. named g p \<and> id_of g p = c) \<and>
       (\<forall>p. named g p \<longrightarrow> (id_of g p \<in> present (gs_events g) (set (bs_clients (sy_server sys))) \<longleftrightarrow> map_of (rev rs) p = Some True)) \<and>
       (\<forall>p. \<not> named g p \<longrightarrow> map_of (rev rs) p = None)))"

text \<open>New identifiers do not disturb what is known of the old ones.\<close>

lemma id_known_before:
  assumes "ids_ok g'" "gs_conn_ids g' = xs @ gs_conn_ids g" "length (gs_conn_ids g') < 65535" "named g' p"
    and old: "\<forall>c\<in>A. \<exists>p. named g p \<and> id_of g p = c" "\<forall>p. named g p \<longrightarrow> (id_of g p \<in> A \<longleftrightarrow> m p = Some True)"
      "\<forall>p. \<not> named g p \<longrightarrow> m p = None"
  shows "id_of g' p \<in> A \<longleftrightarrow> m p = Some True"
proof (cases "named g p")
  case True then show ?thesis using old(2) id_of_extends(1) [OF assms(1,2)] by simp
next
  case False
  have "id_of g' p \<notin> A"
  proof
    assume "id_of g' p \<in> A"
    then obtain q where q: "named g q" "id_of g q = id_of g' p" using old(1) by blast
    then have "q = p" using ids_inj(2) [OF assms(1,3), of q p] id_of_extends [OF assms(1,2)] assms(4) by simp
    then show False using q False by simp
  qed
  then show ?thesis using old(3) False by simp
qed

lemma present_known:
  assumes "ids_ok g'" "gs_conn_ids g' = xs @ gs_conn_ids g" "\<forall>r\<in>set ts. named g' (fst r)"
    and old: "\<forall>c\<in>A. \<exists>p. named g p \<and> id_of g p = c"
  shows "\<forall>c\<in>present (map (event_of g') ts) A. \<exists>p. named g' p \<and> id_of g' p = c"
proof
  fix c assume "c \<in> present (map (event_of g') ts) A"
  with present_subset [of g' ts A] consider "c \<in> A" | r where "r \<in> set ts" "c = id_of g' (fst r)" by blast
  then show "\<exists>p. named g' p \<and> id_of g' p = c"
  proof cases
    case 1
    then obtain p where "named g p" "id_of g p = c" using old by blast
    then show ?thesis using id_of_extends [OF assms(1,2), of p] by blast
  next
    case 2 then show ?thesis using assms(3) by blast
  qed
qed

lemma tracks_worker:
  assumes "tracks sys rs" "e \<noteq> G_drain" "sy_gatt sys = Some g"
  shows "tracks (sys_apply (Worker e) sys) (rs @ reports e g)"
proof -
  let ?g = "gs_apply e g" and ?A = "present (gs_events g) (set (bs_clients (sy_server sys)))" and ?ts = "reports e g"
  have g: "ids_ok g" "distinct (bs_clients (sy_server sys))" using assms by (auto simp: tracks_def)
  note t = apply_told [OF g(1) assms(2)]
  then obtain xs where x: "gs_conn_ids ?g = xs @ gs_conn_ids g" and ok: "ids_ok ?g"
    and ev: "gs_events ?g = gs_events g @ map (event_of ?g) ?ts" and nm: "\<forall>r\<in>set ?ts. named ?g (fst r)"
    by (auto simp: told_def)
  have P: "present (gs_events ?g) (set (bs_clients (sy_server sys))) = present (map (event_of ?g) ?ts) ?A"
    unfolding ev by (simp add: present_append)
  have main: "(\<forall>c\<in>present (map (event_of ?g) ?ts) ?A. \<exists>p. named ?g p \<and> id_of ?g p = c) \<and>
       (\<forall>p. named ?g p \<longrightarrow> (id_of ?g p \<in> present (map (event_of ?g) ?ts) ?A \<longleftrightarrow> map_of (rev (rs @ ?ts)) p = Some True)) \<and>
       (\<forall>p. \<not> named ?g p \<longrightarrow> map_of (rev (rs @ ?ts)) p = None)" if len: "length (gs_conn_ids ?g) < 65535"
  proof (intro conjI)
    have lg: "length (gs_conn_ids g) < 65535" using len x by simp
    have old: "\<forall>c\<in>?A. \<exists>p. named g p \<and> id_of g p = c"
      "\<forall>p. named g p \<longrightarrow> (id_of g p \<in> ?A \<longleftrightarrow> map_of (rev rs) p = Some True)"
      "\<forall>p. \<not> named g p \<longrightarrow> map_of (rev rs) p = None"
      using assms(1,3) lg by (auto simp: tracks_def)
    note ext = id_of_extends [OF ok x]
    show "\<forall>c\<in>present (map (event_of ?g) ?ts) ?A. \<exists>p. named ?g p \<and> id_of ?g p = c"
      by (rule present_known [OF ok x nm old(1)])
    show "\<forall>p. named ?g p \<longrightarrow> (id_of ?g p \<in> present (map (event_of ?g) ?ts) ?A \<longleftrightarrow> map_of (rev (rs @ ?ts)) p = Some True)"
    proof (intro allI impI)
      fix p assume p: "named ?g p"
      have "id_of ?g p \<in> ?A \<longleftrightarrow> map_of (rev rs) p = Some True" by (rule id_known_before [OF ok x len p old])
      then show "id_of ?g p \<in> present (map (event_of ?g) ?ts) ?A \<longleftrightarrow> map_of (rev (rs @ ?ts)) p = Some True"
        using present_reports [OF ok len nm p, of ?A] by (auto simp: map_add_def split: option.splits)
    qed
    show "\<forall>p. \<not> named ?g p \<longrightarrow> map_of (rev (rs @ ?ts)) p = None"
    proof (intro allI impI)
      fix p assume p: "\<not> named ?g p"
      then have "\<not> named g p" using ext(2) by blast
      moreover have "p \<notin> fst ` set (rev ?ts)" using nm p by auto
      ultimately show "map_of (rev (rs @ ?ts)) p = None" using old(3) by (simp add: map_add_def map_of_eq_None_iff split: option.split)
    qed
  qed
  show ?thesis unfolding tracks_def using g ok main assms(3) by (simp add: P)
qed

lemma tracks_loop: "tracks sys rs \<Longrightarrow> tracks (server_loop sys) rs"
proof -
  assume t: "tracks sys rs"
  then obtain g where g: "sy_gatt sys = Some g" "distinct (bs_clients (sy_server sys))" by (auto simp: tracks_def)
  note c = clients_fold [OF g(2), of "gs_events g"]
  have n: "named (g\<lparr>gs_events := []\<rparr>) = named g" "id_of (g\<lparr>gs_events := []\<rparr>) = id_of g" "ids_ok (g\<lparr>gs_events := []\<rparr>) = ids_ok g"
    by (simp_all add: named_def [abs_def] id_of_def [abs_def] ids_ok_def)
  show ?thesis using t g c by (simp add: tracks_def server_loop_def drain_server_events_def n)
qed

lemma tracks_run:
  assumes "tracks sys rs" "Worker G_drain \<notin> set es"
  shows "tracks (fold sys_apply es sys) (rs @ sys_reports es sys)"
  using assms
proof (induction es arbitrary: sys rs)
  case Nil then show ?case by simp
next
  case (Cons e es)
  show ?case
  proof (cases e)
    case (Worker w)
    obtain g where g: "sy_gatt sys = Some g" using Cons.prems(1) by (auto simp: tracks_def)
    have "w \<noteq> G_drain" using Cons.prems(2) Worker by auto
    from Cons.IH [OF tracks_worker [OF Cons.prems(1) this g]] Cons.prems(2) g show ?thesis by (simp add: Worker)
  next
    case Main_loop
    from tracks_loop [OF Cons.prems(1)] Cons.IH Cons.prems(2) show ?thesis by (simp add: Main_loop)
  qed
qed

lemma with_ble_keeps:
  "sy_server (with_ble f sys) = sy_server sys" "map_option centrals (sy_gatt (with_ble f sys)) = map_option centrals (sy_gatt sys)"
proof -
  have "centrals (fold on_advertising_changed as g) = centrals g" for as g
    by (rule centrals.part_fold) simp
  then show "map_option centrals (sy_gatt (with_ble f sys)) = map_option centrals (sy_gatt sys)"
    by (simp add: with_ble_def Let_def option.map_comp comp_def)
qed (simp add: with_ble_def Let_def)

lemma setup_centrals:
  "\<exists>g. sy_gatt (server_setup sys) = Some g \<and> centrals g = ([], 1, [])"
  "bs_clients (sy_server (server_setup sys)) = bs_clients (sy_server sys)"
proof -
  have n: "centrals (new_gatt_server ob) = ([], 1, [])" for ob by (simp add: centrals_def new_gatt_server_def)
  have "map_option centrals (sy_gatt (server_setup sys)) = Some ([], 1, [])"
    by (simp add: server_setup_def Let_def with_ble_keeps n)
  then show "\<exists>g. sy_gatt (server_setup sys) = Some g \<and> centrals g = ([], 1, [])" by auto
  show "bs_clients (sy_server (server_setup sys)) = bs_clients (sy_server sys)"
    by (simp add: server_setup_def Let_def with_ble_keeps)
qed

text \<open>C23. From setup on, through any interleaving of worker events and main loops, the application's list of
  clients is right after every loop: a central is in it exactly when the last thing BlueZ reported of its
  device was that it is connected, no client is listed twice, and different devices have different
  non-zero identifiers; as long as fewer than 65535 devices were ever named (the identifier is 16 bits).\<close>
theorem central_presence:
  assumes "bs_clients (sy_server sys) = []" "Worker G_drain \<notin> set es"
    "sys' = server_loop (fold sys_apply es (server_setup sys))" "sy_gatt sys' = Some g" "length (gs_conn_ids g) < 65535"
  shows "distinct (bs_clients (sy_server sys'))
    \<and> (\<forall>p. named g p \<and> id_of g p \<in> set (bs_clients (sy_server sys'))
        \<longleftrightarrow> map_of (rev (sys_reports es (server_setup sys))) p = Some True)
    \<and> (\<forall>p q. named g p \<longrightarrow> named g q \<longrightarrow> id_of g p = id_of g q \<longrightarrow> p = q) \<and> (\<forall>p. named g p \<longrightarrow> id_of g p \<noteq> 0)"
proof -
  obtain g0 where g0: "sy_gatt (server_setup sys) = Some g0" "gs_conn_ids g0 = []" "gs_next_conn_id g0 = 1" "gs_events g0 = []"
    using setup_centrals(1) [of sys] by (auto simp: centrals_def)
  have "tracks (server_setup sys) []"
    using g0 assms(1) by (simp add: tracks_def ids_ok_def named_def setup_centrals(2))
  from tracks_loop [OF tracks_run [OF this assms(2)]]
  have t: "tracks sys' (sys_reports es (server_setup sys))" unfolding assms(3) by simp
  have "gs_events g = []" using assms(3,4)
    by (auto simp: server_loop_def drain_server_events_def split: option.splits)
  then show ?thesis using t assms(4,5) ids_inj [of g] by (auto simp: tracks_def)
qed

lemma central_presence_witness:
  "\<exists>g. sy_gatt (server_loop (sys_apply (Worker (G_props 0 (Some ''/d'') ''org.bluez.Device1'' [DP_Connected True]))
       (server_setup new_server_system))) = Some g \<and> named g ''/d'' \<and> id_of g ''/d'' \<noteq> 0"
proof -
  let ?e = "Worker (G_props 0 (Some ''/d'') ''org.bluez.Device1'' [DP_Connected True])" and ?s = "server_setup new_server_system"
  obtain g0 where g0: "sy_gatt ?s = Some g0" "gs_conn_ids g0 = []" "gs_next_conn_id g0 = 1" "gs_events g0 = []"
    using setup_centrals(1) [of new_server_system] by (auto simp: centrals_def)
  then obtain g where g: "sy_gatt (server_loop (fold sys_apply [?e] ?s)) = Some g" "gs_conn_ids g = [(''/d'', 1)]"
    by (auto simp: server_loop_def drain_server_events_def on_device_props_changed_def connected_prop_def intern_device_def
        post_server_event_def)
  have "bs_clients (sy_server new_server_system) = []" by (simp add: new_server_system_def new_ble_server_def)
  from central_presence [OF this _ refl g(1), of] g show ?thesis by (simp add: named_def)
qed

section \<open>Manufacturer data is never advertised\<close>

text \<open>Whatever the application does with \<open>ESP32BLE\<close> and \<open>BLEServer\<close>, in any interleaving with worker events and
  main loops; a service list or object changed by the application is an arbitrary change of that part.\<close>

inductive ble_op :: "(esp32_ble \<Rightarrow> esp32_ble) \<Rightarrow> bool" where
  "ble_op advertising_start"
| "ble_op (advertising_set_service_data d)"
| "ble_op (advertising_set_manufacturer_data d)"
| "ble_op (advertising_set_appearance a)"
| "ble_op (advertising_set_service_data_and_name d n)"
| "ble_op (advertising_add_service_uuid u)"
| "ble_op (advertising_remove_service_uuid u)"
| "ble_op register_raw_advertisement_callback"

inductive server_step :: "server_system \<Rightarrow> server_system \<Rightarrow> bool" where
  step_event: "\<forall>a. e \<noteq> Worker (G_advertising a) \<Longrightarrow> server_step sys (sys_apply e sys)"
| step_ble: "ble_op f \<Longrightarrow> server_step sys (with_ble f sys)"
| step_manufacturer: "server_step sys (set_manufacturer_data d sys)"
| step_server: "server_step sys (sys\<lparr>sy_server := s, sy_ob := ob\<rparr>)"
| step_setup: "server_step sys (server_setup sys)"

definition no_company :: "host_adv \<Rightarrow> bool" where
  "no_company a \<longleftrightarrow> ha_manufacturer_company a = 0"

definition ble_no_company :: "esp32_ble \<Rightarrow> bool" where
  "ble_no_company e \<longleftrightarrow> no_company (eb_adv e) \<and> list_all no_company (eb_pushed e)"

lemma ble_op_no_company: "ble_op f \<Longrightarrow> ble_no_company e \<Longrightarrow> ble_no_company (f e)"
  by (induction rule: ble_op.induct)
    (auto simp: ble_no_company_def no_company_def advertising_start_def advertising_set_service_data_def
      advertising_set_manufacturer_data_def advertising_set_appearance_def advertising_set_service_data_and_name_def
      advertising_add_service_uuid_def advertising_remove_service_uuid_def register_raw_advertisement_callback_def
      push_advertising_def)

definition sys_no_company :: "server_system \<Rightarrow> bool" where
  "sys_no_company sys \<longleftrightarrow> no_company (eb_adv (sy_ble sys)) \<and> (\<forall>g. sy_gatt sys = Some g \<longrightarrow> no_company (gs_pending_adv g))"

lemma with_ble_no_company:
  assumes "ble_op f" "sys_no_company sys"
  shows "sys_no_company (with_ble f sys)"
proof -
  have e: "ble_no_company (f ((sy_ble sys)\<lparr>eb_pushed := []\<rparr>))"
    by (rule ble_op_no_company [OF assms(1)]) (use assms(2) in \<open>simp add: ble_no_company_def sys_no_company_def\<close>)
  have "no_company (gs_pending_adv (fold on_advertising_changed as g))"
    if "list_all no_company as" "no_company (gs_pending_adv g)" for as g
    using that by (induction as arbitrary: g) (auto simp: on_advertising_changed_def)
  then show ?thesis using e assms(2) by (auto simp: with_ble_def Let_def sys_no_company_def ble_no_company_def)
qed

lemma pending_apply: "\<forall>a. e \<noteq> G_advertising a \<Longrightarrow> gs_pending_adv (gs_apply e g) = gs_pending_adv g"
proof (cases e)
  case (G_app_reply err r)
  have "gs_pending_adv (enumerate_object obj h) = gs_pending_adv h" for obj h
    by (auto simp: enumerate_object_def Let_def post_server_event_def intern_device_def split: option.split)
  then show ?thesis using G_app_reply
    by (simp add: on_register_app_reply_def enumerate_connected_devices_def pending.part_fold split: option.split)
next
  case (G_adv_reply env err)
  then show ?thesis by (simp add: on_register_adv_reply_def power_cycle_adapter_def Let_def gs_call_def)
qed (auto simp: drain_server_events_def on_device_props_changed_def post_server_event_def intern_device_def Let_def
    chr_read_value_def chr_write_value_def desc_write_value_def chr_conn_id_def on_xchar_def split: option.split prod.split)

lemma service_start_adv: "no_company (eb_adv e) \<Longrightarrow> no_company (eb_adv (snd (service_start s (ob, e))))"
  by (simp add: service_start_def advertising_add_service_uuid_def push_advertising_def no_company_def)

lemma fold_service_start_adv: "no_company (eb_adv (snd p)) \<Longrightarrow> no_company (eb_adv (snd (fold service_start ss p)))"
proof (induction ss arbitrary: p)
  case Nil then show ?case by simp
next
  case (Cons s ss)
  from service_start_adv [of "snd p" s "fst p"] Cons.prems have "no_company (eb_adv (snd (service_start s p)))" by simp
  from Cons.IH [OF this] show ?case by simp
qed

lemma server_step_no_company: "server_step sys sys' \<Longrightarrow> sys_no_company sys \<Longrightarrow> sys_no_company sys'"
proof (induction rule: server_step.induct)
  case (step_event e sys)
  show ?case
  proof (cases e)
    case (Worker w)
    then show ?thesis using step_event pending_apply [of w] by (auto simp: sys_no_company_def)
  next
    case Main_loop
    then show ?thesis using step_event
      by (auto simp: sys_no_company_def server_loop_def drain_server_events_def split: option.split)
  qed
next
  case (step_ble f sys) then show ?case by (rule with_ble_no_company)
next
  case (step_manufacturer sys d)
  have "sys_no_company (sys\<lparr>sy_server := s\<rparr>) = sys_no_company sys" for s by (simp add: sys_no_company_def)
  then show ?case using step_manufacturer
    by (simp add: set_manufacturer_data_def restart_advertising_def with_ble_no_company ble_op.intros)
next
  case (step_server sys s ob) then show ?case by (simp add: sys_no_company_def)
next
  case (step_setup sys)
  show ?case unfolding server_setup_def Let_def
    by (rule with_ble_no_company [OF ble_op.intros(1)])
      (use step_setup fold_service_start_adv in \<open>simp add: sys_no_company_def new_gatt_server_def empty_adv_def no_company_def\<close>)
qed

text \<open>The \<open>ManufacturerData\<close> of the advertisement is empty in every execution, whatever manufacturer data the
  application sets: the company identifier it would be keyed by is never set by anything.\<close>
theorem manufacturer_data_never_advertised:
  assumes "server_step\<^sup>*\<^sup>* new_server_system sys" "sy_gatt sys = Some g"
  shows "adv_get_manufacturer_data g = R_company []"
proof -
  have "sys_no_company sys" using assms(1)
  proof (induction rule: rtranclp_induct)
    case base show ?case by (simp add: sys_no_company_def new_server_system_def empty_adv_def no_company_def)
  next
    case step then show ?case by (blast intro: server_step_no_company)
  qed
  then show ?thesis using assms(2) by (simp add: sys_no_company_def no_company_def adv_get_manufacturer_data_def Let_def)
qed

lemma manufacturer_data_never_advertised_witness:
  "\<exists>g. sy_gatt (server_setup (set_manufacturer_data [1, 2] new_server_system)) = Some g
     \<and> adv_get_manufacturer_data g = R_company []"
proof -
  have "server_step\<^sup>*\<^sup>* new_server_system (server_setup (set_manufacturer_data [1, 2] new_server_system))"
    using r_into_rtranclp [of server_step, OF step_manufacturer [of new_server_system "[1, 2]"]] step_setup
    by (rule rtranclp.rtrancl_into_rtrancl)
  moreover obtain g where "sy_gatt (server_setup (set_manufacturer_data [1, 2] new_server_system)) = Some g"
    using setup_centrals(1) by blast
  ultimately show ?thesis using manufacturer_data_never_advertised by blast
qed

end
