(* ===== verification/Ble_Worker.thy ===== *)
theory Ble_Worker
  imports Ble_Advert Gatt_Run Ble_Server
begin

text \<open>
  The worker thread that the advertisers and the GATT server share
  (\<open>components/esp32_ble/ble_host_thread.{h,cpp}\<close>): its lazy start, the wake-up eventfd, the list of attached
  clients, and the loop that waits for an event and then runs the command queue of every client.

  A client is a number, the heap of client objects is \<open>bw_store\<close>; a destroyed client is \<open>None\<close>, and using
  it crashes. The phase says where the worker thread is: before the call of \<open>sd_event_run\<close> or inside it
  (\<open>W_loop\<close>), behind it (\<open>W_woken\<close>), or in the pass over its snapshot with the clients still to be served.
  \<open>bw_owes\<close> says that the main thread has left the critical section in which it posted or attached and
  has not yet called \<open>wake\<close>. A client's critical sections are single steps.
\<close>

section \<open>State\<close>

datatype worker_phase = W_off | W_starting | W_loop | W_woken | W_pass "nat list" | W_ended | W_crashed

text \<open>The eventfd with its counter; \<open>run_\<close> closes it without resetting \<open>wake_fd_\<close>.\<close>

datatype wake_fd = FD_none | FD_open nat | FD_closed

record 'c ble_worker =
  bw_running :: bool
  bw_stop :: bool
  bw_phase :: worker_phase
  bw_wake_fd :: wake_fd
  bw_clients :: "nat list"
  bw_store :: "nat \<Rightarrow> 'c option"
  bw_owes :: bool
  bw_stray :: nat

definition new_worker :: "'c ble_worker" where
  "new_worker = \<lparr>bw_running = False, bw_stop = False, bw_phase = W_off, bw_wake_fd = FD_none, bw_clients = [],
     bw_store = Map.empty, bw_owes = False, bw_stray = 0\<rparr>"

section \<open>Main thread\<close>

text \<open>\<open>efd\<close> is the result of \<open>eventfd()\<close>.\<close>

definition bw_ensure_started :: "bool \<Rightarrow> 'c ble_worker \<Rightarrow> 'c ble_worker" where
  "bw_ensure_started efd w =
    (if bw_running w then w
     else if \<not> efd then w\<lparr>bw_wake_fd := FD_none\<rparr>
     else w\<lparr>bw_running := True, bw_wake_fd := FD_open 0, bw_phase := W_starting\<rparr>)"

text \<open>The write is non-blocking: it fails when the counter is at its maximum. \<open>bw_stray\<close> counts the writes to a
  closed descriptor.\<close>

definition bw_wake :: "'c ble_worker \<Rightarrow> 'c ble_worker" where
  "bw_wake w = (case bw_wake_fd w of
       FD_none \<Rightarrow> w
     | FD_open n \<Rightarrow> w\<lparr>bw_wake_fd := FD_open (if n < 2 ^ 64 - 2 then n + 1 else n)\<rparr>
     | FD_closed \<Rightarrow> w\<lparr>bw_stray := bw_stray w + 1\<rparr>)"

text \<open>\<open>attach_worker_client\<close> up to its call of \<open>wake\<close>.\<close>

definition bw_attach :: "bool \<Rightarrow> nat \<Rightarrow> 'c ble_worker \<Rightarrow> 'c ble_worker" where
  "bw_attach efd i w = (let w1 = bw_ensure_started efd w in w1\<lparr>bw_clients := bw_clients w1 @ [i], bw_owes := True\<rparr>)"

definition bw_detach :: "nat \<Rightarrow> 'c ble_worker \<Rightarrow> 'c ble_worker" where
  "bw_detach i w = w\<lparr>bw_clients := remove1 i (bw_clients w)\<rparr>"

section \<open>Worker thread\<close>

definition bw_finish :: "'c ble_worker \<Rightarrow> 'c ble_worker" where
  "bw_finish w = w\<lparr>bw_phase := W_ended, bw_wake_fd := (case bw_wake_fd w of FD_open n \<Rightarrow> FD_closed | x \<Rightarrow> x)\<rparr>"

definition bw_thread_start :: "bool \<Rightarrow> 'c ble_worker \<Rightarrow> 'c ble_worker" where
  "bw_thread_start event_new w = w\<lparr>bw_phase := (if event_new then W_loop else W_ended)\<rparr>"

text \<open>What \<open>sd_event_run\<close> did: it failed, it ran the handler of the eventfd, which reads the counter, or it ran
  another source or timed out.\<close>

datatype run_result = RR_error | RR_wake | RR_other

definition bw_event_run :: "run_result \<Rightarrow> 'c ble_worker \<Rightarrow> 'c ble_worker" where
  "bw_event_run r w =
    (if bw_stop w then bw_finish w
     else case r of
       RR_error \<Rightarrow> bw_finish w
     | RR_wake \<Rightarrow> w\<lparr>bw_wake_fd := FD_open 0, bw_phase := W_woken\<rparr>
     | RR_other \<Rightarrow> w\<lparr>bw_phase := W_woken\<rparr>)"

definition bw_snapshot :: "'c ble_worker \<Rightarrow> 'c ble_worker" where
  "bw_snapshot w = w\<lparr>bw_phase := W_pass (bw_clients w)\<rparr>"

definition bw_serve :: "('e \<Rightarrow> 'c \<Rightarrow> 'c) \<Rightarrow> 'e \<Rightarrow> 'c ble_worker \<Rightarrow> 'c ble_worker" where
  "bw_serve process env w = (case bw_phase w of
       W_pass (i # is) \<Rightarrow>
         (case bw_store w i of
            None \<Rightarrow> w\<lparr>bw_phase := W_crashed\<rparr>
          | Some c \<Rightarrow> w\<lparr>bw_store := (bw_store w)(i \<mapsto> process env c), bw_phase := W_pass is\<rparr>)
     | W_pass [] \<Rightarrow> w\<lparr>bw_phase := W_loop\<rparr>
     | _ \<Rightarrow> w)"

section \<open>Interleavings\<close>

text \<open>\<open>process\<close> is the client's \<open>worker_process_commands\<close>, \<open>handler\<close> what the D-Bus handlers do to it inside
  \<open>sd_event_run\<close> and the main thread without posting, \<open>pending\<close> that something is posted.\<close>

inductive bw_step for pending :: "'c \<Rightarrow> bool" and process :: "'e \<Rightarrow> 'c \<Rightarrow> 'c" and handler :: "'c \<Rightarrow> 'c \<Rightarrow> bool" where
  BW_create: "bw_store w i = None \<Longrightarrow> \<not> pending c \<Longrightarrow>
    bw_step pending process handler w (w\<lparr>bw_store := (bw_store w)(i \<mapsto> c)\<rparr>)"
| BW_attach: "\<not> bw_owes w \<Longrightarrow> bw_step pending process handler w (bw_attach efd i w)"
| BW_post: "\<not> bw_owes w \<Longrightarrow> bw_store w i = Some c \<Longrightarrow>
    bw_step pending process handler w (w\<lparr>bw_store := (bw_store w)(i \<mapsto> c'), bw_owes := True\<rparr>)"
| BW_wake: "bw_owes w \<Longrightarrow> bw_step pending process handler w ((bw_wake w)\<lparr>bw_owes := False\<rparr>)"
| BW_handler: "bw_store w i = Some c \<Longrightarrow> handler c c' \<Longrightarrow>
    bw_step pending process handler w (w\<lparr>bw_store := (bw_store w)(i \<mapsto> c')\<rparr>)"
| BW_destroy: "bw_step pending process handler w ((bw_detach i w)\<lparr>bw_store := (bw_store w)(i := None)\<rparr>)"
| BW_start: "bw_phase w = W_starting \<Longrightarrow> bw_step pending process handler w (bw_thread_start ok w)"
| BW_run: "bw_phase w = W_loop \<Longrightarrow> bw_step pending process handler w (bw_event_run r w)"
| BW_snapshot: "bw_phase w = W_woken \<Longrightarrow> bw_step pending process handler w (bw_snapshot w)"
| BW_serve: "bw_phase w = W_pass is \<Longrightarrow> bw_step pending process handler w (bw_serve process env w)"

text \<open>Posted work is not forgotten: somewhere between the post and the pass that serves it.\<close>

definition work_known :: "'c ble_worker \<Rightarrow> nat \<Rightarrow> bool" where
  "work_known w i \<longleftrightarrow> bw_owes w \<or> (\<exists>n. bw_wake_fd w = FD_open (Suc n)) \<or> bw_phase w = W_woken
     \<or> (\<exists>is. bw_phase w = W_pass is \<and> i \<in> set is) \<or> bw_phase w \<in> {W_off, W_ended, W_crashed}"

definition worker_inv :: "('c \<Rightarrow> bool) \<Rightarrow> 'c ble_worker \<Rightarrow> bool" where
  "worker_inv pending w \<longleftrightarrow>
     (\<forall>i c. i \<in> set (bw_clients w) \<longrightarrow> bw_store w i = Some c \<longrightarrow> pending c \<longrightarrow> work_known w i)
     \<and> (bw_wake_fd w = FD_none \<longrightarrow> bw_phase w = W_off) \<and> (bw_wake_fd w = FD_closed \<longrightarrow> bw_phase w = W_ended)
     \<and> (\<not> bw_running w \<longrightarrow> bw_phase w = W_off)"

lemma no_Suc: "(\<forall>n. x \<noteq> Suc n) \<longleftrightarrow> x = 0"
  by (cases x) simp_all

section \<open>The contract of a client\<close>

locale worker_client =
  fixes pending :: "'c \<Rightarrow> bool" and process :: "'e \<Rightarrow> 'c \<Rightarrow> 'c" and handler :: "'c \<Rightarrow> 'c \<Rightarrow> bool"
  assumes process_done: "\<not> pending (process env c)"
    and handler_keeps: "handler c c' \<Longrightarrow> pending c' \<Longrightarrow> pending c"
begin

lemma step_inv: "bw_step pending process handler w w' \<Longrightarrow> worker_inv pending w \<Longrightarrow> worker_inv pending w'"
proof (induction rule: bw_step.induct)
  case (BW_serve w "is" env)
  then show ?case
    using process_done
    by (cases "is") (auto simp: worker_inv_def work_known_def bw_serve_def split: option.split)
next
  case (BW_handler w i c c')
  then show ?case using handler_keeps [of c c'] by (auto simp: worker_inv_def work_known_def)
next
  case (BW_destroy w i)
  then show ?case using notin_set_remove1 by (fastforce simp: worker_inv_def work_known_def bw_detach_def)
next
  case (BW_wake w)
  then show ?case
    by (cases "bw_wake_fd w") (auto simp: worker_inv_def work_known_def bw_wake_def gr0_conv_Suc not_less no_Suc)
next
  case (BW_run w r)
  then show ?case
    by (cases "bw_wake_fd w"; cases r) (auto simp: worker_inv_def work_known_def bw_event_run_def bw_finish_def)
qed (auto simp: worker_inv_def work_known_def bw_attach_def bw_ensure_started_def Let_def bw_thread_start_def
      bw_snapshot_def)

lemma reach_inv: "(bw_step pending process handler)\<^sup>*\<^sup>* new_worker w \<Longrightarrow> worker_inv pending w"
proof (induction rule: rtranclp_induct)
  case base show ?case by (simp add: worker_inv_def new_worker_def)
next
  case step then show ?case by (blast intro: step_inv)
qed

text \<open>The worker blocks only when nothing is posted.\<close>

lemma no_lost_wakeup:
  assumes "(bw_step pending process handler)\<^sup>*\<^sup>* new_worker w"
    "bw_phase w = W_loop" "\<not> bw_owes w" "bw_wake_fd w = FD_open 0"
    "i \<in> set (bw_clients w)" "bw_store w i = Some c"
  shows "\<not> pending c"
  using reach_inv [OF assms(1)] assms(2-) by (auto simp: worker_inv_def work_known_def)

end


section \<open>The clients of the BLE components\<close>

datatype bus_client = BC_bthome adv | BC_beacon adv | BC_server gatt_server

definition server_pending :: "gatt_server \<Rightarrow> bool" where
  "server_pending g \<longleftrightarrow> gs_start_requested g \<or> gs_commands g \<noteq> [] \<or> gs_adv_pending g"

primrec bus_pending :: "bus_client \<Rightarrow> bool" where
  "bus_pending (BC_bthome s) = start_requested s"
| "bus_pending (BC_beacon s) = start_requested s"
| "bus_pending (BC_server g) = server_pending g"

primrec bus_process :: "sdbus_env \<times> gs_env \<Rightarrow> bus_client \<Rightarrow> bus_client" where
  "bus_process env (BC_bthome s) = BC_bthome (bthome_worker_process_commands (fst env) s)"
| "bus_process env (BC_beacon s) = BC_beacon (beacon_worker_process_commands (fst env) s)"
| "bus_process env (BC_server g) = BC_server (gs_process_commands (snd env) g)"

text \<open>The events that are neither posts nor the pass itself.\<close>

fun handled :: "gs_event \<Rightarrow> bool" where
  "handled (G_start ss) = False"
| "handled (G_notify c) = False"
| "handled (G_advertising a) = False"
| "handled (G_process env) = False"
| "handled _ = True"

inductive bus_handler :: "bus_client \<Rightarrow> bus_client \<Rightarrow> bool" where
  "bus_handler (BC_bthome s) (BC_bthome (bthome_on_register_adv_reply err s))"
| "bus_handler (BC_bthome s) (BC_bthome (bthome_adv_release s))"
| "bus_handler (BC_beacon s) (BC_beacon (beacon_on_register_adv_reply err s))"
| "bus_handler (BC_beacon s) (BC_beacon (beacon_adv_release s))"
| "handled e \<Longrightarrow> bus_handler (BC_server g) (BC_server (gs_apply e g))"

definition work_of :: "gatt_server \<Rightarrow> bool \<times> (string \<times> bytes) list \<times> bool" where
  "work_of g = (gs_start_requested g, gs_commands g, gs_adv_pending g)"

lemma server_pending_work: "server_pending g \<longleftrightarrow> (case work_of g of (start, cmds, adv) \<Rightarrow> start \<or> cmds \<noteq> [] \<or> adv)"
  by (simp add: work_of_def server_pending_def)


lemma work_of_call [simp]: "work_of (gs_call c g) = work_of g"
  by (simp add: work_of_def gs_call_def)

lemma work_of_update [simp]:
  "work_of (gs_ob_update f1 g) = work_of g" "work_of (gs_bus_update f2 g) = work_of g"
  "work_of (gs_started_update f4 g) = work_of g" "work_of (gs_chars_update f7 g) = work_of g"
  "work_of (gs_pending_adv_update f9 g) = work_of g" "work_of (gs_adv_slot_update f10 g) = work_of g"
  "work_of (gs_adv_registered_update f11 g) = work_of g" "work_of (gs_readv_timer_update f13 g) = work_of g"
  "work_of (gs_conn_ids_update f14 g) = work_of g" "work_of (gs_next_conn_id_update f15 g) = work_of g"
  "work_of (gs_events_update f16 g) = work_of g" "work_of (gs_power_cycled_update f17 g) = work_of g"
  by (simp_all add: work_of_def)

lemma work_of_fold: "(\<And>x h. work_of (f x h) = work_of h) \<Longrightarrow> work_of (fold f xs g) = work_of g"
  by (induction xs arbitrary: g) auto

lemma work_of_register [simp]: "work_of (register_advertisement env g) = work_of g"
  by (auto simp: register_advertisement_def unregister_advertisement_def Let_def)

lemma work_of_notify [simp]: "work_of (do_notify p v g) = work_of g"
  by (auto simp: do_notify_def split: option.split)

lemma work_of_do_start [simp]: "work_of (gs_do_start env g) = work_of g"
proof -
  have e: "work_of (export_all env ps h) = work_of h" for ps h
    unfolding export_all_def by (rule work_of_fold) simp
  show ?thesis by (auto simp: gs_do_start_def gs_open_bus_def register_application_def e)
qed

lemma server_process_done: "\<not> server_pending (gs_process_commands env g)"
proof -
  define g1 where "g1 = g\<lparr>gs_start_requested := False, gs_commands := []\<rparr>"
  define g2 where "g2 = (if gs_start_requested g then gs_do_start env g1 else g1)"
  define g3 where "g3 = fold (\<lambda>(p, v). do_notify p v) (gs_commands g) g2"
  have "work_of g3 = work_of g2" unfolding g3_def by (rule work_of_fold) auto
  also have "\<dots> = work_of g1" by (simp add: g2_def)
  finally have w: "work_of g3 = (False, [], gs_adv_pending g)" by (simp add: g1_def work_of_def)
  then have "gs_adv_pending g3 = gs_adv_pending g" and "work_of (g3\<lparr>gs_adv_pending := False\<rparr>) = (False, [], False)"
    by (auto simp: work_of_def)
  moreover have "gs_process_commands env g =
      (if gs_adv_pending g3 then register_advertisement env (g3\<lparr>gs_adv_pending := False\<rparr>) else g3)"
    by (simp add: gs_process_commands_def g1_def g2_def g3_def Let_def)
  ultimately show ?thesis using w by (auto simp: server_pending_work)
qed

lemma work_of_report:
  "work_of (post_server_event e g) = work_of g" "work_of (snd (drain_server_events g)) = work_of g"
  "work_of (snd (intern_device d g)) = work_of g" "work_of (snd (chr_conn_id c d g)) = work_of g"
  "work_of (on_xchar k f g) = work_of g"
  by (simp_all add: post_server_event_def drain_server_events_def intern_device_def chr_conn_id_def on_xchar_def
      split: option.split)


lemma work_of_enumerate [simp]: "work_of (enumerate_object obj g) = work_of g"
  by (simp add: enumerate_object_def Let_def case_prod_beta work_of_report)

lemma work_of_handlers:
  "work_of (on_register_app_reply err r g) = work_of g"
  "work_of (on_register_adv_reply env err g) = work_of g" "work_of (adv_release g) = work_of g"
  "work_of (on_readvertise_timer env g) = work_of g" "work_of (on_device_props_changed now path iface ps g) = work_of g"
  "work_of (snd (chr_read_value f k os g)) = work_of g" "work_of (snd (chr_write_value f' k d os g)) = work_of g"
  "work_of (snd (set_notifying b k g)) = work_of g" "work_of (snd (desc_write_value k d os g)) = work_of g"
  by (simp_all add: on_register_app_reply_def enumerate_connected_devices_def work_of_fold on_register_adv_reply_def
      power_cycle_adapter_def schedule_readvertise_def adv_release_def on_readvertise_timer_def on_device_props_changed_def
      chr_read_value_def chr_write_value_def set_notifying_def desc_write_value_def Let_def case_prod_beta work_of_report
      split: option.split)

lemma handler_keeps_work: "handled e \<Longrightarrow> work_of (gs_apply e g) = work_of g"
  by (cases e) (simp_all add: work_of_report work_of_handlers)

interpretation bus: worker_client bus_pending bus_process bus_handler
proof
  fix env :: "sdbus_env \<times> gs_env" and c c' :: bus_client
  show "\<not> bus_pending (bus_process env c)"
    by (cases c) (simp_all add: server_process_done bthome_defs beacon_defs split: if_splits)
  show "bus_handler c c' \<Longrightarrow> bus_pending c' \<Longrightarrow> bus_pending c"
    by (induction rule: bus_handler.induct)
      (auto simp: bthome_defs beacon_defs server_pending_work handler_keeps_work split: if_splits)
qed


text \<open>The thread \<open>BLEGattHostThread\<close> of the GATT clients is a copy of this one, with \<open>attach\<close> for
  \<open>attach_worker_client\<close>; its second list of clients is not used by the program.\<close>

inductive gatt_handler :: "gatt_host \<Rightarrow> gatt_host \<Rightarrow> bool" where
  "gatt_handler h (snd (drain_events h))"
| "gatt_handler h (host_on_properties_changed bz iface props h)"
| "gatt_handler h (on_value_changed path iface vals h)"
| "gatt_handler h (agent_request_passkey m h)"
| "gatt_handler h (agent_display_passkey pk h)"
| "gatt_handler h (agent_request_confirmation m pk h)"

lemma commands_after_pass: "commands (host_process_commands bz h) = []"
  using answers_commands [of "commands h" "h\<lparr>commands := []\<rparr>" bz]
  by (simp add: host_process_commands_def posts_def)

lemma commands_discovery [simp]: "commands (try_start_discovery bz h) = commands h"
  by (auto simp: try_start_discovery_def do_disconnect_def Let_def host_frame split: prod.split dest: walk_frame(2))

lemma commands_connected [simp]: "commands (worker_on_connected_changed bz c h) = commands h"
  by (simp add: worker_on_connected_changed_def Let_def host_frame)

lemma commands_fold: "(\<And>x h. commands (f x h) = commands h) \<Longrightarrow> commands (fold f xs h) = commands h"
  by (induction xs arbitrary: h) auto

lemma gatt_handler_commands: "gatt_handler h h' \<Longrightarrow> commands h' = commands h"
  by (induction rule: gatt_handler.induct)
    (simp_all add: drain_events_def host_on_properties_changed_def props_entry_def on_value_changed_def value_entry_def
      agent_request_passkey_def agent_display_passkey_def agent_request_confirmation_def commands_fold host_frame
      split: device_prop.split value_prop.split option.split)

interpretation gatt: worker_client "\<lambda>h. commands h \<noteq> []" host_process_commands gatt_handler
  by unfold_locales (simp_all add: commands_after_pass gatt_handler_commands)

definition gatt_thread_start :: "bool \<Rightarrow> gatt_host ble_worker \<Rightarrow> gatt_host ble_worker" where
  "gatt_thread_start event_new w = bw_thread_start event_new w"

definition gatt_event_run :: "run_result \<Rightarrow> gatt_host ble_worker \<Rightarrow> gatt_host ble_worker" where
  "gatt_event_run r w = bw_event_run r w"

definition gatt_finish :: "gatt_host ble_worker \<Rightarrow> gatt_host ble_worker" where
  "gatt_finish w = bw_finish w"

definition gatt_wake :: "gatt_host ble_worker \<Rightarrow> gatt_host ble_worker" where
  "gatt_wake w = bw_wake w"

definition gatt_worker_step :: "gatt_host ble_worker \<Rightarrow> gatt_host ble_worker \<Rightarrow> bool" where
  "gatt_worker_step = bw_step (\<lambda>h. commands h \<noteq> []) host_process_commands gatt_handler"

text \<open>The worker of the GATT hosts waits for events with a drained eventfd only when the command queue of every attached host is
  empty; a wake-up or the end of its event loop ends the wait.\<close>
theorem gatt_worker_never_sleeps_on_work:
  assumes "gatt_worker_step\<^sup>*\<^sup>* new_worker w" "bw_phase w = W_loop" "\<not> bw_owes w"
    "i \<in> set (bw_clients w)" "bw_store w i = Some h" "commands h \<noteq> []"
  shows "bw_wake_fd w \<noteq> FD_open 0 \<and> bw_phase (gatt_event_run RR_wake w) \<noteq> W_loop"
proof
  show "bw_wake_fd w \<noteq> FD_open 0"
    using gatt.no_lost_wakeup [of w i h] assms unfolding gatt_worker_step_def by blast
  show "bw_phase (gatt_event_run RR_wake w) \<noteq> W_loop" by (simp add: gatt_event_run_def bw_event_run_def bw_finish_def)
qed

section \<open>Properties\<close>

text \<open>C10. In every interleaving of the main thread with the worker, the worker waits for events with a drained eventfd
  only when no attached BTHome advertiser, beacon or GATT server has work posted: no wake-up is lost between
  posting, reading the eventfd, and the pass over the clients.\<close>
theorem worker_never_sleeps_on_work:
  assumes "(bw_step bus_pending bus_process bus_handler)\<^sup>*\<^sup>* new_worker w"
    "bw_phase w = W_loop" "\<not> bw_owes w" "bw_wake_fd w = FD_open 0"
    "i \<in> set (bw_clients w)" "bw_store w i = Some c"
  shows "\<not> bus_pending c"
  using assms by (rule bus.no_lost_wakeup)

lemma run_snoc:
  assumes "(bw_step P Q H)\<^sup>*\<^sup>* a b" "bw_step P Q H b c" "c = d"
  shows "(bw_step P Q H)\<^sup>*\<^sup>* a d"
  using assms(1,2) unfolding assms(3) by (rule rtranclp.rtrancl_into_rtrancl)

text \<open>A BTHome advertiser is attached and asks for its start while the worker thread comes up.\<close>

definition demo_done :: "bus_client" where
  "demo_done = BC_bthome (bthome_worker_process_commands \<lparr>open_ok = False, export_ok = True, new_msg_ok = True, dispatch_ok = True\<rparr>
     (bthome_setup (\<lambda>_. 0) [] False adv_init))"

lemma worker_never_sleeps_on_work_witness: "\<not> bus_pending demo_done"
proof -
  let ?env = "(\<lparr>open_ok = False, export_ok = True, new_msg_ok = True, dispatch_ok = True\<rparr>, demo_env) :: sdbus_env \<times> gs_env"
  let ?R = "bw_step bus_pending bus_process bus_handler"
  let ?c0 = "BC_bthome adv_init" and ?c1 = "BC_bthome (bthome_setup (\<lambda>_. 0) [] False adv_init)"
  let ?w = "\<lambda>phase n c owes. \<lparr>bw_running = True, bw_stop = False, bw_phase = phase, bw_wake_fd = FD_open n,
     bw_clients = [0], bw_store = [0 \<mapsto> c], bw_owes = owes, bw_stray = 0\<rparr>"
  have "?R\<^sup>*\<^sup>* new_worker (new_worker\<lparr>bw_store := [0 \<mapsto> ?c0]\<rparr>)"
    by (rule run_snoc [OF rtranclp.rtrancl_refl BW_create [of _ 0 _ ?c0]]) (simp_all add: new_worker_def adv_init_def)
  then have "?R\<^sup>*\<^sup>* new_worker (?w W_starting 0 ?c0 True)"
    by (rule run_snoc [OF _ BW_attach [of _ _ _ _ True 0]])
      (simp_all add: new_worker_def bw_attach_def bw_ensure_started_def)
  then have "?R\<^sup>*\<^sup>* new_worker (?w W_starting 1 ?c0 False)"
    by (rule run_snoc [OF _ BW_wake]) (simp_all add: bw_wake_def)
  then have "?R\<^sup>*\<^sup>* new_worker (?w W_starting 1 ?c1 True)"
    by (rule run_snoc [OF _ BW_post [of _ 0 ?c0 _ _ _ ?c1]]) simp_all
  then have "?R\<^sup>*\<^sup>* new_worker (?w W_starting 2 ?c1 False)"
    by (rule run_snoc [OF _ BW_wake]) (simp_all add: bw_wake_def)
  then have "?R\<^sup>*\<^sup>* new_worker (?w W_loop 2 ?c1 False)"
    by (rule run_snoc [OF _ BW_start [of _ _ _ _ True]]) (simp_all add: bw_thread_start_def)
  then have "?R\<^sup>*\<^sup>* new_worker (?w W_woken 0 ?c1 False)"
    by (rule run_snoc [OF _ BW_run [of _ _ _ _ RR_wake]]) (simp_all add: bw_event_run_def)
  then have "?R\<^sup>*\<^sup>* new_worker (?w (W_pass [0]) 0 ?c1 False)"
    by (rule run_snoc [OF _ BW_snapshot]) (simp_all add: bw_snapshot_def)
  then have "?R\<^sup>*\<^sup>* new_worker (?w (W_pass []) 0 demo_done False)"
    by (rule run_snoc [OF _ BW_serve [of _ "[0]" _ bus_process _ ?env]]) (simp_all add: bw_serve_def demo_done_def)
  then have "?R\<^sup>*\<^sup>* new_worker (?w W_loop 0 demo_done False)"
    by (rule run_snoc [OF _ BW_serve [of _ "[]" _ bus_process _ ?env]]) (simp_all add: bw_serve_def)
  from worker_never_sleeps_on_work [OF this, of 0 demo_done] show ?thesis by simp
qed

text \<open>When the loop has ended because \<open>sd_event_run\<close> failed, \<open>running_\<close> stays set and \<open>wake_fd_\<close> is not reset: a later
  attach does not start the thread again, and every wake-up writes to a descriptor that is closed.\<close>
lemma ended_worker_stays_ended:
  assumes "bw_running w" "bw_wake_fd w = FD_open n" "\<not> bw_stop w"
  shows "bw_phase (bw_attach efd i (bw_event_run RR_error w)) = W_ended
    \<and> bw_stray (bw_wake (bw_attach efd i (bw_event_run RR_error w))) = bw_stray w + 1"
  using assms by (simp add: bw_event_run_def bw_finish_def bw_attach_def bw_ensure_started_def bw_wake_def Let_def)

end
