(* ===== verification/Ble_Client.thy ===== *)
theory Ble_Client
  imports Gatt_Run
begin

text \<open>
  \<open>components/esp32_ble_client/ble_client_base.{h,cpp}\<close>: the main-thread side of a GATT connection, class
  \<open>BLEClientBase\<close>. The record holds the members, \<open>cl_host\<close> the owned \<open>BLEGattHost\<close>, \<open>cl_version\<close> the tracker's
  counter as the client sees it (\<open>None\<close> before registration), \<open>cl_attaches\<close> how often \<open>BLEGattHost::connect\<close>
  has registered the host with the worker. \<open>millis()\<close> is the argument \<open>now\<close>. A registered RSSI callback
  appends to \<open>cl_rssi_out\<close>. The virtual calls of \<open>loop\<close> are arguments, so that the proxy's connection
  can supply its own.
\<close>

section \<open>State\<close>

definition UNSET_CONN_ID :: u16 where "UNSET_CONN_ID = 0xFFFF"
definition CONNECT_TIMEOUT_MS :: u32 where "CONNECT_TIMEOUT_MS = 20000"
definition DISCONNECT_TIMEOUT_MS :: u32 where "DISCONNECT_TIMEOUT_MS = 10000"

record ble_client =
  cl_address :: u64
  cl_adapter :: string
  cl_device_path :: string
  cl_services :: "BLEService list"
  cl_host :: "gatt_host option"
  disconnecting_started :: u32
  connecting_started :: u32
  conn_id :: u16
  cl_mtu :: u16
  connection_type :: ConnectionType
  connection_index :: u8
  remote_bda :: bytes
  cl_address_str :: string
  auto_connect :: bool
  cl_paired :: bool
  cl_rssi_cb :: bool
  cl_rssi_out :: "int list"
  want_disconnect :: bool
  cl_state :: ClientState
  cl_version :: "u8 option"
  cl_app_id :: u8
  cl_attaches :: nat

definition new_client :: ble_client where
  "new_client =
     \<lparr>cl_address = 0, cl_adapter = ''hci0'', cl_device_path = '''', cl_services = [], cl_host = None,
      disconnecting_started = 0, connecting_started = 0, conn_id = UNSET_CONN_ID, cl_mtu = 23,
      connection_type = V1, connection_index = 0, remote_bda = [0, 0, 0, 0, 0, 0], cl_address_str = '''',
      auto_connect = False, cl_paired = False, cl_rssi_cb = False, cl_rssi_out = [],
      want_disconnect = False, cl_state = INIT, cl_version = None, cl_app_id = 0, cl_attaches = 0\<rparr>"

definition set_state_internal :: "ClientState \<Rightarrow> ble_client \<Rightarrow> ble_client" where
  "set_state_internal st c = c\<lparr>cl_state := st, cl_version := map_option (\<lambda>v. v + 1) (cl_version c)\<rparr>"

definition client_set_state :: "ClientState \<Rightarrow> ble_client \<Rightarrow> ble_client" where
  "client_set_state st c =
     (let c1 = set_state_internal st c in if st = IDLE then c1\<lparr>want_disconnect := False\<rparr> else c1)"

definition set_idle :: "ble_client \<Rightarrow> ble_client" where
  "set_idle c = (client_set_state IDLE c)\<lparr>conn_id := UNSET_CONN_ID\<rparr>"

definition with_host :: "(gatt_host \<Rightarrow> gatt_host) \<Rightarrow> ble_client \<Rightarrow> ble_client" where
  "with_host f c = c\<lparr>cl_host := map_option f (cl_host c)\<rparr>"

section \<open>Operations\<close>

definition client_setup :: "ble_client \<Rightarrow> ble_client" where
  "client_setup c = (client_set_state IDLE c)\<lparr>conn_id := UNSET_CONN_ID\<rparr>"

definition client_parse_device :: "ESPBTDevice \<Rightarrow> ble_client \<Rightarrow> bool \<times> ble_client" where
  "client_parse_device d c =
     (if cl_address c = 0 then (False, c)
      else if address_uint64 d \<noteq> cl_address c then (False, c)
      else if cl_state c = IDLE \<and> auto_connect c then (True, client_set_state DISCOVERED c)
      else (True, c))"

definition bda_of :: "u64 \<Rightarrow> bytes" where
  "bda_of a = map (\<lambda>i. ucast (drop_bit ((5 - i) * 8) a)) [0, 1, 2, 3, 4, 5]"

definition join_02X :: "char \<Rightarrow> bytes \<Rightarrow> string" where
  "join_02X sep bs = (case map fmt_02X bs of [] \<Rightarrow> [] | x # xs \<Rightarrow> x @ concat (map (\<lambda>y. sep # y) xs))"

definition client_set_address :: "u64 \<Rightarrow> ble_client \<Rightarrow> ble_client" where
  "client_set_address a c =
     (let c1 = c\<lparr>cl_address := a, remote_bda := bda_of a\<rparr> in
      if a = 0 then c1\<lparr>cl_address_str := '''', cl_device_path := ''''\<rparr>
      else c1\<lparr>cl_address_str := join_02X (CHR '':'') (bda_of a),
              cl_device_path := ''/org/bluez/'' @ cl_adapter c @ ''/'' @ ''dev_'' @ join_02X (CHR ''_'') (bda_of a)\<rparr>)"

definition client_connect :: "u32 \<Rightarrow> ble_client \<Rightarrow> ble_client" where
  "client_connect now c =
     (let c1 = (client_set_state CONNECTING c)\<lparr>connecting_started := now\<rparr>;
          h = (case cl_host c1 of None \<Rightarrow> new_host (cl_adapter c1) (cl_device_path c1) | Some h \<Rightarrow> h)
      in c1\<lparr>cl_host := Some (enqueue_command C_CONNECT h), cl_attaches := Suc (cl_attaches c1)\<rparr>)"

definition set_disconnecting :: "u32 \<Rightarrow> ble_client \<Rightarrow> ble_client" where
  "set_disconnecting now c = client_set_state DISCONNECTING (c\<lparr>disconnecting_started := now\<rparr>)"

definition unconditional_disconnect :: "u32 \<Rightarrow> ble_client \<Rightarrow> ble_client" where
  "unconditional_disconnect now c = with_host host_disconnect (set_disconnecting now c)"

definition client_disconnect :: "u32 \<Rightarrow> ble_client \<Rightarrow> ble_client" where
  "client_disconnect now c =
     (if cl_state c = IDLE then c
      else if cl_state c = CONNECTING then c\<lparr>want_disconnect := True\<rparr>
      else unconditional_disconnect now c)"

definition release_services :: "ble_client \<Rightarrow> ble_client" where
  "release_services c = c\<lparr>cl_services := []\<rparr>"

definition client_dispatch :: "u32 \<Rightarrow> HostGattEvent \<Rightarrow> ble_client \<Rightarrow> ble_client" where
  "client_dispatch now ev c =
     (case ev_kind ev of
        E_CONNECTED \<Rightarrow> if want_disconnect c then unconditional_disconnect now c else client_set_state CONNECTED c
      | E_SERVICES_DISCOVERED \<Rightarrow>
          client_set_state ESTABLISHED
            ((release_services (c\<lparr>cl_mtu := ev_mtu ev\<rparr>))\<lparr>cl_services := ev_services ev\<rparr>)
      | E_DISCONNECTED \<Rightarrow> set_idle (release_services c)
      | E_RSSI \<Rightarrow> if cl_rssi_cb c then c\<lparr>cl_rssi_out := cl_rssi_out c @ [ev_rssi ev]\<rparr> else c
      | E_PAIRING_COMPLETE \<Rightarrow> c\<lparr>cl_paired := pairing_success ev\<rparr>
      | _ \<Rightarrow> c)"

definition timeout_event :: HostGattEvent where
  "timeout_event = (gatt_event E_DISCONNECTED)\<lparr>disc_reason := ESP_GATT_CONN_TIMEOUT\<rparr>"

definition drain_phase :: "(HostGattEvent \<Rightarrow> ble_client \<Rightarrow> ble_client) \<Rightarrow> ble_client \<Rightarrow> ble_client" where
  "drain_phase dispatch c =
     (case cl_host c of
        None \<Rightarrow> c
      | Some h \<Rightarrow> fold dispatch (fst (drain_events h)) (c\<lparr>cl_host := Some (snd (drain_events h))\<rparr>))"

definition connect_timeout_phase :: "(HostGattEvent \<Rightarrow> ble_client \<Rightarrow> ble_client) \<Rightarrow> u32 \<Rightarrow> ble_client \<Rightarrow> ble_client" where
  "connect_timeout_phase dispatch now c =
     (if cl_state c = CONNECTING \<and> now - connecting_started c > CONNECT_TIMEOUT_MS
      then dispatch timeout_event (with_host (enqueue_command C_DISCONNECT) c) else c)"

definition disconnect_timeout_phase :: "(HostGattEvent \<Rightarrow> ble_client \<Rightarrow> ble_client) \<Rightarrow> u32 \<Rightarrow> ble_client \<Rightarrow> ble_client" where
  "disconnect_timeout_phase dispatch now c =
     (if cl_state c = DISCONNECTING \<and> now - disconnecting_started c > DISCONNECT_TIMEOUT_MS
      then dispatch timeout_event c else c)"

definition client_loop_with :: "(HostGattEvent \<Rightarrow> ble_client \<Rightarrow> ble_client) \<Rightarrow> u32 \<Rightarrow> ble_client \<Rightarrow> ble_client" where
  "client_loop_with dispatch now c =
     disconnect_timeout_phase dispatch now (connect_timeout_phase dispatch now (drain_phase dispatch c))"

definition client_loop :: "u32 \<Rightarrow> ble_client \<Rightarrow> ble_client" where
  "client_loop now c = client_loop_with (client_dispatch now) now c"

section \<open>Lookups\<close>

definition get_service :: "ESPBTUUID \<Rightarrow> ble_client \<Rightarrow> BLEService option" where
  "get_service u c = List.find (\<lambda>s. uuid_eq (svc_uuid s) u) (cl_services c)"

definition get_service_16 :: "u16 \<Rightarrow> ble_client \<Rightarrow> BLEService option" where
  "get_service_16 u c = get_service (from_uint16 u) c"

definition get_characteristic :: "ESPBTUUID \<Rightarrow> ESPBTUUID \<Rightarrow> ble_client \<Rightarrow> BLECharacteristic option" where
  "get_characteristic s u c =
     Option.bind (get_service s c) (\<lambda>svc. List.find (\<lambda>x. uuid_eq (chr_uuid x) u) (svc_characteristics svc))"

definition get_characteristic_16 :: "u16 \<Rightarrow> u16 \<Rightarrow> ble_client \<Rightarrow> BLECharacteristic option" where
  "get_characteristic_16 s u c = get_characteristic (from_uint16 s) (from_uint16 u) c"

definition get_characteristic_handle :: "u16 \<Rightarrow> ble_client \<Rightarrow> BLECharacteristic option" where
  "get_characteristic_handle n c =
     List.find (\<lambda>x. chr_handle x = n) (concat (map svc_characteristics (cl_services c)))"

definition get_descriptor :: "ESPBTUUID \<Rightarrow> ESPBTUUID \<Rightarrow> ESPBTUUID \<Rightarrow> ble_client \<Rightarrow> BLEDescriptor option" where
  "get_descriptor s u d c =
     Option.bind (get_characteristic s u c) (\<lambda>x. List.find (\<lambda>y. uuid_eq (desc_uuid y) d) (chr_descriptors x))"

definition get_descriptor_handle :: "u16 \<Rightarrow> ble_client \<Rightarrow> BLEDescriptor option" where
  "get_descriptor_handle n c =
     List.find (\<lambda>y. desc_handle y = n)
       (concat (map chr_descriptors (concat (map svc_characteristics (cl_services c)))))"

definition get_config_descriptor :: "u16 \<Rightarrow> ble_client \<Rightarrow> BLEDescriptor option" where
  "get_config_descriptor n c =
     Option.bind (get_characteristic_handle n c)
       (\<lambda>x. List.find (\<lambda>y. uuid_eq (desc_uuid y) (from_uint16 0x2902)) (chr_descriptors x))"

text \<open>\<open>to_float\<close> is the conversion to \<open>float\<close>.\<close>

definition parse_char_value :: "(nat \<Rightarrow> 'f) \<Rightarrow> bytes \<Rightarrow> u16 \<Rightarrow> 'f option" where
  "parse_char_value to_float v k =
     (if k = 0 then Some (to_float 0)
      else if k = 1 then do { b0 \<leftarrow> rd v 0; Some (to_float (unat b0)) }
      else if k = 2 then do { b0 \<leftarrow> rd v 0; b1 \<leftarrow> rd v 1; Some (to_float (unat (le16 b0 b1))) }
      else if k = 4 then do { b0 \<leftarrow> rd v 0; b1 \<leftarrow> rd v 1; b2 \<leftarrow> rd v 2; b3 \<leftarrow> rd v 3;
                                Some (to_float (unat (le32 b0 b1 b2 b3))) }
      else do { b0 \<leftarrow> rd v 0; Some (to_float (unat b0)) })"

definition check_addr :: "bytes \<Rightarrow> ble_client \<Rightarrow> bool" where
  "check_addr bda c \<longleftrightarrow> take 6 bda = remote_bda c"

section \<open>Primitives\<close>

definition client_request :: "HostGattCommand \<Rightarrow> ble_client \<Rightarrow> int \<times> ble_client" where
  "client_request cmd c =
     (if cl_state c \<noteq> ESTABLISHED \<or> cl_host c = None then (ESP_GATT_NOT_CONNECTED, c)
      else (ESP_GATT_OK, with_host (enqueue_command cmd) c))"

definition read_characteristic :: "u16 \<Rightarrow> ble_client \<Rightarrow> int \<times> ble_client" where
  "read_characteristic n = client_request (C_READ_CHAR n)"

definition write_characteristic :: "u16 \<Rightarrow> bytes \<Rightarrow> bool \<Rightarrow> ble_client \<Rightarrow> int \<times> ble_client" where
  "write_characteristic n bs resp = client_request (C_WRITE_CHAR n bs resp)"

definition read_descriptor :: "u16 \<Rightarrow> ble_client \<Rightarrow> int \<times> ble_client" where
  "read_descriptor n = client_request (C_READ_DESC n)"

definition write_descriptor :: "u16 \<Rightarrow> bytes \<Rightarrow> bool \<Rightarrow> ble_client \<Rightarrow> int \<times> ble_client" where
  "write_descriptor n bs resp = client_request (C_WRITE_DESC n bs resp)"

definition notify_characteristic :: "u16 \<Rightarrow> bool \<Rightarrow> ble_client \<Rightarrow> int \<times> ble_client" where
  "notify_characteristic n enable = client_request (C_SET_NOTIFY n enable)"

text \<open>The request that reaches the host of an established client.\<close>

lemma requests_reach_host:
  assumes "cl_state c = ESTABLISHED" "cl_host c \<noteq> None"
  shows "read_characteristic n c = (ESP_GATT_OK, with_host (host_read_char n) c)"
    "read_descriptor n c = (ESP_GATT_OK, with_host (host_read_desc n) c)"
    "write_characteristic n bs resp c = (ESP_GATT_OK, with_host (host_write_char n bs resp) c)"
    "write_descriptor n bs resp c = (ESP_GATT_OK, with_host (host_write_desc n bs resp) c)"
    "notify_characteristic n enable c = (ESP_GATT_OK, with_host (host_set_notify n enable) c)"
  using assms by (auto simp: read_characteristic_def read_descriptor_def write_characteristic_def write_descriptor_def
      notify_characteristic_def client_request_def host_read_char_def host_read_desc_def host_write_char_def
      host_write_desc_def host_set_notify_def)

definition client_pair :: "ble_client \<Rightarrow> int \<times> ble_client" where
  "client_pair c = (ESP_GATT_OK, with_host host_pair c)"

definition passkey_reply :: "u32 \<Rightarrow> ble_client \<Rightarrow> int \<times> ble_client" where
  "passkey_reply pk c = (ESP_GATT_OK, with_host (host_passkey_reply pk) c)"

definition confirm_reply :: "bool \<Rightarrow> ble_client \<Rightarrow> int \<times> ble_client" where
  "confirm_reply acc c = (ESP_GATT_OK, with_host (host_confirm_reply acc) c)"

definition remove_bond :: "ble_client \<Rightarrow> int \<times> ble_client" where
  "remove_bond c = (ESP_GATT_OK, with_host host_remove_bond c)"

definition client_read_rssi :: "ble_client \<Rightarrow> ble_client" where
  "client_read_rssi c =
     (let c1 = c\<lparr>cl_rssi_cb := True\<rparr> in
      if cl_host c1 \<noteq> None \<and> cl_state c1 = ESTABLISHED then with_host host_read_rssi c1 else c1)"

section \<open>Executions and the client invariant\<close>

text \<open>The owner of the client calls its operations at any times, the worker changes the host behind it.\<close>

inductive client_step :: "ble_client \<Rightarrow> ble_client \<Rightarrow> bool" where
  CS_setup: "cl_state c = INIT \<Longrightarrow> client_step c (client_setup c)"
| CS_register: "client_step c (c\<lparr>cl_version := Some v, cl_app_id := a\<rparr>)"
| CS_parse: "client_step c (snd (client_parse_device d c))"
| CS_address: "client_step c (client_set_address a c)"
| CS_connect: "client_step c (client_connect now c)"
| CS_disconnect: "client_step c (client_disconnect now c)"
| CS_loop: "client_step c (client_loop now c)"
| CS_request: "client_step c (snd (client_request cmd c))"
| CS_rssi: "client_step c (client_read_rssi c)"
| CS_worker: "cl_host c = Some h \<Longrightarrow> host_step (h, log) (h', log') \<Longrightarrow> client_step c (c\<lparr>cl_host := Some h'\<rparr>)"

definition client_inv :: "ble_client \<Rightarrow> bool" where
  "client_inv c \<longleftrightarrow>
     (cl_state c \<in> {INIT, IDLE, DISCOVERED} \<longrightarrow> cl_services c = [] \<and> \<not> want_disconnect c)
     \<and> (cl_state c \<in> {CONNECTING, CONNECTED, ESTABLISHED} \<longrightarrow> cl_host c \<noteq> None)
     \<and> (cl_state c = INIT \<longrightarrow> cl_host c = None)
     \<and> (cl_attaches c = 0 \<longleftrightarrow> cl_host c = None)"

lemmas client_ops = client_setup_def client_parse_device_def client_set_address_def client_connect_def
  set_disconnecting_def unconditional_disconnect_def client_disconnect_def release_services_def
  client_set_state_def set_state_internal_def set_idle_def with_host_def client_request_def client_read_rssi_def

lemma client_inv_dispatch:
  "client_inv c \<Longrightarrow> cl_host c \<noteq> None \<Longrightarrow> client_inv (client_dispatch now ev c) \<and> cl_host (client_dispatch now ev c) \<noteq> None"
  by (cases "ev_kind ev") (auto simp: client_dispatch_def client_inv_def client_ops Let_def)

lemma client_inv_timeout_event:
  "client_inv c \<Longrightarrow> cl_state c \<noteq> INIT \<Longrightarrow> client_inv (client_dispatch now timeout_event c)"
  by (auto simp: client_dispatch_def timeout_event_def client_inv_def client_ops Let_def)

lemma client_inv_fold:
  "client_inv c \<Longrightarrow> cl_host c \<noteq> None \<Longrightarrow> client_inv (fold (client_dispatch now) evs c)"
proof (induction evs arbitrary: c)
  case (Cons ev evs)
  from client_inv_dispatch [OF Cons.prems, of now ev] Cons.IH show ?case by simp
qed simp

lemma client_inv_drain: "client_inv c \<Longrightarrow> client_inv (drain_phase (client_dispatch now) c)"
proof (cases "cl_host c")
  case (Some h)
  assume "client_inv c"
  then have "client_inv (c\<lparr>cl_host := Some (snd (drain_events h))\<rparr>)" using Some by (simp add: client_inv_def)
  from client_inv_fold [OF this] show ?thesis by (simp add: drain_phase_def Some)
qed (simp add: drain_phase_def)

lemma client_inv_loop: "client_inv c \<Longrightarrow> client_inv (client_loop now c)"
proof -
  assume "client_inv c"
  from client_inv_drain [OF this] have d: "client_inv (drain_phase (client_dispatch now) c)" .
  let ?c = "drain_phase (client_dispatch now) c"
  have w: "client_inv (with_host (enqueue_command C_DISCONNECT) ?c)" "cl_state (with_host (enqueue_command C_DISCONNECT) ?c) = cl_state ?c"
    using d by (simp_all add: client_inv_def with_host_def)
  have e: "client_inv (connect_timeout_phase (client_dispatch now) now ?c)"
    using d w client_inv_timeout_event [of "with_host (enqueue_command C_DISCONNECT) ?c" now]
    by (auto simp: connect_timeout_phase_def)
  show ?thesis using e client_inv_timeout_event [of _ now]
    by (auto simp: client_loop_def client_loop_with_def disconnect_timeout_phase_def)
qed

lemma client_inv_step: "client_step c c' \<Longrightarrow> client_inv c \<Longrightarrow> client_inv c'"
proof (induction rule: client_step.induct)
  case (CS_loop c now) then show ?case by (simp add: client_inv_loop)
qed (auto simp: client_inv_def client_ops Let_def split: if_splits)

text \<open>C12. In every execution of a client: a client that is not yet set up, idle or discovered holds no services
  and no pending disconnect request; a client that is connecting, connected or established owns a host; and
  the host is created exactly by the first \<open>connect\<close>.\<close>
theorem client_invariant:
  assumes "client_step\<^sup>*\<^sup>* new_client c"
  shows "client_inv c"
  using assms
proof (induction rule: rtranclp_induct)
  case base show ?case by (simp add: client_inv_def new_client_def)
next
  case step then show ?case by (blast intro: client_inv_step)
qed

lemma client_invariant_witness:
  "client_step\<^sup>*\<^sup>* new_client (client_connect 7 (client_setup new_client))
    \<and> client_inv (client_connect 7 (client_setup new_client))
    \<and> cl_state (client_connect 7 (client_setup new_client)) = CONNECTING"
proof -
  have "client_step new_client (client_setup new_client)"
    by (rule CS_setup) (simp add: new_client_def)
  then have r: "client_step\<^sup>*\<^sup>* new_client (client_connect 7 (client_setup new_client))"
    by (rule converse_rtranclp_into_rtranclp) (rule r_into_rtranclp, rule CS_connect)
  show ?thesis using client_invariant [OF r] r by (simp add: client_ops Let_def)
qed

section \<open>Timeouts\<close>

text \<open>With no event queued, one \<open>loop\<close> at time \<open>now\<close> does exactly this: a connection attempt that is
  more than 20 s old is given up (Disconnect is queued, the services are dropped, the state is IDLE); a
  disconnect that is more than 10 s old ends in IDLE without a request; nothing else changes. The age is
  the 32-bit difference, so the wrap of the millisecond counter is harmless.\<close>
theorem loop_timeouts:
  assumes "cl_host c = Some h" "events h = []"
  shows "client_loop now c =
    (if cl_state c = CONNECTING \<and> 20000 < unat (now - connecting_started c)
     then set_idle (release_services (with_host (enqueue_command C_DISCONNECT) c))
     else if cl_state c = DISCONNECTING \<and> 10000 < unat (now - disconnecting_started c)
     then set_idle (release_services c)
     else c)"
proof -
  have d: "drain_phase (client_dispatch now) c = c"
    using assms by (simp add: drain_phase_def drain_events_def)
  have t: "client_dispatch now timeout_event x = set_idle (release_services x)" for x
    by (simp add: client_dispatch_def timeout_event_def)
  have i: "cl_state (set_idle x) = IDLE" for x
    by (simp add: client_ops Let_def)
  have l: "CONNECT_TIMEOUT_MS < x \<longleftrightarrow> 20000 < unat x" "DISCONNECT_TIMEOUT_MS < x \<longleftrightarrow> 10000 < unat x" for x
    by (simp_all add: CONNECT_TIMEOUT_MS_def DISCONNECT_TIMEOUT_MS_def word_less_nat_alt)
  show ?thesis
    by (simp add: client_loop_def client_loop_with_def d connect_timeout_phase_def disconnect_timeout_phase_def l t i)
qed

lemma loop_timeouts_witness:
  "cl_state (client_loop 19000 (client_connect 4294966296 (client_setup new_client))) = CONNECTING
   \<and> cl_state (client_loop 19001 (client_connect 4294966296 (client_setup new_client))) = IDLE"
proof -
  let ?c = "client_connect 4294966296 (client_setup new_client)"
  obtain h where h: "cl_host ?c = Some h" "events h = []"
    by (simp add: client_ops new_client_def new_host_def enqueue_command_def Let_def)
  have s: "cl_state ?c = CONNECTING" "connecting_started ?c = 4294966296"
    by (simp_all add: client_ops Let_def)
  show ?thesis
    by (simp only: loop_timeouts [OF h] s) (simp add: client_ops Let_def s)
qed

section \<open>Addresses\<close>

lemma bda_of_address:
  assumes "length (dev_address d) = 6"
  shows "bda_of (address_uint64 d) = rev (dev_address d)"
proof -
  obtain a b c x y z where l: "dev_address d = [a, b, c, x, y, z]" using list6E [OF assms] by blast
  show ?thesis using address_uint64_bytes(1) [OF l] by (simp add: bda_of_def l)
qed

lemma join_address_str: "length (dev_address d) = 6 \<Longrightarrow> join_02X (CHR '':'') (rev (dev_address d)) = address_str d"
  by (elim list6E) (simp add: join_02X_def address_str_def)

lemma address_uint64_eq_iff:
  assumes "length (dev_address d) = 6" "length (dev_address e) = 6"
  shows "address_uint64 d = address_uint64 e \<longleftrightarrow> dev_address d = dev_address e"
proof
  assume "address_uint64 d = address_uint64 e"
  then have "rev (dev_address d) = rev (dev_address e)"
    using bda_of_address [OF assms(1)] bda_of_address [OF assms(2)] by metis
  then show "dev_address d = dev_address e" by simp
next
  assume "dev_address d = dev_address e"
  then show "address_uint64 d = address_uint64 e" by (simp add: address_uint64_def)
qed

lemma client_path:
  assumes "length (dev_address d) = 6" "address_uint64 d \<noteq> 0"
  shows "cl_device_path (client_set_address (address_uint64 d) c)
      = ''/org/bluez/'' @ cl_adapter c @ ''/dev_'' @ map (\<lambda>x. if x = CHR '':'' then CHR ''_'' else x) (address_str d)"
proof -
  have f: "map (\<lambda>x. if x = CHR '':'' then CHR ''_'' else x) (fmt_02X b) = fmt_02X b" for b
    using hex_uc_plain(7) [of "unat b div 16"] hex_uc_plain(7) [of "unat b mod 16"] unat_u8_less [of b]
    by (simp add: fmt_02X_def)
  obtain a b g x y z where l: "dev_address d = [a, b, g, x, y, z]" using list6E [OF assms(1)] by blast
  show ?thesis
    using assms by (simp add: client_set_address_def Let_def bda_of_address address_str_def join_02X_def l f)
qed

text \<open>A client configured with the address of a device shows that device's address string, addresses the
  BlueZ object of that device, and accepts an advertisement exactly when it comes from the same
  six-byte address.\<close>
theorem client_address:
  assumes "length (dev_address d) = 6" "address_uint64 d \<noteq> 0" "length (dev_address e) = 6"
  shows "cl_address_str (client_set_address (address_uint64 d) c) = address_str d
    \<and> cl_device_path (client_set_address (address_uint64 d) c)
      = ''/org/bluez/'' @ cl_adapter c @ ''/dev_'' @ map (\<lambda>x. if x = CHR '':'' then CHR ''_'' else x) (address_str d)
    \<and> (fst (client_parse_device e (client_set_address (address_uint64 d) c)) \<longleftrightarrow> dev_address e = dev_address d)"
  using assms client_path [OF assms(1,2), of c] address_uint64_eq_iff [OF assms(3,1)]
  by (simp add: client_set_address_def client_parse_device_def Let_def bda_of_address join_address_str)

lemma client_address_witness:
  "cl_address_str (client_set_address (address_uint64 (device_default\<lparr>dev_address := [1, 2, 3, 4, 5, 255]\<rparr>)) new_client)
     = ''FF:05:04:03:02:01''"
proof -
  let ?d = "device_default\<lparr>dev_address := [1, 2, 3, 4, 5, 255]\<rparr>"
  have "bda_of (address_uint64 ?d) \<noteq> bda_of 0"
    using bda_of_address [of ?d] by (simp add: bda_of_def)
  then have "address_uint64 ?d \<noteq> 0" by metis
  with client_address [of ?d ?d new_client]
  have "cl_address_str (client_set_address (address_uint64 ?d) new_client) = address_str ?d" by simp
  also have "address_str ?d = ''FF:05:04:03:02:01''"
    by (simp add: address_str_def fmt_02X_def hex_uc_def char_of_def bit_Suc_0_iff)
  finally show ?thesis .
qed

section \<open>Requests\<close>

text \<open>A read, write or notification request of an established client is accepted, and the next pass of
  the worker over the command queue answers it last, by one completion event with the requested handle;
  in any other state the request is refused with ESP_GATT_NOT_CONNECTED and has no effect.\<close>
theorem request_answered:
  assumes "client_inv c"
  shows "if cl_state c = ESTABLISHED
    then \<exists>h. cl_host (snd (client_request cmd c)) = Some h \<and> fst (client_request cmd c) = ESP_GATT_OK
      \<and> (\<exists>es cs. events (host_process_commands bz h) = events h @ es \<and> completions es = cs @ answer_to cmd)
    else client_request cmd c = (ESP_GATT_NOT_CONNECTED, c)"
proof (cases "cl_state c = ESTABLISHED")
  case True
  then obtain h where h: "cl_host c = Some h" using assms by (auto simp: client_inv_def)
  let ?h = "enqueue_command cmd h"
  have "answers (concat (map answer_to (commands ?h))) (?h\<lparr>commands := []\<rparr>) (host_process_commands bz ?h)"
    unfolding host_process_commands_def by (rule answers_commands)
  then obtain es where "events (host_process_commands bz ?h) = events ?h @ es"
    "completions es = concat (map answer_to (commands h)) @ answer_to cmd"
    by (auto simp: posts_def enqueue_command_def)
  then show ?thesis using True h by (auto simp: client_request_def with_host_def)
qed (simp add: client_request_def)

lemma request_answered_witness:
  "client_request (C_READ_CHAR 3) new_client = (ESP_GATT_NOT_CONNECTED, new_client)"
proof -
  have "client_inv new_client" "cl_state new_client \<noteq> ESTABLISHED" by (simp_all add: client_inv_def new_client_def)
  with request_answered [of new_client "C_READ_CHAR 3" demo_bluez] show ?thesis by simp
qed

section \<open>Behaviours that depart from the documentation\<close>

text \<open>A disconnect requested while connecting is overtaken by discovery: when CONNECTED and
  SERVICES_DISCOVERED are drained together, the client queues the Disconnect but ends ESTABLISHED, where
  it accepts new requests.\<close>
theorem disconnect_overtaken:
  assumes "cl_state c = CONNECTING" "cl_host c = Some h"
    "events h = [gatt_event E_CONNECTED, (gatt_event E_SERVICES_DISCOVERED)\<lparr>ev_services := tree\<rparr>]"
  shows "cl_state (client_loop now (client_disconnect t c)) = ESTABLISHED
    \<and> (\<exists>h'. cl_host (client_loop now (client_disconnect t c)) = Some h' \<and> commands h' = commands h @ [C_DISCONNECT])
    \<and> fst (client_request cmd (client_loop now (client_disconnect t c))) = ESP_GATT_OK"
  using assms
  by (auto simp: client_loop_def client_loop_with_def drain_phase_def drain_events_def connect_timeout_phase_def
      disconnect_timeout_phase_def client_dispatch_def client_ops enqueue_command_def Let_def gatt_event_def)

lemma disconnect_overtaken_witness:
  "cl_state (client_loop 9 (client_disconnect 8
     (new_client\<lparr>cl_state := CONNECTING, cl_host := Some (demo_host\<lparr>events := [gatt_event E_CONNECTED,
       (gatt_event E_SERVICES_DISCOVERED)\<lparr>ev_services := []\<rparr>]\<rparr>)\<rparr>))) = ESTABLISHED"
  using disconnect_overtaken [of "new_client\<lparr>cl_state := CONNECTING, cl_host := Some (demo_host\<lparr>events :=
      [gatt_event E_CONNECTED, (gatt_event E_SERVICES_DISCOVERED)\<lparr>ev_services := []\<rparr>]\<rparr>)\<rparr>"] by simp

text \<open>The host is created once and keeps the device it was created for: a client that is given another
  address later still connects to the first device.\<close>
theorem reconnect_keeps_device:
  assumes "cl_host c = Some h"
  shows "\<exists>h'. cl_host (client_connect now (client_set_address a c)) = Some h' \<and> h_device_path h' = h_device_path h"
  using assms by (simp add: client_ops enqueue_command_def Let_def)

lemma reconnect_keeps_device_witness:
  "\<exists>h'. cl_host (client_connect 5 (client_set_address 7 (new_client\<lparr>cl_host := Some demo_host\<rparr>))) = Some h'
     \<and> h_device_path h' = ''/d''"
  using reconnect_keeps_device [of "new_client\<lparr>cl_host := Some demo_host\<rparr>" demo_host 5 7]
  by (simp add: demo_defs)

text \<open>BlueZ reports UUIDs as 128-bit strings; over a tree built from such strings every lookup by a 16-bit
  UUID finds nothing, and no characteristic has a configuration descriptor.\<close>
theorem short_lookups_miss:
  assumes "\<forall>s\<in>set (cl_services c). len (svc_uuid s) = 16
      \<and> (\<forall>x\<in>set (svc_characteristics s). \<forall>y\<in>set (chr_descriptors x). len (desc_uuid y) = 16)"
  shows "get_service_16 u c = None \<and> get_characteristic_16 u v c = None \<and> get_config_descriptor n c = None"
proof -
  have ne: "\<not> uuid_eq x (from_uint16 u)" if "len x = 16" for x u
    using that by (simp add: uuid_eq_def from_uint16_def)
  have s: "get_service_16 w c = None" for w
    using assms ne by (auto simp: get_service_16_def get_service_def find_None_iff)
  have d: "get_config_descriptor n c = None"
  proof (cases "get_characteristic_handle n c")
    case (Some x)
    then obtain s where "s \<in> set (cl_services c)" "x \<in> set (svc_characteristics s)"
      by (auto simp: get_characteristic_handle_def dest!: find_SomeD)
    then have "\<forall>y\<in>set (chr_descriptors x). \<not> uuid_eq (desc_uuid y) (from_uint16 0x2902)"
      using assms ne by blast
    then show ?thesis by (simp add: get_config_descriptor_def Some find_None_iff)
  qed (simp add: get_config_descriptor_def)
  show ?thesis using s d by (simp add: get_characteristic_16_def get_characteristic_def get_service_16_def)
qed

lemma short_lookups_miss_witness:
  "get_service_16 0x180F (new_client\<lparr>cl_services :=
     [\<lparr>svc_uuid = as_128bit (from_uint16 0x180F), start_handle = 1, end_handle = 1, svc_characteristics = []\<rparr>]\<rparr>) = None"
  using short_lookups_miss [of "new_client\<lparr>cl_services :=
     [\<lparr>svc_uuid = as_128bit (from_uint16 0x180F), start_handle = 1, end_handle = 1, svc_characteristics = []\<rparr>]\<rparr>"]
  by (simp add: as_128bit_def from_uint16_def Let_def)

end
