(* ===== verification/Ble_Nodes.thy ===== *)
theory Ble_Nodes
  imports Ble_Client
begin

text \<open>
  \<open>components/ble_client/ble_client.{h,cpp}\<close>: the class \<open>BLEClient\<close>, a client with attached nodes to which
  every event is fanned out, and the characteristic operations of
  \<open>components/esp32_ble_client/ble_characteristic.cpp\<close> and \<open>ble_service.cpp\<close>. A node's virtual hooks are calls
  recorded in its log; what an overriding node does to the client is the argument
  \<open>fx i hook\<close> for node number \<open>i\<close>.
\<close>

section \<open>Nodes\<close>

datatype node_hook =
    N_connected
  | N_disconnected int
  | N_services_discovered
  | N_characteristic_read u16 int bytes u16
  | N_characteristic_write u16 int
  | N_descriptor_read u16 int bytes u16
  | N_descriptor_write u16 int
  | N_notify u16 bytes u16
  | N_notify_registered u16 int
  | N_rssi int
  | N_passkey_request
  | N_passkey_notification u32
  | N_numeric_comparison_request u32
  | N_pairing_complete bool int
  | N_loop

record client_node =
  node_state :: ClientState
  node_log :: "node_hook list"

record node_client =
  nc_base :: ble_client
  nc_enabled :: bool
  nc_nodes :: "client_node list"

type_synonym node_fx = "nat \<Rightarrow> node_hook \<Rightarrow> ble_client \<Rightarrow> ble_client"

definition register_ble_node :: "client_node \<Rightarrow> node_client \<Rightarrow> node_client" where
  "register_ble_node n c = c\<lparr>nc_nodes := nc_nodes c @ [n]\<rparr>"

definition set_enabled :: "u32 \<Rightarrow> bool \<Rightarrow> node_client \<Rightarrow> node_client" where
  "set_enabled now e c =
     (if e = nc_enabled c then c
      else
        let c1 = c\<lparr>nc_enabled := e\<rparr> in
        if \<not> e \<and> cl_state (nc_base c1) \<noteq> IDLE then c1\<lparr>nc_base := client_disconnect now (nc_base c1)\<rparr> else c1)"

definition all_nodes_established :: "node_client \<Rightarrow> bool" where
  "all_nodes_established c \<longleftrightarrow>
     cl_state (nc_base c) = ESTABLISHED \<and> list_all (\<lambda>n. node_state n = ESTABLISHED) (nc_nodes c)"

definition hook_of :: "HostGattEvent \<Rightarrow> node_hook" where
  "hook_of ev =
     (case ev_kind ev of
        E_CONNECTED \<Rightarrow> N_connected
      | E_SERVICES_DISCOVERED \<Rightarrow> N_services_discovered
      | E_DISCONNECTED \<Rightarrow> N_disconnected (disc_reason ev)
      | E_READ_COMPLETE \<Rightarrow> N_characteristic_read (ev_handle ev) (ev_status ev) (ev_data ev) (ev_len ev)
      | E_DESC_READ \<Rightarrow> N_descriptor_read (ev_handle ev) (ev_status ev) (ev_data ev) (ev_len ev)
      | E_WRITE_COMPLETE \<Rightarrow> N_characteristic_write (ev_handle ev) (ev_status ev)
      | E_DESC_WRITE \<Rightarrow> N_descriptor_write (ev_handle ev) (ev_status ev)
      | E_NOTIFY \<Rightarrow> N_notify (ev_handle ev) (ev_data ev) (ev_len ev)
      | E_NOTIFY_REGISTERED \<Rightarrow> N_notify_registered (ev_handle ev) (ev_status ev)
      | E_RSSI \<Rightarrow> N_rssi (ev_rssi ev)
      | E_PASSKEY_REQUEST \<Rightarrow> N_passkey_request
      | E_PASSKEY_NOTIFY \<Rightarrow> N_passkey_notification (ev_passkey ev)
      | E_NUMERIC_COMPARE \<Rightarrow> N_numeric_comparison_request (ev_passkey ev)
      | E_PAIRING_COMPLETE \<Rightarrow> N_pairing_complete (pairing_success ev) (disc_reason ev))"

text \<open>\<open>for (auto *n : nodes_) n->hook(...)\<close>\<close>

fun call_nodes :: "node_fx \<Rightarrow> node_hook \<Rightarrow> nat \<Rightarrow> client_node list \<Rightarrow> ble_client \<Rightarrow> client_node list \<times> ble_client" where
  "call_nodes fx hk i [] b = ([], b)"
| "call_nodes fx hk i (n # ns) b =
     (let (ns', b') = call_nodes fx hk (Suc i) ns (fx i hk b) in (n\<lparr>node_log := node_log n @ [hk]\<rparr> # ns', b'))"

definition call_all :: "node_fx \<Rightarrow> node_hook \<Rightarrow> node_client \<Rightarrow> node_client" where
  "call_all fx hk c = (let (ns, b) = call_nodes fx hk 0 (nc_nodes c) (nc_base c) in c\<lparr>nc_nodes := ns, nc_base := b\<rparr>)"

definition node_dispatch :: "node_fx \<Rightarrow> u32 \<Rightarrow> HostGattEvent \<Rightarrow> node_client \<Rightarrow> node_client" where
  "node_dispatch fx now ev c =
     (let b = client_dispatch now ev (nc_base c);
          c1 = c\<lparr>nc_base := b, nc_nodes := map (\<lambda>n. n\<lparr>node_state := cl_state b\<rparr>) (nc_nodes c)\<rparr>
      in call_all fx (hook_of ev) c1)"

text \<open>\<open>BLEClientBase::loop\<close> with this class's \<open>dispatch_event_\<close>, then the nodes' own loops.\<close>

definition node_drain :: "node_fx \<Rightarrow> u32 \<Rightarrow> node_client \<Rightarrow> node_client" where
  "node_drain fx now c =
     (case cl_host (nc_base c) of
        None \<Rightarrow> c
      | Some h \<Rightarrow> fold (node_dispatch fx now) (fst (drain_events h))
                   (c\<lparr>nc_base := (nc_base c)\<lparr>cl_host := Some (snd (drain_events h))\<rparr>\<rparr>))"

definition node_timeouts :: "node_fx \<Rightarrow> u32 \<Rightarrow> node_client \<Rightarrow> node_client" where
  "node_timeouts fx now c =
     (let c1 = (if cl_state (nc_base c) = CONNECTING \<and> now - connecting_started (nc_base c) > CONNECT_TIMEOUT_MS
                then node_dispatch fx now timeout_event
                       (c\<lparr>nc_base := with_host (enqueue_command C_DISCONNECT) (nc_base c)\<rparr>)
                else c)
      in if cl_state (nc_base c1) = DISCONNECTING \<and> now - disconnecting_started (nc_base c1) > DISCONNECT_TIMEOUT_MS
         then node_dispatch fx now timeout_event c1 else c1)"

definition node_client_loop :: "node_fx \<Rightarrow> u32 \<Rightarrow> node_client \<Rightarrow> node_client" where
  "node_client_loop fx now c = call_all fx N_loop (node_timeouts fx now (node_drain fx now c))"

section \<open>Characteristics and services\<close>

definition service_get_characteristic :: "ESPBTUUID \<Rightarrow> BLEService \<Rightarrow> BLECharacteristic option" where
  "service_get_characteristic u s = List.find (\<lambda>x. uuid_eq (chr_uuid x) u) (svc_characteristics s)"

definition service_get_characteristic_16 :: "u16 \<Rightarrow> BLEService \<Rightarrow> BLECharacteristic option" where
  "service_get_characteristic_16 u s = service_get_characteristic (from_uint16 u) s"

definition chr_get_descriptor :: "ESPBTUUID \<Rightarrow> BLECharacteristic \<Rightarrow> BLEDescriptor option" where
  "chr_get_descriptor u x = List.find (\<lambda>y. uuid_eq (desc_uuid y) u) (chr_descriptors x)"

definition chr_get_descriptor_16 :: "u16 \<Rightarrow> BLECharacteristic \<Rightarrow> BLEDescriptor option" where
  "chr_get_descriptor_16 u x = chr_get_descriptor (from_uint16 u) x"

definition chr_get_descriptor_by_handle :: "u16 \<Rightarrow> BLECharacteristic \<Rightarrow> BLEDescriptor option" where
  "chr_get_descriptor_by_handle n x = List.find (\<lambda>y. desc_handle y = n) (chr_descriptors x)"

text \<open>\<open>owner\<close> is the client of the characteristic's service, if both pointers are set. A size that does not
  fit the buffer, negative sizes included, is undefined behaviour when the write is performed (\<open>None\<close>).\<close>

definition ESP_GATT_WRITE_TYPE_RSP :: int where "ESP_GATT_WRITE_TYPE_RSP = 2"

definition write_value :: "ble_client option \<Rightarrow> BLECharacteristic \<Rightarrow> bytes \<Rightarrow> 16 word \<Rightarrow> int \<Rightarrow>
    (int \<times> ble_client option) option" where
  "write_value owner x val n write_type =
     (case owner of
        None \<Rightarrow> Some (ESP_GATT_NOT_CONNECTED, None)
      | Some c \<Rightarrow>
          if cl_state c \<noteq> ESTABLISHED \<or> cl_host c = None then Some (ESP_GATT_NOT_CONNECTED, Some c)
          else do {
            bs \<leftarrow> (if sint n < 0 then None else rd_n val 0 (unat n));
            Some (map_prod id Some (write_characteristic (chr_handle x) bs (write_type = ESP_GATT_WRITE_TYPE_RSP) c)) })"

definition ESP_GATT_WRITE_TYPE_NO_RSP :: int where "ESP_GATT_WRITE_TYPE_NO_RSP = 1"

definition write_value_no_rsp :: "ble_client option \<Rightarrow> BLECharacteristic \<Rightarrow> bytes \<Rightarrow> 16 word \<Rightarrow> (int \<times> ble_client option) option" where
  "write_value_no_rsp owner x val n = write_value owner x val n ESP_GATT_WRITE_TYPE_NO_RSP"

text \<open>Deleting the descriptors of a characteristic, and the characteristics of a service with theirs.\<close>

definition release_descriptors :: "BLECharacteristic \<Rightarrow> BLECharacteristic" where
  "release_descriptors x = x\<lparr>chr_descriptors := []\<rparr>"

definition release_characteristics :: "BLEService \<Rightarrow> BLEService" where
  "release_characteristics s = s\<lparr>svc_characteristics := []\<rparr>"

definition read_value :: "ble_client option \<Rightarrow> BLECharacteristic \<Rightarrow> int \<times> ble_client option" where
  "read_value owner x =
     (case owner of None \<Rightarrow> (ESP_GATT_NOT_CONNECTED, None)
      | Some c \<Rightarrow> map_prod id Some (read_characteristic (chr_handle x) c))"

definition set_value_notify :: "bool \<Rightarrow> ble_client option \<Rightarrow> BLECharacteristic \<Rightarrow> int \<times> ble_client option" where
  "set_value_notify enable owner x =
     (case owner of None \<Rightarrow> (ESP_GATT_NOT_CONNECTED, None)
      | Some c \<Rightarrow> map_prod id Some (notify_characteristic (chr_handle x) enable c))"

section \<open>Fan-out\<close>

lemma call_nodes_logs:
  "map node_log (fst (call_nodes fx hk i ns b)) = map (\<lambda>n. node_log n @ [hk]) ns
   \<and> map node_state (fst (call_nodes fx hk i ns b)) = map node_state ns"
  by (induction ns arbitrary: i b) (auto simp: Let_def case_prod_beta)

lemma call_all_logs:
  "map node_log (nc_nodes (call_all fx hk c)) = map (\<lambda>n. node_log n @ [hk]) (nc_nodes c)
   \<and> map node_state (nc_nodes (call_all fx hk c)) = map node_state (nc_nodes c)"
  using call_nodes_logs [of fx hk 0 "nc_nodes c" "nc_base c"]
  by (simp add: call_all_def Let_def case_prod_beta)

lemma node_dispatch_logs:
  "map node_log (nc_nodes (node_dispatch fx now ev c)) = map (\<lambda>n. node_log n @ [hook_of ev]) (nc_nodes c)"
  by (simp add: node_dispatch_def Let_def call_all_logs comp_def)

lemma node_dispatch_states:
  "map node_state (nc_nodes (node_dispatch fx now ev c))
     = map (\<lambda>_. cl_state (client_dispatch now ev (nc_base c))) (nc_nodes c)"
  by (simp add: node_dispatch_def Let_def call_all_logs comp_def)

lemma node_fold_logs:
  "map node_log (nc_nodes (fold (node_dispatch fx now) evs c)) = map (\<lambda>n. node_log n @ map hook_of evs) (nc_nodes c)"
proof (induction evs arbitrary: c)
  case (Cons ev evs)
  have "map (\<lambda>n. node_log n @ map hook_of evs) (nc_nodes (node_dispatch fx now ev c))
      = map (\<lambda>l. l @ map hook_of evs) (map node_log (nc_nodes (node_dispatch fx now ev c)))" by simp
  also have "\<dots> = map (\<lambda>n. node_log n @ map hook_of (ev # evs)) (nc_nodes c)"
    unfolding node_dispatch_logs by simp
  finally show ?case by (simp add: Cons.IH)
qed simp

text \<open>In one drain of the queue every node receives exactly the hooks of the queued events, in their
  order, whatever the nodes do to the client in their hooks; and when an event is dispatched all node
  states are set to the state the base class has just reached.\<close>
theorem nodes_see_every_event:
  "map node_log (nc_nodes (node_drain fx now c)) =
     map (\<lambda>n. node_log n @ map hook_of (case cl_host (nc_base c) of None \<Rightarrow> [] | Some h \<Rightarrow> events h)) (nc_nodes c)
   \<and> map node_state (nc_nodes (node_dispatch fx now ev c))
     = map (\<lambda>_. cl_state (client_dispatch now ev (nc_base c))) (nc_nodes c)"
  by (simp add: node_drain_def node_fold_logs node_dispatch_states drain_events_def split: option.split)

text \<open>Disabling a client tears the connection down but does not stop automatic reconnection: an idle
  client that was disabled is moved to DISCOVERED by the next advertisement of its device.\<close>
theorem disabled_client_reconnects:
  assumes "cl_state (nc_base c) = IDLE" "auto_connect (nc_base c)" "cl_address (nc_base c) \<noteq> 0"
    "address_uint64 d = cl_address (nc_base c)"
  shows "\<not> nc_enabled (set_enabled now False c)
    \<and> cl_state (snd (client_parse_device d (nc_base (set_enabled now False c)))) = DISCOVERED"
  using assms by (simp add: set_enabled_def client_parse_device_def client_set_state_def set_state_internal_def Let_def)

lemma disabled_client_reconnects_witness:
  "cl_state (snd (client_parse_device (device_default\<lparr>dev_address := [1, 0, 0, 0, 0, 0]\<rparr>)
     (nc_base (set_enabled 4 False \<lparr>nc_base = new_client\<lparr>cl_state := IDLE, auto_connect := True, cl_address := 1\<rparr>,
       nc_enabled = True, nc_nodes = []\<rparr>)))) = DISCOVERED"
  using disabled_client_reconnects [of "\<lparr>nc_base = new_client\<lparr>cl_state := IDLE, auto_connect := True, cl_address := 1\<rparr>,
       nc_enabled = True, nc_nodes = []\<rparr>" "device_default\<lparr>dev_address := [1, 0, 0, 0, 0, 0]\<rparr>" 4]
  by (simp add: address_uint64_def)

end
