(* ===== verification/Ble_Platforms.thy ===== *)
theory Ble_Platforms
  imports Ble_Nodes
begin

text \<open>
  The platforms and automations on top of a \<open>BLEClient\<close> (\<open>components/ble_client/{sensor,text_sensor,output,switch}\<close>
  and \<open>automation.h\<close>): the nodes with the hooks they override, their polling and writing operations, and the
  client whose events are fanned out to them.

  What a node hands to the entity classes, which are not under \<open>src/\<close>, is recorded: the published states, the
  triggers, and the calls of \<open>play_next_\<close> with their arguments. The configured lambdas are functions;
  the value that a sensor's lambda computes from a list of bytes is \<open>SV_lambda\<close> of that list.
\<close>

section \<open>Nodes\<close>

datatype sensor_value = SV_nan | SV_byte u8 | SV_lambda bytes | SV_rssi int

record ble_sensor =
  bs_handle :: u16
  bs_handle_is_descriptor :: bool
  bs_has_lambda :: bool
  bs_notify :: bool
  bs_service_uuid :: ESPBTUUID
  bs_char_uuid :: ESPBTUUID
  bs_descr_uuid :: ESPBTUUID
  bs_warning :: bool
  bs_published :: "sensor_value list"

record ble_text_sensor =
  bt_handle :: u16
  bt_notify :: bool
  bt_service_uuid :: ESPBTUUID
  bt_char_uuid :: ESPBTUUID
  bt_published :: "string list"

record ble_output =
  bo_require_response :: bool
  bo_service_uuid :: ESPBTUUID
  bo_char_uuid :: ESPBTUUID
  bo_handle :: u16
  bo_props :: u8
  bo_with_response :: bool

text \<open>\<open>num_running_\<close>, \<open>var_\<close> and the calls of \<open>play_next_\<close> of an action with arguments \<open>'a\<close>.\<close>

record 'a ble_action =
  ac_running :: nat
  ac_var :: 'a
  ac_played :: "'a list"

record 'a write_action = "'a ble_action" +
  wr_service_uuid :: ESPBTUUID
  wr_char_uuid :: ESPBTUUID
  wr_value_simple :: bytes
  wr_template :: "('a \<Rightarrow> bytes) option"
  wr_handle :: u16

datatype 'a platform =
    PF_sensor ble_sensor
  | PF_rssi "sensor_value list"
  | PF_text ble_text_sensor
  | PF_output ble_output
  | PF_switch "bool list"
  | PF_connect_trigger nat
  | PF_disconnect_trigger nat
  | PF_passkey_request_trigger nat
  | PF_passkey_notification_trigger "u32 list"
  | PF_numeric_comparison_trigger "u32 list"
  | PF_write "'a write_action"
  | PF_connect "'a ble_action"
  | PF_disconnect "'a ble_action"

record 'a plat_node =
  pn_state :: ClientState
  pn_body :: "'a platform"

text \<open>The RSSI callback of the client belongs to the RSSI sensor that asked last.\<close>

record 'a plat_client =
  pc_base :: ble_client
  pc_enabled :: bool
  pc_nodes :: "'a plat_node list"
  pc_rssi_owner :: "nat option"

definition ESP_GATT_CHAR_PROP_BIT_WRITE_NR :: u8 where "ESP_GATT_CHAR_PROP_BIT_WRITE_NR = 0x04"
definition ESP_GATT_CHAR_PROP_BIT_WRITE :: u8 where "ESP_GATT_CHAR_PROP_BIT_WRITE = 0x08"

text \<open>\<open>chr->start_notify(nullptr)\<close> on a characteristic of the client's own tree.\<close>

definition start_notify :: "BLECharacteristic \<Rightarrow> ble_client \<Rightarrow> ble_client" where
  "start_notify x c = (case snd (set_value_notify True (Some c) x) of Some c' \<Rightarrow> c' | None \<Rightarrow> c)"

section \<open>Configuration\<close>

text \<open>A UUID is configured as 16 or 32 bits or as its 16 bytes.\<close>

datatype uuid_arg = UA_16 u16 | UA_32 u32 | UA_128 bytes

primrec uuid_of_arg :: "uuid_arg \<Rightarrow> ESPBTUUID" where
  "uuid_of_arg (UA_16 u) = from_uint16 u"
| "uuid_of_arg (UA_32 u) = from_uint32 u"
| "uuid_of_arg (UA_128 bs) = from_raw bs"

definition sensor_set_service_uuid :: "uuid_arg \<Rightarrow> ble_sensor \<Rightarrow> ble_sensor" where
  "sensor_set_service_uuid u s = s\<lparr>bs_service_uuid := uuid_of_arg u\<rparr>"

definition sensor_set_char_uuid :: "uuid_arg \<Rightarrow> ble_sensor \<Rightarrow> ble_sensor" where
  "sensor_set_char_uuid u s = s\<lparr>bs_char_uuid := uuid_of_arg u\<rparr>"

definition sensor_set_descr_uuid :: "uuid_arg \<Rightarrow> ble_sensor \<Rightarrow> ble_sensor" where
  "sensor_set_descr_uuid u s = s\<lparr>bs_descr_uuid := uuid_of_arg u\<rparr>"

definition sensor_set_data_to_value :: "ble_sensor \<Rightarrow> ble_sensor" where
  "sensor_set_data_to_value s = s\<lparr>bs_has_lambda := True\<rparr>"

definition sensor_set_enable_notify :: "bool \<Rightarrow> ble_sensor \<Rightarrow> ble_sensor" where
  "sensor_set_enable_notify n s = s\<lparr>bs_notify := n\<rparr>"

definition text_set_service_uuid :: "uuid_arg \<Rightarrow> ble_text_sensor \<Rightarrow> ble_text_sensor" where
  "text_set_service_uuid u t = t\<lparr>bt_service_uuid := uuid_of_arg u\<rparr>"

definition text_set_char_uuid :: "uuid_arg \<Rightarrow> ble_text_sensor \<Rightarrow> ble_text_sensor" where
  "text_set_char_uuid u t = t\<lparr>bt_char_uuid := uuid_of_arg u\<rparr>"

definition text_set_enable_notify :: "bool \<Rightarrow> ble_text_sensor \<Rightarrow> ble_text_sensor" where
  "text_set_enable_notify n t = t\<lparr>bt_notify := n\<rparr>"

definition output_set_service_uuid :: "uuid_arg \<Rightarrow> ble_output \<Rightarrow> ble_output" where
  "output_set_service_uuid u b = b\<lparr>bo_service_uuid := uuid_of_arg u\<rparr>"

definition output_set_char_uuid :: "uuid_arg \<Rightarrow> ble_output \<Rightarrow> ble_output" where
  "output_set_char_uuid u b = b\<lparr>bo_char_uuid := uuid_of_arg u\<rparr>"

definition output_set_require_response :: "bool \<Rightarrow> ble_output \<Rightarrow> ble_output" where
  "output_set_require_response r b = b\<lparr>bo_require_response := r\<rparr>"

definition write_set_service_uuid :: "uuid_arg \<Rightarrow> 'a write_action \<Rightarrow> 'a write_action" where
  "write_set_service_uuid u a = a\<lparr>wr_service_uuid := uuid_of_arg u\<rparr>"

definition write_set_char_uuid :: "uuid_arg \<Rightarrow> 'a write_action \<Rightarrow> 'a write_action" where
  "write_set_char_uuid u a = a\<lparr>wr_char_uuid := uuid_of_arg u\<rparr>"

definition write_set_value_simple :: "bytes \<Rightarrow> 'a write_action \<Rightarrow> 'a write_action" where
  "write_set_value_simple v a = a\<lparr>wr_value_simple := v\<rparr>"

definition write_set_value_template :: "('a \<Rightarrow> bytes) \<Rightarrow> 'a write_action \<Rightarrow> 'a write_action" where
  "write_set_value_template f a = a\<lparr>wr_template := Some f\<rparr>"

section \<open>Sensor\<close>

definition sensor_parse_data :: "ble_sensor \<Rightarrow> bytes \<Rightarrow> u16 \<Rightarrow> sensor_value option" where
  "sensor_parse_data s value n =
    (if bs_has_lambda s then do { bs \<leftarrow> rd_n value 0 (unat n); Some (SV_lambda bs) }
     else if n > 0 then do { b \<leftarrow> rd value 0; Some (SV_byte b) }
     else Some SV_nan)"

definition sensor_publish :: "sensor_value \<Rightarrow> ble_sensor \<Rightarrow> ble_sensor" where
  "sensor_publish v s = s\<lparr>bs_published := bs_published s @ [v]\<rparr>"

definition sensor_update :: "ClientState \<Rightarrow> ble_sensor \<Rightarrow> ble_client \<Rightarrow> ble_client" where
  "sensor_update st s c =
    (if st \<noteq> ESTABLISHED \<and> cl_state c \<noteq> ESTABLISHED then c
     else if bs_handle s = 0 then c
     else if bs_handle_is_descriptor s then snd (read_descriptor (bs_handle s) c)
     else snd (read_characteristic (bs_handle s) c))"

definition sensor_resolve :: "BLECharacteristic \<Rightarrow> ble_sensor \<Rightarrow> ble_sensor" where
  "sensor_resolve x s =
    (if len (bs_descr_uuid s) > 0 then
       (case chr_get_descriptor (bs_descr_uuid s) x of
          Some d \<Rightarrow> s\<lparr>bs_handle := desc_handle d, bs_handle_is_descriptor := True\<rparr>
        | None \<Rightarrow> s\<lparr>bs_handle := chr_handle x\<rparr>)
     else s\<lparr>bs_handle := chr_handle x\<rparr>)"

definition sensor_on_services_discovered ::
    "ClientState \<Rightarrow> ble_sensor \<Rightarrow> ble_client \<Rightarrow> ClientState \<times> ble_sensor \<times> ble_client" where
  "sensor_on_services_discovered st s c =
    (case get_characteristic (bs_service_uuid s) (bs_char_uuid s) c of
       None \<Rightarrow> (st, s, c)
     | Some x \<Rightarrow>
         (let s1 = sensor_resolve x s
          in if bs_notify s1 then (st, s1, start_notify x c)
             else (ESTABLISHED, s1, sensor_update ESTABLISHED s1 c)))"

definition sensor_on_disconnected :: "ble_sensor \<Rightarrow> ble_sensor" where
  "sensor_on_disconnected s = sensor_publish SV_nan (s\<lparr>bs_warning := True\<rparr>)"

text \<open>The three hooks that deliver a value, behind their guards.\<close>

definition sensor_value_in :: "bytes \<Rightarrow> u16 \<Rightarrow> ble_sensor \<Rightarrow> ble_sensor option" where
  "sensor_value_in value n s =
    do { v \<leftarrow> sensor_parse_data s value n; Some (sensor_publish v (s\<lparr>bs_warning := False\<rparr>)) }"

definition sensor_on_characteristic_read :: "u16 \<Rightarrow> bytes \<Rightarrow> u16 \<Rightarrow> ble_sensor \<Rightarrow> ble_sensor option" where
  "sensor_on_characteristic_read h value n s =
    (if bs_handle_is_descriptor s \<or> h \<noteq> bs_handle s then Some s else sensor_value_in value n s)"

definition sensor_on_descriptor_read :: "u16 \<Rightarrow> bytes \<Rightarrow> u16 \<Rightarrow> ble_sensor \<Rightarrow> ble_sensor option" where
  "sensor_on_descriptor_read h value n s =
    (if \<not> bs_handle_is_descriptor s \<or> h \<noteq> bs_handle s then Some s else sensor_value_in value n s)"

definition sensor_on_notify :: "u16 \<Rightarrow> bytes \<Rightarrow> u16 \<Rightarrow> ble_sensor \<Rightarrow> ble_sensor option" where
  "sensor_on_notify h value n s = (if h \<noteq> bs_handle s then Some s else sensor_value_in value n s)"

section \<open>RSSI sensor\<close>

definition rssi_update :: "nat \<Rightarrow> 'a plat_client \<Rightarrow> 'a plat_client" where
  "rssi_update i p =
    (if cl_state (pc_base p) \<noteq> ESTABLISHED then p
     else p\<lparr>pc_base := client_read_rssi (pc_base p), pc_rssi_owner := Some i\<rparr>)"

section \<open>Text sensor\<close>

definition text_parse_data :: "bytes \<Rightarrow> u16 \<Rightarrow> string option" where
  "text_parse_data value n = do { bs \<leftarrow> rd_n value 0 (unat n); Some (concat (map fmt_02x bs)) }"

definition text_update :: "ble_text_sensor \<Rightarrow> ble_client \<Rightarrow> ble_client" where
  "text_update t c =
    (if bt_handle t = 0 \<or> cl_state c \<noteq> ESTABLISHED then c else snd (read_characteristic (bt_handle t) c))"

definition text_on_services_discovered ::
    "ClientState \<Rightarrow> ble_text_sensor \<Rightarrow> ble_client \<Rightarrow> ClientState \<times> ble_text_sensor \<times> ble_client" where
  "text_on_services_discovered st t c =
    (case get_characteristic (bt_service_uuid t) (bt_char_uuid t) c of
       None \<Rightarrow> (st, t, c)
     | Some x \<Rightarrow>
         (let t1 = t\<lparr>bt_handle := chr_handle x\<rparr>
          in if bt_notify t1 then (st, t1, start_notify x c) else (ESTABLISHED, t1, text_update t1 c)))"

text \<open>\<open>on_characteristic_read\<close> and \<open>on_notify\<close> have the same body.\<close>

definition text_on_value :: "u16 \<Rightarrow> bytes \<Rightarrow> u16 \<Rightarrow> ble_text_sensor \<Rightarrow> ble_text_sensor option" where
  "text_on_value h value n t =
    (if h \<noteq> bt_handle t then Some t
     else do { v \<leftarrow> text_parse_data value n; Some (t\<lparr>bt_published := bt_published t @ [v]\<rparr>) })"

section \<open>Binary output and switch\<close>

definition output_write_type :: "bool \<Rightarrow> u8 \<Rightarrow> bool" where
  "output_write_type require props =
    (if require \<and> props AND ESP_GATT_CHAR_PROP_BIT_WRITE \<noteq> 0 then True
     else if props AND ESP_GATT_CHAR_PROP_BIT_WRITE_NR \<noteq> 0 then False
     else props AND ESP_GATT_CHAR_PROP_BIT_WRITE \<noteq> 0)"

definition output_on_services_discovered :: "ClientState \<Rightarrow> ble_output \<Rightarrow> ble_client \<Rightarrow> ClientState \<times> ble_output" where
  "output_on_services_discovered st b c =
    (case get_characteristic (bo_service_uuid b) (bo_char_uuid b) c of
       None \<Rightarrow> (st, b)
     | Some x \<Rightarrow> (ESTABLISHED, b\<lparr>bo_handle := chr_handle x, bo_props := chr_properties x,
         bo_with_response := output_write_type (bo_require_response b) (chr_properties x)\<rparr>))"

definition output_on_disconnected :: "ble_output \<Rightarrow> ble_output" where
  "output_on_disconnected b = b\<lparr>bo_handle := 0\<rparr>"

definition output_write_state :: "bool \<Rightarrow> ble_output \<Rightarrow> ble_client \<Rightarrow> ble_client" where
  "output_write_state st b c =
    (if bo_handle b = 0 then c
     else snd (write_characteristic (bo_handle b) [if st then 1 else 0] (bo_with_response b) c))"

definition plat_set_enabled :: "u32 \<Rightarrow> bool \<Rightarrow> 'a plat_client \<Rightarrow> 'a plat_client" where
  "plat_set_enabled now e p =
    (let c = set_enabled now e \<lparr>nc_base = pc_base p, nc_enabled = pc_enabled p, nc_nodes = []\<rparr>
     in p\<lparr>pc_base := nc_base c, pc_enabled := nc_enabled c\<rparr>)"

definition set_body :: "nat \<Rightarrow> 'a platform \<Rightarrow> 'a plat_client \<Rightarrow> 'a plat_client" where
  "set_body i b p = p\<lparr>pc_nodes := (pc_nodes p)[i := (pc_nodes p ! i)\<lparr>pn_body := b\<rparr>]\<rparr>"

text \<open>\<open>i\<close> is the switch's own number among the nodes.\<close>

definition switch_write_state :: "u32 \<Rightarrow> nat \<Rightarrow> bool list \<Rightarrow> bool \<Rightarrow> 'a plat_client \<Rightarrow> 'a plat_client" where
  "switch_write_state now i published st p = set_body i (PF_switch (published @ [st])) (plat_set_enabled now st p)"

section \<open>Actions\<close>

definition play_next :: "'a \<Rightarrow> ('a, 'b) ble_action_scheme \<Rightarrow> ('a, 'b) ble_action_scheme" where
  "play_next x a = a\<lparr>ac_played := ac_played a @ [x]\<rparr>"

definition play_begin :: "'a \<Rightarrow> ('a, 'b) ble_action_scheme \<Rightarrow> ('a, 'b) ble_action_scheme" where
  "play_begin x a = a\<lparr>ac_running := ac_running a + 1, ac_var := x\<rparr>"

definition write_play :: "'a \<Rightarrow> 'a write_action \<Rightarrow> ble_client \<Rightarrow> 'a write_action \<times> ble_client" where
  "write_play x a0 c =
    (let a = play_begin x a0
     in case get_characteristic (wr_service_uuid a) (wr_char_uuid a) c of
          None \<Rightarrow> (play_next x a, c)
        | Some ch \<Rightarrow>
            (let value = (case wr_template a of Some f \<Rightarrow> f x | None \<Rightarrow> wr_value_simple a);
                 response = (chr_properties ch AND ESP_GATT_CHAR_PROP_BIT_WRITE \<noteq> 0)
             in (a\<lparr>wr_handle := chr_handle ch\<rparr>, snd (write_characteristic (chr_handle ch) value response c))))"

definition write_on_characteristic_write :: "u16 \<Rightarrow> 'a write_action \<Rightarrow> 'a write_action" where
  "write_on_characteristic_write h a =
    (if h \<noteq> wr_handle a then a else play_next (ac_var a) (a\<lparr>wr_handle := 0\<rparr>))"

definition connect_play :: "u32 \<Rightarrow> 'a \<Rightarrow> 'a ble_action \<Rightarrow> 'a plat_client \<Rightarrow> 'a ble_action \<times> 'a plat_client" where
  "connect_play now x a p =
    (let p1 = plat_set_enabled now True p
     in (play_begin x a, p1\<lparr>pc_base := client_connect now (pc_base p1)\<rparr>))"

definition disconnect_play :: "u32 \<Rightarrow> 'a \<Rightarrow> 'a ble_action \<Rightarrow> 'a plat_client \<Rightarrow> 'a ble_action \<times> 'a plat_client" where
  "disconnect_play now x a p =
    (let p1 = plat_set_enabled now False p
     in (play_begin x a, p1\<lparr>pc_base := client_disconnect now (pc_base p1)\<rparr>))"

definition passkey_reply_play :: "u32 \<Rightarrow> ble_client \<Rightarrow> ble_client" where
  "passkey_reply_play pk c = snd (passkey_reply pk c)"

definition numeric_comparison_reply_play :: "bool \<Rightarrow> ble_client \<Rightarrow> ble_client" where
  "numeric_comparison_reply_play acc c = snd (confirm_reply acc c)"

definition remove_bond_play :: "ble_client \<Rightarrow> ble_client" where
  "remove_bond_play c = snd (remove_bond c)"

section \<open>The remaining hooks\<close>

definition rssi_on_disconnected :: "sensor_value list \<Rightarrow> sensor_value list" where
  "rssi_on_disconnected vs = vs @ [SV_nan]"

definition rssi_on_rssi :: "int \<Rightarrow> sensor_value list \<Rightarrow> sensor_value list" where
  "rssi_on_rssi r vs = vs @ [SV_rssi r]"

definition text_on_disconnected :: "ble_text_sensor \<Rightarrow> ble_text_sensor" where
  "text_on_disconnected t = t\<lparr>bt_published := bt_published t @ [[]]\<rparr>"

text \<open>\<open>on_services_discovered\<close> and \<open>on_disconnected\<close> of the switch publish the enabled state.\<close>

definition switch_on_services_discovered :: "bool \<Rightarrow> bool list \<Rightarrow> ClientState \<times> bool list" where
  "switch_on_services_discovered enabled ps = (ESTABLISHED, ps @ [enabled])"

definition switch_on_disconnected :: "bool \<Rightarrow> bool list \<Rightarrow> ClientState \<times> bool list" where
  "switch_on_disconnected enabled ps = (IDLE, ps @ [enabled])"

definition connect_trigger :: "nat \<Rightarrow> nat" where "connect_trigger n = n + 1"
definition disconnect_trigger :: "nat \<Rightarrow> nat" where "disconnect_trigger n = n + 1"
definition passkey_request_trigger :: "nat \<Rightarrow> nat" where "passkey_request_trigger n = n + 1"

definition passkey_notification_trigger :: "u32 \<Rightarrow> u32 list \<Rightarrow> u32 list" where
  "passkey_notification_trigger k ks = ks @ [k]"

definition numeric_comparison_trigger :: "u32 \<Rightarrow> u32 list \<Rightarrow> u32 list" where
  "numeric_comparison_trigger k ks = ks @ [k]"

definition connect_on_services_discovered :: "'a ble_action \<Rightarrow> 'a ble_action" where
  "connect_on_services_discovered a = play_next (ac_var a) a"

definition disconnect_on_disconnected :: "'a ble_action \<Rightarrow> 'a ble_action" where
  "disconnect_on_disconnected a = play_next (ac_var a) a"

lemmas small_hooks [simp] = rssi_on_disconnected_def rssi_on_rssi_def text_on_disconnected_def
  switch_on_services_discovered_def switch_on_disconnected_def connect_on_services_discovered_def
  disconnect_on_disconnected_def

section \<open>Hooks and fan-out\<close>

text \<open>What a node does in a hook; hooks it does not override do nothing. \<open>None\<close> is a read beyond the event's
  data.\<close>

definition plat_hook :: "bool \<Rightarrow> node_hook \<Rightarrow> ClientState \<Rightarrow> 'a platform \<Rightarrow> ble_client \<Rightarrow>
    (ClientState \<times> 'a platform \<times> ble_client) option" where
  "plat_hook enabled hk st b c =
    (case b of
       PF_sensor s \<Rightarrow>
         (case hk of
            N_services_discovered \<Rightarrow>
              (case sensor_on_services_discovered st s c of (st', s', c') \<Rightarrow> Some (st', PF_sensor s', c'))
          | N_disconnected _ \<Rightarrow> Some (st, PF_sensor (sensor_on_disconnected s), c)
          | N_characteristic_read h _ v n \<Rightarrow>
              map_option (\<lambda>s'. (st, PF_sensor s', c)) (sensor_on_characteristic_read h v n s)
          | N_descriptor_read h _ v n \<Rightarrow> map_option (\<lambda>s'. (st, PF_sensor s', c)) (sensor_on_descriptor_read h v n s)
          | N_notify h v n \<Rightarrow> map_option (\<lambda>s'. (st, PF_sensor s', c)) (sensor_on_notify h v n s)
          | _ \<Rightarrow> Some (st, b, c))
     | PF_rssi vs \<Rightarrow>
         (case hk of
            N_services_discovered \<Rightarrow> Some (ESTABLISHED, b, c)
          | N_disconnected _ \<Rightarrow> Some (IDLE, PF_rssi (rssi_on_disconnected vs), c)
          | N_rssi r \<Rightarrow> Some (st, PF_rssi (rssi_on_rssi r vs), c)
          | _ \<Rightarrow> Some (st, b, c))
     | PF_text t \<Rightarrow>
         (case hk of
            N_services_discovered \<Rightarrow>
              (case text_on_services_discovered st t c of (st', t', c') \<Rightarrow> Some (st', PF_text t', c'))
          | N_disconnected _ \<Rightarrow> Some (IDLE, PF_text (text_on_disconnected t), c)
          | N_characteristic_read h _ v n \<Rightarrow> map_option (\<lambda>t'. (st, PF_text t', c)) (text_on_value h v n t)
          | N_notify h v n \<Rightarrow> map_option (\<lambda>t'. (st, PF_text t', c)) (text_on_value h v n t)
          | _ \<Rightarrow> Some (st, b, c))
     | PF_output x \<Rightarrow>
         (case hk of
            N_services_discovered \<Rightarrow> (case output_on_services_discovered st x c of (st', x') \<Rightarrow> Some (st', PF_output x', c))
          | N_disconnected _ \<Rightarrow> Some (IDLE, PF_output (output_on_disconnected x), c)
          | _ \<Rightarrow> Some (st, b, c))
     | PF_switch ps \<Rightarrow>
         (case hk of
            N_services_discovered \<Rightarrow> (case switch_on_services_discovered enabled ps of (st', ps') \<Rightarrow> Some (st', PF_switch ps', c))
          | N_disconnected _ \<Rightarrow> (case switch_on_disconnected enabled ps of (st', ps') \<Rightarrow> Some (st', PF_switch ps', c))
          | _ \<Rightarrow> Some (st, b, c))
     | PF_connect_trigger n \<Rightarrow> Some (st, PF_connect_trigger (if hk = N_services_discovered then connect_trigger n else n), c)
     | PF_disconnect_trigger n \<Rightarrow>
         Some (st, PF_disconnect_trigger (case hk of N_disconnected _ \<Rightarrow> disconnect_trigger n | _ \<Rightarrow> n), c)
     | PF_passkey_request_trigger n \<Rightarrow>
         Some (st, PF_passkey_request_trigger (if hk = N_passkey_request then passkey_request_trigger n else n), c)
     | PF_passkey_notification_trigger ks \<Rightarrow>
         Some (st, PF_passkey_notification_trigger (case hk of N_passkey_notification k \<Rightarrow> passkey_notification_trigger k ks | _ \<Rightarrow> ks), c)
     | PF_numeric_comparison_trigger ks \<Rightarrow>
         Some (st, PF_numeric_comparison_trigger (case hk of N_numeric_comparison_request k \<Rightarrow> numeric_comparison_trigger k ks | _ \<Rightarrow> ks), c)
     | PF_write a \<Rightarrow>
         Some (st, PF_write (case hk of N_characteristic_write h _ \<Rightarrow> write_on_characteristic_write h a | _ \<Rightarrow> a), c)
     | PF_connect a \<Rightarrow> Some (st, PF_connect (if hk = N_services_discovered then connect_on_services_discovered a else a), c)
     | PF_disconnect a \<Rightarrow>
         Some (st, PF_disconnect (case hk of N_disconnected _ \<Rightarrow> disconnect_on_disconnected a | _ \<Rightarrow> a), c))"

fun call_platforms :: "bool \<Rightarrow> node_hook \<Rightarrow> 'a plat_node list \<Rightarrow> ble_client \<Rightarrow> ('a plat_node list \<times> ble_client) option" where
  "call_platforms e hk [] c = Some ([], c)"
| "call_platforms e hk (n # ns) c =
     do { (st, b, c1) \<leftarrow> plat_hook e hk (pn_state n) (pn_body n) c;
          (ns', c2) \<leftarrow> call_platforms e hk ns c1;
          Some (\<lparr>pn_state = st, pn_body = b\<rparr> # ns', c2) }"

text \<open>The RSSI callback runs in the dispatch of the base class and publishes to its owner.\<close>

definition rssi_callback :: "HostGattEvent \<Rightarrow> 'a plat_client \<Rightarrow> 'a plat_node list" where
  "rssi_callback ev p =
    (case pc_rssi_owner p of
       Some i \<Rightarrow>
         if ev_kind ev = E_RSSI \<and> cl_rssi_cb (pc_base p) \<and> i < length (pc_nodes p) then
           (pc_nodes p)[i := (pc_nodes p ! i)\<lparr>pn_body := (case pn_body (pc_nodes p ! i) of
              PF_rssi vs \<Rightarrow> PF_rssi (vs @ [SV_rssi (ev_rssi ev)]) | b \<Rightarrow> b)\<rparr>]
         else pc_nodes p
     | None \<Rightarrow> pc_nodes p)"

definition plat_dispatch :: "u32 \<Rightarrow> HostGattEvent \<Rightarrow> 'a plat_client \<Rightarrow> 'a plat_client option" where
  "plat_dispatch now ev p =
    (let c = client_dispatch now ev (pc_base p);
         ns = map (\<lambda>n. n\<lparr>pn_state := cl_state c\<rparr>) (rssi_callback ev p)
     in do { (ns', c') \<leftarrow> call_platforms (pc_enabled p) (hook_of ev) ns c;
             Some (p\<lparr>pc_base := c', pc_nodes := ns'\<rparr>) })"

fun plat_dispatch_all :: "u32 \<Rightarrow> HostGattEvent list \<Rightarrow> 'a plat_client \<Rightarrow> 'a plat_client option" where
  "plat_dispatch_all now [] p = Some p"
| "plat_dispatch_all now (ev # evs) p = Option.bind (plat_dispatch now ev p) (plat_dispatch_all now evs)"

definition plat_drain :: "u32 \<Rightarrow> 'a plat_client \<Rightarrow> 'a plat_client option" where
  "plat_drain now p =
    (case cl_host (pc_base p) of
       None \<Rightarrow> Some p
     | Some h \<Rightarrow> plat_dispatch_all now (fst (drain_events h))
         (p\<lparr>pc_base := (pc_base p)\<lparr>cl_host := Some (snd (drain_events h))\<rparr>\<rparr>))"

definition plat_timeouts :: "u32 \<Rightarrow> 'a plat_client \<Rightarrow> 'a plat_client option" where
  "plat_timeouts now p =
    do { p1 \<leftarrow> (if cl_state (pc_base p) = CONNECTING \<and> now - connecting_started (pc_base p) > CONNECT_TIMEOUT_MS
               then plat_dispatch now timeout_event
                      (p\<lparr>pc_base := with_host (enqueue_command C_DISCONNECT) (pc_base p)\<rparr>)
               else Some p);
         if cl_state (pc_base p1) = DISCONNECTING \<and> now - disconnecting_started (pc_base p1) > DISCONNECT_TIMEOUT_MS
         then plat_dispatch now timeout_event p1 else Some p1 }"

text \<open>No platform overrides \<open>loop\<close>.\<close>

definition plat_loop :: "u32 \<Rightarrow> 'a plat_client \<Rightarrow> 'a plat_client option" where
  "plat_loop now p = Option.bind (plat_drain now p) (plat_timeouts now)"

section \<open>Events carry their data\<close>

text \<open>The length of an event never exceeds its data.\<close>

definition ev_wf :: "HostGattEvent \<Rightarrow> bool" where
  "ev_wf ev \<longleftrightarrow> unat (ev_len ev) \<le> length (ev_data ev)"

abbreviation hevs_wf :: "gatt_host \<Rightarrow> bool" where
  "hevs_wf h \<equiv> list_all ev_wf (events h)"

lemma unat_of_nat_le: "unat (of_nat n :: u16) \<le> n"
  by (simp add: unat_of_nat)

lemma ev_wf_empty: "ev_len ev = 0 \<Longrightarrow> ev_wf ev"
  by (simp add: ev_wf_def)

lemma hevs_post [simp]: "hevs_wf (post_event ev h) \<longleftrightarrow> hevs_wf h \<and> ev_wf ev"
  by (simp add: post_event_def)

lemma ev_wf_gatt_event [simp]:
  "ev_wf (gatt_event k)" "ev_wf ((gatt_event k)\<lparr>ev_handle := a\<rparr>)" "ev_wf ((gatt_event k)\<lparr>ev_status := st\<rparr>)"
  "ev_wf ((gatt_event k)\<lparr>ev_handle := a, ev_status := st\<rparr>)" "ev_wf ((gatt_event k)\<lparr>ev_passkey := pk\<rparr>)"
  "ev_wf ((gatt_event k)\<lparr>disc_reason := r\<rparr>)" "ev_wf ((gatt_event k)\<lparr>ev_mtu := m, ev_services := t\<rparr>)"
  "ev_wf timeout_event"
  by (simp_all add: ev_wf_def gatt_event_def timeout_event_def)

lemma ev_wf_read_ay [simp]: "ev_wf (read_ay r ((gatt_event k)\<lparr>ev_handle := a, ev_status := st\<rparr>))"
  "ev_wf (read_ay r ((gatt_event k)\<lparr>ev_handle := a\<rparr>))"
  by (auto simp: ev_wf_def read_ay_def unat_of_nat_le split: option.split)

lemma hevs_read: "hevs_wf h \<Longrightarrow> hevs_wf (do_read bz a d h)"
  by (auto simp: do_read_def Let_def ev_wf_def unat_of_nat_le gatt_event_def hcall_def read_ay_def
    split: option.split)

lemma hevs_write: "hevs_wf h \<Longrightarrow> hevs_wf (do_write bz a v r d h)"
  by (auto simp: do_write_def Let_def host_frame split: option.split)

lemma hevs_set_notify: "hevs_wf h \<Longrightarrow> hevs_wf (do_set_notify bz a e h)"
  by (auto simp: do_set_notify_def Let_def host_frame split: option.split)

lemma hevs_rssi: "hevs_wf h \<Longrightarrow> hevs_wf (do_read_rssi bz h)"
  by (auto simp: do_read_rssi_def Let_def ev_wf_def gatt_event_def split: option.split)

lemma hevs_pairing:
  "hevs_wf h \<Longrightarrow> hevs_wf (do_pair bz h)" "hevs_wf h \<Longrightarrow> hevs_wf (do_passkey_reply pk h)"
  "hevs_wf h \<Longrightarrow> hevs_wf (do_confirm_reply acc h)" "hevs_wf h \<Longrightarrow> hevs_wf (do_remove_bond h)"
  "hevs_wf h \<Longrightarrow> hevs_wf (agent_request_passkey m h)" "hevs_wf h \<Longrightarrow> hevs_wf (agent_display_passkey pk h)"
  "hevs_wf h \<Longrightarrow> hevs_wf (agent_request_confirmation m pk h)"
  by (auto simp: do_pair_def do_passkey_reply_def do_confirm_reply_def do_remove_bond_def agent_request_passkey_def
    agent_display_passkey_def agent_request_confirmation_def Let_def host_frame ev_wf_def gatt_event_def
    split: option.split)

lemma hevs_disconnect: "hevs_wf h \<Longrightarrow> hevs_wf (do_disconnect h)"
  by (simp add: do_disconnect_def host_frame)

lemma hevs_discovery: "hevs_wf h \<Longrightarrow> hevs_wf (try_start_discovery bz h)"
proof -
  assume h: "hevs_wf h"
  obtain ok h2 tree where w: "walk_gatt_tree bz (h\<lparr>discovering := True\<rparr>) = ((ok, h2), tree)" by (metis surj_pair)
  note e = walk_frame(1) [OF w]
  show ?thesis
  proof (cases "discovered h \<or> discovering h")
    case True then show ?thesis using h by (auto simp: try_start_discovery_def)
  next
    case False
    then show ?thesis using h e
      by (cases ok) (simp_all add: try_start_discovery_def Let_def w hevs_disconnect)
  qed
qed

lemma hevs_connected_changed: "hevs_wf h \<Longrightarrow> hevs_wf (worker_on_connected_changed bz c h)"
  by (simp add: worker_on_connected_changed_def Let_def hevs_discovery)

lemma hevs_attempts: "hevs_wf h \<Longrightarrow> hevs_wf (connect_attempts bz n k h)"
  by (induction n arbitrary: k h)
    (auto simp: Let_def host_frame hevs_connected_changed split: option.split)

lemma hevs_connect: "hevs_wf h \<Longrightarrow> hevs_wf (do_connect bz h)"
proof -
  assume h: "hevs_wf h"
  obtain ok h1 where o: "host_open_bus bz h = (ok, h1)" by fastforce
  show ?thesis using h host_open_bus_frame(1) [OF o]
    by (simp add: do_connect_def o hevs_connected_changed hevs_attempts)
qed

lemmas hevs_ops = hevs_read hevs_write hevs_set_notify hevs_rssi hevs_pairing hevs_disconnect hevs_connect

lemma hevs_command: "hevs_wf h \<Longrightarrow> hevs_wf (do_command bz cmd h)"
  by (cases cmd) (simp_all add: do_command_def hevs_ops)

lemma hevs_fold: "(\<And>x h. hevs_wf h \<Longrightarrow> hevs_wf (f x h)) \<Longrightarrow> hevs_wf h \<Longrightarrow> hevs_wf (fold f xs h)"
  by (induction xs arbitrary: h) simp_all

lemma hevs_commands: "hevs_wf h \<Longrightarrow> hevs_wf (host_process_commands bz h)"
  unfolding host_process_commands_def by (rule hevs_fold) (simp_all add: hevs_command)

lemma hevs_props: "hevs_wf h \<Longrightarrow> hevs_wf (host_on_properties_changed bz iface ps h)"
  unfolding host_on_properties_changed_def
  by (auto intro!: hevs_fold simp: props_entry_def hevs_connected_changed hevs_discovery split: device_prop.split)

lemma hevs_value: "hevs_wf h \<Longrightarrow> hevs_wf (on_value_changed path iface vs h)"
  unfolding on_value_changed_def
  by (auto intro!: hevs_fold simp: value_entry_def split: option.split value_prop.split)

lemma hevs_step: "host_step (h, log) (h', log') \<Longrightarrow> hevs_wf h \<Longrightarrow> hevs_wf h'"
  by (cases rule: host_step.cases, assumption)
    (auto simp: hevs_commands hevs_props hevs_value hevs_pairing enqueue_command_def drain_events_def)

text \<open>The same of the host a client owns.\<close>

definition client_evs_wf :: "ble_client \<Rightarrow> bool" where
  "client_evs_wf c = (case cl_host c of None \<Rightarrow> True | Some h \<Rightarrow> hevs_wf h)"

lemma evs_wf_simps [simp]:
  "client_evs_wf (c\<lparr>cl_services := x1\<rparr>) = client_evs_wf c" "client_evs_wf (c\<lparr>cl_mtu := x2\<rparr>) = client_evs_wf c"
  "client_evs_wf (c\<lparr>cl_rssi_out := x3\<rparr>) = client_evs_wf c" "client_evs_wf (c\<lparr>cl_paired := x4\<rparr>) = client_evs_wf c"
  "client_evs_wf (client_set_state st c) = client_evs_wf c" "client_evs_wf (set_disconnecting now c) = client_evs_wf c"
  "client_evs_wf (set_idle c) = client_evs_wf c" "client_evs_wf (with_host (enqueue_command cmd) c) = client_evs_wf c"
  "client_evs_wf (unconditional_disconnect now c) = client_evs_wf c"
  "client_evs_wf (snd (client_request cmd c)) = client_evs_wf c"
  by (auto simp: client_evs_wf_def client_ops enqueue_command_def Let_def split: option.split)

lemma evs_wf_dispatch [simp]: "client_evs_wf (client_dispatch now ev c) = client_evs_wf c"
  by (simp add: client_dispatch_def release_services_def split: EventKind.split)

lemma evs_wf_fold_dispatch: "client_evs_wf (fold (client_dispatch now) evs c) = client_evs_wf c"
  by (induction evs arbitrary: c) simp_all

lemma evs_wf_drained: "client_evs_wf (c\<lparr>cl_host := Some (snd (drain_events h))\<rparr>)"
  by (simp add: client_evs_wf_def drain_events_def)

lemma evs_wf_loop: "client_evs_wf c \<Longrightarrow> client_evs_wf (client_loop now c)"
proof -
  assume "client_evs_wf c"
  then have "client_evs_wf (drain_phase (client_dispatch now) c)"
    by (cases "cl_host c") (simp_all add: drain_phase_def evs_wf_fold_dispatch evs_wf_drained)
  then show ?thesis
    by (simp add: client_loop_def client_loop_with_def connect_timeout_phase_def disconnect_timeout_phase_def)
qed

lemma evs_wf_step: "client_step c c' \<Longrightarrow> client_evs_wf c \<Longrightarrow> client_evs_wf c'"
proof (induction rule: client_step.induct)
  case (CS_loop c now) then show ?case by (simp add: evs_wf_loop)
next
  case (CS_worker c h log h' log') then show ?case by (auto simp: client_evs_wf_def dest: hevs_step)
next
  case (CS_connect c now)
  then show ?case
    by (auto simp: client_evs_wf_def client_ops enqueue_command_def new_host_def Let_def split: option.split)
qed (auto simp: client_evs_wf_def client_ops enqueue_command_def Let_def split: option.split if_splits)

section \<open>No read beyond an event\<close>

lemma sensor_parse_total: "unat n \<le> length v \<Longrightarrow> \<exists>x. sensor_parse_data s v n = Some x"
proof -
  assume n: "unat n \<le> length v"
  have "n > 0 \<Longrightarrow> 0 < length v" using n by (cases "length v") (simp_all add: unat_eq_zero word_gt_0)
  then show ?thesis using n by (auto simp: sensor_parse_data_def rd_n_def rd_def)
qed

lemma text_parse_total: "unat n \<le> length v \<Longrightarrow> \<exists>x. text_parse_data v n = Some x"
  by (simp add: text_parse_data_def rd_n_def)

text \<open>The data a hook carries.\<close>

definition hook_wf :: "node_hook \<Rightarrow> bool" where
  "hook_wf hk = (case hk of
       N_characteristic_read h st v n \<Rightarrow> unat n \<le> length v
     | N_descriptor_read h st v n \<Rightarrow> unat n \<le> length v
     | N_notify h v n \<Rightarrow> unat n \<le> length v
     | _ \<Rightarrow> True)"

lemma hook_of_wf: "ev_wf ev \<Longrightarrow> hook_wf (hook_of ev)"
  by (simp add: hook_of_def hook_wf_def ev_wf_def split: EventKind.split)

lemmas sensor_hooks = sensor_on_characteristic_read_def sensor_on_descriptor_read_def sensor_on_notify_def
  sensor_value_in_def

lemma sensor_hooks_total:
  assumes "unat n \<le> length v"
  shows "\<exists>s'. sensor_on_characteristic_read h v n s = Some s'" "\<exists>s'. sensor_on_descriptor_read h v n s = Some s'"
    "\<exists>s'. sensor_on_notify h v n s = Some s'" "\<exists>t'. text_on_value h v n t = Some t'"
  using sensor_parse_total [OF assms, of s] text_parse_total [OF assms]
  by (auto simp: sensor_hooks text_on_value_def)

lemma hook_total: "hook_wf hk \<Longrightarrow> \<exists>r. plat_hook e hk st b c = Some r"
proof (cases b)
  case (PF_sensor s)
  assume "hook_wf hk"
  then show ?thesis using sensor_hooks_total(1-3) [where s = s]
    by (cases hk) (fastforce simp: plat_hook_def PF_sensor hook_wf_def split: prod.split)+
next
  case (PF_text t)
  assume "hook_wf hk"
  then show ?thesis using sensor_hooks_total(4) [where t = t]
    by (cases hk) (fastforce simp: plat_hook_def PF_text hook_wf_def split: prod.split)+
next
  case (PF_output x)
  show ?thesis by (auto simp: plat_hook_def PF_output split: node_hook.split prod.split)
qed (auto simp: plat_hook_def split: node_hook.split)

lemma update_wf [simp]:
  "client_evs_wf (sensor_update st s c) = client_evs_wf c" "client_evs_wf (text_update t c) = client_evs_wf c"
  "client_evs_wf (start_notify x c) = client_evs_wf c"
  by (simp_all add: sensor_update_def text_update_def start_notify_def set_value_notify_def
    read_characteristic_def read_descriptor_def notify_characteristic_def)

lemma hook_evs_wf: "plat_hook e hk st b c = Some (st', b', c') \<Longrightarrow> client_evs_wf c' = client_evs_wf c"
  by (auto simp: plat_hook_def sensor_on_services_discovered_def text_on_services_discovered_def Let_def
    split: platform.splits node_hook.splits option.splits prod.splits if_splits)

lemma call_platforms_total:
  "hook_wf hk \<Longrightarrow> \<exists>ns' c'. call_platforms e hk ns c = Some (ns', c') \<and> client_evs_wf c' = client_evs_wf c"
proof (induction ns arbitrary: c)
  case (Cons n ns)
  obtain st b c1 where h: "plat_hook e hk (pn_state n) (pn_body n) c = Some (st, b, c1)"
    using hook_total [OF Cons.prems] by (metis prod_cases3)
  obtain ns' c2 where r: "call_platforms e hk ns c1 = Some (ns', c2)" "client_evs_wf c2 = client_evs_wf c1"
    using Cons.IH [OF Cons.prems] by blast
  show ?case using hook_evs_wf [OF h] r by (simp add: h)
qed simp

lemma plat_dispatch_total:
  "ev_wf ev \<Longrightarrow> \<exists>p'. plat_dispatch now ev p = Some p' \<and> client_evs_wf (pc_base p') = client_evs_wf (pc_base p)"
proof -
  assume ev: "ev_wf ev"
  let ?c = "client_dispatch now ev (pc_base p)"
  obtain ns' c' where r: "call_platforms (pc_enabled p) (hook_of ev)
      (map (\<lambda>n. n\<lparr>pn_state := cl_state ?c\<rparr>) (rssi_callback ev p)) ?c = Some (ns', c')"
    "client_evs_wf c' = client_evs_wf ?c"
    using call_platforms_total [OF hook_of_wf [OF ev]] by blast
  show ?thesis using r(2) by (simp add: plat_dispatch_def Let_def r(1))
qed

lemma plat_dispatch_all_total:
  "list_all ev_wf evs \<Longrightarrow>
     \<exists>p'. plat_dispatch_all now evs p = Some p' \<and> client_evs_wf (pc_base p') = client_evs_wf (pc_base p)"
proof (induction evs arbitrary: p)
  case (Cons ev evs)
  then obtain p1 where p1: "plat_dispatch now ev p = Some p1" "client_evs_wf (pc_base p1) = client_evs_wf (pc_base p)"
    using plat_dispatch_total [of ev now p] by auto
  with Cons show ?case by fastforce
qed simp

lemma plat_drain_total:
  "client_evs_wf (pc_base p) \<Longrightarrow> \<exists>p'. plat_drain now p = Some p' \<and> client_evs_wf (pc_base p')"
proof (cases "cl_host (pc_base p)")
  case (Some h)
  assume "client_evs_wf (pc_base p)"
  then have "list_all ev_wf (fst (drain_events h))" by (simp add: client_evs_wf_def Some drain_events_def)
  from plat_dispatch_all_total [OF this, of now "p\<lparr>pc_base := (pc_base p)\<lparr>cl_host := Some (snd (drain_events h))\<rparr>\<rparr>"]
  show ?thesis by (auto simp: plat_drain_def Some evs_wf_drained)
qed (simp add: plat_drain_def)

lemma plat_timeouts_total:
  "client_evs_wf (pc_base p) \<Longrightarrow> \<exists>p'. plat_timeouts now p = Some p' \<and> client_evs_wf (pc_base p')"
proof -
  assume p: "client_evs_wf (pc_base p)"
  have t: "\<exists>q'. plat_dispatch now timeout_event q = Some q' \<and> client_evs_wf (pc_base q')"
    if "client_evs_wf (pc_base q)" for q :: "'a plat_client"
    using plat_dispatch_total [of timeout_event now q] that by simp
  let ?q = "p\<lparr>pc_base := with_host (enqueue_command C_DISCONNECT) (pc_base p)\<rparr>"
  obtain p1 where p1: "(if cl_state (pc_base p) = CONNECTING \<and> now - connecting_started (pc_base p) > CONNECT_TIMEOUT_MS
      then plat_dispatch now timeout_event ?q else Some p) = Some p1" "client_evs_wf (pc_base p1)"
    using t [of ?q] p by (cases "cl_state (pc_base p) = CONNECTING \<and> now - connecting_started (pc_base p) > CONNECT_TIMEOUT_MS") auto
  show ?thesis using t [OF p1(2)] p1 by (auto simp: plat_timeouts_def)
qed

lemma plat_loop_total:
  "client_evs_wf (pc_base p) \<Longrightarrow> \<exists>p'. plat_loop now p = Some p' \<and> client_evs_wf (pc_base p')"
  using plat_drain_total [of p now] plat_timeouts_total [of _ now] by (fastforce simp: plat_loop_def)

section \<open>Executions\<close>

text \<open>The owner of the client, the worker and the polling schedule act at any times; \<open>PS_base\<close> covers the
  operations of the base class and the worker's changes of the host.\<close>

inductive plat_step :: "'a plat_client \<Rightarrow> 'a plat_client \<Rightarrow> bool" where
  PS_base: "client_step (pc_base p) c' \<Longrightarrow> plat_step p (p\<lparr>pc_base := c'\<rparr>)"
| PS_register: "plat_step p (p\<lparr>pc_nodes := pc_nodes p @ [n]\<rparr>)"
| PS_loop: "plat_loop now p = Some p' \<Longrightarrow> plat_step p p'"
| PS_sensor: "i < length (pc_nodes p) \<Longrightarrow> pn_body (pc_nodes p ! i) = PF_sensor s \<Longrightarrow>
    plat_step p (p\<lparr>pc_base := sensor_update (pn_state (pc_nodes p ! i)) s (pc_base p)\<rparr>)"
| PS_text: "i < length (pc_nodes p) \<Longrightarrow> pn_body (pc_nodes p ! i) = PF_text t \<Longrightarrow>
    plat_step p (p\<lparr>pc_base := text_update t (pc_base p)\<rparr>)"
| PS_rssi: "i < length (pc_nodes p) \<Longrightarrow> pn_body (pc_nodes p ! i) = PF_rssi vs \<Longrightarrow> plat_step p (rssi_update i p)"
| PS_output: "i < length (pc_nodes p) \<Longrightarrow> pn_body (pc_nodes p ! i) = PF_output x \<Longrightarrow>
    plat_step p (p\<lparr>pc_base := output_write_state on x (pc_base p)\<rparr>)"
| PS_switch: "i < length (pc_nodes p) \<Longrightarrow> pn_body (pc_nodes p ! i) = PF_switch vs \<Longrightarrow>
    plat_step p (switch_write_state now i vs on p)"
| PS_write: "i < length (pc_nodes p) \<Longrightarrow> pn_body (pc_nodes p ! i) = PF_write a \<Longrightarrow>
    write_play x a (pc_base p) = (a', c') \<Longrightarrow> plat_step p (set_body i (PF_write a') (p\<lparr>pc_base := c'\<rparr>))"
| PS_connect: "i < length (pc_nodes p) \<Longrightarrow> pn_body (pc_nodes p ! i) = PF_connect b \<Longrightarrow>
    connect_play now x b p = (b', p') \<Longrightarrow> plat_step p (set_body i (PF_connect b') p')"
| PS_disconnect: "i < length (pc_nodes p) \<Longrightarrow> pn_body (pc_nodes p ! i) = PF_disconnect b \<Longrightarrow>
    disconnect_play now x b p = (b', p') \<Longrightarrow> plat_step p (set_body i (PF_disconnect b') p')"
| PS_pairing: "c' \<in> {passkey_reply_play pk (pc_base p), numeric_comparison_reply_play acc (pc_base p),
    remove_bond_play (pc_base p)} \<Longrightarrow> plat_step p (p\<lparr>pc_base := c'\<rparr>)"

definition plat_start :: "'a plat_client" where
  "plat_start = \<lparr>pc_base = new_client, pc_enabled = True, pc_nodes = [], pc_rssi_owner = None\<rparr>"

definition plat_reachable :: "'a plat_client \<Rightarrow> bool" where
  "plat_reachable p = plat_step\<^sup>*\<^sup>* plat_start p"

lemma set_body_fields [simp]:
  "pc_base (set_body i b p) = pc_base p" "pc_enabled (set_body i b p) = pc_enabled p"
  "length (pc_nodes (set_body i b p)) = length (pc_nodes p)"
  by (simp_all add: set_body_def)

lemma client_read_rssi_wf [simp]: "client_evs_wf (client_read_rssi c) = client_evs_wf c"
  by (auto simp: client_evs_wf_def client_read_rssi_def Let_def with_host_def enqueue_command_def split: option.split)

lemma client_connect_wf: "client_evs_wf c \<Longrightarrow> client_evs_wf (client_connect now c)"
  by (rule evs_wf_step [OF CS_connect])

lemma client_disconnect_wf [simp]: "client_evs_wf (client_disconnect now c) = client_evs_wf c"
  by (auto simp: client_disconnect_def client_evs_wf_def with_host_def unconditional_disconnect_def set_disconnecting_def
    client_set_state_def set_state_internal_def enqueue_command_def Let_def split: option.split)

lemma plat_set_enabled_wf [simp]: "client_evs_wf (pc_base (plat_set_enabled now e p)) = client_evs_wf (pc_base p)"
  by (simp add: plat_set_enabled_def set_enabled_def Let_def)

lemma pairing_wf [simp]:
  "client_evs_wf (passkey_reply_play pk c) = client_evs_wf c"
  "client_evs_wf (numeric_comparison_reply_play acc c) = client_evs_wf c"
  "client_evs_wf (remove_bond_play c) = client_evs_wf c"
  by (simp_all add: passkey_reply_play_def passkey_reply_def numeric_comparison_reply_play_def confirm_reply_def
    remove_bond_play_def remove_bond_def)

lemma write_play_wf: "write_play x a c = (a', c') \<Longrightarrow> client_evs_wf c' = client_evs_wf c"
  by (auto simp: write_play_def Let_def write_characteristic_def split: option.splits)

lemma plat_step_wf: "plat_step p p' \<Longrightarrow> client_evs_wf (pc_base p) \<Longrightarrow> client_evs_wf (pc_base p')"
proof (induction rule: plat_step.induct)
  case (PS_base p c') then show ?case by (simp add: evs_wf_step)
next
  case (PS_loop now p p') then show ?case using plat_loop_total [of p now] by auto
next
  case (PS_write i p a x a' c') then show ?case by (simp add: write_play_wf)
next
  case (PS_connect i p b now x b' p') then show ?case by (auto simp: connect_play_def Let_def client_connect_wf)
next
  case (PS_disconnect i p b now x b' p') then show ?case by (auto simp: disconnect_play_def Let_def)
qed (auto simp: rssi_update_def output_write_state_def write_characteristic_def switch_write_state_def)

text \<open>C33. In every execution of a client with any platforms attached, whatever BlueZ answers, the next loop runs to
  its end: no sensor reads beyond the data of an event.\<close>

theorem platforms_stay_in_bounds:
  assumes "plat_reachable p"
  shows "\<exists>p'. plat_loop now p = Some p'"
proof -
  have "client_evs_wf (pc_base p)"
    using assms unfolding plat_reachable_def
  proof (induction rule: rtranclp_induct)
    case base then show ?case by (simp add: plat_start_def new_client_def client_evs_wf_def)
  next
    case (step y z) then show ?case by (blast intro: plat_step_wf)
  qed
  then show ?thesis using plat_loop_total by blast
qed

theorem platforms_stay_in_bounds_witness:
  "\<exists>p'. plat_loop 5 (plat_start\<lparr>pc_nodes := [\<lparr>pn_state = INIT, pn_body = PF_rssi []\<rparr>]\<rparr> :: unit plat_client) = Some p'"
proof (rule platforms_stay_in_bounds)
  have "plat_step (plat_start :: unit plat_client) (plat_start\<lparr>pc_nodes := pc_nodes plat_start @ [\<lparr>pn_state = INIT, pn_body = PF_rssi []\<rparr>]\<rparr>)"
    by (rule PS_register)
  then show "plat_reachable (plat_start\<lparr>pc_nodes := [\<lparr>pn_state = INIT, pn_body = PF_rssi []\<rparr>]\<rparr> :: unit plat_client)"
    by (auto simp: plat_reachable_def plat_start_def)
qed

section \<open>One node among the others\<close>

text \<open>In a fan-out every node runs its own hook, in some state of the client.\<close>

lemma call_platforms_nth:
  "call_platforms e hk ns c = Some (ns', c') \<Longrightarrow> length ns' = length ns
   \<and> (\<forall>i < length ns. \<exists>c1 c2. plat_hook e hk (pn_state (ns ! i)) (pn_body (ns ! i)) c1
      = Some (pn_state (ns' ! i), pn_body (ns' ! i), c2))"
proof (induction ns arbitrary: c ns')
  case (Cons n ns)
  obtain st b c1 ns1 where r: "plat_hook e hk (pn_state n) (pn_body n) c = Some (st, b, c1)"
    "call_platforms e hk ns c1 = Some (ns1, c')" "ns' = \<lparr>pn_state = st, pn_body = b\<rparr> # ns1"
    using Cons.prems by (auto split: Option.bind_splits)
  show ?case using Cons.IH [OF r(2)] r by (auto simp: nth_Cons split: nat.split)
qed simp

definition not_rssi :: "'a platform \<Rightarrow> bool" where
  "not_rssi b = (case b of PF_rssi _ \<Rightarrow> False | _ \<Rightarrow> True)"

lemma rssi_callback_nth:
  "length (rssi_callback ev p) = length (pc_nodes p)"
  "i < length (pc_nodes p) \<Longrightarrow> not_rssi (pn_body (pc_nodes p ! i)) \<Longrightarrow>
     pn_body (rssi_callback ev p ! i) = pn_body (pc_nodes p ! i)"
  by (auto simp: rssi_callback_def not_rssi_def nth_list_update split: option.split platform.split)

lemma rssi_callback_other: "ev_kind ev \<noteq> E_RSSI \<Longrightarrow> rssi_callback ev p = pc_nodes p"
  by (simp add: rssi_callback_def split: option.split)

lemma plat_dispatch_nth:
  assumes "plat_dispatch now ev p = Some p'" "i < length (pc_nodes p)" "not_rssi (pn_body (pc_nodes p ! i))"
  shows "length (pc_nodes p') = length (pc_nodes p)"
    and "\<exists>st c1 c2. plat_hook (pc_enabled p) (hook_of ev) st (pn_body (pc_nodes p ! i)) c1
      = Some (pn_state (pc_nodes p' ! i), pn_body (pc_nodes p' ! i), c2)"
    and "pc_enabled p' = pc_enabled p"
proof -
  let ?c = "client_dispatch now ev (pc_base p)"
  let ?ns = "map (\<lambda>n. n\<lparr>pn_state := cl_state ?c\<rparr>) (rssi_callback ev p)"
  obtain ns' c' where r: "call_platforms (pc_enabled p) (hook_of ev) ?ns ?c = Some (ns', c')"
    "p' = p\<lparr>pc_base := c', pc_nodes := ns'\<rparr>"
    using assms(1) by (auto simp: plat_dispatch_def Let_def split: Option.bind_splits)
  show "length (pc_nodes p') = length (pc_nodes p)" "pc_enabled p' = pc_enabled p"
    using call_platforms_nth [OF r(1)] r(2) by (simp_all add: rssi_callback_nth)
  have i: "i < length ?ns" using assms(2) by (simp add: rssi_callback_nth)
  show "\<exists>st c1 c2. plat_hook (pc_enabled p) (hook_of ev) st (pn_body (pc_nodes p ! i)) c1
      = Some (pn_state (pc_nodes p' ! i), pn_body (pc_nodes p' ! i), c2)"
    using call_platforms_nth [OF r(1)] assms(2,3) r(2) i rssi_callback_nth(2) [OF assms(2,3), of ev]
    by (fastforce simp: rssi_callback_nth(1))
qed

section \<open>The write action\<close>

text \<open>What a completion does to a write action.\<close>

definition write_react :: "EventKind \<times> u16 \<Rightarrow> 'a write_action \<Rightarrow> 'a write_action" where
  "write_react = (\<lambda>(k, h) a. if k = E_WRITE_COMPLETE then write_on_characteristic_write h a else a)"

lemma write_hook:
  "plat_hook e (hook_of ev) st (PF_write a) c = Some (st, PF_write (write_react (ev_kind ev, ev_handle ev) a), c)"
  by (simp add: plat_hook_def hook_of_def write_react_def split: EventKind.split)

lemma write_dispatch_all:
  "plat_dispatch_all now evs p = Some p' \<Longrightarrow> i < length (pc_nodes p) \<Longrightarrow> pn_body (pc_nodes p ! i) = PF_write a \<Longrightarrow>
   i < length (pc_nodes p') \<and> pn_body (pc_nodes p' ! i) = PF_write (fold write_react (completions evs) a)"
proof (induction evs arbitrary: p a)
  case (Cons ev evs)
  obtain p1 where p1: "plat_dispatch now ev p = Some p1" "plat_dispatch_all now evs p1 = Some p'"
    using Cons.prems(1) by (auto split: Option.bind_splits)
  have nr: "not_rssi (pn_body (pc_nodes p ! i))" by (simp add: Cons.prems(3) not_rssi_def)
  note d = plat_dispatch_nth [OF p1(1) Cons.prems(2) nr]
  have b: "pn_body (pc_nodes p1 ! i) = PF_write (write_react (ev_kind ev, ev_handle ev) a)"
    using d(2) by (auto simp: Cons.prems(3) write_hook)
  have "fold write_react (completions (ev # evs)) a
      = fold write_react (completions evs) (write_react (ev_kind ev, ev_handle ev) a)"
    by (simp add: completions_def is_completion_def write_react_def)
  then show ?case using Cons.IH [OF p1(2) _ b] d(1) Cons.prems(2) by simp
qed (simp add: completions_def)

lemma write_react_others:
  "(E_WRITE_COMPLETE, wr_handle a) \<notin> set cs \<Longrightarrow> fold write_react cs a = a"
proof (induction cs)
  case (Cons k cs)
  then have "write_react k a = a" by (cases k) (auto simp: write_react_def write_on_characteristic_write_def)
  with Cons show ?case by simp
qed simp

lemma plat_drain_nodes:
  assumes "cl_host (pc_base p) = Some h" "hevs_wf h" "i < length (pc_nodes p)" "pn_body (pc_nodes p ! i) = PF_write a"
  shows "\<exists>p'. plat_drain now p = Some p'
      \<and> pn_body (pc_nodes p' ! i) = PF_write (fold write_react (completions (events h)) a)"
proof -
  let ?q = "p\<lparr>pc_base := (pc_base p)\<lparr>cl_host := Some (snd (drain_events h))\<rparr>\<rparr>"
  have "list_all ev_wf (fst (drain_events h))" using assms(2) by (simp add: drain_events_def)
  from plat_dispatch_all_total [OF this, of now ?q] obtain p' where
    p': "plat_dispatch_all now (fst (drain_events h)) ?q = Some p'" by blast
  show ?thesis
    using write_dispatch_all [OF p', of i a] assms p' by (simp add: plat_drain_def drain_events_def)
qed

text \<open>One pass of the worker over the queue of the client's host.\<close>

definition worker_pass :: "bluez \<Rightarrow> 'a plat_client \<Rightarrow> 'a plat_client" where
  "worker_pass bz p = p\<lparr>pc_base := with_host (host_process_commands bz) (pc_base p)\<rparr>"

lemma pass_completions:
  "\<exists>es. events (host_process_commands bz (enqueue_command cmd h)) = events h @ es
     \<and> completions es = concat (map answer_to (commands h)) @ answer_to cmd"
proof -
  have "answers (concat (map answer_to (commands (enqueue_command cmd h))))
      ((enqueue_command cmd h)\<lparr>commands := []\<rparr>) (host_process_commands bz (enqueue_command cmd h))"
    unfolding host_process_commands_def by (rule answers_commands)
  then show ?thesis by (auto simp: posts_def enqueue_command_def)
qed

text \<open>C31. A write action played on an established client whose characteristic is found completes: after the next
  pass of the worker and the next drain of the client's events the chain has been continued exactly once, with
  the arguments of the play, whether BlueZ performed the write or refused it, provided no
  completion of an earlier write to the same handle is outstanding.\<close>

theorem write_action_completes:
  assumes c: "cl_state (pc_base p) = ESTABLISHED" "cl_host (pc_base p) = Some h" "hevs_wf h"
    and node: "i < length (pc_nodes p)" "pn_body (pc_nodes p ! i) = PF_write a"
    and ch: "get_characteristic (wr_service_uuid a) (wr_char_uuid a) (pc_base p) = Some ch"
    and quiet: "(E_WRITE_COMPLETE, chr_handle ch) \<notin> set (completions (events h) @ concat (map answer_to (commands h)))"
    and play: "write_play x a (pc_base p) = (a', c')"
  shows "\<exists>p' b. plat_drain now (worker_pass bz (set_body i (PF_write a') (p\<lparr>pc_base := c'\<rparr>))) = Some p'
      \<and> pn_body (pc_nodes p' ! i) = PF_write b \<and> ac_played b = ac_played a @ [x] \<and> wr_handle b = 0"
proof -
  define v where "v = (case wr_template a of Some f \<Rightarrow> f x | None \<Rightarrow> wr_value_simple a)"
  define r where "r = (chr_properties ch AND ESP_GATT_CHAR_PROP_BIT_WRITE \<noteq> 0)"
  let ?cmd = "C_WRITE_CHAR (chr_handle ch) v r"
  have a': "a' = (play_begin x a)\<lparr>wr_handle := chr_handle ch\<rparr>"
    and c': "c' = with_host (enqueue_command ?cmd) (pc_base p)"
    using play c by (auto simp: write_play_def Let_def play_begin_def ch v_def r_def write_characteristic_def
      client_request_def split: option.splits)
  let ?h = "host_process_commands bz (enqueue_command ?cmd h)"
  let ?q = "worker_pass bz (set_body i (PF_write a') (p\<lparr>pc_base := c'\<rparr>))"
  have q: "cl_host (pc_base ?q) = Some ?h" "i < length (pc_nodes ?q)" "pn_body (pc_nodes ?q ! i) = PF_write a'"
    using c node by (simp_all add: worker_pass_def with_host_def c' set_body_def)
  have wf: "hevs_wf ?h" using c(3) by (intro hevs_commands) (simp add: enqueue_command_def)
  obtain es where es: "events ?h = events h @ es"
    "completions es = concat (map answer_to (commands h)) @ [(E_WRITE_COMPLETE, chr_handle ch)]"
    using pass_completions [of bz ?cmd h] by (auto simp: answer_to_def)
  have "fold write_react (completions (events ?h)) a' = write_react (E_WRITE_COMPLETE, chr_handle ch) a'"
    using write_react_others [of a' "completions (events h) @ concat (map answer_to (commands h))"] quiet
    by (simp add: es completions_append a')
  also have "\<dots> = play_next x (a'\<lparr>wr_handle := 0\<rparr>)"
    by (simp add: write_react_def write_on_characteristic_write_def a' play_begin_def)
  finally have f: "fold write_react (completions (events ?h)) a' = play_next x (a'\<lparr>wr_handle := 0\<rparr>)" .
  obtain p' where p': "plat_drain now ?q = Some p'"
    "pn_body (pc_nodes p' ! i) = PF_write (play_next x (a'\<lparr>wr_handle := 0\<rparr>))"
    using plat_drain_nodes [OF q(1) wf q(2,3), of now] unfolding f by blast
  show ?thesis
    by (rule exI [of _ p'], rule exI [of _ "play_next x (a'\<lparr>wr_handle := 0\<rparr>)"])
      (simp add: p', simp add: play_next_def play_begin_def a')
qed

definition demo_chr :: BLECharacteristic where
  "demo_chr = \<lparr>chr_uuid = from_uint16 0x2A00, chr_handle = 3, chr_properties = 0x08, chr_descriptors = []\<rparr>"

definition demo_peer :: ble_client where
  "demo_peer = new_client\<lparr>cl_state := ESTABLISHED, cl_host := Some demo_host,
     cl_services := [\<lparr>svc_uuid = from_uint16 0x1800, start_handle = 1, end_handle = 3, svc_characteristics = [demo_chr]\<rparr>]\<rparr>"

definition demo_write :: "nat write_action" where
  "demo_write = \<lparr>ac_running = 0, ac_var = 0, ac_played = [], wr_service_uuid = from_uint16 0x1800,
     wr_char_uuid = from_uint16 0x2A00, wr_value_simple = [7], wr_template = None, wr_handle = 0\<rparr>"

definition demo_sensor :: ble_sensor where
  "demo_sensor = \<lparr>bs_handle = 3, bs_handle_is_descriptor = False, bs_has_lambda = False, bs_notify = False,
     bs_service_uuid = from_uint16 0x1800, bs_char_uuid = from_uint16 0x2A00, bs_descr_uuid = uuid_default,
     bs_warning = True, bs_published = []\<rparr>"

definition demo_plat :: "nat plat_client" where
  "demo_plat = \<lparr>pc_base = demo_peer, pc_enabled = True,
     pc_nodes = [\<lparr>pn_state = ESTABLISHED, pn_body = PF_write demo_write\<rparr>,
       \<lparr>pn_state = ESTABLISHED, pn_body = PF_sensor demo_sensor\<rparr>, \<lparr>pn_state = ESTABLISHED, pn_body = PF_rssi []\<rparr>],
     pc_rssi_owner = None\<rparr>"

lemma demo_peer_simps:
  "cl_state demo_peer = ESTABLISHED" "cl_host demo_peer = Some demo_host" "events demo_host = []" "commands demo_host = []"
  by (simp_all add: demo_peer_def demo_defs new_host_def)

lemma demo_found: "get_characteristic (wr_service_uuid demo_write) (wr_char_uuid demo_write) demo_peer = Some demo_chr"
  by (simp add: get_characteristic_def get_service_def demo_peer_def demo_write_def demo_chr_def uuid_eq_def)

theorem write_action_completes_witness:
  "\<exists>p' b. plat_drain 9 (worker_pass demo_bluez (set_body 0 (PF_write (fst (write_play 5 demo_write demo_peer)))
        (demo_plat\<lparr>pc_base := snd (write_play 5 demo_write demo_peer)\<rparr>))) = Some p'
      \<and> pn_body (pc_nodes p' ! 0) = PF_write b \<and> ac_played b = [5] \<and> wr_handle b = 0"
proof -
  have played: "ac_played demo_write = []" by (simp add: demo_write_def)
  have f: "fst (p::nat write_action \<times> ble_client) = a \<Longrightarrow> p = (a, snd p)" for p a by auto
  show ?thesis
    using write_action_completes [of demo_plat demo_host 0 demo_write demo_chr 5
        "fst (write_play 5 demo_write demo_peer)" "snd (write_play 5 demo_write demo_peer)" 9 demo_bluez]
    by (simp add: demo_plat_def demo_peer_simps demo_found completions_def played)
qed

text \<open>Two plays on the same characteristic that overlap: the first completion continues the chain with the
  arguments of the second play, the second completion is not recognised.\<close>

lemma overlapping_writes:
  assumes "get_characteristic (wr_service_uuid a) (wr_char_uuid a) c = Some ch" "chr_handle ch \<noteq> 0"
    "write_play x a c = (a1, c1)" "write_play y a1 c1 = (a2, c2)"
    "get_characteristic (wr_service_uuid a) (wr_char_uuid a) c1 = Some ch"
  shows "fold write_react [(E_WRITE_COMPLETE, chr_handle ch), (E_WRITE_COMPLETE, chr_handle ch)] a2
      = a\<lparr>ac_running := ac_running a + 2, ac_var := y, ac_played := ac_played a @ [y], wr_handle := 0\<rparr>"
proof -
  have a1: "a1 = (play_begin x a)\<lparr>wr_handle := chr_handle ch\<rparr>"
    using assms by (auto simp: write_play_def Let_def play_begin_def)
  have a2: "a2 = (play_begin y a1)\<lparr>wr_handle := chr_handle ch\<rparr>"
    using assms by (auto simp: write_play_def Let_def play_begin_def a1)
  show ?thesis using assms(2)
    by (simp add: write_react_def write_on_characteristic_write_def play_next_def play_begin_def a1 a2)
qed

section \<open>The sensors\<close>

text \<open>The bytes BlueZ answers a read with, none when it refuses.\<close>

definition read_bytes :: "bluez \<Rightarrow> gatt_host \<Rightarrow> bool \<Rightarrow> u16 \<Rightarrow> bytes" where
  "read_bytes bz h is_desc n = (case if is_desc then None else map_of (synthetic_reads h) n of
       Some bs \<Rightarrow> bs
     | None \<Rightarrow> (case map_of (handle_map h) n of
          None \<Rightarrow> []
        | Some e \<Rightarrow> (case bz_read_value bz (obj_path e) of Some (Some bs) \<Rightarrow> bs | _ \<Rightarrow> [])))"

definition sensor_reading :: "ble_sensor \<Rightarrow> bytes \<Rightarrow> sensor_value" where
  "sensor_reading s bs = (if bs_has_lambda s then SV_lambda bs else case bs of [] \<Rightarrow> SV_nan | b # _ \<Rightarrow> SV_byte b)"

lemma read_event:
  assumes "events h = []" "length (read_bytes bz h d n) < 65536"
  shows "\<exists>ev. events (do_read bz n d h) = [ev] \<and> ev_kind ev = (if d then E_DESC_READ else E_READ_COMPLETE)
      \<and> ev_handle ev = n \<and> ev_data ev = read_bytes bz h d n \<and> unat (ev_len ev) = length (read_bytes bz h d n)"
  using assms
  by (cases d) (auto simp: do_read_def read_bytes_def Let_def host_frame gatt_event_def read_ay_def unat_of_nat
    split: option.splits)

lemma sensor_parse_whole:
  assumes "unat n = length v"
  shows "sensor_parse_data s v n = Some (sensor_reading s v)"
proof -
  have "n > 0 \<longleftrightarrow> v \<noteq> []" using assms by (cases v) (auto simp: unat_eq_zero word_gt_0)
  then show ?thesis using assms by (auto simp: sensor_parse_data_def sensor_reading_def rd_n_def rd_def nth_Cons split: list.split)
qed



text \<open>Two published states for one RSSI reading: the callback of the request and the hook of the node.\<close>

lemma rssi_published_twice:
  assumes "pc_rssi_owner p = Some i" "i < length (pc_nodes p)" "pn_body (pc_nodes p ! i) = PF_rssi vs"
    "cl_rssi_cb (pc_base p)" "ev_kind ev = E_RSSI" "plat_dispatch now ev p = Some p'"
  shows "pn_body (pc_nodes p' ! i) = PF_rssi (vs @ [SV_rssi (ev_rssi ev), SV_rssi (ev_rssi ev)])"
proof -
  let ?c = "client_dispatch now ev (pc_base p)"
  let ?ns = "map (\<lambda>n. n\<lparr>pn_state := cl_state ?c\<rparr>) (rssi_callback ev p)"
  obtain ns' c' where r: "call_platforms (pc_enabled p) (hook_of ev) ?ns ?c = Some (ns', c')"
    "p' = p\<lparr>pc_base := c', pc_nodes := ns'\<rparr>"
    using assms(6) by (auto simp: plat_dispatch_def Let_def split: Option.bind_splits)
  have "pn_body (?ns ! i) = PF_rssi (vs @ [SV_rssi (ev_rssi ev)])"
    using assms by (simp add: rssi_callback_def)
  moreover have "i < length ?ns" using assms by (simp add: rssi_callback_nth)
  ultimately show ?thesis
    using call_platforms_nth [OF r(1)] r(2) assms(5) by (fastforce simp: plat_hook_def hook_of_def)
qed

text \<open>The connect action on a client that is established already: the worker only posts CONNECTED, because the
  services were discovered before, so the client stays CONNECTED and refuses requests, and the action's chain
  is never continued.\<close>

lemma connect_action_unestablishes:
  assumes "cl_state (pc_base p) = ESTABLISHED" "cl_host (pc_base p) = Some h" "commands h = []" "events h = []"
    "h_bus_open h" "discovered h" "bz_connected bz = Some True" "\<not> want_disconnect (pc_base p)"
    "pc_nodes p = [\<lparr>pn_state = ESTABLISHED, pn_body = PF_connect a\<rparr>]" "connect_play now x a p = (a', p1)"
  shows "\<exists>p'. plat_loop now (worker_pass bz (set_body 0 (PF_connect a') p1)) = Some p'
    \<and> cl_state (pc_base p') = CONNECTED \<and> pn_body (pc_nodes p' ! 0) = PF_connect (play_begin x a)
    \<and> client_request cmd (pc_base p') = (ESP_GATT_NOT_CONNECTED, pc_base p')"
proof -
  have p1: "a' = play_begin x a" "pc_base p1 = client_connect now (pc_base p)" "pc_nodes p1 = pc_nodes p"
    using assms(10) by (auto simp: connect_play_def Let_def plat_set_enabled_def set_enabled_def)
  have w: "worker_on_connected_changed bz True h' = post_event (gatt_event E_CONNECTED) h'" if "discovered h'" for h'
    using that by (simp add: worker_on_connected_changed_def Let_def try_start_discovery_def host_frame)
  have h: "host_process_commands bz (enqueue_command C_CONNECT h) = h\<lparr>events := [gatt_event E_CONNECTED]\<rparr>"
    using assms(3-7) by (cases h) (simp add: host_process_commands_def enqueue_command_def do_command_def do_connect_def
      host_open_bus_def w post_event_def)
  show ?thesis
    using assms(1,2,8,9)
    by (simp add: plat_loop_def plat_drain_def worker_pass_def p1 client_connect_def client_set_state_def
      set_state_internal_def with_host_def h drain_events_def Let_def set_body_def plat_dispatch_def
      client_dispatch_def rssi_callback_other hook_of_def plat_hook_def plat_timeouts_def client_request_def
      gatt_event_def)
qed

section \<open>Published text and write types\<close>

lemma hex_lc_inject: "m < 16 \<Longrightarrow> n < 16 \<Longrightarrow> hex_lc m = hex_lc n \<Longrightarrow> m = n"
proof -
  assume mn: "m < 16" "n < 16" and e: "hex_lc m = hex_lc n"
  have "(of_char (hex_lc m) :: nat) = of_char (hex_lc n)" by (simp only: e)
  then show "m = n" using mn by (simp add: of_char_hex split: if_splits)
qed

lemma fmt_02x_inject: "fmt_02x a = fmt_02x b \<longleftrightarrow> a = b"
proof
  assume e: "fmt_02x a = fmt_02x b"
  have lt: "unat a div 16 < 16" "unat b div 16 < 16" using unat_u8_less [of a] unat_u8_less [of b] by auto
  have "unat a div 16 = unat b div 16" "unat a mod 16 = unat b mod 16"
    using e by (auto simp only: fmt_02x_def list.inject intro!: hex_lc_inject lt)
  then have "unat a = unat b" by (metis div_mult_mod_eq)
  then show "a = b" by (rule unsigned_word_eqI)
qed simp

lemma concat_02x_inject: "concat (map fmt_02x xs) = concat (map fmt_02x ys) \<Longrightarrow> xs = ys"
proof (induction xs arbitrary: ys)
  case Nil then show ?case by (cases ys) (auto simp: fmt_02x_def)
next
  case (Cons x xs)
  then show ?case by (cases ys) (auto simp: fmt_02x_inject [symmetric] fmt_02x_def)
qed

text \<open>The text a text sensor publishes determines the bytes of the value.\<close>

lemma text_value_injective:
  assumes "text_parse_data v n = Some t" "text_parse_data w m = Some t"
  shows "take (unat n) v = take (unat m) w"
  using assms concat_02x_inject by (auto simp: text_parse_data_def rd_n_def split: if_splits Option.bind_splits)

text \<open>The output writes with a write type that the characteristic advertises, if it advertises one, and with
  response when that is required and possible.\<close>

lemma output_write_supported:
  assumes "props AND ESP_GATT_CHAR_PROP_BIT_WRITE \<noteq> 0 \<or> props AND ESP_GATT_CHAR_PROP_BIT_WRITE_NR \<noteq> 0"
  shows "props AND (if output_write_type require props then ESP_GATT_CHAR_PROP_BIT_WRITE
      else ESP_GATT_CHAR_PROP_BIT_WRITE_NR) \<noteq> 0"
    and "require \<Longrightarrow> props AND ESP_GATT_CHAR_PROP_BIT_WRITE \<noteq> 0 \<Longrightarrow> output_write_type require props"
  using assms by (auto simp: output_write_type_def)

end
