(* ===== verification/Ble_Tracker.thy ===== *)
theory Ble_Tracker
  imports Ble_Client
begin

text \<open>
  \<open>components/esp32_ble_tracker/esp32_ble_tracker.{h,cpp}\<close>, class \<open>ESP32BLETracker\<close>: the bounded queue
  between the scanner thread and the main loop, the delivery to listeners and the promotion of
  discovered clients, the raw-HCI scanner (commands written and event packets decoded) and the two
  D-Bus signal handlers. A buffer read outside its bounds is \<open>None\<close>.
\<close>

section \<open>Queue, listeners and promotion\<close>

definition QUEUE_MAX :: nat where "QUEUE_MAX = 128"

text \<open>A listener is a registered client, by its position in \<open>clients_\<close>, or some other listener, whose
  \<open>parse_device\<close> is recorded.\<close>

datatype tracker_listener = L_client nat | L_other nat

record tracker =
  tr_queue :: "ESPBTDevice list"
  tr_listeners :: "tracker_listener list"
  tr_clients :: "ble_client list"
  state_version :: u8
  last_state_version :: u8
  app_id_counter :: u8
  tr_log :: "(nat \<times> ESPBTDevice) list"

definition new_tracker :: tracker where
  "new_tracker = \<lparr>tr_queue = [], tr_listeners = [], tr_clients = [], state_version = 0, last_state_version = 0,
     app_id_counter = 0, tr_log = []\<rparr>"

definition register_listener :: "nat \<Rightarrow> tracker \<Rightarrow> tracker" where
  "register_listener k t = t\<lparr>tr_listeners := tr_listeners t @ [L_other k]\<rparr>"

definition register_client :: "ble_client \<Rightarrow> tracker \<Rightarrow> tracker" where
  "register_client c t =
     t\<lparr>tr_clients := tr_clients t @ [c\<lparr>cl_app_id := app_id_counter t, cl_version := Some (state_version t)\<rparr>],
       app_id_counter := app_id_counter t + 1,
       tr_listeners := tr_listeners t @ [L_client (length (tr_clients t))]\<rparr>"

definition deliver_device :: "ESPBTDevice \<Rightarrow> tracker \<Rightarrow> tracker" where
  "deliver_device d t =
     t\<lparr>tr_queue := (if QUEUE_MAX \<le> length (tr_queue t) then tl (tr_queue t) else tr_queue t) @ [d]\<rparr>"

text \<open>A call of a client's method: the client sees the shared counter, and may count it up.\<close>

definition on_client :: "(ble_client \<Rightarrow> ble_client) \<Rightarrow> nat \<Rightarrow> tracker \<Rightarrow> tracker" where
  "on_client f i t =
     (let c = f ((tr_clients t ! i)\<lparr>cl_version := Some (state_version t)\<rparr>)
      in t\<lparr>tr_clients := (tr_clients t)[i := c], state_version := the (cl_version c)\<rparr>)"

definition notify_listener :: "ESPBTDevice \<Rightarrow> tracker_listener \<Rightarrow> tracker \<Rightarrow> tracker" where
  "notify_listener d l t =
     (case l of
        L_client i \<Rightarrow> on_client (\<lambda>c. snd (client_parse_device d c)) i t
      | L_other k \<Rightarrow> t\<lparr>tr_log := tr_log t @ [(k, d)]\<rparr>)"

definition notify_listeners :: "ESPBTDevice \<Rightarrow> tracker \<Rightarrow> tracker" where
  "notify_listeners d t = fold (notify_listener d) (tr_listeners t) t"

definition promote_client :: "u32 \<Rightarrow> nat \<Rightarrow> tracker \<Rightarrow> tracker" where
  "promote_client now i t =
     (if cl_state (tr_clients t ! i) = DISCOVERED then on_client (client_connect now) i t else t)"

definition try_promote_discovered_clients :: "u32 \<Rightarrow> tracker \<Rightarrow> tracker" where
  "try_promote_discovered_clients now t = fold (promote_client now) [0..<length (tr_clients t)] t"

definition tracker_loop :: "u32 \<Rightarrow> tracker \<Rightarrow> tracker" where
  "tracker_loop now t =
     (let t1 = fold notify_listeners (tr_queue t) (t\<lparr>tr_queue := []\<rparr>) in
      if tr_clients t1 \<noteq> [] \<and> state_version t1 \<noteq> last_state_version t1
      then try_promote_discovered_clients now (t1\<lparr>last_state_version := state_version t1\<rparr>)
      else t1)"

section \<open>Raw HCI: commands\<close>

definition hci_opcode :: "u16 \<Rightarrow> u16 \<Rightarrow> u16" where
  "hci_opcode ogf ocf = push_bit 10 ogf OR (ocf AND 0x03ff)"

record hci_filter =
  type_mask :: u32
  event_mask0 :: u32
  event_mask1 :: u32
  flt_opcode :: u16

definition hci_filter_set_ptype :: "nat \<Rightarrow> hci_filter \<Rightarrow> hci_filter" where
  "hci_filter_set_ptype t f = f\<lparr>type_mask := type_mask f OR push_bit (t mod 32) 1\<rparr>"

definition hci_filter_set_event :: "nat \<Rightarrow> hci_filter \<Rightarrow> hci_filter" where
  "hci_filter_set_event e f =
     (if e < 32 then f\<lparr>event_mask0 := event_mask0 f OR push_bit e 1\<rparr>
      else f\<lparr>event_mask1 := event_mask1 f OR push_bit (e - 32) 1\<rparr>)"

text \<open>\<open>open_hci_\<close>: the device number from the adapter name (\<open>dev_id\<close>), the filter and the bound address;
  \<open>None\<close> when the name or one of the three system calls fails. \<open>digits\<close> is the part of \<open>std::atoi\<close>
  after the optional white space and sign.\<close>

definition digits_val :: "string \<Rightarrow> int" where
  "digits_val s = foldl (\<lambda>v c. 10 * v + (int (of_char c) - 48)) 0
     (takeWhile (\<lambda>c. 48 \<le> (of_char c :: nat) \<and> (of_char c :: nat) \<le> 57) s)"

definition atoi :: "string \<Rightarrow> int" where
  "atoi s =
     (case dropWhile is_space s of
        [] \<Rightarrow> 0
      | c # r \<Rightarrow> if c = CHR ''-'' then - digits_val r else if c = CHR ''+'' then digits_val r else digits_val (c # r))"

definition hci_dev_id :: "string \<Rightarrow> int" where
  "hci_dev_id name = (if 3 < length name \<and> take 3 name = ''hci'' then atoi (drop 3 name) else - 1)"

text \<open>Packet types, event and command codes.\<close>

definition HCI_COMMAND_PKT :: u8 where "HCI_COMMAND_PKT = 0x01"
definition HCI_EVENT_PKT :: u8 where "HCI_EVENT_PKT = 0x04"
definition EVT_LE_META_EVENT :: u8 where "EVT_LE_META_EVENT = 0x3e"
definition EVT_CMD_COMPLETE :: u8 where "EVT_CMD_COMPLETE = 0x0e"
definition EVT_CMD_STATUS :: u8 where "EVT_CMD_STATUS = 0x0f"
definition SUBEVT_LE_ADVERTISING_REPORT :: u8 where "SUBEVT_LE_ADVERTISING_REPORT = 0x02"
definition OCF_LE_SET_SCAN_PARAMETERS :: u16 where "OCF_LE_SET_SCAN_PARAMETERS = 0x000b"
definition OCF_LE_SET_SCAN_ENABLE :: u16 where "OCF_LE_SET_SCAN_ENABLE = 0x000c"
definition OGF_LE_CTL :: u16 where "OGF_LE_CTL = 0x08"

lemmas hci_codes = HCI_COMMAND_PKT_def HCI_EVENT_PKT_def EVT_LE_META_EVENT_def EVT_CMD_COMPLETE_def
  EVT_CMD_STATUS_def SUBEVT_LE_ADVERTISING_REPORT_def OCF_LE_SET_SCAN_PARAMETERS_def
  OCF_LE_SET_SCAN_ENABLE_def OGF_LE_CTL_def

definition scan_filter :: hci_filter where
  "scan_filter = hci_filter_set_event (unat EVT_CMD_STATUS) (hci_filter_set_event (unat EVT_CMD_COMPLETE)
     (hci_filter_set_event (unat EVT_LE_META_EVENT) (hci_filter_set_ptype (unat HCI_EVENT_PKT) \<lparr>type_mask = 0, event_mask0 = 0, event_mask1 = 0, flt_opcode = 0\<rparr>)))"

definition open_hci :: "string \<Rightarrow> bool \<Rightarrow> (hci_filter \<Rightarrow> bool) \<Rightarrow> (u16 \<Rightarrow> bool) \<Rightarrow> int option" where
  "open_hci name socket_ok filter_ok bind_ok =
     (let dev_id = hci_dev_id name in
      if dev_id < 0 then None
      else if \<not> socket_ok then None
      else if \<not> filter_ok scan_filter then None
      else if \<not> bind_ok (word_of_int dev_id) then None
      else Some dev_id)"

definition put16 :: "u16 \<Rightarrow> bytes" where
  "put16 v = [ucast v, ucast (drop_bit 8 v)]"

definition scan_params_cmd :: "bool \<Rightarrow> u32 \<Rightarrow> u32 \<Rightarrow> bytes" where
  "scan_params_cmd active interval_ms window_ms =
     [HCI_COMMAND_PKT] @ put16 (hci_opcode OGF_LE_CTL OCF_LE_SET_SCAN_PARAMETERS) @ [7] @ [if active then 0x01 else 0x00]
     @ put16 (ucast (interval_ms * 1000 div 625)) @ put16 (ucast (window_ms * 1000 div 625)) @ [0x00, 0x00]"

definition scan_enable_cmd :: "bool \<Rightarrow> bytes" where
  "scan_enable_cmd enable =
     [HCI_COMMAND_PKT] @ put16 (hci_opcode OGF_LE_CTL OCF_LE_SET_SCAN_ENABLE) @ [2] @ [if enable then 0x01 else 0x00, 0x00]"

text \<open>The start of \<open>scanner_thread_main_\<close> after \<open>open_hci_\<close>: \<open>w i\<close> is whether write number \<open>i\<close> succeeds;
  the result is whether scanning is on, with the commands written.\<close>

definition scanner_start :: "(nat \<Rightarrow> bool) \<Rightarrow> bool \<Rightarrow> u32 \<Rightarrow> u32 \<Rightarrow> bool \<times> bytes list" where
  "scanner_start w active interval_ms window_ms =
     (let off = scan_enable_cmd False;
          params = scan_params_cmd active interval_ms window_ms;
          on = scan_enable_cmd True
      in if \<not> w 1 then (False, [off, params])
         else if \<not> w 2 then (False, [off, params, on])
         else (True, [off, params, on]))"

section \<open>Raw HCI: event packets\<close>

text \<open>The report loop: \<open>left\<close> counts \<open>num_reports - i\<close>. The result is the list of delivered devices.\<close>

fun report_loop :: "bytes \<Rightarrow> nat \<Rightarrow> nat \<Rightarrow> nat \<Rightarrow> ESPBTDevice list \<Rightarrow> ESPBTDevice list option" where
  "report_loop evt n 0 pos out = Some out"
| "report_loop evt n (Suc left) pos out =
     (if pos + 9 > n then Some out
      else do {
        _ \<leftarrow> rd evt pos;
        _ \<leftarrow> rd evt (pos + 1);
        data_len \<leftarrow> rd evt (pos + 8);
        if pos + 9 + unat data_len + 1 > n then Some out
        else do {
          r \<leftarrow> rd evt (pos + 9 + unat data_len);
          addr \<leftarrow> rd_n evt (pos + 2) 6;
          d \<leftarrow> parse_ad_payload (drop (pos + 9) evt) data_len
                 (device_default\<lparr>dev_address := addr, dev_rssi := int8_of r\<rparr>);
          report_loop evt n left (pos + (9 + unat data_len + 1)) (out @ [d])
        }
      })"

definition handle_le_meta_event :: "bytes \<Rightarrow> nat \<Rightarrow> ESPBTDevice list option" where
  "handle_le_meta_event evt n =
     (if n < 1 then Some []
      else do {
        sub \<leftarrow> rd evt 0;
        if sub \<noteq> SUBEVT_LE_ADVERTISING_REPORT then Some []
        else if n < 2 then Some []
        else do {
          num_reports \<leftarrow> rd evt 1;
          report_loop evt n (unat num_reports) 2 []
        }
      })"

text \<open>One packet of \<open>n\<close> bytes read into \<open>buf\<close>.\<close>

definition hci_packet :: "bytes \<Rightarrow> nat \<Rightarrow> ESPBTDevice list option" where
  "hci_packet buf n =
     (if n < 3 then Some []
      else do {
        p \<leftarrow> rd buf 0;
        if p \<noteq> HCI_EVENT_PKT then Some []
        else do {
          evt_code \<leftarrow> rd buf 1;
          plen \<leftarrow> rd buf 2;
          if n < 3 + unat plen then Some []
          else if evt_code = EVT_LE_META_EVENT then handle_le_meta_event (drop 3 buf) (unat plen)
          else Some []
        }
      })"

section \<open>D-Bus signals\<close>

text \<open>The interfaces dictionary of InterfacesAdded: an entry of another interface is skipped.\<close>

definition on_interfaces_added :: "(string \<times> device1_prop list) list \<Rightarrow> tracker \<Rightarrow> tracker" where
  "on_interfaces_added ifaces t =
     fold (\<lambda>(iface, props) t1.
             if iface = ''org.bluez.Device1'' then
               (let (d, have) = parse_device1_props props device_default in
                if have then deliver_device d t1 else t1)
             else t1) ifaces t"

text \<open>\<open>std::strstr\<close>: the rest of the string from the first occurrence on.\<close>

fun strstr_at :: "string \<Rightarrow> string \<Rightarrow> string option" where
  "strstr_at [] needle = (if needle = [] then Some [] else None)"
| "strstr_at (c # cs) needle =
     (if take (length needle) (c # cs) = needle then Some (c # cs) else strstr_at cs needle)"

text \<open>The twelve characters are read from the NUL-terminated path; a path that ends before is a read
  outside the string. A \<open>%c\<close> of NUL ends the formatted string.\<close>

definition path_mac :: "string \<Rightarrow> bytes option option" where
  "path_mac path =
     (case strstr_at path ''/dev_'' of
        None \<Rightarrow> Some None
      | Some dev \<Rightarrow> do {
          let s = dev @ [CHR 0x00];
          a \<leftarrow> rd s 5; b \<leftarrow> rd s 6; c \<leftarrow> rd s 8; d \<leftarrow> rd s 9; e \<leftarrow> rd s 11; f \<leftarrow> rd s 12;
          g \<leftarrow> rd s 14; h \<leftarrow> rd s 15; i \<leftarrow> rd s 17; j \<leftarrow> rd s 18; k \<leftarrow> rd s 20; l \<leftarrow> rd s 21;
          Some (parse_bdaddr ([a, b] @ '':'' @ [c, d] @ '':'' @ [e, f] @ '':'' @ [g, h] @ '':'' @ [i, j] @ '':'' @ [k, l]))
        })"

definition tracker_on_properties_changed ::
    "string \<Rightarrow> string \<Rightarrow> device1_prop list \<Rightarrow> tracker \<Rightarrow> tracker option" where
  "tracker_on_properties_changed iface path props t =
     (if iface \<noteq> ''org.bluez.Device1'' then Some t
      else do {
        mac \<leftarrow> path_mac path;
        case mac of
          None \<Rightarrow> Some t
        | Some bd \<Rightarrow> Some (deliver_device (fst (parse_device1_props props (device_default\<lparr>dev_address := bd\<rparr>))) t)
      })"

section \<open>The queue keeps the newest devices\<close>

lemma deliver_queue:
  assumes "tr_queue t = drop (length ds - QUEUE_MAX) ds"
  shows "tr_queue (deliver_device d t) = drop (length (ds @ [d]) - QUEUE_MAX) (ds @ [d])"
proof (cases "length ds < QUEUE_MAX")
  case True then show ?thesis using assms by (simp add: deliver_device_def)
next
  case False
  then have "tl (drop (length ds - QUEUE_MAX) ds) = drop (Suc (length ds) - QUEUE_MAX) ds"
    by (simp add: tl_drop drop_Suc [symmetric] Suc_diff_le)
  then show ?thesis using assms False by (simp add: deliver_device_def QUEUE_MAX_def)
qed

lemma deliver_all:
  assumes "length (tr_queue t) \<le> QUEUE_MAX"
  shows "tr_queue (fold deliver_device ds t)
     = drop (length (tr_queue t @ ds) - QUEUE_MAX) (tr_queue t @ ds)"
proof (induction ds rule: rev_induct)
  case Nil then show ?case using assms by simp
next
  case (snoc d ds)
  from deliver_queue [OF this, of d] show ?case by simp
qed

text \<open>Between two main loops the scanner may deliver any number of devices: the queue then holds exactly
  the newest 128 of them, in order of delivery, after what was queued before.\<close>
theorem queue_keeps_newest:
  assumes "length (tr_queue t) \<le> QUEUE_MAX"
  shows "tr_queue (fold deliver_device ds t)
     = drop (length (tr_queue t @ ds) - QUEUE_MAX) (tr_queue t @ ds)"
  using assms by (rule deliver_all)

lemma queue_keeps_newest_witness:
  "tr_queue (fold deliver_device [device_default] new_tracker) = [device_default]"
  using queue_keeps_newest [of new_tracker "[device_default]"] by (simp add: new_tracker_def QUEUE_MAX_def)

section \<open>The interface of a tracked client\<close>

text \<open>What the tracker uses of an \<open>ESPBTClient\<close>: its state, \<open>connect\<close> and \<open>parse_device\<close>, and the counter it
  shares. \<open>see v\<close> puts the counter's value before a call.\<close>

locale espbt_client =
  fixes st :: "'c \<Rightarrow> ClientState"
    and ver :: "'c \<Rightarrow> u8 option"
    and see :: "u8 \<Rightarrow> 'c \<Rightarrow> 'c"
    and conn :: "'c \<Rightarrow> 'c"
    and parse :: "ESPBTDevice \<Rightarrow> 'c \<Rightarrow> 'c"
  assumes st_see: "st (see v c) = st c"
    and ver_see: "ver (see v c) = Some v"
    and conn_state: "st (conn c) = CONNECTING"
    and parse_state: "st (parse d c) = st c \<or> (st c \<noteq> DISCOVERED \<and> st (parse d c) = DISCOVERED)"
    and parse_ver: "ver c = Some v \<Longrightarrow> ver (parse d c) = Some (if st (parse d c) = st c then v else v + 1)"
begin

abbreviation waiting :: "'c list \<Rightarrow> nat" where
  "waiting cs \<equiv> length (filter (\<lambda>c. st c = DISCOVERED) cs)"

lemma waiting_update:
  "i < length cs \<Longrightarrow> waiting (cs[i := c]) + (if st (cs ! i) = DISCOVERED then 1 else 0)
     = waiting cs + (if st c = DISCOVERED then 1 else 0)"
proof (induction cs arbitrary: i)
  case (Cons x xs) then show ?case by (cases i) auto
qed simp

lemma parse_counts:
  assumes "i < length cs" "c = parse d (see v (cs ! i))"
  shows "\<exists>m. waiting (cs[i := c]) = waiting cs + m \<and> ver c = Some (v + of_nat m)"
proof (cases "st c = st (cs ! i)")
  case True
  then have "waiting (cs[i := c]) = waiting cs" using waiting_update [OF assms(1), of c] by simp
  moreover have "ver c = Some v" using True assms(2) parse_ver [OF ver_see, of d v "cs ! i"] by (simp add: st_see)
  ultimately show ?thesis by (intro exI [of _ 0]) simp
next
  case False
  then have s: "st c = DISCOVERED" "st (cs ! i) \<noteq> DISCOVERED"
    using assms(2) parse_state [of d "see v (cs ! i)"] by (auto simp: st_see)
  then have "waiting (cs[i := c]) = waiting cs + 1" using waiting_update [OF assms(1), of c] by simp
  moreover have "ver c = Some (v + 1)"
    using False assms(2) parse_ver [OF ver_see, of d v "cs ! i"] by (simp add: st_see)
  ultimately show ?thesis by (intro exI [of _ 1]) simp
qed

lemma counter_moved:
  fixes v0 v last :: u8
  assumes "v = v0 + of_nat m" "unat (v0 - last) + m < 256" "m > 0 \<or> v0 \<noteq> last"
  shows "v \<noteq> last"
proof
  assume "v = last"
  then have "v0 - last = - of_nat m" using assms(1) by (simp add: algebra_simps)
  then have e: "(of_nat (unat (v0 - last) + m) :: u8) = 0" by simp
  have "unat (of_nat (unat (v0 - last) + m) :: u8) = unat (v0 - last) + m"
    using assms(2) by (simp only: unat_of_nat) simp
  then have "unat (v0 - last) + m = 0" using e by simp
  then have "v0 - last = 0" "m = 0" by (simp_all add: word_unat_eq_iff)
  then show False using assms(3) by simp
qed

end

interpretation tracked: espbt_client cl_state cl_version "\<lambda>v c. c\<lparr>cl_version := Some v\<rparr>" "client_connect now"
    "\<lambda>d c. snd (client_parse_device d c)" for now
  by unfold_locales
    (auto simp: client_connect_def client_parse_device_def client_set_state_def set_state_internal_def Let_def)

section \<open>Promotion in the same loop\<close>

definition tr_wf :: "tracker \<Rightarrow> bool" where
  "tr_wf t \<longleftrightarrow> (\<forall>i. L_client i \<in> set (tr_listeners t) \<longrightarrow> i < length (tr_clients t))"

lemma tr_wf_register: "tr_wf new_tracker" "tr_wf t \<Longrightarrow> tr_wf (register_client c t)" "tr_wf t \<Longrightarrow> tr_wf (register_listener k t)"
  by (auto simp: tr_wf_def new_tracker_def register_client_def register_listener_def less_SucI)

definition waiting_clients :: "tracker \<Rightarrow> nat" where
  "waiting_clients t = length (filter (\<lambda>c. cl_state c = DISCOVERED) (tr_clients t))"

text \<open>\<open>counted t u\<close>: from \<open>t\<close> to \<open>u\<close> clients only moved to DISCOVERED, each counted once.\<close>

definition counted :: "tracker \<Rightarrow> tracker \<Rightarrow> bool" where
  "counted t u \<longleftrightarrow> tr_listeners u = tr_listeners t \<and> length (tr_clients u) = length (tr_clients t)
     \<and> last_state_version u = last_state_version t
     \<and> (\<exists>m. waiting_clients u = waiting_clients t + m \<and> state_version u = state_version t + of_nat m)"

lemma counted_refl: "counted t t"
  by (auto simp: counted_def intro: exI [of _ 0])

lemma counted_trans:
  assumes "counted t u" "counted u w" shows "counted t w"
proof -
  obtain m n where "waiting_clients u = waiting_clients t + m" "state_version u = state_version t + of_nat m"
    "waiting_clients w = waiting_clients u + n" "state_version w = state_version u + of_nat n"
    using assms by (auto simp: counted_def)
  then have "waiting_clients w = waiting_clients t + (m + n) \<and> state_version w = state_version t + of_nat (m + n)"
    by (simp add: add.assoc)
  then show ?thesis using assms unfolding counted_def by metis
qed

lemma counted_listener: "tr_wf t \<Longrightarrow> l \<in> set (tr_listeners t) \<Longrightarrow> counted t (notify_listener d l t)"
proof (cases l)
  case (L_client i)
  assume "tr_wf t" "l \<in> set (tr_listeners t)"
  then have i: "i < length (tr_clients t)" using L_client by (simp add: tr_wf_def)
  let ?c = "snd (client_parse_device d ((tr_clients t ! i)\<lparr>cl_version := Some (state_version t)\<rparr>))"
  obtain m where "length (filter (\<lambda>c. cl_state c = DISCOVERED) ((tr_clients t)[i := ?c])) = waiting_clients t + m"
    "cl_version ?c = Some (state_version t + of_nat m)"
    using tracked.parse_counts [OF i refl, of d "state_version t"] by (auto simp: waiting_clients_def)
  then show ?thesis using L_client
    by (auto simp: notify_listener_def on_client_def Let_def counted_def waiting_clients_def)
qed (auto simp: notify_listener_def counted_def waiting_clients_def)

lemma counted_wf: "counted t u \<Longrightarrow> tr_wf t \<Longrightarrow> tr_wf u"
  by (simp add: counted_def tr_wf_def)

lemma counted_fold_listeners:
  "tr_wf t \<Longrightarrow> set ls \<subseteq> set (tr_listeners t) \<Longrightarrow> counted t (fold (notify_listener d) ls t)"
proof (induction ls arbitrary: t)
  case (Cons l ls)
  have c: "counted t (notify_listener d l t)" using Cons.prems by (simp add: counted_listener)
  have "tr_wf (notify_listener d l t)" by (rule counted_wf [OF c Cons.prems(1)])
  then have "counted (notify_listener d l t) (fold (notify_listener d) ls (notify_listener d l t))"
    using Cons.prems c by (intro Cons.IH) (auto simp: counted_def)
  from counted_trans [OF c this] show ?case by simp
qed (simp add: counted_refl)

lemma counted_notify: "tr_wf t \<Longrightarrow> counted t (notify_listeners d t)"
  by (simp add: notify_listeners_def counted_fold_listeners)

lemma counted_deliver: "tr_wf t \<Longrightarrow> counted t (fold notify_listeners ds t)"
proof (induction ds arbitrary: t)
  case (Cons d ds)
  from counted_trans [OF counted_notify [OF Cons.prems] Cons.IH [OF counted_wf [OF counted_notify [OF Cons.prems] Cons.prems]]]
  show ?case by simp
qed (simp add: counted_refl)

lemma promote_one:
  "promote_client now i t = (if cl_state (tr_clients t ! i) = DISCOVERED
     then t\<lparr>tr_clients := (tr_clients t)[i := client_connect now ((tr_clients t ! i)\<lparr>cl_version := Some (state_version t)\<rparr>)],
            state_version := state_version t + 1\<rparr>
     else t)"
  by (simp add: promote_client_def on_client_def client_connect_def client_set_state_def set_state_internal_def Let_def)

lemma promote_state:
  assumes "i < length (tr_clients t)"
  shows "cl_state (tr_clients (promote_client now i t) ! j)
     = (if j = i \<and> cl_state (tr_clients t ! i) = DISCOVERED then CONNECTING else cl_state (tr_clients t ! j))"
    and "length (tr_clients (promote_client now i t)) = length (tr_clients t)"
  using assms by (auto simp: promote_one nth_list_update tracked.conn_state)

lemma promote_fold:
  "k \<le> length (tr_clients t) \<Longrightarrow>
   length (tr_clients (fold (promote_client now) [0..<k] t)) = length (tr_clients t)
   \<and> (\<forall>j. cl_state (tr_clients (fold (promote_client now) [0..<k] t) ! j)
        = (if j < k \<and> cl_state (tr_clients t ! j) = DISCOVERED then CONNECTING else cl_state (tr_clients t ! j)))"
proof (induction k)
  case (Suc k)
  then have IH: "length (tr_clients (fold (promote_client now) [0..<k] t)) = length (tr_clients t)"
    "\<And>j. cl_state (tr_clients (fold (promote_client now) [0..<k] t) ! j)
        = (if j < k \<and> cl_state (tr_clients t ! j) = DISCOVERED then CONNECTING else cl_state (tr_clients t ! j))"
    by simp_all
  have k: "k < length (tr_clients (fold (promote_client now) [0..<k] t))" using IH(1) Suc.prems by simp
  show ?case using promote_state [OF k, of now] by (auto simp: IH less_Suc_eq)
qed simp

lemma try_promote_states:
  "map cl_state (tr_clients (try_promote_discovered_clients now t))
     = map (\<lambda>c. if cl_state c = DISCOVERED then CONNECTING else cl_state c) (tr_clients t)"
  using promote_fold [of "length (tr_clients t)" t now]
  by (intro nth_equalityI) (auto simp: try_promote_discovered_clients_def)

lemma tracker_loop_states:
  assumes "tr_wf t" "unat (state_version t - last_state_version t) + length (tr_clients t) < 256"
    "waiting_clients t > 0 \<longrightarrow> state_version t \<noteq> last_state_version t"
  shows "map cl_state (tr_clients (tracker_loop now t)) =
    map (\<lambda>c. if cl_state c = DISCOVERED then CONNECTING else cl_state c)
      (tr_clients (fold notify_listeners (tr_queue t) (t\<lparr>tr_queue := []\<rparr>)))"
proof -
  let ?u = "fold notify_listeners (tr_queue t) (t\<lparr>tr_queue := []\<rparr>)"
  have "counted (t\<lparr>tr_queue := []\<rparr>) ?u" using assms(1) by (intro counted_deliver) (simp add: tr_wf_def)
  then obtain m where m: "waiting_clients ?u = waiting_clients t + m" "state_version ?u = state_version t + of_nat m"
    "last_state_version ?u = last_state_version t" "length (tr_clients ?u) = length (tr_clients t)"
    by (auto simp: counted_def waiting_clients_def)
  show ?thesis
  proof (cases "waiting_clients ?u = 0")
    case True
    then have "\<forall>c\<in>set (tr_clients ?u). cl_state c \<noteq> DISCOVERED"
      by (simp add: waiting_clients_def filter_empty_conv)
    then show ?thesis by (auto simp: tracker_loop_def Let_def try_promote_states)
  next
    case False
    have "m \<le> length (tr_clients t)"
      using m(1,4) length_filter_le [of "\<lambda>c. cl_state c = DISCOVERED" "tr_clients ?u"]
      by (simp add: waiting_clients_def)
    then have b: "unat (state_version t - last_state_version t) + m < 256" using assms(2) by linarith
    have p: "m > 0 \<or> state_version t \<noteq> last_state_version t" using assms(3) False m(1) by linarith
    have "state_version ?u \<noteq> last_state_version ?u"
      using tracked.counter_moved [OF m(2) b p] m(3) by simp
    moreover have "tr_clients ?u \<noteq> []" using False by (auto simp: waiting_clients_def)
    ultimately show ?thesis by (simp add: tracker_loop_def Let_def try_promote_states)
  qed
qed

text \<open>\<open>heard a i t\<close>: client \<open>i\<close> waits for an advertisement from \<open>a\<close>, or has had one.\<close>

definition heard :: "u64 \<Rightarrow> nat \<Rightarrow> tracker \<Rightarrow> bool" where
  "heard a i t \<longleftrightarrow> (let c = tr_clients t ! i in
     (cl_state c = IDLE \<and> auto_connect c \<and> cl_address c = a) \<or> cl_state c = DISCOVERED)"

lemma notify_nth:
  assumes "tr_wf t" "l \<in> set (tr_listeners t)"
  shows "tr_clients (notify_listener d l t) ! i = (if l = L_client i
     then snd (client_parse_device d ((tr_clients t ! i)\<lparr>cl_version := Some (state_version t)\<rparr>)) else tr_clients t ! i)"
  using assms by (cases l) (auto simp: notify_listener_def on_client_def tr_wf_def Let_def)

lemma parse_effect:
  "auto_connect (snd (client_parse_device d c)) = auto_connect c"
  "cl_address (snd (client_parse_device d c)) = cl_address c"
  "cl_state (snd (client_parse_device d c)) =
     (if cl_address c \<noteq> 0 \<and> address_uint64 d = cl_address c \<and> cl_state c = IDLE \<and> auto_connect c
      then DISCOVERED else cl_state c)"
  by (simp_all add: client_parse_device_def client_set_state_def set_state_internal_def Let_def)

lemma heard_listener:
  "tr_wf t \<Longrightarrow> l \<in> set (tr_listeners t) \<Longrightarrow> heard a i t \<Longrightarrow> heard a i (notify_listener d l t)"
  by (simp add: heard_def notify_nth parse_effect Let_def)

lemma discovered_listener:
  "tr_wf t \<Longrightarrow> l \<in> set (tr_listeners t) \<Longrightarrow> cl_state (tr_clients t ! i) = DISCOVERED \<Longrightarrow>
   cl_state (tr_clients (notify_listener d l t) ! i) = DISCOVERED"
  by (simp add: notify_nth parse_effect)

lemma heard_now:
  "tr_wf t \<Longrightarrow> L_client i \<in> set (tr_listeners t) \<Longrightarrow> heard (address_uint64 d) i t \<Longrightarrow> address_uint64 d \<noteq> 0 \<Longrightarrow>
   cl_state (tr_clients (notify_listener d (L_client i) t) ! i) = DISCOVERED"
  by (auto simp: heard_def notify_nth parse_effect Let_def)

lemma heard_fold_listeners:
  "tr_wf t \<Longrightarrow> set ls \<subseteq> set (tr_listeners t) \<Longrightarrow> heard a i t \<Longrightarrow>
   heard a i (fold (notify_listener d) ls t)
   \<and> (cl_state (tr_clients t ! i) = DISCOVERED \<or> (L_client i \<in> set ls \<and> a = address_uint64 d \<and> a \<noteq> 0)
      \<longrightarrow> cl_state (tr_clients (fold (notify_listener d) ls t) ! i) = DISCOVERED)"
proof (induction ls arbitrary: t)
  case (Cons l ls)
  let ?t = "notify_listener d l t"
  have l: "l \<in> set (tr_listeners t)" using Cons.prems by simp
  have c: "counted t ?t" using Cons.prems l by (simp add: counted_listener)
  have w: "tr_wf ?t" by (rule counted_wf [OF c Cons.prems(1)])
  have s: "set ls \<subseteq> set (tr_listeners ?t)" using Cons.prems c by (auto simp: counted_def)
  have h: "heard a i ?t" using heard_listener [OF Cons.prems(1) l] Cons.prems by simp
  have k: "cl_state (tr_clients ?t ! i) = DISCOVERED"
    if "cl_state (tr_clients t ! i) = DISCOVERED \<or> (l = L_client i \<and> a = address_uint64 d \<and> a \<noteq> 0)"
    using that discovered_listener [OF Cons.prems(1) l] heard_now [OF Cons.prems(1), of i d] l Cons.prems(3) by auto
  note IH = Cons.IH [OF w s h]
  show ?case
  proof (intro conjI impI)
    show "heard a i (fold (notify_listener d) (l # ls) t)" using IH by simp
    assume "cl_state (tr_clients t ! i) = DISCOVERED \<or> L_client i \<in> set (l # ls) \<and> a = address_uint64 d \<and> a \<noteq> 0"
    then have "cl_state (tr_clients ?t ! i) = DISCOVERED \<or> L_client i \<in> set ls \<and> a = address_uint64 d \<and> a \<noteq> 0"
      using k by (metis set_ConsD)
    then show "cl_state (tr_clients (fold (notify_listener d) (l # ls) t) ! i) = DISCOVERED" using IH by simp
  qed
qed simp

lemma heard_deliver:
  "tr_wf t \<Longrightarrow> L_client i \<in> set (tr_listeners t) \<Longrightarrow> heard a i t \<Longrightarrow>
   heard a i (fold notify_listeners ds t)
   \<and> (cl_state (tr_clients t ! i) = DISCOVERED \<or> (a \<in> address_uint64 ` set ds \<and> a \<noteq> 0)
      \<longrightarrow> cl_state (tr_clients (fold notify_listeners ds t) ! i) = DISCOVERED)"
proof (induction ds arbitrary: t)
  case (Cons d ds)
  let ?t = "notify_listeners d t"
  have c: "counted t ?t" using Cons.prems by (simp add: counted_notify)
  have w: "tr_wf ?t" by (rule counted_wf [OF c Cons.prems(1)])
  have l: "L_client i \<in> set (tr_listeners ?t)" using Cons.prems c by (simp add: counted_def)
  have f: "heard a i ?t" "cl_state (tr_clients t ! i) = DISCOVERED \<or> (a = address_uint64 d \<and> a \<noteq> 0)
      \<longrightarrow> cl_state (tr_clients ?t ! i) = DISCOVERED"
    using heard_fold_listeners [OF Cons.prems(1) subset_refl Cons.prems(3), of d] Cons.prems(2)
    by (auto simp: notify_listeners_def)
  note IH = Cons.IH [OF w l f(1)]
  show ?case
  proof (intro conjI impI)
    show "heard a i (fold notify_listeners (d # ds) t)" using IH by simp
    assume "cl_state (tr_clients t ! i) = DISCOVERED \<or> a \<in> address_uint64 ` set (d # ds) \<and> a \<noteq> 0"
    then have "cl_state (tr_clients ?t ! i) = DISCOVERED \<or> a \<in> address_uint64 ` set ds \<and> a \<noteq> 0"
      using f(2) by auto
    then show "cl_state (tr_clients (fold notify_listeners (d # ds) t) ! i) = DISCOVERED" using IH by simp
  qed
qed simp

text \<open>C15. Promotion is never missed, although it is triggered by an 8-bit change counter: when fewer than 256
  state changes can have been counted since the last scan of the clients, a loop leaves no client
  DISCOVERED, and a registered idle client with auto-connect whose device is among the queued
  advertisements is CONNECTING at the end of the same loop.\<close>
theorem promotion_not_missed:
  assumes "tr_wf t" "unat (state_version t - last_state_version t) + length (tr_clients t) < 256"
    "waiting_clients t > 0 \<longrightarrow> state_version t \<noteq> last_state_version t"
  shows "waiting_clients (tracker_loop now t) = 0
    \<and> (\<forall>i d. L_client i \<in> set (tr_listeners t) \<longrightarrow> d \<in> set (tr_queue t) \<longrightarrow> address_uint64 d \<noteq> 0 \<longrightarrow>
        cl_state (tr_clients t ! i) = IDLE \<longrightarrow> auto_connect (tr_clients t ! i) \<longrightarrow>
        cl_address (tr_clients t ! i) = address_uint64 d \<longrightarrow>
        cl_state (tr_clients (tracker_loop now t) ! i) = CONNECTING)"
proof (intro conjI allI impI)
  let ?t0 = "t\<lparr>tr_queue := []\<rparr>"
  let ?u = "fold notify_listeners (tr_queue t) ?t0"
  note st = tracker_loop_states [OF assms, of now]
  show "waiting_clients (tracker_loop now t) = 0"
  proof -
    have "\<forall>s\<in>set (map cl_state (tr_clients (tracker_loop now t))). s \<noteq> DISCOVERED" unfolding st by auto
    then show ?thesis by (simp add: waiting_clients_def filter_empty_conv)
  qed
  fix i d
  assume i: "L_client i \<in> set (tr_listeners t)" "d \<in> set (tr_queue t)" "address_uint64 d \<noteq> 0"
    "cl_state (tr_clients t ! i) = IDLE" "auto_connect (tr_clients t ! i)" "cl_address (tr_clients t ! i) = address_uint64 d"
  have w: "tr_wf ?t0" using assms(1) by (simp add: tr_wf_def)
  have l: "L_client i \<in> set (tr_listeners ?t0)" using i(1) by simp
  have h: "heard (address_uint64 d) i ?t0" using i by (simp add: heard_def)
  have "address_uint64 d \<in> address_uint64 ` set (tr_queue t)" using i(2) by simp
  then have "cl_state (tr_clients ?u ! i) = DISCOVERED" using heard_deliver [OF w l h] i(3) by blast
  moreover have len: "length (tr_clients (tracker_loop now t)) = length (tr_clients ?u)"
    using arg_cong [OF st, of length] by (simp only: length_map)
  moreover have "i < length (tr_clients ?u)"
  proof -
    have "length (tr_clients ?u) = length (tr_clients t)"
      using counted_deliver [OF w, of "tr_queue t"] by (simp add: counted_def)
    then show ?thesis using assms(1) i(1) by (simp add: tr_wf_def)
  qed
  moreover have "map cl_state (tr_clients (tracker_loop now t)) ! i
      = map (\<lambda>c. if cl_state c = DISCOVERED then CONNECTING else cl_state c) (tr_clients ?u) ! i"
    by (simp only: st)
  ultimately show "cl_state (tr_clients (tracker_loop now t) ! i) = CONNECTING" by simp
qed

definition demo_device :: ESPBTDevice where
  "demo_device = device_default\<lparr>dev_address := [1, 0, 0, 0, 0, 0]\<rparr>"

definition demo_tracker :: tracker where
  "demo_tracker = deliver_device demo_device
     (register_client (client_setup (new_client\<lparr>auto_connect := True, cl_address := 1\<rparr>)) new_tracker)"

lemma promotion_not_missed_witness:
  "cl_state (tr_clients (tracker_loop 5 demo_tracker) ! 0) = CONNECTING"
proof -
  have t: "tr_wf demo_tracker" "unat (state_version demo_tracker - last_state_version demo_tracker) + length (tr_clients demo_tracker) < 256"
    "waiting_clients demo_tracker > 0 \<longrightarrow> state_version demo_tracker \<noteq> last_state_version demo_tracker"
    "L_client 0 \<in> set (tr_listeners demo_tracker)" "demo_device \<in> set (tr_queue demo_tracker)"
    "cl_state (tr_clients demo_tracker ! 0) = IDLE" "auto_connect (tr_clients demo_tracker ! 0)"
    "cl_address (tr_clients demo_tracker ! 0) = 1"
    by (simp_all add: demo_tracker_def deliver_device_def register_client_def new_tracker_def client_setup_def
        client_set_state_def set_state_internal_def tr_wf_def waiting_clients_def QUEUE_MAX_def Let_def)
  have "address_uint64 demo_device = 1" by (simp add: demo_device_def address_uint64_def)
  then show ?thesis using promotion_not_missed [OF t(1,2,3), of 5] t(4-8) by auto
qed


section \<open>Event packets against a reference reading\<close>

definition report_device :: "bytes \<Rightarrow> bytes \<Rightarrow> u8 \<Rightarrow> ESPBTDevice" where
  "report_device addr ad r =
     fold apply_struct (ad_structs ad) (device_default\<lparr>dev_address := addr, dev_rssi := int8_of r\<rparr>)"

fun adv_reports :: "nat \<Rightarrow> bytes \<Rightarrow> ESPBTDevice list" where
  "adv_reports 0 bs = []"
| "adv_reports (Suc k) bs =
     (if length bs < 9 \<or> length bs < 10 + unat (bs ! 8) then []
      else report_device (take 6 (drop 2 bs)) (take (unat (bs ! 8)) (drop 9 bs)) (bs ! (9 + unat (bs ! 8)))
           # adv_reports k (drop (10 + unat (bs ! 8)) bs))"

definition hci_devices :: "bytes \<Rightarrow> ESPBTDevice list" where
  "hci_devices bs =
     (if length bs < 3 \<or> bs ! 0 \<noteq> 0x04 \<or> bs ! 1 \<noteq> 0x3e \<or> length bs < 3 + unat (bs ! 2) then []
      else
        let evt = take (unat (bs ! 2)) (drop 3 bs) in
        if length evt < 2 \<or> evt ! 0 \<noteq> 0x02 then [] else adv_reports (unat (evt ! 1)) (drop 2 evt))"

lemma parse_ad_eq:
  "unat n \<le> length pl \<Longrightarrow> parse_ad_payload pl n d = Some (fold apply_struct (ad_structs (take (unat n) pl)) d)"
  using ad_loop_eq [of "unat n" pl 0 d] by (simp add: parse_ad_payload_def)

text \<open>The report at position \<open>pos\<close> of the first \<open>n\<close> bytes, when it fits.\<close>

lemma adv_reports_at:
  assumes "n \<le> length evt" "dl = unat (evt ! (pos + 8))" "pos + 9 + dl + 1 \<le> n"
  shows "adv_reports (Suc left) (drop pos (take n evt)) =
    report_device (take 6 (drop (pos + 2) evt)) (take dl (drop (pos + 9) evt)) (evt ! (pos + 9 + dl))
      # adv_reports left (drop (pos + (9 + dl + 1)) (take n evt))"
proof -
  let ?bs = "drop pos (take n evt)"
  have at: "?bs ! k = evt ! (pos + k)" if "pos + k < n" for k using that assms(1) by simp
  have b8: "unat (?bs ! 8) = dl" using at [of 8] assms(2,3) by simp
  have br: "?bs ! (9 + dl) = evt ! (pos + 9 + dl)" using at [of "9 + dl"] assms(3) by (simp add: add.assoc)
  have t6: "take 6 (drop 2 ?bs) = take 6 (drop (pos + 2) evt)"
    and td: "take dl (drop 9 ?bs) = take dl (drop (pos + 9) evt)"
    using assms(3) by (simp_all add: add.commute take_drop_take)
  have dd: "drop (10 + dl) ?bs = drop (pos + (9 + dl + 1)) (take n evt)" by (simp add: ac_simps)
  have "\<not> (length ?bs < 9 \<or> length ?bs < 10 + unat (?bs ! 8))" unfolding b8 using assms(1,3) by auto
  then show ?thesis using t6 td br dd by (simp only: adv_reports.simps if_False b8)
qed

lemma report_loop_eq:
  "n \<le> length evt \<Longrightarrow> report_loop evt n left pos out = Some (out @ adv_reports left (drop pos (take n evt)))"
proof (induction left arbitrary: pos out)
  case 0 show ?case by simp
next
  case (Suc left)
  let ?bs = "drop pos (take n evt)"
  have len: "length ?bs = n - pos" using Suc.prems by simp
  show ?case
  proof (cases "pos + 9 > n")
    case True
    then have "length ?bs < 9" using len by simp
    then show ?thesis using True by simp
  next
    case False
    define dl where "dl = unat (evt ! (pos + 8))"
    have at: "?bs ! k = evt ! (pos + k)" if "pos + k < n" for k using that Suc.prems by simp
    have b8: "?bs ! 8 = evt ! (pos + 8)" using at [of 8] False by simp
    have reads: "rd evt pos = Some (evt ! pos)" "rd evt (pos + 1) = Some (evt ! (pos + 1))"
      "rd evt (pos + 8) = Some (evt ! (pos + 8))"
      using False Suc.prems by (auto intro!: rd_in)
    show ?thesis
    proof (cases "pos + 9 + dl + 1 > n")
      case stop: True
      then have "length ?bs < 10 + unat (?bs ! 8)" using len b8 by (simp add: dl_def)
      then show ?thesis using False stop reads by (simp add: dl_def)
    next
      case go: False
      have r: "rd evt (pos + 9 + dl) = Some (evt ! (pos + 9 + dl))" using go Suc.prems by (intro rd_in) simp
      have a: "rd_n evt (pos + 2) 6 = Some (take 6 (drop (pos + 2) evt))" using False Suc.prems by (intro rd_n_in) simp
      let ?d0 = "device_default\<lparr>dev_address := take 6 (drop (pos + 2) evt), dev_rssi := int8_of (evt ! (pos + 9 + dl))\<rparr>"
      have p: "parse_ad_payload (drop (pos + 9) evt) (evt ! (pos + 8)) ?d0
          = Some (fold apply_struct (ad_structs (take dl (drop (pos + 9) evt))) ?d0)"
        using go Suc.prems parse_ad_eq [of "evt ! (pos + 8)" "drop (pos + 9) evt" ?d0] by (simp add: dl_def)
      have "adv_reports (Suc left) ?bs = report_device (take 6 (drop (pos + 2) evt)) (take dl (drop (pos + 9) evt))
            (evt ! (pos + 9 + dl)) # adv_reports left (drop (pos + (9 + dl + 1)) (take n evt))"
        using go Suc.prems by (intro adv_reports_at) (simp_all add: dl_def)
      then show ?thesis
        using False go reads r a p Suc.IH [OF Suc.prems, of "pos + (9 + dl + 1)"]
        by (simp add: dl_def report_device_def)
    qed
  qed
qed

lemma hci_packet_eq:
  assumes "n \<le> length buf"
  shows "hci_packet buf n = Some (hci_devices (take n buf))"
proof -
  consider "n < 3 \<or> buf ! 0 \<noteq> 0x04" | "3 \<le> n" "buf ! 0 = 0x04" "n < 3 + unat (buf ! 2) \<or> buf ! 1 \<noteq> 0x3e"
    | "3 + unat (buf ! 2) \<le> n" "buf ! 0 = 0x04" "buf ! 1 = 0x3e"
    by fastforce
  then show ?thesis
  proof cases
    case 1
    then show ?thesis using assms by (auto simp: hci_codes hci_packet_def hci_devices_def rd_def)
  next
    case 2
    then show ?thesis using assms by (auto simp: hci_codes hci_packet_def hci_devices_def rd_def)
  next
    case 3
    let ?pl = "unat (buf ! 2)"
    let ?evt = "take ?pl (drop 3 buf)"
    have e: "take ?pl (drop 3 (take n buf)) = ?evt" using 3 by (intro take_drop_take) simp
    have l: "length ?evt = ?pl" using 3 assms by simp
    have h: "handle_le_meta_event (drop 3 buf) ?pl
        = Some (if length ?evt < 2 \<or> ?evt ! 0 \<noteq> 0x02 then [] else adv_reports (unat (?evt ! 1)) (drop 2 ?evt))"
    proof -
      have ev: "?evt ! k = drop 3 buf ! k" if "k < ?pl" for k using that by simp
      have r: "rd (drop 3 buf) k = Some (drop 3 buf ! k)" if "k < ?pl" for k
        using that 3 assms by (intro rd_in) simp
      have rl: "report_loop (drop 3 buf) ?pl k 2 [] = Some (adv_reports k (drop 2 ?evt))" for k
        using report_loop_eq [of ?pl "drop 3 buf" k 2 "[]"] 3 assms by simp
      have m: "min (length buf - 3) ?pl = ?pl" using 3 assms by simp
      consider "?pl = 0" | "?pl = 1" | "2 \<le> ?pl" by linarith
      then show ?thesis
        by cases (auto simp: hci_codes handle_le_meta_event_def r ev m rl simp del: nth_drop)
    qed
    have t: "take n buf ! 0 = buf ! 0" "take n buf ! 1 = buf ! 1" "take n buf ! 2 = buf ! 2" using 3 by auto
    have r: "rd buf 0 = Some (buf ! 0)" "rd buf 1 = Some (buf ! 1)" "rd buf 2 = Some (buf ! 2)"
    proof -
      have "2 < length buf" using 3 assms by linarith
      then show "rd buf 0 = Some (buf ! 0)" "rd buf 1 = Some (buf ! 1)" "rd buf 2 = Some (buf ! 2)"
        by (intro rd_in; linarith)+
    qed
    have n: "length (take n buf) = n" using assms by simp
    show ?thesis using 3 h r assms by (simp add: hci_codes hci_packet_def hci_devices_def t n e l Let_def)
  qed
qed

text \<open>Decoding an HCI event packet never reads outside the bytes that were received, on any bytes
  whatsoever, and delivers exactly the devices of the reference reading: one per complete advertising
  report, up to the announced number and the first truncated report.\<close>
theorem hci_packet_correct:
  assumes "n \<le> length buf"
  shows "hci_packet buf n = Some (hci_devices (take n buf))"
  using assms by (rule hci_packet_eq)

lemma hci_packet_correct_witness:
  "hci_packet [0x04, 0x3e, 0x0c, 0x02, 0x01, 0x00, 0x00, 1, 2, 3, 4, 5, 6, 0x00, 0xC4, 0x99] 15
     = Some [device_default\<lparr>dev_address := [1, 2, 3, 4, 5, 6], dev_rssi := - 60\<rparr>]"
proof -
  have d: "hci_devices (take 15 [0x04, 0x3e, 0x0c, 0x02, 0x01, 0x00, 0x00, 1, 2, 3, 4, 5, 6, 0x00, 0xC4, 0x99])
      = [device_default\<lparr>dev_address := [1, 2, 3, 4, 5, 6], dev_rssi := - 60\<rparr>]"
    by (simp add: hci_devices_def report_device_def int8_of_def Let_def)
  show ?thesis
    using hci_packet_correct [of 15 "[0x04, 0x3e, 0x0c, 0x02, 0x01, 0x00, 0x00, 1, 2, 3, 4, 5, 6, 0x00, 0xC4, 0x99]"]
    unfolding d by simp
qed

section \<open>Scan commands\<close>

text \<open>The scan parameters command is the eleven bytes of LE Set Scan Parameters (opcode 0x200B), and for
  every interval and window up to 40959 ms the 16-bit fields carry the time in units of 0.625 ms, without
  wrap-around, so that a window not longer than the interval is sent as such.\<close>
theorem scan_params_exact:
  assumes "unat interval_ms \<le> 40959" "unat window_ms \<le> 40959"
  shows "\<exists>i w. scan_params_cmd active interval_ms window_ms =
      [0x01, 0x0b, 0x20, 7, if active then 1 else 0] @ put16 i @ put16 w @ [0, 0]
    \<and> unat i = unat interval_ms * 8 div 5 \<and> unat w = unat window_ms * 8 div 5
    \<and> (unat window_ms \<le> unat interval_ms \<longrightarrow> w \<le> i)"
proof -
  have u: "unat (ucast (ms * 1000 div 625 :: u32) :: u16) = unat ms * 8 div 5" if "unat ms \<le> 40959" for ms :: u32
  proof -
    have m: "unat (ms * 1000) = unat ms * 1000" using that by (simp add: unat_mult_lem [THEN iffD1])
    have "unat (ms * 1000 div 625 :: u32) = unat ms * 1000 div 625" by (simp add: unat_div m)
    moreover have "unat ms * 1000 div 625 = unat ms * 8 div 5"
      using div_mult_mult2 [of 125 "unat ms * 8" 5] by (simp add: mult.assoc)
    moreover have "unat ms * 8 div 5 < 65536" using that by linarith
    ultimately show ?thesis by (simp add: unsigned_ucast_eq take_bit_eq_mod)
  qed
  have o: "put16 (hci_opcode OGF_LE_CTL OCF_LE_SET_SCAN_PARAMETERS) = [0x0b, 0x20]"
    by (simp add: put16_def hci_opcode_def hci_codes)
  let ?i = "ucast (interval_ms * 1000 div 625 :: u32) :: u16" and ?w = "ucast (window_ms * 1000 div 625 :: u32) :: u16"
  have "?w \<le> ?i" if "unat window_ms \<le> unat interval_ms"
    using that u [OF assms(1)] u [OF assms(2)] by (simp add: word_le_nat_alt div_le_mono)
  then show ?thesis using u [OF assms(1)] u [OF assms(2)]
    by (intro exI [of _ ?i] exI [of _ ?w]) (simp add: scan_params_cmd_def o HCI_COMMAND_PKT_def)
qed

lemma scan_params_exact_witness:
  "\<exists>i w. scan_params_cmd True 320 30 = [0x01, 0x0b, 0x20, 7, 1] @ put16 i @ put16 w @ [0, 0] \<and> unat i = 512 \<and> unat w = 48"
  using scan_params_exact [of 320 30 True] by auto

section \<open>Signals of a connected client's device\<close>

lemma strstr_at_here: "strstr_at (nd @ ys) nd = Some (nd @ ys)"
proof (cases "nd @ ys")
  case (Cons c cs)
  have "take (length nd) (c # cs) = nd" unfolding Cons [symmetric] by simp
  then show ?thesis unfolding Cons by simp
qed simp

lemma strstr_at_skip:
  "c \<notin> set xs \<Longrightarrow> strstr_at (xs @ (c # nd) @ ys) (c # nd) = Some ((c # nd) @ ys)"
proof (induction xs)
  case Nil show ?case using strstr_at_here [of "c # nd" ys] by simp
next
  case (Cons x xs)
  then have "x \<noteq> c" "strstr_at (xs @ (c # nd) @ ys) (c # nd) = Some ((c # nd) @ ys)" by auto
  then show ?case by simp
qed

text \<open>The path of a client's device, with an adapter \<open>hci...\<close>, gives back the device's address.\<close>

lemma path_mac_device:
  assumes "length (dev_address d) = 6" "CHR ''/'' \<notin> set s"
  shows "path_mac (''/org/bluez/'' @ (''hci'' @ s) @ ''/dev_'' @ map (\<lambda>x. if x = CHR '':'' then CHR ''_'' else x) (address_str d))
     = Some (parse_bdaddr (address_str d))"
proof -
  let ?m = "map (\<lambda>x. if x = CHR '':'' then CHR ''_'' else x) (address_str d)"
  have st: "strstr_at (''/org/bluez/'' @ (''hci'' @ s) @ ''/dev_'' @ ?m) ''/dev_'' = Some (''/dev_'' @ ?m)"
    using strstr_at_skip [OF assms(2), of "''dev_''" ?m] by simp
  obtain a b c e f g where l: "dev_address d = [a, b, c, e, f, g]" using list6E [OF assms(1)] by blast
  have h: "(if hex_uc (unat x div 16) = CHR '':'' then CHR ''_'' else hex_uc (unat x div 16)) = hex_uc (unat x div 16)"
    "(if hex_uc (unat x mod 16) = CHR '':'' then CHR ''_'' else hex_uc (unat x mod 16)) = hex_uc (unat x mod 16)" for x :: u8
    using hex_uc_plain(7) [of "unat x div 16"] hex_uc_plain(7) [of "unat x mod 16"] unat_u8_less [of x] by auto
  have m: "?m = fmt_02X g @ ''_'' @ fmt_02X f @ ''_'' @ fmt_02X e @ ''_'' @ fmt_02X c @ ''_'' @ fmt_02X b @ ''_'' @ fmt_02X a"
    by (simp add: address_str_def l fmt_02X_def h)
  show ?thesis
    by (unfold path_mac_def st, unfold m) (simp add: rd_def address_str_def l fmt_02X_def)
qed

lemma fold_keeps: "(\<And>x y. dev_address (f x y) = dev_address y) \<Longrightarrow> dev_address (fold f xs y) = dev_address y"
  by (induction xs arbitrary: y) simp_all

lemma props_keep_address:
  "dev_address (fold (\<lambda>u. add_service_uuid (from_uuid_str u)) us y) = dev_address y"
  "dev_address (fold (\<lambda>(u, v). add_service_data \<lparr>sd_uuid = from_uuid_str u, sd_data = v\<rparr>) ss y) = dev_address y"
  "dev_address (fold (\<lambda>(company, payload). add_manufacturer_data
      \<lparr>sd_uuid = from_uint16 company,
       sd_data = [ucast (company AND 0xff), ucast (drop_bit 8 company)] @ payload\<rparr>) ms y) = dev_address y"
  by (rule fold_keeps; simp add: add_service_uuid_def add_service_data_def add_manufacturer_data_def split_beta)+

text \<open>A property change signalled on the D-Bus object of a client's device is delivered as an advertisement
  of that device, and the client accepts it: the path the client builds from its address is read back by
  the tracker to the same six bytes.\<close>
theorem signal_reaches_client:
  assumes "length (dev_address d) = 6" "address_uint64 d \<noteq> 0" "cl_adapter c = ''hci'' @ s" "CHR ''/'' \<notin> set s"
    "\<forall>a. P_Address a \<notin> set props"
  shows "\<exists>e. tracker_on_properties_changed ''org.bluez.Device1'' (cl_device_path (client_set_address (address_uint64 d) c)) props t
      = Some (deliver_device e t)
    \<and> dev_address e = dev_address d \<and> fst (client_parse_device e (client_set_address (address_uint64 d) c))"
proof -
  let ?c = "client_set_address (address_uint64 d) c"
  let ?m = "map (\<lambda>x. if x = CHR '':'' then CHR ''_'' else x) (address_str d)"
  have p: "cl_device_path ?c = ''/org/bluez/'' @ (''hci'' @ s) @ ''/dev_'' @ ?m"
    using client_path [OF assms(1,2), of c] assms(3) by simp
  have q: "path_mac (cl_device_path ?c) = Some (Some (dev_address d))"
    unfolding p path_mac_device [OF assms(1,4)] using parse_address_str [OF assms(1)] by simp
  have a: "dev_address (fst (fold prop_step ps (x, b))) = dev_address x"
    if "\<forall>a. P_Address a \<notin> set ps" for ps x b
    using that
  proof (induction ps arbitrary: x b)
    case (Cons q ps)
    have "dev_address (fst (prop_step q (x, b))) = dev_address x"
      using Cons.prems by (cases q) (auto simp: prop_step_def add_tx_power_def props_keep_address props_keep_address(3) [simplified])
    then show ?case using Cons.IH [of "fst (prop_step q (x, b))" "snd (prop_step q (x, b))"] Cons.prems by simp
  qed simp
  let ?e = "fst (parse_device1_props props (device_default\<lparr>dev_address := dev_address d\<rparr>))"
  have e: "dev_address ?e = dev_address d" using a [OF assms(5)] by (simp add: parse_device1_props_def)
  have "address_uint64 ?e = address_uint64 d" using e by (simp add: address_uint64_def)
  then have "fst (client_parse_device ?e ?c)"
    using assms(2) by (simp add: client_parse_device_def client_set_address_def Let_def)
  then show ?thesis using e by (intro exI [of _ ?e]) (simp add: tracker_on_properties_changed_def q)
qed

lemma signal_reaches_client_witness:
  "\<exists>e. tracker_on_properties_changed ''org.bluez.Device1''
       (cl_device_path (client_set_address (address_uint64 demo_device) new_client)) [P_RSSI 200] new_tracker
     = Some (deliver_device e new_tracker) \<and> dev_address e = [1, 0, 0, 0, 0, 0]"
proof -
  have d: "length (dev_address demo_device) = 6" "address_uint64 demo_device \<noteq> 0"
    "dev_address demo_device = [1, 0, 0, 0, 0, 0]" "cl_adapter new_client = ''hci'' @ ''0''"
    by (simp_all add: demo_device_def address_uint64_def new_client_def)
  from signal_reaches_client [OF d(1,2,4), of "[P_RSSI 200]" new_tracker] d(3) show ?thesis by auto
qed

text \<open>A signal from a path that ends inside the address, such as \<open>/dev_AA_BB\<close>, makes the handler read past
  the end of the path.\<close>
theorem short_path_overread:
  assumes "length m < 16"
  shows "tracker_on_properties_changed ''org.bluez.Device1'' (''/dev_'' @ m) props t = None"
proof -
  have "path_mac (''/dev_'' @ m) = None"
  proof -
    have s: "strstr_at (''/dev_'' @ m) ''/dev_'' = Some (''/dev_'' @ m)" by simp
    have r: "rd ((''/dev_'' @ m) @ [CHR 0x00]) 21 = None" using assms by (simp add: rd_def)
    show ?thesis unfolding path_mac_def s by (simp add: Let_def r [simplified] split: bind_split)
  qed
  then show ?thesis by (simp add: tracker_on_properties_changed_def)
qed

lemma short_path_overread_witness:
  "tracker_on_properties_changed ''org.bluez.Device1'' ''/dev_AA_BB'' [] new_tracker = None"
  using short_path_overread [of "''AA_BB''" "[]" new_tracker] by simp

end
