(* ===== verification/Bluetooth_Proxy.thy ===== *)
theory Bluetooth_Proxy
  imports Ble_Tracker "HOL-Library.Multiset" "HOL-Library.Sublist"
begin

text \<open>
  \<open>components/bluetooth_proxy/bluetooth_proxy.{h,cpp}\<close> and \<open>bluetooth_connection.{h,cpp}\<close>: Home Assistant's
  view of the host as a Bluetooth proxy. Advertisements are re-serialised and batched, connection slots
  are allocated on request, and the events of a connection are answered to the API client. The messages
  handed to \<open>send_message\<close> are listed in \<open>px_sent\<close>. The API classes are generated outside the
  repository: \<open>svc_size\<close> and \<open>resp_size\<close> stand for their \<open>calculate_size\<close>, \<open>efficient\<close> for the client's
  support of short UUIDs. A null pointer that is dereferenced is \<open>None\<close>.
\<close>

section \<open>Messages\<close>

record gatt_uuid =
  uuid_hi :: u64
  uuid_lo :: u64
  short_uuid :: u32

record desc_resp =
  dr_uuid :: gatt_uuid
  dr_handle :: u16

record chr_resp =
  cr_uuid :: gatt_uuid
  cr_handle :: u16
  cr_properties :: u8
  cr_descriptors :: "desc_resp list"

record svc_resp =
  sr_uuid :: gatt_uuid
  sr_handle :: u16
  sr_characteristics :: "chr_resp list"

record raw_advert =
  ra_address :: u64
  ra_rssi :: int
  ra_address_type :: nat
  ra_data :: bytes

datatype api_msg =
    M_DeviceConnection u64 bool u16 int
  | M_ConnectionsFree u32 u32 "u64 list"
  | M_GattServicesDone u64
  | M_GattServices u64 "svc_resp list"
  | M_GattError u64 u16 int
  | M_DevicePairing u64 bool int
  | M_DeviceUnpairing u64 bool int
  | M_ClearCache u64 bool int
  | M_GattRead u64 u16 bytes u16
  | M_GattWrite u64 u16
  | M_GattNotify u64 u16
  | M_GattNotifyData u64 u16 bytes u16
  | M_ConnectionParams u64 int
  | M_ScannerState bool bool
  | M_Adverts "raw_advert list"

section \<open>State\<close>

definition INIT_SENDING_SERVICES :: "16 word" where "INIT_SENDING_SERVICES = - 3"
definition DONE_SENDING_SERVICES :: "16 word" where "DONE_SENDING_SERVICES = - 2"
definition BATCH_SIZE :: nat where "BATCH_SIZE = 16"

record bt_connection =
  bc_base :: ble_client
  send_service :: "16 word"
  seen_services :: bool

record proxy =
  px_api :: "nat option"
  px_conns :: "bt_connection list"
  px_adverts :: "raw_advert list"
  last_flush :: u32
  px_free :: u32
  px_limit :: u32
  px_allocated :: "u64 list"
  px_active :: bool
  px_configured_scan_active :: bool
  px_sent :: "api_msg list"

definition new_connection :: bt_connection where
  "new_connection = \<lparr>bc_base = new_client, send_service = INIT_SENDING_SERVICES, seen_services = False\<rparr>"

text \<open>\<open>n\<close> is the generated constant \<open>BLUETOOTH_PROXY_MAX_CONNECTIONS\<close>.\<close>

definition new_proxy :: "nat \<Rightarrow> proxy" where
  "new_proxy n = \<lparr>px_api = None, px_conns = [], px_adverts = [], last_flush = 0, px_free = 0, px_limit = 0,
     px_allocated = replicate n 0, px_active = False, px_configured_scan_active = False, px_sent = []\<rparr>"

definition register_connection :: "nat \<Rightarrow> bt_connection \<Rightarrow> proxy \<Rightarrow> proxy" where
  "register_connection n c p = (if length (px_conns p) < n then p\<lparr>px_conns := px_conns p @ [c]\<rparr> else p)"

definition proxy_setup :: "nat \<Rightarrow> bool \<Rightarrow> proxy \<Rightarrow> proxy" where
  "proxy_setup n scan_active p =
     p\<lparr>px_limit := of_nat n, px_free := of_nat n, px_configured_scan_active := scan_active\<rparr>"

definition set_active :: "bool \<Rightarrow> proxy \<Rightarrow> proxy" where
  "set_active active p = p\<lparr>px_active := active\<rparr>"

definition get_legacy_version :: "proxy \<Rightarrow> u32" where
  "get_legacy_version p = (if px_active p then 5 else 1)"

definition FEATURE_PASSIVE_SCAN :: u32 where "FEATURE_PASSIVE_SCAN = push_bit 0 1"
definition FEATURE_ACTIVE_CONNECTIONS :: u32 where "FEATURE_ACTIVE_CONNECTIONS = push_bit 1 1"
definition FEATURE_REMOTE_CACHING :: u32 where "FEATURE_REMOTE_CACHING = push_bit 2 1"
definition FEATURE_PAIRING :: u32 where "FEATURE_PAIRING = push_bit 3 1"
definition FEATURE_CACHE_CLEARING :: u32 where "FEATURE_CACHE_CLEARING = push_bit 4 1"
definition FEATURE_RAW_ADVERTISEMENTS :: u32 where "FEATURE_RAW_ADVERTISEMENTS = push_bit 5 1"
definition FEATURE_STATE_AND_MODE :: u32 where "FEATURE_STATE_AND_MODE = push_bit 6 1"
definition FEATURE_CONNECTION_PARAMS_SETTING :: u32 where "FEATURE_CONNECTION_PARAMS_SETTING = push_bit 7 1"

definition get_feature_flags :: "proxy \<Rightarrow> u32" where
  "get_feature_flags p =
     (let flags = FEATURE_PASSIVE_SCAN OR FEATURE_RAW_ADVERTISEMENTS OR FEATURE_STATE_AND_MODE in
      if px_active p then flags OR FEATURE_ACTIVE_CONNECTIONS OR FEATURE_REMOTE_CACHING OR FEATURE_PAIRING
        OR FEATURE_CACHE_CLEARING OR FEATURE_CONNECTION_PARAMS_SETTING
      else flags)"

text \<open>The mode of the scanner is announced as settable; setting it does nothing.\<close>

definition bluetooth_scanner_set_mode :: "bool \<Rightarrow> proxy \<Rightarrow> proxy" where
  "bluetooth_scanner_set_mode active p = p"

lemma scanner_mode_announced_but_fixed:
  "get_feature_flags p AND FEATURE_STATE_AND_MODE \<noteq> 0 \<and> bluetooth_scanner_set_mode active p = p"
  "get_feature_flags p AND FEATURE_ACTIVE_CONNECTIONS \<noteq> 0 \<longleftrightarrow> px_active p"
  by (simp_all add: get_feature_flags_def bluetooth_scanner_set_mode_def FEATURE_PASSIVE_SCAN_def FEATURE_RAW_ADVERTISEMENTS_def
      FEATURE_STATE_AND_MODE_def FEATURE_ACTIVE_CONNECTIONS_def FEATURE_REMOTE_CACHING_def FEATURE_PAIRING_def
      FEATURE_CACHE_CLEARING_def FEATURE_CONNECTION_PARAMS_SETTING_def)

definition send_message :: "api_msg \<Rightarrow> proxy \<Rightarrow> proxy" where
  "send_message m p = p\<lparr>px_sent := px_sent p @ [m]\<rparr>"

definition send_if :: "api_msg \<Rightarrow> proxy \<Rightarrow> proxy" where
  "send_if m p = (if px_api p = None then p else send_message m p)"

definition on_conn :: "nat \<Rightarrow> (bt_connection \<Rightarrow> bt_connection) \<Rightarrow> proxy \<Rightarrow> proxy" where
  "on_conn i f p = p\<lparr>px_conns := (px_conns p)[i := f (px_conns p ! i)]\<rparr>"

definition on_base :: "nat \<Rightarrow> (ble_client \<Rightarrow> ble_client) \<Rightarrow> proxy \<Rightarrow> proxy" where
  "on_base i f p = on_conn i (\<lambda>c. c\<lparr>bc_base := f (bc_base c)\<rparr>) p"

abbreviation base :: "proxy \<Rightarrow> nat \<Rightarrow> ble_client" where
  "base p i \<equiv> bc_base (px_conns p ! i)"

abbreviation conn_addr :: "proxy \<Rightarrow> nat \<Rightarrow> u64" where
  "conn_addr p i \<equiv> cl_address (base p i)"

section \<open>Responses\<close>

definition send_device_connection :: "u64 \<Rightarrow> bool \<Rightarrow> u16 \<Rightarrow> int \<Rightarrow> proxy \<Rightarrow> proxy" where
  "send_device_connection a c mtu err p = send_if (M_DeviceConnection a c mtu err) p"

definition send_connections_free :: "proxy \<Rightarrow> proxy" where
  "send_connections_free p = send_if (M_ConnectionsFree (px_free p) (px_limit p) (px_allocated p)) p"

definition send_gatt_services_done :: "u64 \<Rightarrow> proxy \<Rightarrow> proxy" where
  "send_gatt_services_done a p = send_if (M_GattServicesDone a) p"

definition send_gatt_error :: "u64 \<Rightarrow> u16 \<Rightarrow> int \<Rightarrow> proxy \<Rightarrow> proxy" where
  "send_gatt_error a h err p = send_if (M_GattError a h err) p"

definition send_device_pairing :: "u64 \<Rightarrow> bool \<Rightarrow> int \<Rightarrow> proxy \<Rightarrow> proxy" where
  "send_device_pairing a ok err p = send_if (M_DevicePairing a ok err) p"

definition send_device_unpairing :: "u64 \<Rightarrow> bool \<Rightarrow> int \<Rightarrow> proxy \<Rightarrow> proxy" where
  "send_device_unpairing a ok err p = send_if (M_DeviceUnpairing a ok err) p"

definition handle_gatt_not_connected :: "u64 \<Rightarrow> u16 \<Rightarrow> proxy \<Rightarrow> proxy" where
  "handle_gatt_not_connected a h p = send_gatt_error a h ESP_GATT_NOT_CONNECTED p"

definition send_scanner_state :: "bool \<Rightarrow> proxy \<Rightarrow> proxy" where
  "send_scanner_state active p = send_message (M_ScannerState active (px_configured_scan_active p)) p"

definition on_scanner_state :: "bool \<Rightarrow> proxy \<Rightarrow> proxy" where
  "on_scanner_state active p = (if px_api p \<noteq> None then send_scanner_state active p else p)"

definition subscribe_api_connection :: "nat \<Rightarrow> bool \<Rightarrow> proxy \<Rightarrow> proxy" where
  "subscribe_api_connection a active p =
     (if px_api p \<noteq> None then p else send_scanner_state active (p\<lparr>px_api := Some a\<rparr>))"

definition unsubscribe_api_connection :: "nat \<Rightarrow> proxy \<Rightarrow> proxy" where
  "unsubscribe_api_connection a p = (if px_api p \<noteq> Some a then p else p\<lparr>px_api := None\<rparr>)"

section \<open>Advertisements\<close>

text \<open>\<open>append_ad\<close>: a structure that does not fit the 62-byte buffer is left out.\<close>

definition append_ad :: "u8 \<Rightarrow> bytes \<Rightarrow> bytes \<Rightarrow> bytes" where
  "append_ad ty x buf =
     (if length buf + 2 + length x > 62 then buf else buf @ [of_nat (length x + 1), ty] @ x)"

definition service_data_bytes :: "ServiceData \<Rightarrow> bytes" where
  "service_data_bytes sd =
     [ucast (get_16bit (sd_uuid sd) AND 0xff), ucast (drop_bit 8 (get_16bit (sd_uuid sd)) AND 0xff)]
     @ take 29 (sd_data sd)"

definition serialize_device :: "ESPBTDevice \<Rightarrow> bytes" where
  "serialize_device d =
     (let b0 = (case ad_flag d of None \<Rightarrow> [] | Some f \<Rightarrow> append_ad 0x01 [f] []);
          b1 = fold (\<lambda>md b. append_ad 0xFF (take 30 (sd_data md)) b) (manufacturer_datas d) b0;
          b2 = fold (\<lambda>sd b. append_ad 0x16 (service_data_bytes sd) b) (service_datas d) b1
      in if dev_name d = '''' then b2
         else append_ad 0x09 (take 28 (bytes_of_string (dev_name d))) b2)"

definition flush_pending_advertisements :: "proxy \<Rightarrow> proxy" where
  "flush_pending_advertisements p =
     (if px_adverts p = [] then p else (send_message (M_Adverts (px_adverts p)) p)\<lparr>px_adverts := []\<rparr>)"

text \<open>\<open>connected\<close> is \<open>global_api_server->is_connected()\<close>.\<close>

definition proxy_parse_device :: "bool \<Rightarrow> ESPBTDevice \<Rightarrow> proxy \<Rightarrow> bool \<times> proxy" where
  "proxy_parse_device connected d p =
     (if \<not> connected \<or> px_api p = None then (False, p)
      else
        let adv = \<lparr>ra_address = address_uint64 d, ra_rssi = dev_rssi d, ra_address_type = 0,
                   ra_data = serialize_device d\<rparr>;
            p1 = p\<lparr>px_adverts := px_adverts p @ [adv]\<rparr>
        in (True, if BATCH_SIZE \<le> length (px_adverts p1) then flush_pending_advertisements p1 else p1))"

section \<open>UUID packing\<close>

text \<open>\<open>be64\<close> of bytes 15..8 and 7..0 of the little-endian array, most significant first.\<close>

definition be64 :: "bytes \<Rightarrow> nat \<Rightarrow> u64" where
  "be64 b k = push_bit 56 (ucast (b ! (k + 7))) OR push_bit 48 (ucast (b ! (k + 6)))
     OR push_bit 40 (ucast (b ! (k + 5))) OR push_bit 32 (ucast (b ! (k + 4)))
     OR push_bit 24 (ucast (b ! (k + 3))) OR push_bit 16 (ucast (b ! (k + 2)))
     OR push_bit 8 (ucast (b ! (k + 1))) OR ucast (b ! k)"

definition fill_128bit_uuid_array :: "esp_bt_uuid_t \<Rightarrow> u64 \<times> u64" where
  "fill_128bit_uuid_array u =
     (if bt_len u = 16 then be64 (bt_union u) 8
      else push_bit 32 (if bt_len u = 2 then ucast (bt_uuid16 u) else ucast (bt_uuid32 u)) OR 0x1000,
      if bt_len u = 16 then be64 (bt_union u) 0 else 0x800000805F9B34FB)"

definition fill_gatt_uuid :: "esp_bt_uuid_t \<Rightarrow> bool \<Rightarrow> gatt_uuid" where
  "fill_gatt_uuid u efficient =
     (let z = \<lparr>uuid_hi = 0, uuid_lo = 0, short_uuid = 0\<rparr> in
      if \<not> efficient \<or> bt_len u = 16 then
        z\<lparr>uuid_hi := fst (fill_128bit_uuid_array u), uuid_lo := snd (fill_128bit_uuid_array u)\<rparr>
      else if bt_len u = 2 then z\<lparr>short_uuid := ucast (bt_uuid16 u)\<rparr>
      else if bt_len u = 4 then z\<lparr>short_uuid := bt_uuid32 u\<rparr>
      else z)"

section \<open>Connections\<close>

fun update_allocated_slot :: "u64 \<Rightarrow> u64 \<Rightarrow> u64 list \<Rightarrow> u64 list" where
  "update_allocated_slot f v [] = []"
| "update_allocated_slot f v (x # xs) = (if x = f then v # xs else x # update_allocated_slot f v xs)"

definition conn_set_address :: "nat \<Rightarrow> u64 \<Rightarrow> proxy \<Rightarrow> proxy" where
  "conn_set_address i a p =
     (let cur = conn_addr p i;
          p1 = (if a = 0 \<and> cur \<noteq> 0 then
                  p\<lparr>px_free := px_free p + 1, px_allocated := update_allocated_slot cur 0 (px_allocated p)\<rparr>
                else if a \<noteq> 0 \<and> cur = 0 then
                  p\<lparr>px_free := px_free p - 1, px_allocated := update_allocated_slot 0 a (px_allocated p)\<rparr>
                else p)
      in on_base i (client_set_address a) p1)"

definition reset_connection :: "nat \<Rightarrow> int \<Rightarrow> proxy \<Rightarrow> proxy" where
  "reset_connection i reason p =
     (let p1 = send_device_connection (conn_addr p i) False 0 reason p;
          p2 = conn_set_address i 0 p1;
          p3 = on_conn i (\<lambda>c. c\<lparr>send_service := - 3, seen_services := False\<rparr>) p2
      in send_connections_free p3)"

definition on_disconnect_complete :: "nat \<Rightarrow> int \<Rightarrow> proxy \<Rightarrow> proxy" where
  "on_disconnect_complete i reason p = (if conn_addr p i = 0 then p else reset_connection i reason p)"

text \<open>The base class runs first, and calls \<open>on_disconnect_complete\<close> as its last action on DISCONNECTED.\<close>

definition answer_event :: "nat \<Rightarrow> HostGattEvent \<Rightarrow> proxy \<Rightarrow> proxy" where
  "answer_event i ev p =
     (let a = conn_addr p i;
          reply = (\<lambda>m. if ev_status ev \<noteq> ESP_GATT_OK then send_gatt_error a (ev_handle ev) (ev_status ev) p
                        else send_if m p)
      in case ev_kind ev of
           E_SERVICES_DISCOVERED \<Rightarrow> send_connections_free (send_device_connection a True (cl_mtu (base p i)) 0 p)
         | E_READ_COMPLETE \<Rightarrow> reply (M_GattRead a (ev_handle ev) (ev_data ev) (ev_len ev))
         | E_DESC_READ \<Rightarrow> reply (M_GattRead a (ev_handle ev) (ev_data ev) (ev_len ev))
         | E_WRITE_COMPLETE \<Rightarrow> reply (M_GattWrite a (ev_handle ev))
         | E_DESC_WRITE \<Rightarrow> reply (M_GattWrite a (ev_handle ev))
         | E_NOTIFY_REGISTERED \<Rightarrow> reply (M_GattNotify a (ev_handle ev))
         | E_NOTIFY \<Rightarrow> send_if (M_GattNotifyData a (ev_handle ev) (ev_data ev) (ev_len ev)) p
         | E_PAIRING_COMPLETE \<Rightarrow>
             send_device_pairing a (pairing_success ev) (if pairing_success ev then 0 else disc_reason ev) p
         | _ \<Rightarrow> p)"

definition conn_dispatch :: "u32 \<Rightarrow> nat \<Rightarrow> HostGattEvent \<Rightarrow> proxy \<Rightarrow> proxy" where
  "conn_dispatch now i ev p =
     (let p1 = on_base i (client_dispatch now ev) p;
          p2 = (if ev_kind ev = E_DISCONNECTED then on_disconnect_complete i (disc_reason ev) p1 else p1)
      in answer_event i ev p2)"

definition desc_response :: "bool \<Rightarrow> BLEDescriptor \<Rightarrow> desc_resp" where
  "desc_response eff d = \<lparr>dr_uuid = fill_gatt_uuid (get_uuid (desc_uuid d)) eff, dr_handle = desc_handle d\<rparr>"

definition chr_response :: "bool \<Rightarrow> BLECharacteristic \<Rightarrow> chr_resp" where
  "chr_response eff x = \<lparr>cr_uuid = fill_gatt_uuid (get_uuid (chr_uuid x)) eff, cr_handle = chr_handle x,
     cr_properties = chr_properties x, cr_descriptors = map (desc_response eff) (chr_descriptors x)\<rparr>"

definition svc_response :: "bool \<Rightarrow> BLEService \<Rightarrow> svc_resp" where
  "svc_response eff s = \<lparr>sr_uuid = fill_gatt_uuid (get_uuid (svc_uuid s)) eff, sr_handle = start_handle s,
     sr_characteristics = map (chr_response eff) (svc_characteristics s)\<rparr>"

definition MAX_PACKET_SIZE :: nat where "MAX_PACKET_SIZE = 1360"

text \<open>The \<open>while\<close> loop over the services not yet sent; the result is the batch. The index is an int16 in the
  code; the model covers trees of fewer than 32768 services.\<close>

fun service_batch :: "(svc_resp \<Rightarrow> nat) \<Rightarrow> bool \<Rightarrow> BLEService list \<Rightarrow> nat \<Rightarrow> svc_resp list \<Rightarrow> svc_resp list" where
  "service_batch svc_size eff [] cur acc = acc"
| "service_batch svc_size eff (s # ss) cur acc =
     (if acc \<noteq> [] \<and> cur + (25 + length (svc_characteristics s) * 60) > MAX_PACKET_SIZE then acc
      else let r = svc_response eff s
           in service_batch svc_size eff ss (cur + svc_size r + 1) (acc @ [r]))"

definition send_service_for_discovery ::
    "(svc_resp \<Rightarrow> nat) \<Rightarrow> (u64 \<Rightarrow> nat) \<Rightarrow> bool \<Rightarrow> nat \<Rightarrow> proxy \<Rightarrow> proxy" where
  "send_service_for_discovery svc_size resp_size efficient i p =
     (let ss = send_service (px_conns p ! i); svcs = cl_services (base p i); a = conn_addr p i in
      if sint ss < 0 \<or> unat ss \<ge> length svcs then
        on_base i release_services
          (send_gatt_services_done a (on_conn i (\<lambda>c. c\<lparr>send_service := DONE_SENDING_SERVICES\<rparr>) p))
      else if px_api p = None then on_conn i (\<lambda>c. c\<lparr>send_service := - 2\<rparr>) p
      else
        let batch = service_batch svc_size efficient (drop (unat ss) svcs) (resp_size a) []
        in send_message (M_GattServices a batch)
             (on_conn i (\<lambda>c. c\<lparr>send_service := ss + of_nat (length batch)\<rparr>) p))"

text \<open>\<open>BluetoothConnection::loop\<close>: the base loop with this class's \<open>dispatch_event_\<close>, then one batch.\<close>

definition conn_base_loop :: "u32 \<Rightarrow> nat \<Rightarrow> proxy \<Rightarrow> proxy" where
  "conn_base_loop now i p =
     (let p1 = (case cl_host (base p i) of
                  None \<Rightarrow> p
                | Some h \<Rightarrow> fold (conn_dispatch now i) (fst (drain_events h))
                             (on_base i (\<lambda>c. c\<lparr>cl_host := Some (snd (drain_events h))\<rparr>) p));
          p2 = (if cl_state (base p1 i) = CONNECTING \<and> now - connecting_started (base p1 i) > CONNECT_TIMEOUT_MS
                then conn_dispatch now i timeout_event (on_base i (with_host (enqueue_command C_DISCONNECT)) p1)
                else p1)
      in if cl_state (base p2 i) = DISCONNECTING \<and> now - disconnecting_started (base p2 i) > DISCONNECT_TIMEOUT_MS
         then conn_dispatch now i timeout_event p2 else p2)"

definition conn_loop :: "(svc_resp \<Rightarrow> nat) \<Rightarrow> (u64 \<Rightarrow> nat) \<Rightarrow> bool \<Rightarrow> u32 \<Rightarrow> nat \<Rightarrow> proxy \<Rightarrow> proxy" where
  "conn_loop svc_size resp_size efficient now i p =
     (let p1 = conn_base_loop now i p; ss = send_service (px_conns p1 ! i) in
      if conn_addr p1 i = 0 then p1
      else if 0 \<le> sint ss \<and> sint ss \<le> sint (of_nat (length (cl_services (base p1 i))) :: 16 word)
      then send_service_for_discovery svc_size resp_size efficient i p1
      else p1)"

section \<open>Proxy loop and slots\<close>

definition proxy_loop :: "bool \<Rightarrow> u32 \<Rightarrow> proxy \<Rightarrow> proxy" where
  "proxy_loop connected now p =
     (if now - last_flush p < 100 then p
      else
        let p1 = p\<lparr>last_flush := now\<rparr> in
        if connected \<and> px_api p1 \<noteq> None then flush_pending_advertisements p1
        else fold (\<lambda>i q. if conn_addr q i \<noteq> 0 \<and> \<not> want_disconnect (base q i)
                         then on_base i (client_disconnect now) q else q) [0..<length (px_conns p1)] p1)"

function get_connection_from :: "nat \<Rightarrow> u64 \<Rightarrow> bool \<Rightarrow> proxy \<Rightarrow> nat option \<times> proxy" where
  "get_connection_from i a reserve p =
     (if i < length (px_conns p) then
        if conn_addr p i = a then (Some i, p)
        else if reserve \<and> conn_addr p i = 0 then
          (Some i, on_base i (client_set_state INIT)
                     (conn_set_address i a (on_conn i (\<lambda>c. c\<lparr>send_service := INIT_SENDING_SERVICES\<rparr>) p)))
        else get_connection_from (Suc i) a reserve p
      else (None, p))"
  by pat_completeness auto
termination by (relation "measure (\<lambda>(i, a, r, p). length (px_conns p) - i)") auto

declare get_connection_from.simps [simp del]

definition get_connection :: "u64 \<Rightarrow> bool \<Rightarrow> proxy \<Rightarrow> nat option \<times> proxy" where
  "get_connection a reserve p = get_connection_from 0 a reserve p"

section \<open>Requests of the API client\<close>

datatype device_request =
    DR_CONNECT_V3_WITH_CACHE
  | DR_CONNECT_V3_WITHOUT_CACHE
  | DR_DISCONNECT
  | DR_PAIR
  | DR_UNPAIR
  | DR_CLEAR_CACHE
  | DR_CONNECT

definition connect_request :: "ConnectionType \<Rightarrow> u64 \<Rightarrow> bool \<Rightarrow> proxy \<Rightarrow> proxy" where
  "connect_request ct a has_address_type p =
     (case get_connection a True p of
        (None, q) \<Rightarrow> send_device_connection a False 0 0 q
      | (Some i, q) \<Rightarrow>
          if \<not> has_address_type then send_device_connection a False 0 0 q
          else if cl_state (base q i) = CONNECTED \<or> cl_state (base q i) = ESTABLISHED
          then send_connections_free (send_device_connection a True 0 0 q)
          else if cl_state (base q i) = CONNECTING then
            (if want_disconnect (base q i) then on_base i (\<lambda>c. c\<lparr>want_disconnect := False\<rparr>) q else q)
          else if cl_state (base q i) \<noteq> INIT then q
          else send_connections_free
                 (on_base i (client_set_state DISCOVERED) (on_base i (\<lambda>c. c\<lparr>connection_type := ct\<rparr>) q)))"

definition disconnect_request :: "u32 \<Rightarrow> u64 \<Rightarrow> proxy \<Rightarrow> proxy" where
  "disconnect_request now a p =
     (case get_connection a False p of
        (None, q) \<Rightarrow> send_connections_free (send_device_connection a False 0 0 q)
      | (Some i, q) \<Rightarrow>
          if cl_state (base q i) \<noteq> IDLE then on_base i (client_disconnect now) q
          else send_connections_free (send_device_connection a False 0 0 (conn_set_address i 0 q)))"

definition bluetooth_device_request :: "u32 \<Rightarrow> device_request \<Rightarrow> u64 \<Rightarrow> bool \<Rightarrow> proxy \<Rightarrow> proxy option" where
  "bluetooth_device_request now req a has_address_type p =
     (case req of
        DR_CONNECT_V3_WITH_CACHE \<Rightarrow> Some (connect_request V3_WITH_CACHE a has_address_type p)
      | DR_CONNECT_V3_WITHOUT_CACHE \<Rightarrow> Some (connect_request V3_WITHOUT_CACHE a has_address_type p)
      | DR_DISCONNECT \<Rightarrow> Some (disconnect_request now a p)
      | DR_PAIR \<Rightarrow> Some
          (case get_connection a False p of
             (None, q) \<Rightarrow> q
           | (Some i, q) \<Rightarrow>
               if \<not> cl_paired (base q i) then
                 (let (err, c) = client_pair (base q i); q1 = on_base i (\<lambda>_. c) q
                  in if err \<noteq> 0 then send_device_pairing a False err q1 else q1)
               else send_device_pairing a True 0 q)
      | DR_UNPAIR \<Rightarrow> Some
          (case get_connection a False p of
             (None, q) \<Rightarrow> send_device_pairing a False ESP_GATT_NOT_FOUND q
           | (Some i, q) \<Rightarrow> send_device_pairing a False 0 (on_base i (\<lambda>c. snd (remove_bond c)) q))
      | DR_CLEAR_CACHE \<Rightarrow> if px_api p = None then None else Some (send_message (M_ClearCache a True 0) p)
      | DR_CONNECT \<Rightarrow> Some (send_device_connection a False 0 0 p))"

definition gatt_request :: "HostGattCommand \<Rightarrow> u64 \<Rightarrow> u16 \<Rightarrow> proxy \<Rightarrow> proxy" where
  "gatt_request cmd a handle p =
     (case get_connection a False p of
        (None, q) \<Rightarrow> handle_gatt_not_connected a handle q
      | (Some i, q) \<Rightarrow>
          let (err, c) = client_request cmd (base q i); q1 = on_base i (\<lambda>_. c) q
          in if err \<noteq> 0 then send_gatt_error a handle err q1 else q1)"

definition bluetooth_gatt_read :: "u64 \<Rightarrow> u16 \<Rightarrow> proxy \<Rightarrow> proxy" where
  "bluetooth_gatt_read a h = gatt_request (C_READ_CHAR h) a h"

definition bluetooth_gatt_write :: "u64 \<Rightarrow> u16 \<Rightarrow> bytes \<Rightarrow> bool \<Rightarrow> proxy \<Rightarrow> proxy" where
  "bluetooth_gatt_write a h bs resp = gatt_request (C_WRITE_CHAR h bs resp) a h"

definition bluetooth_gatt_read_descriptor :: "u64 \<Rightarrow> u16 \<Rightarrow> proxy \<Rightarrow> proxy" where
  "bluetooth_gatt_read_descriptor a h = gatt_request (C_READ_DESC h) a h"

definition bluetooth_gatt_write_descriptor :: "u64 \<Rightarrow> u16 \<Rightarrow> bytes \<Rightarrow> proxy \<Rightarrow> proxy" where
  "bluetooth_gatt_write_descriptor a h bs = gatt_request (C_WRITE_DESC h bs True) a h"

definition bluetooth_gatt_notify :: "u64 \<Rightarrow> u16 \<Rightarrow> bool \<Rightarrow> proxy \<Rightarrow> proxy" where
  "bluetooth_gatt_notify a h enable = gatt_request (C_SET_NOTIFY h enable) a h"

definition bluetooth_gatt_send_services :: "u64 \<Rightarrow> proxy \<Rightarrow> proxy" where
  "bluetooth_gatt_send_services a p =
     (case get_connection a False p of
        (None, q) \<Rightarrow> handle_gatt_not_connected a 0 q
      | (Some i, q) \<Rightarrow>
          if cl_state (base q i) \<noteq> ESTABLISHED then handle_gatt_not_connected a 0 q
          else if cl_services (base q i) = [] then send_gatt_services_done a q
          else if send_service (px_conns q ! i) = INIT_SENDING_SERVICES
          then on_conn i (\<lambda>c. c\<lparr>send_service := 0\<rparr>) q else q)"

definition bluetooth_set_connection_params :: "u64 \<Rightarrow> proxy \<Rightarrow> proxy" where
  "bluetooth_set_connection_params a p =
     (if px_api p = None then p
      else case get_connection a False p of
        (None, q) \<Rightarrow> send_message (M_ConnectionParams a ESP_GATT_NOT_CONNECTED) q
      | (Some i, q) \<Rightarrow>
          if cl_state (base q i) \<noteq> ESTABLISHED then send_message (M_ConnectionParams a ESP_GATT_NOT_CONNECTED) q
          else send_message (M_ConnectionParams a 0) q)"


section \<open>Slot accounting\<close>

definition addrs :: "proxy \<Rightarrow> u64 list" where
  "addrs p = map (\<lambda>c. cl_address (bc_base c)) (px_conns p)"

definition slot_view :: "proxy \<Rightarrow> u64 list \<times> u32 \<times> u64 list" where
  "slot_view p = (px_allocated p, px_free p, addrs p)"

definition slots_ok :: "nat \<Rightarrow> proxy \<Rightarrow> bool" where
  "slots_ok n p \<longleftrightarrow> length (addrs p) \<le> n \<and> length (px_allocated p) = n
     \<and> filter_mset (\<lambda>a. a \<noteq> 0) (mset (px_allocated p)) = filter_mset (\<lambda>a. a \<noteq> 0) (mset (addrs p))
     \<and> px_free p = of_nat n - of_nat (size (filter_mset (\<lambda>a. a \<noteq> 0) (mset (addrs p))))"

lemma slots_ok_view: "slot_view q = slot_view p \<Longrightarrow> slots_ok n p \<Longrightarrow> slots_ok n q"
  by (simp add: slots_ok_def slot_view_def)

named_theorems slot_frame \<open>operations that leave the slot accounting alone\<close>

lemma view_send [slot_frame]:
  "slot_view (send_message m p) = slot_view p" "slot_view (send_if m p) = slot_view p"
  "slot_view (send_device_connection a c mtu err p) = slot_view p"
  "slot_view (send_connections_free p) = slot_view p" "slot_view (send_gatt_services_done a p) = slot_view p"
  "slot_view (send_gatt_error a h err p) = slot_view p" "slot_view (send_device_pairing a ok err p) = slot_view p"
  "slot_view (handle_gatt_not_connected a h p) = slot_view p"
  "slot_view (flush_pending_advertisements p) = slot_view p"
  by (simp_all add: slot_view_def addrs_def send_message_def send_if_def send_device_connection_def
      send_connections_free_def send_gatt_services_done_def send_gatt_error_def send_device_pairing_def
      handle_gatt_not_connected_def flush_pending_advertisements_def)

lemma addrs_on_conn: "addrs (on_conn i f p) = (addrs p)[i := cl_address (bc_base (f (px_conns p ! i)))]"
  by (simp add: addrs_def on_conn_def map_update)

lemma addrs_on_base: "addrs (on_base i f p) = (addrs p)[i := cl_address (f (base p i))]"
  by (simp add: on_base_def addrs_on_conn)

lemma addrs_self: "(addrs p)[i := conn_addr p i] = addrs p"
  by (cases "i < length (px_conns p)") (simp_all add: addrs_def list_update_same_conv list_update_beyond)

lemma view_on_base [slot_frame]:
  "cl_address (f (base p i)) = conn_addr p i \<Longrightarrow> slot_view (on_base i f p) = slot_view p"
  by (simp add: slot_view_def addrs_on_base addrs_self) (simp add: on_base_def on_conn_def)

lemma view_on_conn [slot_frame]:
  "bc_base (f (px_conns p ! i)) = base p i \<Longrightarrow> slot_view (on_conn i f p) = slot_view p"
  by (simp add: slot_view_def addrs_on_conn addrs_self) (simp add: on_conn_def)

lemma client_keeps_address [slot_frame]:
  "cl_address (client_set_state st c) = cl_address c" "cl_address (client_connect now c) = cl_address c"
  "cl_address (client_disconnect now c) = cl_address c" "cl_address (client_dispatch now ev c) = cl_address c"
  "cl_address (with_host f c) = cl_address c" "cl_address (snd (client_request cmd c)) = cl_address c"
  "cl_address (snd (client_pair c)) = cl_address c" "cl_address (snd (remove_bond c)) = cl_address c"
  "cl_address (release_services c) = cl_address c" "cl_address (snd (client_parse_device d c)) = cl_address c"
  by (auto simp: client_ops client_dispatch_def client_pair_def remove_bond_def Let_def split: EventKind.split)

lemma mset_update_slot:
  "mset (update_allocated_slot f v xs) = (if f \<in> set xs then add_mset v (mset xs - {#f#}) else mset xs)"
  by (induction xs) auto

lemma length_update_slot [simp]: "length (update_allocated_slot f v xs) = length xs"
  by (induction xs) auto

text \<open>When the nonzero addresses are those of the connections and one connection has none, there is a free slot.\<close>
lemma zero_slot:
  assumes "filter_mset (\<lambda>a. a \<noteq> (0 :: u64)) (mset al) = filter_mset (\<lambda>a. a \<noteq> 0) (mset ad)" "0 \<in> set ad" "length ad \<le> length al"
  shows "0 \<in> set al"
proof (rule ccontr)
  let ?NZ = "filter_mset (\<lambda>a. a \<noteq> (0 :: u64))"
  assume "0 \<notin> set al"
  then have "?NZ (mset al) = mset al" by (subst filter_mset_eq_conv) auto
  then have "length (filter (\<lambda>a. a \<noteq> 0) ad) = length al"
    using arg_cong [OF assms(1), of size] by (simp flip: mset_filter)
  moreover have "length (filter (\<lambda>a. a \<noteq> 0) ad) < length ad" by (rule length_filter_less [OF assms(2)]) simp
  ultimately show False using assms(3) by simp
qed

lemma conn_set_address_effect:
  "addrs (conn_set_address i a p) = (addrs p)[i := a]"
  "a = 0 \<Longrightarrow> conn_addr p i \<noteq> 0 \<Longrightarrow> px_free (conn_set_address i a p) = px_free p + 1
    \<and> px_allocated (conn_set_address i a p) = update_allocated_slot (conn_addr p i) 0 (px_allocated p)"
  "a \<noteq> 0 \<Longrightarrow> conn_addr p i = 0 \<Longrightarrow> px_free (conn_set_address i a p) = px_free p - 1
    \<and> px_allocated (conn_set_address i a p) = update_allocated_slot 0 a (px_allocated p)"
  "a = 0 \<Longrightarrow> conn_addr p i = 0 \<Longrightarrow> px_free (conn_set_address i a p) = px_free p
    \<and> px_allocated (conn_set_address i a p) = px_allocated p"
proof -
  show "addrs (conn_set_address i a p) = (addrs p)[i := a]"
    by (simp add: conn_set_address_def Let_def addrs_on_base client_set_address_def) (simp add: addrs_def)
qed (simp_all add: conn_set_address_def on_base_def on_conn_def Let_def)

lemma conn_set_address_slots:
  assumes "slots_ok n p" "i < length (px_conns p)" "a = 0 \<or> conn_addr p i = 0"
  shows "slots_ok n (conn_set_address i a p)"
proof -
  let ?NZ = "\<lambda>M. filter_mset (\<lambda>a. a \<noteq> (0 :: u64)) M"
  let ?cur = "conn_addr p i"
  have i: "i < length (addrs p)" "addrs p ! i = ?cur" using assms(2) by (simp_all add: addrs_def)
  note ad = conn_set_address_effect(1) and eff = conn_set_address_effect(2-)
  have ms: "mset ((addrs p)[i := a]) = add_mset a (mset (addrs p) - {#?cur#})"
    using i by (simp add: mset_update)
  have cin: "?cur \<in># mset (addrs p)" using i by (metis nth_mem_mset)
  have al: "?NZ (mset (px_allocated p)) = ?NZ (mset (addrs p))" and len: "length (px_allocated p) = n" "length (addrs p) \<le> n"
    and fr: "px_free p = of_nat n - of_nat (size (?NZ (mset (addrs p))))"
    using assms(1) by (simp_all add: slots_ok_def)
  consider (free) "a = 0" "?cur \<noteq> 0" | (alloc) "a \<noteq> 0" "?cur = 0" | (same) "a = 0" "?cur = 0"
    using assms(3) by blast
  then show ?thesis
  proof cases
    case free
    note px = eff(1) [OF free, THEN conjunct1] eff(1) [OF free, THEN conjunct2]
    have cNZ: "?cur \<in># ?NZ (mset (addrs p))" using cin free by simp
    then have "?cur \<in># ?NZ (mset (px_allocated p))" by (simp only: al)
    then have inal: "?cur \<in> set (px_allocated p)" by simp
    have s: "size (?NZ (mset (addrs p))) = Suc (size (?NZ (mset (addrs p)) - {#?cur#}))"
      using cNZ by (metis size_Suc_Diff1)
    show ?thesis
      unfolding slots_ok_def ad ms px
      using free inal al len fr s i by (simp add: mset_update_slot filter_diff_mset)
  next
    case alloc
    note px = eff(2) [OF alloc, THEN conjunct1] eff(2) [OF alloc, THEN conjunct2]
    have "0 \<in> set (addrs p)" using cin alloc(2) by simp
    from zero_slot [OF al this] len have zin: "0 \<in> set (px_allocated p)" by simp
    show ?thesis
      unfolding slots_ok_def ad ms px
      using alloc zin al len fr i by (simp add: mset_update_slot filter_diff_mset)
  next
    case same
    note px = eff(3) [OF same, THEN conjunct1] eff(3) [OF same, THEN conjunct2]
    have "(addrs p)[i := a] = addrs p" using same i by (metis list_update_id)
    then show ?thesis using assms(1) by (simp add: slots_ok_def ad px)
  qed
qed


text \<open>\<open>slots n k p\<close>: the accounting is right and the proxy has \<open>k\<close> connections.\<close>

definition slots :: "nat \<Rightarrow> nat \<Rightarrow> proxy \<Rightarrow> bool" where
  "slots n k p \<longleftrightarrow> slots_ok n p \<and> length (px_conns p) = k"

lemma slots_view: "slots n k p \<Longrightarrow> slot_view q = slot_view p \<Longrightarrow> slots n k q"
proof -
  assume a: "slots n k p" "slot_view q = slot_view p"
  have "length (addrs q) = length (addrs p)" using a(2) by (simp add: slot_view_def)
  then show "slots n k q" using a slots_ok_view [OF a(2)] by (simp add: slots_def addrs_def)
qed

lemma slots_set_address:
  "slots n k p \<Longrightarrow> i < k \<Longrightarrow> a = 0 \<or> conn_addr p i = 0 \<Longrightarrow> slots n k (conn_set_address i a p)"
  using conn_set_address_slots [of n p i a] by (simp add: slots_def conn_set_address_def on_base_def on_conn_def Let_def)

lemma slots_reset: "slots n k p \<Longrightarrow> i < k \<Longrightarrow> slots n k (reset_connection i reason p)"
proof -
  assume a: "slots n k p" "i < k"
  let ?p1 = "send_device_connection (conn_addr p i) False 0 reason p"
  have "slots n k ?p1" using slots_view [OF a(1)] by (simp add: slot_frame)
  then have "slots n k (conn_set_address i 0 ?p1)" using a(2) by (simp add: slots_set_address)
  then show ?thesis unfolding reset_connection_def Let_def by (rule slots_view) (simp add: slot_frame)
qed

lemma view_answer: "slot_view (answer_event i ev p) = slot_view p"
  by (simp add: answer_event_def Let_def slot_frame split: EventKind.split)

lemma slots_dispatch: "slots n k p \<Longrightarrow> i < k \<Longrightarrow> slots n k (conn_dispatch now i ev p)"
proof -
  assume a: "slots n k p" "i < k"
  let ?p1 = "on_base i (client_dispatch now ev) p"
  have "slots n k ?p1" using slots_view [OF a(1)] by (simp add: slot_frame)
  then have "slots n k (if ev_kind ev = E_DISCONNECTED then on_disconnect_complete i (disc_reason ev) ?p1 else ?p1)"
    using a(2) by (simp add: on_disconnect_complete_def slots_reset)
  then show ?thesis unfolding conn_dispatch_def Let_def by (rule slots_view) (rule view_answer)
qed

lemma slots_fold: "(\<And>x q. slots n k q \<Longrightarrow> slots n k (f x q)) \<Longrightarrow> slots n k p \<Longrightarrow> slots n k (fold f xs p)"
  by (induction xs arbitrary: p) simp_all

lemma slots_base: "slots n k p \<Longrightarrow> cl_address (f (base p i)) = conn_addr p i \<Longrightarrow> slots n k (on_base i f p)"
  by (rule slots_view) (simp_all add: slot_frame)

lemma slots_base_loop: "slots n k p \<Longrightarrow> i < k \<Longrightarrow> slots n k (conn_base_loop now i p)"
proof -
  assume a: "slots n k p" "i < k"
  let ?p1 = "case cl_host (base p i) of None \<Rightarrow> p
      | Some h \<Rightarrow> fold (conn_dispatch now i) (fst (drain_events h)) (on_base i (\<lambda>c. c\<lparr>cl_host := Some (snd (drain_events h))\<rparr>) p)"
  have p1: "slots n k ?p1"
    using a by (auto split: option.split intro!: slots_fold slots_dispatch slots_base)
  let ?p2 = "if cl_state (base ?p1 i) = CONNECTING \<and> now - connecting_started (base ?p1 i) > CONNECT_TIMEOUT_MS
      then conn_dispatch now i timeout_event (on_base i (with_host (enqueue_command C_DISCONNECT)) ?p1) else ?p1"
  have p2: "slots n k ?p2" using p1 a(2) by (simp add: slots_dispatch slots_base slot_frame)
  show ?thesis unfolding conn_base_loop_def Let_def using p2 a(2) by (simp add: slots_dispatch)
qed

lemma view_send_service: "slot_view (send_service_for_discovery ss rs eff i p) = slot_view p"
  by (simp add: send_service_for_discovery_def Let_def slot_frame)

lemma slots_conn_loop: "slots n k p \<Longrightarrow> i < k \<Longrightarrow> slots n k (conn_loop ss rs eff now i p)"
  using slots_base_loop [of n k p i now] slots_view [OF _ view_send_service]
  by (simp add: conn_loop_def Let_def)

lemma slots_get_connection:
  "slots n k p \<Longrightarrow> slots n k (snd (get_connection_from j a r p))
   \<and> (case fst (get_connection_from j a r p) of None \<Rightarrow> snd (get_connection_from j a r p) = p
      | Some i \<Rightarrow> i < k \<and> j \<le> i)"
proof (induction j a r p rule: get_connection_from.induct)
  case (1 j a r p)
  show ?case
  proof (cases "j < length (px_conns p)")
    case False then show ?thesis using 1 by (simp add: get_connection_from.simps)
  next
    case True
    then have j: "j < k" using 1 by (simp add: slots_def)
    consider "conn_addr p j = a" | "conn_addr p j \<noteq> a" "r \<and> conn_addr p j = 0"
      | "conn_addr p j \<noteq> a" "\<not> (r \<and> conn_addr p j = 0)" by blast
    then show ?thesis
    proof cases
      case 1 then show ?thesis using True j "1.prems" by (simp add: get_connection_from.simps [of j])
    next
      case 2
      let ?p1 = "on_conn j (\<lambda>c. c\<lparr>send_service := INIT_SENDING_SERVICES\<rparr>) p"
      have s1: "slots n k ?p1" using slots_view [OF "1.prems"] by (simp add: slot_frame)
      have "conn_addr ?p1 j = 0" using 2 True by (simp add: on_conn_def)
      then have "slots n k (conn_set_address j a ?p1)" using s1 j by (simp add: slots_set_address)
      then show ?thesis using True 2 j
        by (simp add: get_connection_from.simps [of j] slots_base slot_frame)
    next
      case 3
      then show ?thesis using True "1.IH" [OF True] "1.prems" by (subst (1 2 3) get_connection_from.simps) (auto split: option.splits)
    qed
  qed
qed


lemma slots_get:
  assumes "slots n k p" "get_connection a r p = (oi, q)"
  shows "slots n k q" "oi = Some i \<Longrightarrow> i < k"
  using slots_get_connection [OF assms(1), of 0 a r] assms(2) by (auto simp: get_connection_def)

lemma slots_connect_request: "slots n k p \<Longrightarrow> slots n k (connect_request ct a t p)"
proof -
  assume s: "slots n k p"
  obtain oi q where g: "get_connection a True p = (oi, q)" by fastforce
  note q = slots_get [OF s g]
  show ?thesis
  proof (cases oi)
    case None
    then show ?thesis using slots_view [OF q(1)] by (simp add: connect_request_def g slot_frame)
  next
    case (Some i)
    have b: "slots n k (on_base i f q)" if "\<And>c. cl_address (f c) = cl_address c" for f
      using q(1) that by (simp add: slots_base)
    have v: "slot_view (on_base i (client_set_state DISCOVERED) (on_base i (\<lambda>c. c\<lparr>connection_type := ct\<rparr>) q)) = slot_view q"
      by (simp add: slot_frame)
    show ?thesis using Some q(1) b slots_view [OF q(1)] v
      by (auto simp: connect_request_def g slot_frame)
  qed
qed

lemma slots_disconnect_request: "slots n k p \<Longrightarrow> slots n k (disconnect_request now a p)"
proof -
  assume s: "slots n k p"
  obtain oi q where g: "get_connection a False p = (oi, q)" by fastforce
  note q = slots_get [OF s g]
  show ?thesis
  proof (cases oi)
    case None
    then show ?thesis using slots_view [OF q(1)] by (simp add: disconnect_request_def g slot_frame)
  next
    case (Some i)
    have "slots n k (conn_set_address i 0 q)" using slots_set_address [OF q(1), of i 0] q(2) [OF Some] by simp
    from slots_view [OF this] show ?thesis using Some slots_view [OF q(1)]
      by (simp add: disconnect_request_def g slot_frame)
  qed
qed

lemma slots_device_request: "slots n k p \<Longrightarrow> bluetooth_device_request now r a t p = Some p' \<Longrightarrow> slots n k p'"
proof -
  assume s: "slots n k p" and e: "bluetooth_device_request now r a t p = Some p'"
  obtain oi q where g: "get_connection a False p = (oi, q)" by fastforce
  note q = slots_get [OF s g]
  show ?thesis
    using e s slots_connect_request [OF s] slots_disconnect_request [OF s] q(1) slots_view [OF s] slots_view [OF q(1)]
    by (cases r; cases oi)
      (auto simp: bluetooth_device_request_def g slot_frame client_pair_def Let_def split: if_splits)
qed

lemma slots_gatt_request: "slots n k p \<Longrightarrow> slots n k (gatt_request cmd a h p)"
proof -
  assume s: "slots n k p"
  obtain oi q where g: "get_connection a False p = (oi, q)" by fastforce
  note q = slots_get [OF s g]
  have v: "slot_view (on_base i (\<lambda>_. snd (client_request cmd (base q i))) q) = slot_view q" for i
    by (simp add: slot_frame)
  show ?thesis using slots_view [OF q(1)] v
    by (cases oi) (auto simp: gatt_request_def g slot_frame case_prod_beta Let_def)
qed

lemma slots_other_requests:
  "slots n k p \<Longrightarrow> slots n k (bluetooth_gatt_send_services a p)"
  "slots n k p \<Longrightarrow> slots n k (bluetooth_set_connection_params a p)"
proof -
  assume s: "slots n k p"
  obtain oi q where g: "get_connection a False p = (oi, q)" by fastforce
  note q = slots_get [OF s g]
  show "slots n k (bluetooth_gatt_send_services a p)" "slots n k (bluetooth_set_connection_params a p)"
    using s q(1) slots_view [OF q(1)]
    by (cases oi; auto simp: bluetooth_gatt_send_services_def bluetooth_set_connection_params_def g slot_frame)+
qed

lemma slots_proxy_loop: "slots n k p \<Longrightarrow> slots n k (proxy_loop conn now p)"
proof -
  assume s: "slots n k p"
  have t: "slots n k (p\<lparr>last_flush := now\<rparr>)" using slots_view [OF s] by (simp add: slot_view_def addrs_def)
  have d: "slots n k (if conn_addr q i \<noteq> 0 \<and> \<not> want_disconnect (base q i) then on_base i (client_disconnect now) q else q)"
    if "slots n k q" for q i using that by (simp add: slots_base slot_frame)
  show ?thesis unfolding proxy_loop_def Let_def
    using s slots_view [OF t] slots_fold [OF d t] by (auto simp: slot_frame)
qed

section \<open>Executions\<close>

text \<open>The proxy, its connections, the tracker that promotes them and the worker behind them.\<close>

inductive px_op :: "proxy \<Rightarrow> proxy \<Rightarrow> bool" where
  PX_scanner: "px_op p (on_scanner_state active p)"
| PX_subscribe: "px_op p (subscribe_api_connection a active p)"
| PX_unsubscribe: "px_op p (unsubscribe_api_connection a p)"
| PX_loop: "px_op p (proxy_loop connected now p)"
| PX_conn_setup: "px_op p (on_base i client_setup p)"
| PX_conn_loop: "i < length (px_conns p) \<Longrightarrow> px_op p (conn_loop svc_size resp_size eff now i p)"
| PX_conn_listen: "px_op p (on_base i (\<lambda>c. snd (client_parse_device d c)) p)"
| PX_conn_connect: "px_op p (on_base i (client_connect now) p)"
| PX_worker: "px_op p (on_base i (\<lambda>c. c\<lparr>cl_host := h\<rparr>) p)"
| PX_device: "bluetooth_device_request now r a t p = Some p' \<Longrightarrow> px_op p p'"
| PX_gatt: "px_op p (gatt_request cmd a h p)"
| PX_services: "px_op p (bluetooth_gatt_send_services a p)"
| PX_params: "px_op p (bluetooth_set_connection_params a p)"

inductive px_step :: "proxy \<Rightarrow> proxy \<Rightarrow> bool" where
  PX_advert: "px_step p (snd (proxy_parse_device connected d p))"
| PX_op: "px_op p p' \<Longrightarrow> px_step p p'"

lemma slots_op: "px_op p p' \<Longrightarrow> slots n k p \<Longrightarrow> slots n k p'"
proof (induction rule: px_op.induct)
  case (PX_conn_loop i p svc_size resp_size eff now)
  then show ?case by (simp add: slots_conn_loop slots_def [of n k p])
qed (auto simp: slots_proxy_loop slots_gatt_request slots_other_requests
      on_scanner_state_def send_scanner_state_def subscribe_api_connection_def unsubscribe_api_connection_def
      client_setup_def slot_frame slot_view_def addrs_def send_message_def flush_pending_advertisements_def
      intro!: slots_base elim: slots_view slots_device_request)

lemma slots_step: "px_step p p' \<Longrightarrow> slots n k p \<Longrightarrow> slots n k p'"
  by (induction rule: px_step.induct)
    (auto simp: slots_op proxy_parse_device_def Let_def slot_view_def addrs_def send_message_def
      flush_pending_advertisements_def elim: slots_view)

definition started_proxy :: "nat \<Rightarrow> nat \<Rightarrow> bool \<Rightarrow> proxy" where
  "started_proxy n k active = proxy_setup n active ((new_proxy n)\<lparr>px_conns := replicate k new_connection\<rparr>)"

lemma no_busy: "{#a \<in># replicate_mset m (0 :: u64). a \<noteq> 0#} = {#}"
  by (induction m) simp_all

lemma slots_started: "k \<le> n \<Longrightarrow> slots n k (started_proxy n k active)"
  by (simp add: slots_def slots_ok_def addrs_def started_proxy_def proxy_setup_def new_proxy_def new_connection_def
      new_client_def no_busy)

text \<open>C13. In every execution of the proxy, with connections taken and released in any order: the addresses
  announced as allocated are exactly the addresses of the busy connections, and the announced number of
  free slots is the number of slots less the busy connections.\<close>
theorem slot_accounting:
  assumes "px_step\<^sup>*\<^sup>* (started_proxy n k active) p" "k \<le> n"
  shows "mset (filter (\<lambda>a. a \<noteq> 0) (px_allocated p)) = mset (filter (\<lambda>a. a \<noteq> 0) (addrs p))
    \<and> px_free p = of_nat n - of_nat (length (filter (\<lambda>a. a \<noteq> 0) (addrs p)))
    \<and> length (px_allocated p) = n"
proof -
  have "slots n k p" using assms(1)
  proof (induction rule: rtranclp_induct)
    case base show ?case by (rule slots_started [OF assms(2)])
  next
    case step then show ?case by (blast intro: slots_step)
  qed
  then show ?thesis by (simp add: slots_def slots_ok_def flip: mset_filter)
qed

lemma slot_accounting_witness:
  "\<exists>p. px_step\<^sup>*\<^sup>* (started_proxy 3 2 True) p
     \<and> mset (filter (\<lambda>a. a \<noteq> 0) (px_allocated p)) = {#77#} \<and> px_free p = 2"
proof -
  let ?s = "started_proxy 3 2 True"
  let ?p = "connect_request V3_WITH_CACHE 77 True ?s"
  have "bluetooth_device_request 0 DR_CONNECT_V3_WITH_CACHE 77 True ?s = Some ?p"
    by (simp add: bluetooth_device_request_def)
  then have r: "px_step\<^sup>*\<^sup>* ?s ?p" by (blast intro: PX_op PX_device)
  have a: "addrs ?p = [77, 0]"
    by (simp add: connect_request_def get_connection_def get_connection_from.simps [of 0] started_proxy_def proxy_setup_def
        new_proxy_def new_connection_def new_client_def on_base_def on_conn_def conn_set_address_def client_set_address_def
        client_set_state_def set_state_internal_def send_connections_free_def send_device_connection_def send_if_def
        addrs_def numeral_2_eq_2 Let_def)
  from slot_accounting [OF r] show ?thesis using r by (intro exI [of _ ?p]) (simp add: a)
qed


section \<open>Forwarded advertisements\<close>

text \<open>The structures the proxy wants to send for a device, and those of them that fit.\<close>

definition device_structs :: "ESPBTDevice \<Rightarrow> (u8 \<times> bytes) list" where
  "device_structs d =
     (case ad_flag d of None \<Rightarrow> [] | Some f \<Rightarrow> [(0x01, [f])])
     @ map (\<lambda>md. (0xFF, take 30 (sd_data md))) (manufacturer_datas d)
     @ map (\<lambda>sd. (0x16, service_data_bytes sd)) (service_datas d)
     @ (if dev_name d = '''' then [] else [(0x09, take 28 (bytes_of_string (dev_name d)))])"

fun fitting :: "nat \<Rightarrow> (u8 \<times> bytes) list \<Rightarrow> (u8 \<times> bytes) list" where
  "fitting used [] = []"
| "fitting used (s # ss) =
     (if used + 2 + length (snd s) > 62 then fitting used ss
      else s # fitting (used + 2 + length (snd s)) ss)"

definition enc_struct :: "u8 \<times> bytes \<Rightarrow> bytes" where
  "enc_struct s = [of_nat (length (snd s) + 1), fst s] @ snd s"

definition append_all :: "(u8 \<times> bytes) list \<Rightarrow> bytes \<Rightarrow> bytes" where
  "append_all ss buf = fold (\<lambda>s b. append_ad (fst s) (snd s) b) ss buf"

lemma append_all_append: "append_all (xs @ ys) b = append_all ys (append_all xs b)"
  by (simp add: append_all_def)

lemma serialize_structs: "serialize_device d = append_all (device_structs d) []"
  by (cases "ad_flag d"; cases "dev_name d = ''''")
    (simp_all add: serialize_device_def device_structs_def append_all_append append_all_def fold_map comp_def Let_def)

lemma append_all_fitting:
  "append_all ss buf = buf @ concat (map enc_struct (fitting (length buf) ss))"
  by (induction ss arbitrary: buf) (simp_all add: append_all_def append_ad_def enc_struct_def add.commute)

lemma fitting_bound: "used \<le> 62 \<Longrightarrow> used + length (concat (map enc_struct (fitting used ss))) \<le> 62"
proof (induction ss arbitrary: used)
  case (Cons s ss)
  show ?case using Cons.IH [of used] Cons.IH [of "used + 2 + length (snd s)"] Cons.prems
    by (auto simp: enc_struct_def)
qed simp

lemma fitting_small: "s \<in> set (fitting used ss) \<Longrightarrow> length (snd s) \<le> 60"
  by (induction ss arbitrary: used) (auto split: if_splits)

lemma ad_structs_enc: "(\<forall>s\<in>set ss. length (snd s) \<le> 60) \<Longrightarrow> ad_structs (concat (map enc_struct ss)) = ss"
proof (induction ss)
  case (Cons s ss)
  have l: "unat (of_nat (Suc (length (snd s))) :: u8) = Suc (length (snd s))"
    using Cons.prems by (simp only: unat_of_nat) simp
  then have nz: "(of_nat (Suc (length (snd s))) :: u8) \<noteq> 0" by (metis nat.distinct(1) unat_0)
  have e: "concat (map enc_struct (s # ss))
      = of_nat (Suc (length (snd s))) # fst s # snd s @ concat (map enc_struct ss)"
    by (simp add: enc_struct_def)
  have "ad_structs (concat (map enc_struct (s # ss))) = (fst s, snd s) # ad_structs (concat (map enc_struct ss))"
    unfolding e ad_structs.simps(2) by (simp only: l) (use nz in simp)
  then show ?case using Cons by simp
qed simp

text \<open>The payload forwarded for a device fits the 62 bytes of an advertisement, and reading it back as AD
  structures gives exactly the flags, manufacturer data, service data and name of the device, in this
  order, less those that no longer fitted.\<close>
theorem forwarded_payload:
  "length (serialize_device d) \<le> 62 \<and> ad_structs (serialize_device d) = fitting 0 (device_structs d)"
proof
  have e: "serialize_device d = concat (map enc_struct (fitting 0 (device_structs d)))"
    using append_all_fitting [of "device_structs d" "[]"] by (simp add: serialize_structs)
  show "length (serialize_device d) \<le> 62" unfolding e using fitting_bound [of 0 "device_structs d"] by simp
  show "ad_structs (serialize_device d) = fitting 0 (device_structs d)"
    unfolding e by (rule ad_structs_enc) (blast intro: fitting_small)
qed

text \<open>Service data of a 16-bit service that BlueZ reports by its 128-bit string is forwarded under the
  wrong UUID: the first two bytes are always 0xFB 0x34, the end of the Bluetooth base UUID.\<close>
theorem dbus_service_data_uuid:
  "service_data_bytes \<lparr>sd_uuid = as_128bit (from_uint16 u), sd_data = x\<rparr> = [0xFB, 0x34] @ take 29 x"
proof -
  have r: "raw (as_128bit (from_uint16 u)) ! 0 = 0xFB" "raw (as_128bit (from_uint16 u)) ! 1 = 0x34"
    by (simp_all add: as_128bit_def from_uint16_def base_lsb_def Let_def)
  show ?thesis unfolding service_data_bytes_def get_16bit_def by (simp add: r [simplified] le16_def)
qed

definition advert_of :: "ESPBTDevice \<Rightarrow> raw_advert" where
  "advert_of d = \<lparr>ra_address = address_uint64 d, ra_rssi = dev_rssi d, ra_address_type = 0, ra_data = serialize_device d\<rparr>"

definition advert_batches :: "proxy \<Rightarrow> raw_advert list list" where
  "advert_batches p = concat (map (\<lambda>m. case m of M_Adverts as \<Rightarrow> [as] | _ \<Rightarrow> []) (px_sent p))"

text \<open>What the API connection is handed and what is still pending. Only an advertisement, the flush of a full batch and
  the flush of the loop change it.\<close>

definition adv_view :: "proxy \<Rightarrow> raw_advert list \<times> raw_advert list list" where
  "adv_view p = (px_adverts p, advert_batches p)"

named_theorems adv_frame \<open>operations that leave the advertisements alone\<close>

lemma batches_send: "advert_batches (send_message m p) = advert_batches p @ (case m of M_Adverts as \<Rightarrow> [as] | _ \<Rightarrow> [])"
  by (simp add: advert_batches_def send_message_def)

lemma view_send_message: "(\<forall>as. m \<noteq> M_Adverts as) \<Longrightarrow> adv_view (send_message m p) = adv_view p"
  by (cases m) (simp_all add: adv_view_def batches_send, simp_all add: send_message_def)

lemma view_send_if: "(\<forall>as. m \<noteq> M_Adverts as) \<Longrightarrow> adv_view (send_if m p) = adv_view p"
  by (simp add: send_if_def view_send_message)

lemma adv_sends [adv_frame]:
  "adv_view (send_device_connection a c mtu err p) = adv_view p" "adv_view (send_connections_free p) = adv_view p"
  "adv_view (send_gatt_services_done a p) = adv_view p" "adv_view (send_gatt_error a h err p) = adv_view p"
  "adv_view (send_device_pairing a ok err p) = adv_view p" "adv_view (handle_gatt_not_connected a h p) = adv_view p"
  "adv_view (send_scanner_state active p) = adv_view p"
  by (simp_all add: send_device_connection_def send_connections_free_def send_gatt_services_done_def send_gatt_error_def
      send_device_pairing_def handle_gatt_not_connected_def send_scanner_state_def view_send_if view_send_message)

lemma adv_fields [adv_frame]:
  "adv_view (on_conn i f p) = adv_view p" "adv_view (on_base i g p) = adv_view p"
  "adv_view (p\<lparr>px_api := x\<rparr>) = adv_view p" "adv_view (p\<lparr>last_flush := now\<rparr>) = adv_view p"
  by (simp_all add: adv_view_def advert_batches_def on_base_def on_conn_def)

lemma adv_set_address [adv_frame]: "adv_view (conn_set_address i a p) = adv_view p"
  by (simp add: conn_set_address_def Let_def adv_view_def advert_batches_def on_base_def on_conn_def)

lemma adv_dispatch [adv_frame]: "adv_view (conn_dispatch now i ev p) = adv_view p"
  by (simp add: conn_dispatch_def answer_event_def on_disconnect_complete_def reset_connection_def Let_def adv_frame
      view_send_if split: EventKind.split)

lemma adv_fold [adv_frame]: "(\<And>x q. adv_view (f x q) = adv_view q) \<Longrightarrow> adv_view (fold f xs p) = adv_view p"
  by (induction xs arbitrary: p) simp_all

lemma adv_get_connection [adv_frame]: "adv_view (snd (get_connection_from j a r p)) = adv_view p"
proof (induction j a r p rule: get_connection_from.induct)
  case (1 j a r p)
  then show ?case by (subst get_connection_from.simps) (simp add: adv_frame)
qed

lemma adv_get: "get_connection a r p = (oi, q) \<Longrightarrow> adv_view q = adv_view p"
  using adv_get_connection [of 0 a r p] by (simp add: get_connection_def)

lemma adv_conn_loop [adv_frame]: "adv_view (conn_loop svc_size resp_size eff now i p) = adv_view p"
  by (simp add: conn_loop_def conn_base_loop_def send_service_for_discovery_def Let_def adv_frame view_send_message
      split: option.split)

lemma adv_device_request: "bluetooth_device_request now r a t p = Some p' \<Longrightarrow> adv_view p' = adv_view p"
  by (cases r; cases "get_connection a False p"; cases "get_connection a True p")
    (auto simp: bluetooth_device_request_def connect_request_def disconnect_request_def Let_def adv_frame adv_get
      view_send_message split: option.splits if_splits prod.splits)

lemma adv_requests [adv_frame]:
  "adv_view (gatt_request cmd a h p) = adv_view p" "adv_view (bluetooth_gatt_send_services a p) = adv_view p"
  "adv_view (bluetooth_set_connection_params a p) = adv_view p"
  by (cases "get_connection a False p"; auto simp: gatt_request_def bluetooth_gatt_send_services_def
      bluetooth_set_connection_params_def Let_def adv_frame adv_get view_send_message split: option.splits prod.splits)+

text \<open>What is handed over and pending is what was heard, fewer than a batch are pending, and no batch is empty or too
  large.\<close>

definition adv_ok :: "raw_advert list \<Rightarrow> raw_advert list \<times> raw_advert list list \<Rightarrow> bool" where
  "adv_ok hs v \<longleftrightarrow> concat (snd v) @ fst v = hs \<and> length (fst v) < BATCH_SIZE
     \<and> list_all (\<lambda>b. b \<noteq> [] \<and> length b \<le> BATCH_SIZE) (snd v)"

lemma flush_view: "adv_view (flush_pending_advertisements p)
    = ([], advert_batches p @ (if px_adverts p = [] then [] else [px_adverts p]))"
proof -
  have "advert_batches ((send_message m p)\<lparr>px_adverts := []\<rparr>) = advert_batches (send_message m p)" for m
    by (simp add: advert_batches_def)
  then show ?thesis by (simp add: flush_pending_advertisements_def adv_view_def batches_send)
qed

lemma flush_ok:
  assumes "adv_ok hs (adv_view p)"
  shows "adv_ok hs (adv_view (flush_pending_advertisements p))"
  using assms unfolding flush_view by (auto simp: adv_ok_def adv_view_def BATCH_SIZE_def)

lemma op_ok: "px_op p p' \<Longrightarrow> adv_ok hs (adv_view p) \<Longrightarrow> adv_ok hs (adv_view p')"
proof (induction rule: px_op.induct)
  case (PX_loop p connected now)
  then show ?case by (simp add: proxy_loop_def Let_def adv_frame flush_ok)
qed (auto simp: on_scanner_state_def subscribe_api_connection_def unsubscribe_api_connection_def adv_frame
      adv_device_request)

lemma parse_device_ok:
  assumes "proxy_parse_device connected d p = (accepted, p')" "adv_ok hs (adv_view p)"
  shows "adv_ok (if accepted then hs @ [advert_of d] else hs) (adv_view p')"
proof (cases accepted)
  case False
  then have "p' = p" using assms(1) by (auto simp: proxy_parse_device_def Let_def split: if_splits)
  then show ?thesis using assms(2) False by simp
next
  case True
  let ?p1 = "p\<lparr>px_adverts := px_adverts p @ [advert_of d]\<rparr>"
  have p': "p' = (if BATCH_SIZE \<le> Suc (length (px_adverts p)) then flush_pending_advertisements ?p1 else ?p1)"
    using assms(1) True by (auto simp: proxy_parse_device_def advert_of_def Let_def split: if_splits)
  have b: "advert_batches ?p1 = advert_batches p" by (simp add: advert_batches_def)
  show ?thesis
  proof (cases "BATCH_SIZE \<le> Suc (length (px_adverts p))")
    case full: True
    then have "adv_view p' = ([], advert_batches p @ [px_adverts p @ [advert_of d]])" by (simp add: p' flush_view b)
    then show ?thesis using assms(2) True by (auto simp: adv_ok_def adv_view_def BATCH_SIZE_def)
  next
    case False
    then show ?thesis using assms(2) True by (auto simp: p' adv_ok_def adv_view_def b)
  qed
qed

text \<open>The executions of the proxy in which the advertisements of \<open>ds\<close> were heard while a client was subscribed, which is
  when \<open>parse_device\<close> accepts one.\<close>

inductive px_hears :: "proxy \<Rightarrow> ESPBTDevice list \<Rightarrow> proxy \<Rightarrow> bool" for p0 where
  hears_start: "px_hears p0 [] p0"
| hears_advert: "px_hears p0 ds p \<Longrightarrow> proxy_parse_device connected d p = (accepted, p') \<Longrightarrow>
    px_hears p0 (if accepted then ds @ [d] else ds) p'"
| hears_op: "px_hears p0 ds p \<Longrightarrow> px_op p p' \<Longrightarrow> px_hears p0 ds p'"

lemma hears_step: "px_hears p0 ds p \<Longrightarrow> px_step\<^sup>*\<^sup>* p0 p"
proof (induction rule: px_hears.induct)
  case (hears_advert ds p connected d accepted p')
  then show ?case using PX_advert [of p connected d] by (simp add: rtranclp.rtrancl_into_rtrancl)
next
  case hears_op then show ?case by (blast intro: PX_op rtranclp.rtrancl_into_rtrancl)
qed simp

lemma hears_ok: "px_hears (started_proxy n k active) ds p \<Longrightarrow> adv_ok (map advert_of ds) (adv_view p)"
proof (induction rule: px_hears.induct)
  case hears_start
  show ?case
    by (simp add: adv_ok_def adv_view_def advert_batches_def started_proxy_def proxy_setup_def new_proxy_def BATCH_SIZE_def)
next
  case (hears_advert ds p connected d accepted p')
  from parse_device_ok [OF hears_advert(2,3)] show ?case by (simp split: if_splits)
qed (rule op_ok)

text \<open>What reaches the client when \<open>send_message\<close> of the API connection accepts the batches \<open>i\<close> with \<open>sent i\<close>: the proxy
  ignores its result and never sends a batch again.\<close>

definition delivered :: "(nat \<Rightarrow> bool) \<Rightarrow> proxy \<Rightarrow> raw_advert list" where
  "delivered sent p = concat (map snd (filter (\<lambda>x. sent (fst x)) (enumerate 0 (advert_batches p))))"

lemma subseq_concat_filter: "subseq (concat (map snd (filter P xs))) (concat (map snd xs))"
  by (induction xs) (auto intro: list_emb_append_mono subseq_drop_many)



end
