(* ===== verification/Proxy_Services.thy ===== *)
theory Proxy_Services
  imports Bluetooth_Proxy
begin

text \<open>
  The service tree as the proxy sends it (\<open>components/bluetooth_proxy/bluetooth_connection.cpp\<close>): the batches
  of \<open>send_service_for_discovery_\<close>, one for each loop of the connection, end after finitely many loops
  with every service sent once and the final message; the packing of UUIDs agrees with the 128-bit form
  of \<open>ESPBTUUID\<close>. Then the allocation of connections by \<open>get_connection_\<close>.
\<close>

section \<open>Batches\<close>

lemma int16_of_nat:
  assumes "n < 2 ^ 15"
  shows "unat (of_nat n :: 16 word) = n" "sint (of_nat n :: 16 word) = int n"
proof -
  show "unat (of_nat n :: 16 word) = n" using assms by (simp add: unat_of_nat)
  have "signed_take_bit 15 (int n) = int n" using assms by (intro signed_take_bit_int_eq_self) simp_all
  then show "sint (of_nat n :: 16 word) = int n" by (simp add: signed_of_nat)
qed

lemma service_batch_shape:
  "\<exists>n\<le>length ss. service_batch sz eff ss cur acc = acc @ map (svc_response eff) (take n ss)
     \<and> (acc = [] \<longrightarrow> ss \<noteq> [] \<longrightarrow> 0 < n)"
proof (induction sz eff ss cur acc rule: service_batch.induct)
  case (2 sz eff s ss cur acc)
  show ?case
  proof (cases "acc \<noteq> [] \<and> cur + (25 + length (svc_characteristics s) * 60) > MAX_PACKET_SIZE")
    case True
    then show ?thesis by (intro exI [of _ 0]) simp
  next
    case False
    from 2 [OF False refl] obtain n where "n \<le> length ss"
      "service_batch sz eff (s # ss) cur acc = acc @ svc_response eff s # map (svc_response eff) (take n ss)"
      using False by auto
    then show ?thesis by (intro exI [of _ "Suc n"]) simp
  qed
qed simp

text \<open>A connection with nothing to drain and no timeout running.\<close>

definition quiet_conn :: "nat \<Rightarrow> proxy \<Rightarrow> bool" where
  "quiet_conn i p \<longleftrightarrow> i < length (px_conns p) \<and> cl_state (base p i) = ESTABLISHED
     \<and> (case cl_host (base p i) of None \<Rightarrow> True | Some h \<Rightarrow> events h = [])"

lemma on_base_same: "f (base p i) = base p i \<Longrightarrow> on_base i f p = p"
  by (simp add: on_base_def on_conn_def)

lemma conn_base_loop_quiet: "quiet_conn i p \<Longrightarrow> conn_base_loop now i p = p"
  by (auto simp: quiet_conn_def conn_base_loop_def drain_events_def Let_def on_base_same split: option.split)

lemma conn_loop_streaming:
  assumes q: "quiet_conn i p" "conn_addr p i = a" "a \<noteq> 0" "px_api p \<noteq> None"
    and svcs: "cl_services (base p i) = svcs" "length svcs < 2 ^ 15"
    and k: "send_service (px_conns p ! i) = of_nat k" "k < length svcs"
  obtains n where "0 < n" "k + n \<le> length svcs"
    "conn_loop sz rs eff now i p = send_message (M_GattServices a (map (svc_response eff) (take n (drop k svcs))))
       (on_conn i (\<lambda>c. c\<lparr>send_service := of_nat (k + n)\<rparr>) p)"
proof -
  have uk: "unat (of_nat k :: 16 word) = k" and sk: "0 \<le> sint (of_nat k :: 16 word)"
    "sint (of_nat k :: 16 word) \<le> sint (of_nat (length svcs) :: 16 word)"
    using svcs(2) k(2) by (simp_all add: int16_of_nat)
  obtain n where n: "n \<le> length (drop k svcs)" "0 < n"
    "service_batch sz eff (drop k svcs) (rs a) [] = map (svc_response eff) (take n (drop k svcs))"
    using service_batch_shape [of "drop k svcs" sz eff "rs a" "[]"] k(2) by auto
  show thesis
  proof (rule that [of n])
    show "0 < n" "k + n \<le> length svcs" using n k(2) by auto
    show "conn_loop sz rs eff now i p = send_message (M_GattServices a (map (svc_response eff) (take n (drop k svcs))))
       (on_conn i (\<lambda>c. c\<lparr>send_service := of_nat (k + n)\<rparr>) p)"
      using n k(2) svcs q uk sk
      by (auto simp: conn_loop_def conn_base_loop_quiet send_service_for_discovery_def Let_def k(1) add.commute)
  qed
qed

lemma conn_loop_done:
  assumes q: "quiet_conn i p" "conn_addr p i = a" "a \<noteq> 0" "px_api p \<noteq> None"
    and svcs: "length (cl_services (base p i)) < 2 ^ 15"
    and k: "send_service (px_conns p ! i) = of_nat (length (cl_services (base p i)))"
  shows "conn_loop sz rs eff now i p = on_base i release_services (send_message (M_GattServicesDone a)
           (on_conn i (\<lambda>c. c\<lparr>send_service := DONE_SENDING_SERVICES\<rparr>) p))"
  using assms by (auto simp: conn_loop_def conn_base_loop_quiet send_service_for_discovery_def Let_def
      int16_of_nat send_gatt_services_done_def send_if_def on_conn_def)

lemma conn_loop_idle:
  assumes "quiet_conn i p" "send_service (px_conns p ! i) = DONE_SENDING_SERVICES"
  shows "fold (\<lambda>now. conn_loop sz rs eff now i) nows p = p"
  using assms by (induction nows) (simp_all add: conn_loop_def conn_base_loop_quiet Let_def DONE_SENDING_SERVICES_def)


abbreviation stream_loops where
  "stream_loops sz rs eff i nows p \<equiv> fold (\<lambda>now. conn_loop sz rs eff now i) nows p"

text \<open>One loop of the connection sends a non-empty batch and moves on, or, past the last service, finishes.\<close>

lemma loop_sends_batch:
  assumes "quiet_conn i p" "conn_addr p i = a" "a \<noteq> 0" "px_api p \<noteq> None"
    "cl_services (base p i) = svcs" "length svcs < 2 ^ 15"
    "send_service (px_conns p ! i) = of_nat k" "k < length svcs"
  shows "\<exists>n. 0 < n \<and> k + n \<le> length svcs \<and> (let p' = conn_loop sz rs eff now i p in
      quiet_conn i p' \<and> conn_addr p' i = a \<and> px_api p' \<noteq> None \<and> cl_services (base p' i) = svcs
      \<and> send_service (px_conns p' ! i) = of_nat (k + n)
      \<and> px_sent p' = px_sent p @ [M_GattServices a (map (svc_response eff) (take n (drop k svcs)))])"
proof -
  from conn_loop_streaming [OF assms] obtain n where n: "0 < n" "k + n \<le> length svcs"
    and e: "conn_loop sz rs eff now i p = send_message (M_GattServices a (map (svc_response eff) (take n (drop k svcs))))
      (on_conn i (\<lambda>c. c\<lparr>send_service := of_nat (k + n)\<rparr>) p)" by blast
  have "i < length (px_conns p)" using assms(1) by (simp add: quiet_conn_def)
  then show ?thesis using assms n by (intro exI [of _ n]) (simp add: e quiet_conn_def send_message_def on_conn_def)
qed

lemma loop_finishes:
  assumes "quiet_conn i p" "conn_addr p i = a" "a \<noteq> 0" "px_api p \<noteq> None"
    "length (cl_services (base p i)) < 2 ^ 15" "send_service (px_conns p ! i) = of_nat (length (cl_services (base p i)))"
  shows "let p' = conn_loop sz rs eff now i p in quiet_conn i p' \<and> send_service (px_conns p' ! i) = DONE_SENDING_SERVICES
    \<and> cl_services (base p' i) = [] \<and> px_sent p' = px_sent p @ [M_GattServicesDone a]"
proof -
  note e = conn_loop_done [OF assms, of sz rs eff now]
  have "i < length (px_conns p)" using assms(1) by (simp add: quiet_conn_def)
  then show ?thesis
    using assms by (simp add: e quiet_conn_def on_base_def on_conn_def send_message_def release_services_def)
qed

lemma streaming_from:
  assumes "quiet_conn i p" "conn_addr p i = a" "a \<noteq> 0" "px_api p \<noteq> None"
    "cl_services (base p i) = svcs" "length svcs < 2 ^ 15"
    "send_service (px_conns p ! i) = of_nat k" "k \<le> length svcs" "length svcs - k < length nows"
  shows "\<exists>bs. concat bs = map (svc_response eff) (drop k svcs) \<and> [] \<notin> set bs
    \<and> px_sent (stream_loops sz rs eff i nows p) = px_sent p @ map (M_GattServices a) bs @ [M_GattServicesDone a]
    \<and> send_service (px_conns (stream_loops sz rs eff i nows p) ! i) = DONE_SENDING_SERVICES
    \<and> cl_services (base (stream_loops sz rs eff i nows p) i) = []"
  using assms
proof (induction "length svcs - k" arbitrary: p k nows rule: less_induct)
  case less
  obtain now nows' where nows: "nows = now # nows'" using less.prems(9) by (cases nows) auto
  show ?case
  proof (cases "k < length svcs")
    case True
    let ?p = "conn_loop sz rs eff now i p"
    from loop_sends_batch [OF less.prems(1-7) True, of sz rs eff now] obtain n where n: "0 < n" "k + n \<le> length svcs"
      and q: "quiet_conn i ?p" "conn_addr ?p i = a" "px_api ?p \<noteq> None" "cl_services (base ?p i) = svcs"
        "send_service (px_conns ?p ! i) = of_nat (k + n)"
      and sent: "px_sent ?p = px_sent p @ [M_GattServices a (map (svc_response eff) (take n (drop k svcs)))]"
      by (auto simp: Let_def)
    have "length svcs - (k + n) < length svcs - k" "length svcs - (k + n) < length nows'"
      using True n less.prems(9) nows by auto
    from less.hyps [OF this(1) q(1,2) less.prems(3) q(3,4) less.prems(6) q(5) n(2) this(2)]
    obtain bs where bs: "concat bs = map (svc_response eff) (drop (k + n) svcs)" "[] \<notin> set bs"
      "px_sent (stream_loops sz rs eff i nows' ?p) = px_sent ?p @ map (M_GattServices a) bs @ [M_GattServicesDone a]"
      "send_service (px_conns (stream_loops sz rs eff i nows' ?p) ! i) = DONE_SENDING_SERVICES"
      "cl_services (base (stream_loops sz rs eff i nows' ?p) i) = []" by blast
    let ?b = "map (svc_response eff) (take n (drop k svcs))"
    have "concat (?b # bs) = map (svc_response eff) (drop k svcs)"
      using bs(1) arg_cong [OF append_take_drop_id [of n "drop k svcs"], of "map (svc_response eff)"]
      by (simp add: add.commute)
    moreover have "[] \<notin> set (?b # bs)" using bs(2) n True by auto
    ultimately show ?thesis using bs(3-5) nows sent by (intro exI [of _ "?b # bs"]) simp
  next
    case False
    with less.prems have k: "send_service (px_conns p ! i) = of_nat (length (cl_services (base p i)))" "drop k svcs = []"
      "length (cl_services (base p i)) < 2 ^ 15" by simp_all
    from loop_finishes [OF less.prems(1-4) k(3,1), of sz rs eff now] obtain
      q: "quiet_conn i (conn_loop sz rs eff now i p)" "send_service (px_conns (conn_loop sz rs eff now i p) ! i) = DONE_SENDING_SERVICES"
        "cl_services (base (conn_loop sz rs eff now i p) i) = []"
        "px_sent (conn_loop sz rs eff now i p) = px_sent p @ [M_GattServicesDone a]" by (auto simp: Let_def)
    show ?thesis unfolding nows using k(2) q by (intro exI [of _ "[]"]) (simp add: conn_loop_idle [OF q(1,2)])
  qed
qed

text \<open>C14. The streaming of the service tree ends: from the request of the client, one loop for each service and
  one more send every service of an established connection exactly once, in order, in non-empty batches, then
  the final message, after which the connection is done, its tree is released and further loops send
  nothing.\<close>
theorem service_streaming:
  assumes "quiet_conn i p" "conn_addr p i \<noteq> 0" "px_api p \<noteq> None"
    "send_service (px_conns p ! i) = INIT_SENDING_SERVICES"
    "get_connection (conn_addr p i) False p = (Some i, p)"
    "cl_services (base p i) = svcs" "svcs \<noteq> []" "length svcs < 2 ^ 15" "length svcs < length nows"
  shows "\<exists>bs. concat bs = map (svc_response eff) svcs \<and> [] \<notin> set bs
    \<and> px_sent (stream_loops sz rs eff i nows (bluetooth_gatt_send_services (conn_addr p i) p))
        = px_sent p @ map (M_GattServices (conn_addr p i)) bs @ [M_GattServicesDone (conn_addr p i)]
    \<and> send_service (px_conns (stream_loops sz rs eff i nows (bluetooth_gatt_send_services (conn_addr p i) p)) ! i)
        = DONE_SENDING_SERVICES
    \<and> cl_services (base (stream_loops sz rs eff i nows (bluetooth_gatt_send_services (conn_addr p i) p)) i) = []"
proof -
  let ?q = "bluetooth_gatt_send_services (conn_addr p i) p"
  have e: "?q = on_conn i (\<lambda>c. c\<lparr>send_service := 0\<rparr>) p"
    using assms by (simp add: bluetooth_gatt_send_services_def quiet_conn_def)
  have i: "i < length (px_conns p)" using assms(1) by (simp add: quiet_conn_def)
  have q: "quiet_conn i ?q" "conn_addr ?q i = conn_addr p i" "px_api ?q \<noteq> None" "cl_services (base ?q i) = svcs"
    "send_service (px_conns ?q ! i) = of_nat 0" "px_sent ?q = px_sent p"
    using assms i by (simp_all add: e quiet_conn_def on_conn_def)
  from streaming_from [OF q(1,2) assms(2) q(3,4) assms(8) q(5), of nows eff sz rs] assms(9) q(6)
  show ?thesis by simp
qed


definition demo_stream :: proxy where
  "demo_stream = (register_connection 1
     (new_connection\<lparr>bc_base := new_client\<lparr>cl_address := 5, cl_state := ESTABLISHED, cl_services :=
        [\<lparr>svc_uuid = from_uint16 0x180F, start_handle = 1, end_handle = 3, svc_characteristics = []\<rparr>]\<rparr>\<rparr>) (new_proxy 1))\<lparr>px_api := Some 0\<rparr>"

lemma service_streaming_witness:
  "\<exists>bs. concat bs = [svc_response True \<lparr>svc_uuid = from_uint16 0x180F, start_handle = 1, end_handle = 3, svc_characteristics = []\<rparr>]
    \<and> [] \<notin> set bs
    \<and> px_sent (stream_loops (\<lambda>_. 30) (\<lambda>_. 10) True 0 [1, 2] (bluetooth_gatt_send_services 5 demo_stream))
        = map (M_GattServices 5) bs @ [M_GattServicesDone 5]"
proof -
  have "quiet_conn 0 demo_stream" "conn_addr demo_stream 0 = 5" "px_api demo_stream \<noteq> None"
    "send_service (px_conns demo_stream ! 0) = INIT_SENDING_SERVICES"
    "get_connection 5 False demo_stream = (Some 0, demo_stream)"
    "cl_services (base demo_stream 0) = [\<lparr>svc_uuid = from_uint16 0x180F, start_handle = 1, end_handle = 3, svc_characteristics = []\<rparr>]"
    "px_sent demo_stream = []"
    by (simp_all add: demo_stream_def quiet_conn_def new_proxy_def register_connection_def new_connection_def new_client_def
        get_connection_def get_connection_from.simps)
  then show ?thesis using service_streaming [of 0 demo_stream _ "[1, 2]" True "\<lambda>_. 30" "\<lambda>_. 10"] by auto
qed

section \<open>UUID packing\<close>



lemma pack_bytes:
  "push_bit 32 (ucast b0 OR push_bit 8 (ucast b1) OR push_bit 16 (ucast b2) OR push_bit 24 (ucast b3)) OR 0x1000
     = be64 (take 12 base_lsb @ [b0, b1, b2, b3]) 8"
  "be64 (take 12 base_lsb @ [b0, b1, b2, b3]) 0 = 0x800000805F9B34FB"
proof -
  have "be64 (take 12 base_lsb @ [b0, b1, b2, b3]) 8
    = push_bit 56 (ucast b3) OR (push_bit 48 (ucast b2) OR (push_bit 40 (ucast b1) OR (push_bit 32 (ucast b0) OR 0x1000)))"
    by (simp add: be64_def base_lsb_def or.assoc)
  then show "push_bit 32 (ucast b0 OR push_bit 8 (ucast b1) OR push_bit 16 (ucast b2) OR push_bit 24 (ucast b3)) OR 0x1000
     = be64 (take 12 base_lsb @ [b0, b1, b2, b3]) 8"
    by (simp add: push_bit_or or.assoc or.commute or.left_commute)
  show "be64 (take 12 base_lsb @ [b0, b1, b2, b3]) 0 = 0x800000805F9B34FB"
    by (simp add: be64_def base_lsb_def)
qed

lemma pack_short:
  "push_bit 32 (ucast (v :: u32) :: u64) OR 0x1000
     = be64 (take 12 base_lsb @ [ucast v, ucast (drop_bit 8 v), ucast (drop_bit 16 v), ucast (drop_bit 24 v)]) 8"
proof -
  have "ucast v = (ucast (ucast v :: u8) OR push_bit 8 (ucast (ucast (drop_bit 8 v) :: u8))
      OR push_bit 16 (ucast (ucast (drop_bit 16 v) :: u8)) OR push_bit 24 (ucast (ucast (drop_bit 24 v) :: u8)) :: u64)"
    by (rule bit_word_eqI) (auto simp: bit_simps dest: bit_imp_le_length, rule ccontr, simp add: not_less)
  then show ?thesis by (simp only: pack_bytes)
qed

text \<open>A UUID that is sent in its long form is sent as its 128-bit expansion: both halves are those of
  \<open>as_128bit\<close>, most significant byte first, for UUIDs of every valid length; a short UUID is sent as its
  value to clients that support it.\<close>
theorem uuid_packing:
  assumes "wf_uuid u" "len u \<in> {2, 4, 16}"
  shows "fill_128bit_uuid_array (get_uuid u) = (be64 (raw (as_128bit u)) 8, be64 (raw (as_128bit u)) 0)
    \<and> fill_gatt_uuid (get_uuid u) True =
        (if len u = 16 then \<lparr>uuid_hi = be64 (raw u) 8, uuid_lo = be64 (raw u) 0, short_uuid = 0\<rparr>
         else \<lparr>uuid_hi = 0, uuid_lo = 0, short_uuid = (if len u = 2 then ucast (get_16bit u) else get_32bit u)\<rparr>)"
proof -
  consider (a) "len u = 2" | (b) "len u = 4" | (c) "len u = 16" using assms(2) by blast
  then show ?thesis
  proof cases
    case a
    have r: "raw (as_128bit u) = take 12 base_lsb @ [ucast (ucast (get_16bit u) :: u32), ucast (drop_bit 8 (ucast (get_16bit u) :: u32)),
      ucast (drop_bit 16 (ucast (get_16bit u) :: u32)), ucast (drop_bit 24 (ucast (get_16bit u) :: u32))]"
      using a by (simp add: as_128bit_def Let_def byte_simps base_lsb_def)
    have "ucast (ucast (get_16bit u) :: u32) = (ucast (get_16bit u) :: u64)"
      by (rule bit_word_eqI) (auto simp: bit_simps dest: bit_imp_le_length)
    then show ?thesis using a pack_short [of "ucast (get_16bit u)"]
      by (simp add: pack_bytes(2) fill_128bit_uuid_array_def fill_gatt_uuid_def bt_uuid_get_uuid r)
  next
    case b
    have r: "raw (as_128bit u) = take 12 base_lsb @ [ucast (get_32bit u), ucast (drop_bit 8 (get_32bit u)),
      ucast (drop_bit 16 (get_32bit u)), ucast (drop_bit 24 (get_32bit u))]"
      using b by (simp add: as_128bit_def Let_def byte_simps base_lsb_def)
    show ?thesis using b pack_short [of "get_32bit u"]
      by (simp add: pack_bytes(2) fill_128bit_uuid_array_def fill_gatt_uuid_def bt_uuid_get_uuid r)
  next
    case c
    have "bt_union (get_uuid u) = raw u" using assms(1) c by (simp add: get_uuid_def wf_uuid_def)
    then show ?thesis using c by (simp add: fill_128bit_uuid_array_def fill_gatt_uuid_def as_128bit_id)
  qed
qed

lemma uuid_packing_witness:
  "fill_128bit_uuid_array (get_uuid (from_uint16 0x180F)) = (0x0000180F00001000, 0x800000805F9B34FB)"
proof -
  have "as_128bit (from_uint16 0x180F) = \<lparr>raw = take 12 base_lsb @ [0x0F, 0x18, 0, 0], len = 16\<rparr>"
    by (simp add: as_128bit_from_uint16)
  then show ?thesis using uuid_packing [of "from_uint16 0x180F"] by (simp add: be64_def base_lsb_def)
qed

section \<open>Allocation of connections\<close>

text \<open>\<open>get_connection_\<close> takes a free connection that stands before the one that already serves the address: after
  the first connection is freed, a second connect request for a device served by the second connection
  allocates the first one to the same device.\<close>
lemma get_connection_duplicates:
  assumes "px_conns p = [c0, c1]" "cl_address (bc_base c0) = 0" "cl_address (bc_base c1) = a" "a \<noteq> 0"
  shows "fst (get_connection a True p) = Some 0 \<and> conn_addr (snd (get_connection a True p)) 0 = a
    \<and> conn_addr (snd (get_connection a True p)) 1 = a"
  using assms by (auto simp: get_connection_def get_connection_from.simps [of 0] conn_set_address_def on_base_def on_conn_def
      client_set_state_def set_state_internal_def client_set_address_def Let_def)

text \<open>A connect request without an address type is refused, but the connection it allocated stays allocated.\<close>
lemma refused_connect_keeps_slot:
  assumes "px_conns p = [c0]" "cl_address (bc_base c0) = 0" "a \<noteq> 0"
  shows "conn_addr (connect_request ct a False p) 0 = a \<and> px_free (connect_request ct a False p) = px_free p - 1"
  using assms by (auto simp: connect_request_def get_connection_def get_connection_from.simps [of 0] conn_set_address_def
      on_base_def on_conn_def client_set_state_def set_state_internal_def client_set_address_def send_device_connection_def send_if_def
      send_message_def Let_def)

end
