(* ===== verification/Gatt_Export.thy ===== *)
theory Gatt_Export
  imports Gatt_Server
begin

text \<open>
  The object tree that \<open>BLEGattServer::build_tree_\<close> (\<open>components/esp32_ble_server/ble_gatt_server.cpp\<close>) exports: the
  nested loops as comprehensions over the application's objects, the places of its nodes, and that paths lead to them.
\<close>

section \<open>The exported tree is well formed\<close>

definition svc_path :: "nat \<Rightarrow> string" where "svc_path i = APP_ROOT @ ''/service'' @ dec i"
definition chr_path :: "string \<Rightarrow> nat \<Rightarrow> string" where "chr_path sp j = sp @ ''/char'' @ dec j"
definition dsc_path :: "string \<Rightarrow> nat \<Rightarrow> string" where "dsc_path cp k = cp @ ''/desc'' @ dec k"

lemma dec_inject [simp]: "dec m = dec n \<longleftrightarrow> m = n"
  by (metis dec_val_dec)

lemma dec_slash: "dec m @ CHR ''/'' # a = dec n @ CHR ''/'' # b \<longleftrightarrow> m = n \<and> a = b"
proof
  assume e: "dec m @ CHR ''/'' # a = dec n @ CHR ''/'' # b"
  have t: "takeWhile is_digit (dec k @ CHR ''/'' # r) = dec k" for k r
    using set_dec [of _ k] by (subst takeWhile_append2) (auto simp: is_digit_def)
  have "dec m = dec n" using arg_cong [OF e, of "takeWhile is_digit"] unfolding t .
  then show "m = n \<and> a = b" using e by simp
qed simp

lemma dec_not_slash: "dec m \<noteq> dec n @ CHR ''/'' # b"
proof
  assume "dec m = dec n @ CHR ''/'' # b"
  then have "CHR ''/'' \<in> set (dec m)" by simp
  then show False using set_dec [of "CHR ''/''" m] by (simp add: is_digit_def)
qed

lemma path_inject:
  "svc_path i = svc_path i' \<longleftrightarrow> i = i'"
  "chr_path (svc_path i) j = chr_path (svc_path i') j' \<longleftrightarrow> i = i' \<and> j = j'"
  "dsc_path (chr_path (svc_path i) j) k = dsc_path (chr_path (svc_path i') j') k' \<longleftrightarrow> i = i' \<and> j = j' \<and> k = k'"
  by (auto simp: svc_path_def chr_path_def dsc_path_def dec_slash)

lemma path_differ:
  "svc_path i \<noteq> chr_path (svc_path i') j" "svc_path i \<noteq> dsc_path (chr_path (svc_path i') j) k"
  "chr_path (svc_path i) j \<noteq> dsc_path (chr_path (svc_path i') j') k"
  by (auto simp: svc_path_def chr_path_def dsc_path_def dec_slash dec_not_slash)

lemma build_descs_paths:
  "map xd_path (build_descs ob cp i ds) = map (dsc_path cp) [i..<i + length (build_descs ob cp i ds)]
   \<and> map xd_desc (build_descs ob cp i ds) = filter (\<lambda>d. \<not> uuid_eq (dsc_uuid (ob_descs ob ! d)) (from_uint16 0x2902)) ds"
  by (induction ds arbitrary: i) (simp_all add: dsc_path_def upt_rec)

definition exportable :: "srv_objects \<Rightarrow> nat list \<Rightarrow> nat list" where
  "exportable ob ds = filter (\<lambda>d. \<not> uuid_eq (dsc_uuid (ob_descs ob ! d)) (from_uint16 0x2902)) ds"

section \<open>The exported tree as comprehensions\<close>

definition x_desc :: "srv_objects \<Rightarrow> string \<Rightarrow> nat \<times> nat \<Rightarrow> exported_desc" where
  "x_desc ob cp = (\<lambda>(k, d). \<lparr>xd_desc = d, xd_path = dsc_path cp k, xd_char_path = cp,
     xd_uuid_str = uuid_to_bluez_str (dsc_uuid (ob_descs ob ! d))\<rparr>)"

definition x_char :: "srv_objects \<Rightarrow> string \<Rightarrow> nat \<times> nat \<Rightarrow> exported_char" where
  "x_char ob sp = (\<lambda>(j, c). \<lparr>xc_chr = c, xc_path = chr_path sp j, xc_service_path = sp,
     xc_uuid_str = uuid_to_bluez_str (sc_uuid (ob_chars ob ! c)), xc_properties = sc_props (ob_chars ob ! c),
     xc_cached_value = sc_value (ob_chars ob ! c), xc_notifying = False\<rparr>)"

definition x_service :: "srv_objects \<Rightarrow> nat \<times> nat \<Rightarrow> exported_service" where
  "x_service ob = (\<lambda>(i, s). \<lparr>xs_svc = s, xs_path = svc_path i,
     xs_uuid_str = uuid_to_bluez_str (sv_uuid (ob_services ob ! s)), xs_primary = True\<rparr>)"

text \<open>The positions in the tree.\<close>

definition svc_positions :: "nat list \<Rightarrow> (nat \<times> nat) list" where
  "svc_positions ss = enumerate 0 ss"

definition chr_positions :: "srv_objects \<Rightarrow> nat \<Rightarrow> (nat \<times> nat) list" where
  "chr_positions ob s = enumerate 0 (sv_chars (ob_services ob ! s))"

definition dsc_positions :: "srv_objects \<Rightarrow> nat \<Rightarrow> (nat \<times> nat) list" where
  "dsc_positions ob c = enumerate 0 (exportable ob (sc_descs (ob_chars ob ! c)))"

definition x_chars :: "srv_objects \<Rightarrow> nat \<times> nat \<Rightarrow> exported_char list" where
  "x_chars ob = (\<lambda>(i, s). map (x_char ob (svc_path i)) (chr_positions ob s))"

definition x_descs :: "srv_objects \<Rightarrow> nat \<times> nat \<Rightarrow> exported_desc list" where
  "x_descs ob = (\<lambda>(i, s). concat (map (\<lambda>(j, c). map (x_desc ob (chr_path (svc_path i) j)) (dsc_positions ob c))
     (chr_positions ob s)))"

text \<open>Two stores that export the same tree.\<close>

definition same_export :: "srv_objects \<Rightarrow> srv_objects \<Rightarrow> bool" where
  "same_export ob ob' \<longleftrightarrow> ob_descs ob' = ob_descs ob \<and> ob_services ob' = ob_services ob
     \<and> length (ob_chars ob') = length (ob_chars ob) \<and> (\<forall>c. sc_descs (ob_chars ob' ! c) = sc_descs (ob_chars ob ! c) \<and> sc_value (ob_chars ob' ! c) = sc_value (ob_chars ob ! c)
          \<and> sc_uuid (ob_chars ob' ! c) = sc_uuid (ob_chars ob ! c) \<and> sc_props (ob_chars ob' ! c) = sc_props (ob_chars ob ! c))"

lemma same_export_route: "same_export ob (on_char c (\<lambda>x. x\<lparr>sc_gatt_server := True, sc_object_path := p\<rparr>) ob)"
  by (cases "c < length (ob_chars ob)") (auto simp: same_export_def on_char_def nth_list_update list_update_beyond)

lemma same_export_eq:
  assumes "same_export ob ob'"
  shows "x_char ob' = x_char ob" "x_desc ob' = x_desc ob" "x_service ob' = x_service ob"
    "exportable ob' ds = exportable ob ds" "ob_services ob' = ob_services ob" "ob_descs ob' = ob_descs ob"
    "sc_descs (ob_chars ob' ! c) = sc_descs (ob_chars ob ! c)"
    "chr_positions ob' s = chr_positions ob s" "dsc_positions ob' c = dsc_positions ob c"
    "x_chars ob' = x_chars ob" "x_descs ob' = x_descs ob"
  using assms unfolding same_export_def
  by (auto simp: x_char_def x_desc_def x_service_def exportable_def chr_positions_def dsc_positions_def x_chars_def x_descs_def fun_eq_iff)

lemma same_export_trans: "same_export a b \<Longrightarrow> same_export b c \<Longrightarrow> same_export a c"
  by (simp add: same_export_def)

lemma build_chars_step:
  "build_chars sp j (c # cs) ob =
    (case build_chars sp (Suc j) cs (on_char c (\<lambda>x. x\<lparr>sc_gatt_server := True, sc_object_path := chr_path sp j\<rparr>) ob) of
      (ecs, eds, ob2) \<Rightarrow> (x_char ob sp (j, c) # ecs,
        build_descs (on_char c (\<lambda>x. x\<lparr>sc_gatt_server := True, sc_object_path := chr_path sp j\<rparr>) ob) (chr_path sp j) 0
          (sc_descs (ob_chars ob ! c)) @ eds, ob2))"
  by (simp add: Let_def chr_path_def x_char_def)

lemma build_services_step:
  "build_services i (s # ss) g =
    (case build_chars (svc_path i) 0 (sv_chars (ob_services (gs_ob g) ! s)) (gs_ob g) of (ecs, eds, ob) \<Rightarrow>
       build_services (Suc i) ss (g\<lparr>gs_ob := ob, gs_descs := gs_descs g @ eds, gs_chars := gs_chars g @ ecs,
         gs_services := gs_services g @ [x_service (gs_ob g) (i, s)]\<rparr>))"
  by (simp add: Let_def svc_path_def x_service_def)

lemma build_descs_eq: "build_descs ob cp k ds = map (x_desc ob cp) (enumerate k (exportable ob ds))"
  by (induction ds arbitrary: k) (simp_all add: exportable_def x_desc_def dsc_path_def)

lemma build_chars_eq:
  "\<exists>ob'. build_chars sp j cs ob = (map (x_char ob sp) (enumerate j cs),
      concat (map (\<lambda>(j, c). map (x_desc ob (chr_path sp j)) (dsc_positions ob c)) (enumerate j cs)), ob')
    \<and> same_export ob ob'"
proof (induction cs arbitrary: j ob)
  case Nil show ?case by (simp add: same_export_def)
next
  case (Cons c cs)
  let ?ob1 = "on_char c (\<lambda>x. x\<lparr>sc_gatt_server := True, sc_object_path := chr_path sp j\<rparr>) ob"
  have s: "same_export ob ?ob1" by (rule same_export_route)
  from Cons.IH [of "Suc j" ?ob1] obtain ob' where
    b: "build_chars sp (Suc j) cs ?ob1 = (map (x_char ob sp) (enumerate (Suc j) cs),
      concat (map (\<lambda>(j, c). map (x_desc ob (chr_path sp j)) (dsc_positions ob c)) (enumerate (Suc j) cs)), ob')"
    and t: "same_export ?ob1 ob'" by (auto simp: same_export_eq [OF s])
  show ?case using b same_export_trans [OF s t]
    by (simp add: build_chars_step build_descs_eq same_export_eq [OF s] dsc_positions_def del: build_chars.simps)
qed

lemma build_services_eq:
  "gs_services (build_services i ss g) = gs_services g @ map (x_service (gs_ob g)) (enumerate i ss)
    \<and> gs_chars (build_services i ss g) = gs_chars g @ concat (map (x_chars (gs_ob g)) (enumerate i ss))
    \<and> gs_descs (build_services i ss g) = gs_descs g @ concat (map (x_descs (gs_ob g)) (enumerate i ss))
    \<and> same_export (gs_ob g) (gs_ob (build_services i ss g))"
proof (induction ss arbitrary: i g)
  case Nil show ?case by (simp add: same_export_def)
next
  case (Cons s ss)
  obtain ob' where b: "build_chars (svc_path i) 0 (sv_chars (ob_services (gs_ob g) ! s)) (gs_ob g)
      = (x_chars (gs_ob g) (i, s), x_descs (gs_ob g) (i, s), ob')" and e: "same_export (gs_ob g) ob'"
    using build_chars_eq [of "svc_path i" 0 "sv_chars (ob_services (gs_ob g) ! s)" "gs_ob g"]
    by (auto simp: x_chars_def x_descs_def chr_positions_def)
  let ?g = "g\<lparr>gs_ob := ob', gs_descs := gs_descs g @ x_descs (gs_ob g) (i, s), gs_chars := gs_chars g @ x_chars (gs_ob g) (i, s),
    gs_services := gs_services g @ [x_service (gs_ob g) (i, s)]\<rparr>"
  have "build_services i (s # ss) g = build_services (Suc i) ss ?g" using b by (simp add: build_services_step del: build_services.simps)
  then show ?case using Cons.IH [of "Suc i" ?g] by (simp add: same_export_eq [OF e] same_export_trans [OF e])
qed

text \<open>The places of all characteristics: service, position and index.\<close>

definition all_positions :: "srv_objects \<Rightarrow> (nat \<times> nat) list \<Rightarrow> (nat \<times> nat \<times> nat) list" where
  "all_positions ob ps = concat (map (\<lambda>(i, s). map (Pair i) (chr_positions ob s)) ps)"

definition pos_path :: "nat \<times> nat \<times> nat \<Rightarrow> string" where
  "pos_path = (\<lambda>(i, j, c). chr_path (svc_path i) j)"

lemma all_chars: "concat (map (x_chars ob) ps) = map (\<lambda>(i, q). x_char ob (svc_path i) q) (all_positions ob ps)"
  by (induction ps) (auto simp: all_positions_def x_chars_def)

lemma all_descs: "concat (map (x_descs ob) ps) = concat (map (\<lambda>p. map (x_desc ob (pos_path p)) (dsc_positions ob (snd (snd p)))) (all_positions ob ps))"
proof (induction ps)
  case (Cons p ps)
  obtain i s where p: "p = (i, s)" by fastforce
  have "x_descs ob p = concat (map (\<lambda>p. map (x_desc ob (pos_path p)) (dsc_positions ob (snd (snd p)))) (map (Pair i) (chr_positions ob s)))"
    by (simp add: p x_descs_def pos_path_def comp_def case_prod_unfold)
  then show ?case using Cons.IH by (simp add: all_positions_def p)
qed (simp add: all_positions_def)

lemma all_positions_distinct: "distinct (map pos_path (all_positions ob (enumerate n ss)))"
proof (induction ss arbitrary: n)
  case (Cons s ss)
  have a: "p \<in> set (all_positions ob (enumerate m ts)) \<Longrightarrow> m \<le> fst p" for p m ts
    by (auto simp: all_positions_def in_set_enumerate_eq)
  have "distinct (map (\<lambda>(j, c). pos_path (n, j, c)) (enumerate 0 cs))" for cs :: "nat list"
    unfolding pos_path_def using distinct_map [of "\<lambda>j. chr_path (svc_path n) j" "map fst (enumerate 0 cs)"]
    by (auto simp: comp_def case_prod_unfold distinct_map inj_on_def path_inject in_set_enumerate_eq)
  then show ?case using Cons.IH [of "Suc n"] a [of _ "Suc n" ss]
    by (fastforce simp: all_positions_def chr_positions_def comp_def case_prod_unfold pos_path_def path_inject)
qed (simp add: all_positions_def)

section \<open>Routes\<close>

definition chars_of :: "srv_objects \<Rightarrow> nat list \<Rightarrow> nat list" where
  "chars_of ob ss = concat (map (\<lambda>s. sv_chars (ob_services ob ! s)) ss)"

definition descs_of :: "srv_objects \<Rightarrow> nat list \<Rightarrow> nat list" where
  "descs_of ob cs = concat (map (\<lambda>c. exportable ob (sc_descs (ob_chars ob ! c))) cs)"

text \<open>Every exported characteristic is routed to its own path.\<close>

definition routes_to :: "srv_objects \<Rightarrow> exported_char list \<Rightarrow> bool" where
  "routes_to ob xcs \<longleftrightarrow> (\<forall>e\<in>set xcs. sc_object_path (ob_chars ob ! xc_chr e) = xc_path e \<and> sc_gatt_server (ob_chars ob ! xc_chr e))"

lemma routes_to_same: "routes_to ob xcs \<Longrightarrow> (\<And>e. e \<in> set xcs \<Longrightarrow> ob_chars ob' ! xc_chr e = ob_chars ob ! xc_chr e) \<Longrightarrow> routes_to ob' xcs"
  by (simp add: routes_to_def)

lemma build_chars_routes:
  assumes "build_chars sp j cs ob = (ecs, eds, ob')" "distinct cs" "\<forall>c\<in>set cs. c < length (ob_chars ob)"
  shows "routes_to ob' ecs \<and> (\<forall>c. c \<notin> set cs \<longrightarrow> ob_chars ob' ! c = ob_chars ob ! c) \<and> map xc_chr ecs = cs"
  using assms
proof (induction cs arbitrary: j ob ecs eds)
  case (Cons c cs)
  let ?ob1 = "on_char c (\<lambda>x. x\<lparr>sc_gatt_server := True, sc_object_path := chr_path sp j\<rparr>) ob"
  obtain ecs1 eds1 where b: "build_chars sp (Suc j) cs ?ob1 = (ecs1, eds1, ob')" "ecs = x_char ob sp (j, c) # ecs1"
    using Cons.prems(1) by (auto simp: build_chars_step simp del: build_chars.simps split: prod.splits)
  have IH: "routes_to ob' ecs1 \<and> (\<forall>d. d \<notin> set cs \<longrightarrow> ob_chars ob' ! d = ob_chars ?ob1 ! d) \<and> map xc_chr ecs1 = cs"
    using Cons.IH [OF b(1)] Cons.prems(2,3) by (simp add: on_char_def)
  then have "ob_chars ob' ! c = ob_chars ?ob1 ! c" using Cons.prems(2) by simp
  then show ?case using IH Cons.prems(3) by (auto simp: b(2) routes_to_def x_char_def on_char_def)
qed (simp add: routes_to_def)

lemma build_services_routes:
  assumes "distinct (chars_of (gs_ob g) ss)" "\<forall>c\<in>set (chars_of (gs_ob g) ss). c < length (ob_chars (gs_ob g))" "routes_to (gs_ob g) (gs_chars g)"
    "set (map xc_chr (gs_chars g)) \<inter> set (chars_of (gs_ob g) ss) = {}"
  shows "routes_to (gs_ob (build_services i ss g)) (gs_chars (build_services i ss g))"
  using assms
proof (induction ss arbitrary: i g)
  case (Cons s ss)
  let ?cs = "sv_chars (ob_services (gs_ob g) ! s)"
  obtain ecs eds ob' where b: "build_chars (svc_path i) 0 ?cs (gs_ob g) = (ecs, eds, ob')" by (metis surj_pair)
  let ?g = "g\<lparr>gs_ob := ob', gs_descs := gs_descs g @ eds, gs_chars := gs_chars g @ ecs,
    gs_services := gs_services g @ [x_service (gs_ob g) (i, s)]\<rparr>"
  have c: "chars_of (gs_ob g) (s # ss) = ?cs @ chars_of (gs_ob g) ss" by (simp add: chars_of_def)
  have r: "routes_to ob' ecs" "\<And>d. d \<notin> set ?cs \<Longrightarrow> ob_chars ob' ! d = ob_chars (gs_ob g) ! d" "map xc_chr ecs = ?cs"
    using build_chars_routes [OF b] Cons.prems(1,2) unfolding c by auto
  have e: "same_export (gs_ob g) ob'" using build_chars_eq [of "svc_path i" 0 ?cs "gs_ob g"] b by auto
  then have o: "chars_of ob' ss = chars_of (gs_ob g) ss" "length (ob_chars ob') = length (ob_chars (gs_ob g))"
    by (simp_all add: chars_of_def same_export_def)
  have "routes_to ob' (gs_chars g)" using Cons.prems(3) by (rule routes_to_same) (use r(2) Cons.prems(4) c in auto)
  then have "routes_to ob' (gs_chars g @ ecs)" using r(1) by (auto simp: routes_to_def)
  moreover have "set (map xc_chr (gs_chars g @ ecs)) \<inter> set (chars_of (gs_ob g) ss) = {}"
    using Cons.prems(1,4) r(3) [THEN arg_cong [of _ _ set]] unfolding c by auto
  ultimately have "routes_to (gs_ob (build_services (Suc i) ss ?g)) (gs_chars (build_services (Suc i) ss ?g))"
    using Cons.prems(1,2) by (intro Cons.IH) (simp_all add: o c)
  then show ?case using b by (simp add: build_services_step del: build_services.simps)
qed simp

text \<open>The lists of the exported tree.\<close>

lemma tree_lists:
  assumes "g = build_tree ss (new_gatt_server ob)"
  shows "gs_services g = map (x_service ob) (enumerate 0 ss)" "gs_chars g = concat (map (x_chars ob) (enumerate 0 ss))"
    "gs_descs g = concat (map (x_descs ob) (enumerate 0 ss))"
  using assms build_services_eq [of 0 ss "new_gatt_server ob"] by (simp_all add: build_tree_def new_gatt_server_def)

lemma x_paths [simp]: "xc_path (x_char ob sp (j, k)) = chr_path sp j" "xd_path (x_desc ob cp (k, d)) = dsc_path cp k"
    "xs_path (x_service ob (i, s)) = svc_path i"
  by (simp_all add: x_char_def x_desc_def x_service_def)

lemma distinct_concat_map:
  assumes "distinct (map K ps)" "\<And>p. p \<in> set ps \<Longrightarrow> distinct (f p)"
    "\<And>p q x. p \<in> set ps \<Longrightarrow> q \<in> set ps \<Longrightarrow> x \<in> set (f p) \<Longrightarrow> x \<in> set (f q) \<Longrightarrow> K p = K q"
  shows "distinct (concat (map f ps))"
  using assms
proof (induction ps)
  case (Cons p ps)
  have "set (f p) \<inter> (\<Union>q\<in>set ps. set (f q)) = {}"
  proof (rule ccontr)
    assume "set (f p) \<inter> (\<Union>q\<in>set ps. set (f q)) \<noteq> {}"
    then obtain q x where "q \<in> set ps" "x \<in> set (f p)" "x \<in> set (f q)" by auto
    then have "K p \<in> K ` set ps" using Cons.prems(3) [of p q x] by auto
    then show False using Cons.prems(1) by simp
  qed
  moreover have "distinct (concat (map f ps))" using Cons.prems by (intro Cons.IH) auto
  ultimately show ?case using Cons.prems(2) by simp
qed simp

lemma find_by_key: "distinct (map f xs) \<Longrightarrow> x \<in> set xs \<Longrightarrow> List.find (\<lambda>y. f y = f x) xs = Some x"
  by (induction xs) auto

lemma tree_nodes:
  "map xc_chr (concat (map (x_chars ob) (enumerate n ss))) = chars_of ob ss
   \<and> map xd_desc (concat (map (x_descs ob) (enumerate n ss))) = descs_of ob (chars_of ob ss)"
proof (induction ss arbitrary: n)
  case (Cons s ss)
  have c: "map xc_chr (x_chars ob (n, s)) = sv_chars (ob_services ob ! s)"
    by (simp add: x_chars_def x_char_def chr_positions_def comp_def case_prod_unfold)
  have d: "map xd_desc (concat (map (\<lambda>(j, c). map (x_desc ob (chr_path sp j)) (dsc_positions ob c)) (enumerate m cs))) = descs_of ob cs" for sp m cs
    by (induction cs arbitrary: m) (simp_all add: descs_of_def x_desc_def dsc_positions_def comp_def case_prod_unfold)
  have "map xd_desc (x_descs ob (n, s)) = descs_of ob (sv_chars (ob_services ob ! s))"
    by (simp only: x_descs_def chr_positions_def case_prod_conv d)
  moreover have "descs_of ob (a @ b) = descs_of ob a @ descs_of ob b" for a b by (simp add: descs_of_def)
  ultimately show ?case using Cons.IH [of "Suc n"] c by (simp add: chars_of_def)
qed (simp add: chars_of_def descs_of_def)

lemma tree_paths_distinct:
  "distinct (map xc_path (concat (map (x_chars ob) (enumerate n ss))))"
  "distinct (map xd_path (concat (map (x_descs ob) (enumerate n ss))))"
proof -
  let ?P = "all_positions ob (enumerate n ss)"
  have "map xc_path (concat (map (x_chars ob) (enumerate n ss))) = map pos_path ?P"
    unfolding all_chars by (simp add: comp_def case_prod_unfold pos_path_def x_char_def)
  then show "distinct (map xc_path (concat (map (x_chars ob) (enumerate n ss))))" using all_positions_distinct by simp
  have "map xd_path (concat (map (x_descs ob) (enumerate n ss)))
      = concat (map (\<lambda>p. map (\<lambda>q. dsc_path (pos_path p) (fst q)) (dsc_positions ob (snd (snd p)))) ?P)"
    unfolding all_descs map_concat by (simp add: comp_def case_prod_unfold x_desc_def)
  moreover have "distinct \<dots>"
  proof (rule distinct_concat_map [where K = pos_path, OF all_positions_distinct])
    have "distinct (map fst (dsc_positions ob c))" for c by (simp add: dsc_positions_def)
    moreover have "dsc_path (pos_path p) k = dsc_path (pos_path q) l \<longleftrightarrow> pos_path p = pos_path q \<and> k = l" for p q k l
      by (auto simp: pos_path_def path_inject split: prod.split)
    ultimately show "distinct (map (\<lambda>q. dsc_path (pos_path p) (fst q)) (dsc_positions ob (snd (snd p))))" for p
      by (auto simp: distinct_map inj_on_def dsc_positions_def in_set_enumerate_eq)
  qed (auto simp: pos_path_def path_inject)
  ultimately show "distinct (map xd_path (concat (map (x_descs ob) (enumerate n ss))))" by simp
qed

text \<open>C24. The exported tree is well formed: all object paths differ, so a lookup by path finds the node itself;
  every characteristic of the services is exported, in order, and routes its notifications to its own
  path; and of its descriptors exactly those that are not the client configuration 0x2902, which BlueZ
  owns.\<close>
theorem exported_tree:
  assumes "distinct (chars_of ob ss)" "\<forall>c\<in>set (chars_of ob ss). c < length (ob_chars ob)"
    "g = build_tree ss (new_gatt_server ob)"
  shows "distinct (map xs_path (gs_services g) @ map xc_path (gs_chars g) @ map xd_path (gs_descs g))
    \<and> map xc_chr (gs_chars g) = chars_of ob ss \<and> map xd_desc (gs_descs g) = descs_of ob (chars_of ob ss)
    \<and> (\<forall>e\<in>set (gs_chars g). find_char (xc_path e) g = Some e
        \<and> sc_object_path (ob_chars (gs_ob g) ! xc_chr e) = xc_path e \<and> sc_gatt_server (ob_chars (gs_ob g) ! xc_chr e))"
proof -
  note l = tree_lists [OF assms(3)]
  have n: "gs_ob (new_gatt_server ob) = ob" "gs_chars (new_gatt_server ob) = []" by (simp_all add: new_gatt_server_def)
  have r: "routes_to (gs_ob g) (gs_chars g)"
    using build_services_routes [of "new_gatt_server ob" ss 0] assms by (simp add: n build_tree_def routes_to_def)
  have s: "distinct (map xs_path (gs_services g))"
    unfolding l by (auto simp: distinct_map inj_on_def path_inject x_service_def in_set_enumerate_eq split: prod.splits)
  have d: "distinct (map xs_path (gs_services g) @ map xc_path (gs_chars g) @ map xd_path (gs_descs g))"
    using s tree_paths_distinct [of ob 0 ss] unfolding l
    by (auto simp: x_chars_def x_descs_def path_differ path_differ(3) [symmetric] simp del: map_concat)
  have "find_char (xc_path e) g = Some e" if "e \<in> set (gs_chars g)" for e
    using find_by_key [OF _ that] tree_paths_distinct(1) [of ob 0 ss] unfolding l(2) [symmetric] find_char_def by blast
  then show ?thesis using d r tree_nodes [of ob 0 ss] unfolding l [symmetric] routes_to_def by simp
qed

lemma exported_tree_witness:
  "map xd_desc (gs_descs (build_tree [0] (new_gatt_server demo_objects))) = [1]"
proof -
  have c: "chars_of demo_objects [0] = [0]" by (simp add: chars_of_def demo_objects_def)
  have r: "replicate 16 (0 :: u8) = [0, 0, 0, 0, 0, 0, 0, 0, 0, 0, 0, 0, 0, 0, 0, 0]" by (simp add: eval_nat_numeral)
  have "descs_of demo_objects [0] = [1]"
    by (simp add: descs_of_def exportable_def demo_objects_def ble2902_def desc_set_value_def new_desc_def uuid_eq_def
        from_uint16_def uuid_default_def r)
  then show ?thesis using exported_tree [of demo_objects "[0]" "build_tree [0] (new_gatt_server demo_objects)"]
    unfolding c by (simp add: demo_objects_def)
qed

end
