(* ===== verification/Gatt_Link.thy ===== *)
theory Gatt_Link
  imports Gatt_Host Gatt_Export "HOL-Library.Multiset"
begin

text \<open>
  Two hosts of the program over the air: the GATT server of one (\<open>esp32_ble_server\<close>) and the GATT client of the other
  (\<open>esp32_ble_client\<close>), with BlueZ between them. What the server exports is what the client discovers, and the values of
  the characteristics behave as one memory.

  BlueZ is not part of the program. What it shows on the central for an object of the peripheral is the documented
  interface: an object of the same kind with the same UUID and flags, a handle, and a reference to the object of
  its parent; it adds the client configuration descriptor of a characteristic that notifies. The objects come in any
  order, with their properties in any order and with any further properties and interfaces, and among the objects
  of other services of the peripheral, such as BlueZ's own.
\<close>

section \<open>What the central is shown\<close>

text \<open>\<open>place\<close> is the object path on the central for a path of the server, \<open>att\<close> the attribute handle. The getters of the
  server say what is in it.\<close>

fun shown_uuid :: "dbus_reply \<Rightarrow> gatt_prop list" where
  "shown_uuid (R_string u) = [GP_UUID u]"
| "shown_uuid _ = []"

fun shown_flags :: "dbus_reply \<Rightarrow> gatt_prop list" where
  "shown_flags (R_strings fs) = [GP_Flags fs]"
| "shown_flags _ = []"

definition CCCD_UUID :: string where "CCCD_UUID = ''00002902-0000-1000-8000-00805f9b34fb''"

definition cccd_path :: "string \<Rightarrow> string" where "cccd_path cp = cp @ ''/cccd''"

text \<open>A managed object of the path \<open>p\<close> with the one GATT interface \<open>iface\<close>, whose properties are \<open>props\<close> and others that
  the client does not read.\<close>

definition exposes :: "string \<Rightarrow> string \<Rightarrow> gatt_prop list \<Rightarrow> managed_object \<Rightarrow> bool" where
  "exposes p iface props mo \<longleftrightarrow> fst mo = p \<and> (\<exists>before ps after. snd mo = before @ (iface, ps) # after
     \<and> (\<forall>x\<in>set (before @ after). \<not> is_gatt_iface (fst x))
     \<and> (\<exists>others. set others \<subseteq> {GP_Other} \<and> mset ps = mset (props @ others)))"

definition service_props :: "(string \<Rightarrow> u16) \<Rightarrow> exported_service \<Rightarrow> gatt_prop list" where
  "service_props att s = shown_uuid (svc_get_uuid s) @ [GP_Handle (Some (att (xs_path s)))]"

definition char_props :: "(string \<Rightarrow> string) \<Rightarrow> (string \<Rightarrow> u16) \<Rightarrow> exported_char \<Rightarrow> gatt_prop list" where
  "char_props place att c = shown_uuid (chr_get_uuid c) @ [GP_Parent (place (xc_service_path c))]
     @ shown_flags (chr_get_flags c) @ [GP_Handle (Some (att (xc_path c)))]"

definition desc_props :: "(string \<Rightarrow> string) \<Rightarrow> (string \<Rightarrow> u16) \<Rightarrow> exported_desc \<Rightarrow> gatt_prop list" where
  "desc_props place att d = shown_uuid (desc_get_uuid d) @ [GP_Parent (place (xd_char_path d)), GP_Handle (Some (att (xd_path d)))]"

definition cccd_props :: "(string \<Rightarrow> string) \<Rightarrow> (string \<Rightarrow> u16) \<Rightarrow> exported_char \<Rightarrow> gatt_prop list" where
  "cccd_props place att c = [GP_UUID CCCD_UUID, GP_Parent (place (xc_path c)), GP_Handle (Some (att (cccd_path (xc_path c))))]"

definition notifies :: "u32 \<Rightarrow> bool" where
  "notifies p \<longleftrightarrow> p AND PROPERTY_NOTIFY \<noteq> 0 \<or> p AND PROPERTY_INDICATE \<noteq> 0"

text \<open>The objects \<open>own\<close> that BlueZ shows for the tree of a server.\<close>

definition shown :: "(string \<Rightarrow> string) \<Rightarrow> (string \<Rightarrow> u16) \<Rightarrow> gatt_server \<Rightarrow> managed_object list \<Rightarrow> bool" where
  "shown place att g own \<longleftrightarrow> (\<exists>ss cs ds ks. own = ss @ cs @ ds @ ks
     \<and> list_all2 (\<lambda>s. exposes (place (xs_path s)) ''org.bluez.GattService1'' (service_props att s)) (gs_services g) ss
     \<and> list_all2 (\<lambda>c. exposes (place (xc_path c)) ''org.bluez.GattCharacteristic1'' (char_props place att c)) (gs_chars g) cs
     \<and> list_all2 (\<lambda>d. exposes (place (xd_path d)) ''org.bluez.GattDescriptor1'' (desc_props place att d)) (gs_descs g) ds
     \<and> list_all2 (\<lambda>c. exposes (place (cccd_path (xc_path c))) ''org.bluez.GattDescriptor1'' (cccd_props place att c))
         (filter (\<lambda>c. notifies (xc_properties c)) (gs_chars g)) ks)"

text \<open>Every path the central has an object for.\<close>

definition tree_paths :: "gatt_server \<Rightarrow> string set" where
  "tree_paths g = xs_path ` set (gs_services g) \<union> xc_path ` set (gs_chars g) \<union> xd_path ` set (gs_descs g)
     \<union> (cccd_path \<circ> xc_path) ` set (gs_chars g)"

text \<open>An object of another service: it has a path and a handle of its own and belongs to none of the objects of the server.\<close>

definition foreign :: "(string \<Rightarrow> string) \<Rightarrow> (string \<Rightarrow> u16) \<Rightarrow> gatt_server \<Rightarrow> managed_object \<Rightarrow> bool" where
  "foreign place att g mo \<longleftrightarrow> fst mo \<notin> place ` tree_paths g \<and> (\<forall>x\<in>set (snd mo). is_gatt_iface (fst x) \<longrightarrow>
     (\<exists>a. GP_Handle (Some a) \<in> set (snd x)) \<and> (\<forall>a. GP_Handle (Some a) \<in> set (snd x) \<longrightarrow> a \<notin> att ` tree_paths g)
       \<and> (\<forall>q. GP_Parent q \<in> set (snd x) \<longrightarrow> q \<notin> place ` tree_paths g))"

text \<open>The tree the application built, in the client's terms.\<close>

definition seen_props :: "u32 \<Rightarrow> u8" where
  "seen_props p = (if p AND PROPERTY_BROADCAST \<noteq> 0 then 0x01 else 0) OR (if p AND PROPERTY_READ \<noteq> 0 then 0x02 else 0)
     OR (if p AND PROPERTY_WRITE_NR \<noteq> 0 then 0x04 else 0) OR (if p AND PROPERTY_WRITE \<noteq> 0 then 0x08 else 0)
     OR (if p AND PROPERTY_NOTIFY \<noteq> 0 then 0x10 else 0) OR (if p AND PROPERTY_INDICATE \<noteq> 0 then 0x20 else 0)"

definition seen_desc :: "(string \<Rightarrow> u16) \<Rightarrow> srv_objects \<Rightarrow> string \<Rightarrow> nat \<times> nat \<Rightarrow> BLEDescriptor" where
  "seen_desc att ob cp = (\<lambda>(k, d). \<lparr>desc_uuid = as_128bit (dsc_uuid (ob_descs ob ! d)), desc_handle = att (dsc_path cp k)\<rparr>)"

definition seen_cccd :: "(string \<Rightarrow> u16) \<Rightarrow> string \<Rightarrow> BLEDescriptor" where
  "seen_cccd att cp = \<lparr>desc_uuid = as_128bit (from_uint16 0x2902), desc_handle = att (cccd_path cp)\<rparr>"

definition seen_char :: "(string \<Rightarrow> u16) \<Rightarrow> srv_objects \<Rightarrow> string \<Rightarrow> nat \<times> nat \<Rightarrow> BLECharacteristic" where
  "seen_char att ob sp = (\<lambda>(j, c). \<lparr>chr_uuid = as_128bit (sc_uuid (ob_chars ob ! c)), chr_handle = att (chr_path sp j),
     chr_properties = seen_props (sc_props (ob_chars ob ! c)),
     chr_descriptors = map (seen_desc att ob (chr_path sp j)) (dsc_positions ob c)
       @ (if notifies (sc_props (ob_chars ob ! c)) then [seen_cccd att (chr_path sp j)] else [])\<rparr>)"

definition seen_service :: "(string \<Rightarrow> u16) \<Rightarrow> srv_objects \<Rightarrow> nat \<times> nat \<Rightarrow> BLEService" where
  "seen_service att ob = (\<lambda>(i, s). \<lparr>svc_uuid = as_128bit (sv_uuid (ob_services ob ! s)), start_handle = att (svc_path i),
     end_handle = att (svc_path i), svc_characteristics = map (seen_char att ob (svc_path i)) (chr_positions ob s)\<rparr>)"

text \<open>A service and a characteristic without the order of what is in them.\<close>

definition chr_view :: "BLECharacteristic \<Rightarrow> ESPBTUUID \<times> u16 \<times> u8 \<times> BLEDescriptor multiset" where
  "chr_view c = (chr_uuid c, chr_handle c, chr_properties c, mset (chr_descriptors c))"

definition svc_view :: "BLEService \<Rightarrow> ESPBTUUID \<times> u16 \<times> u16 \<times> (ESPBTUUID \<times> u16 \<times> u8 \<times> BLEDescriptor multiset) multiset" where
  "svc_view s = (svc_uuid s, start_handle s, end_handle s, mset (map chr_view (svc_characteristics s)))"

definition tree_view :: "BLEService list \<Rightarrow> (ESPBTUUID \<times> u16 \<times> u16 \<times> (ESPBTUUID \<times> u16 \<times> u8 \<times> BLEDescriptor multiset) multiset) multiset" where
  "tree_view ss = mset (map svc_view ss)"

section \<open>Each object is understood\<close>

lemma tolower_hex: "n < 16 \<Longrightarrow> tolower (hex_lc n) = hex_lc n"
proof -
  have "list_all (\<lambda>n. tolower (hex_lc n) = hex_lc n) [0..<16]" by code_simp
  then show "n < 16 \<Longrightarrow> tolower (hex_lc n) = hex_lc n" by (simp add: list_all_iff)
qed

lemma tolower_fmt [simp]: "map tolower (fmt_02x b) = fmt_02x b"
proof -
  have "unat b < 256" using unsigned_less [of b] by simp
  then have "unat b div 16 < 16" by simp
  then show ?thesis by (simp add: fmt_02x_def tolower_hex)
qed

lemma bluez_str_roundtrip:
  assumes "wf_uuid u" shows "from_uuid_str (uuid_to_bluez_str u) = as_128bit u"
proof -
  have "tolower (CHR ''-'') = CHR ''-''" by code_simp
  then have "uuid_to_bluez_str u = to_str u"
    by (simp add: uuid_to_bluez_str_def lowercase_def to_str_def Let_def uuid_dashed_def)
  moreover have "length (raw (as_128bit u)) = 16" using wf_as_128bit [OF assms] by (simp add: wf_uuid_def)
  ultimately show ?thesis
    using len_as_128bit [of u] by (cases "as_128bit u") (simp add: to_str_def Let_def from_uuid_str_dashed)
qed

lemma cccd_uuid: "from_uuid_str CCCD_UUID = as_128bit (from_uint16 0x2902)"
  unfolding CCCD_UUID_def by code_simp

lemma flags_roundtrip: "shown_flags (chr_get_flags c) = [GP_Flags fs] \<Longrightarrow>
   fold (\<lambda>f v. v OR flag_to_prop f) fs 0 = seen_props (xc_properties c)"
  by (auto simp: chr_get_flags_def seen_props_def Let_def flag_to_prop_def or.assoc)

definition obj_service :: "(string \<Rightarrow> string) \<Rightarrow> (string \<Rightarrow> u16) \<Rightarrow> exported_service \<Rightarrow> GattObj" where
  "obj_service place att s = gattobj_default\<lparr>g_path := place (xs_path s), g_kind := G_SERVICE,
     g_uuid := from_uuid_str (xs_uuid_str s), g_handle := att (xs_path s), g_has_handle := True\<rparr>"

definition obj_char :: "(string \<Rightarrow> string) \<Rightarrow> (string \<Rightarrow> u16) \<Rightarrow> exported_char \<Rightarrow> GattObj" where
  "obj_char place att c = gattobj_default\<lparr>g_path := place (xc_path c), g_kind := G_CHAR, g_uuid := from_uuid_str (xc_uuid_str c),
     g_handle := att (xc_path c), g_has_handle := True, g_parent := place (xc_service_path c), g_props := seen_props (xc_properties c)\<rparr>"

definition obj_desc :: "(string \<Rightarrow> string) \<Rightarrow> (string \<Rightarrow> u16) \<Rightarrow> exported_desc \<Rightarrow> GattObj" where
  "obj_desc place att d = gattobj_default\<lparr>g_path := place (xd_path d), g_kind := G_DESC, g_uuid := from_uuid_str (xd_uuid_str d),
     g_handle := att (xd_path d), g_has_handle := True, g_parent := place (xd_char_path d)\<rparr>"

definition obj_cccd :: "(string \<Rightarrow> string) \<Rightarrow> (string \<Rightarrow> u16) \<Rightarrow> exported_char \<Rightarrow> GattObj" where
  "obj_cccd place att c = gattobj_default\<lparr>g_path := place (cccd_path (xc_path c)), g_kind := G_DESC,
     g_uuid := as_128bit (from_uint16 0x2902), g_handle := att (cccd_path (xc_path c)), g_has_handle := True,
     g_parent := place (xc_path c)\<rparr>"

text \<open>The order of the properties does not matter, nor do the ones that are not read.\<close>

fun prop_key :: "gatt_prop \<Rightarrow> nat" where
  "prop_key (GP_UUID _) = 0"
| "prop_key (GP_Handle _) = 1"
| "prop_key (GP_Parent _) = 2"
| "prop_key (GP_Flags _) = 3"
| "prop_key GP_Other = 4"

lemma prop_commute:
  "prop_key x = prop_key y \<longrightarrow> x = y \<Longrightarrow> gatt_iface_prop b x \<circ> gatt_iface_prop b y = gatt_iface_prop b y \<circ> gatt_iface_prop b x"
  by (cases x; cases y) (auto simp: gatt_iface_prop_def fun_eq_iff split: option.split)

lemma props_in_any_order:
  assumes "mset ps = mset (props @ others)" "set others \<subseteq> {GP_Other}" "inj_on prop_key (set props)"
    "GP_Other \<notin> set props"
  shows "parse_gatt_iface_props iface ps obj = parse_gatt_iface_props iface props obj"
proof -
  have "x = y" if "x \<in> set ps" "y \<in> set ps" "prop_key x = prop_key y" for x y
  proof -
    have "set ps = set props \<union> set others" using assms(1) by (metis set_append set_mset_mset)
    then have "x \<in> set props \<or> x = GP_Other" "y \<in> set props \<or> y = GP_Other" using that assms(2) by auto
    moreover have "prop_key z = 4 \<longleftrightarrow> z = GP_Other" for z by (cases z) auto
    ultimately show ?thesis using that(3) assms(3) by (metis inj_onD prop_key.simps(5))
  qed
  then have "fold (gatt_iface_prop b) ps = fold (gatt_iface_prop b) (props @ others)" for b
    by (intro fold_multiset_equiv prop_commute assms(1)) auto
  moreover have "fold (gatt_iface_prop b) others o1 = o1" for b o1
    using assms(2) by (induction others arbitrary: o1) (auto simp: gatt_iface_prop_def)
  ultimately show ?thesis by (simp add: parse_gatt_iface_props_def Let_def)
qed

lemma fold_other_ifaces:
  "(\<forall>x\<in>set is. \<not> is_gatt_iface (fst x)) \<Longrightarrow>
    fold (\<lambda>(iface, props) o1. if u \<and> is_gatt_iface iface then parse_gatt_iface_props iface props o1 else o1) is o0 = o0"
  by (induction "is" arbitrary: o0) auto

lemma read_exposes:
  assumes "exposes p iface props mo" "under_device dev p" "is_gatt_iface iface" "inj_on prop_key (set props)" "GP_Other \<notin> set props"
    "obj = parse_gatt_iface_props iface props (gattobj_default\<lparr>g_path := p\<rparr>)" "g_kind obj \<noteq> G_OTHER"
  shows "read_object dev mo = [obj]"
proof -
  obtain before ps after others where mo: "fst mo = p" "snd mo = before @ (iface, ps) # after"
    "\<forall>x\<in>set (before @ after). \<not> is_gatt_iface (fst x)" "set others \<subseteq> {GP_Other}" "mset ps = mset (props @ others)"
    using assms(1) by (auto simp: exposes_def)
  have o: "\<forall>x\<in>set before. \<not> is_gatt_iface (fst x)" "\<forall>x\<in>set after. \<not> is_gatt_iface (fst x)" using mo(3) by auto
  have "fold (\<lambda>(iface, props) o1. if under_device dev (fst mo) \<and> is_gatt_iface iface then parse_gatt_iface_props iface props o1
      else o1) (snd mo) (gattobj_default\<lparr>g_path := fst mo\<rparr>) = obj"
    using assms(2,3,6) props_in_any_order [OF mo(5,4) assms(4,5)]
    by (simp add: mo(1,2) fold_other_ifaces [OF o(1), of True, simplified] fold_other_ifaces [OF o(2), of True, simplified])
  then show ?thesis using assms(2,7) by (simp add: read_object_def mo(1))
qed

lemmas read_defs = is_gatt_iface_def parse_gatt_iface_props_def gatt_iface_prop_def gattobj_default_def Let_def

lemma read_service:
  "exposes (place (xs_path s)) ''org.bluez.GattService1'' (service_props att s) mo \<Longrightarrow> under_device dev (place (xs_path s)) \<Longrightarrow>
    read_object dev mo = [obj_service place att s]"
  by (erule read_exposes) (simp_all add: read_defs service_props_def svc_get_uuid_def obj_service_def)

lemma read_char:
  assumes "exposes (place (xc_path c)) ''org.bluez.GattCharacteristic1'' (char_props place att c) mo"
    "under_device dev (place (xc_path c))"
  shows "read_object dev mo = [obj_char place att c]"
proof -
  obtain fs where f: "shown_flags (chr_get_flags c) = [GP_Flags fs]" by (simp add: chr_get_flags_def Let_def)
  show ?thesis using assms(2) flags_roundtrip [OF f]
    by (intro read_exposes [OF assms(1)]) (simp_all add: read_defs char_props_def chr_get_uuid_def obj_char_def f)
qed

lemma read_desc:
  "exposes (place (xd_path d)) ''org.bluez.GattDescriptor1'' (desc_props place att d) mo \<Longrightarrow> under_device dev (place (xd_path d)) \<Longrightarrow>
    read_object dev mo = [obj_desc place att d]"
  by (erule read_exposes) (simp_all add: read_defs desc_props_def desc_get_uuid_def obj_desc_def)

lemma read_cccd:
  "exposes (place (cccd_path (xc_path c))) ''org.bluez.GattDescriptor1'' (cccd_props place att c) mo \<Longrightarrow>
    under_device dev (place (cccd_path (xc_path c))) \<Longrightarrow> read_object dev mo = [obj_cccd place att c]"
  by (erule read_exposes) (simp_all add: read_defs cccd_props_def obj_cccd_def cccd_uuid)

lemma device_objects_under: "device_objects dev mos = device_objects dev (filter (\<lambda>m. under_device dev (fst m)) mos)"
  by (induction mos) (simp_all add: device_objects_def read_object_def Let_def)

lemma device_objects_append: "device_objects dev (a @ b) = device_objects dev a @ device_objects dev b"
  by (simp add: device_objects_def)

lemma device_objects_perm: "mset a = mset b \<Longrightarrow> mset (device_objects dev a) = mset (device_objects dev b)"
proof -
  have "mset (device_objects dev xs) = (\<Sum>x\<in>#mset xs. mset (read_object dev x))" for xs
    by (induction xs) (simp_all add: device_objects_def)
  then show "mset a = mset b \<Longrightarrow> mset (device_objects dev a) = mset (device_objects dev b)" by simp
qed

lemma device_objects_map:
  "list_all2 R xs ms \<Longrightarrow> (\<And>x m. x \<in> set xs \<Longrightarrow> R x m \<Longrightarrow> read_object dev m = [f x]) \<Longrightarrow> device_objects dev ms = map f xs"
  by (induction rule: list_all2_induct) (simp_all add: device_objects_def)

lemma device_objects_shown:
  assumes u: "\<And>p. under_device dev (place p)" and "shown place att g own"
  shows "device_objects dev own = map (obj_service place att) (gs_services g) @ map (obj_char place att) (gs_chars g)
    @ map (obj_desc place att) (gs_descs g) @ map (obj_cccd place att) (filter (\<lambda>c. notifies (xc_properties c)) (gs_chars g))"
proof -
  from assms(2) obtain ss cs ds ks where o: "own = ss @ cs @ ds @ ks"
     "list_all2 (\<lambda>s. exposes (place (xs_path s)) ''org.bluez.GattService1'' (service_props att s)) (gs_services g) ss"
     "list_all2 (\<lambda>c. exposes (place (xc_path c)) ''org.bluez.GattCharacteristic1'' (char_props place att c)) (gs_chars g) cs"
     "list_all2 (\<lambda>d. exposes (place (xd_path d)) ''org.bluez.GattDescriptor1'' (desc_props place att d)) (gs_descs g) ds"
     "list_all2 (\<lambda>c. exposes (place (cccd_path (xc_path c))) ''org.bluez.GattDescriptor1'' (cccd_props place att c))
         (filter (\<lambda>c. notifies (xc_properties c)) (gs_chars g)) ks"
    unfolding shown_def by blast
  have "device_objects dev ss = map (obj_service place att) (gs_services g)"
    by (rule device_objects_map [OF o(2)]) (rule read_service [OF _ u])
  moreover have "device_objects dev cs = map (obj_char place att) (gs_chars g)"
    by (rule device_objects_map [OF o(3)]) (rule read_char [OF _ u])
  moreover have "device_objects dev ds = map (obj_desc place att) (gs_descs g)"
    by (rule device_objects_map [OF o(4)]) (rule read_desc [OF _ u])
  moreover have "device_objects dev ks = map (obj_cccd place att) (filter (\<lambda>c. notifies (xc_properties c)) (gs_chars g))"
    by (rule device_objects_map [OF o(5)]) (rule read_cccd [OF _ u])
  ultimately show ?thesis by (simp add: o(1) device_objects_append)
qed

text \<open>What is read from a foreign object.\<close>

definition foreign_obj :: "(string \<Rightarrow> string) \<Rightarrow> (string \<Rightarrow> u16) \<Rightarrow> gatt_server \<Rightarrow> GattObj \<Rightarrow> bool" where
  "foreign_obj place att g x \<longleftrightarrow> g_path x \<notin> place ` tree_paths g \<and> g_parent x \<notin> place ` tree_paths g
     \<and> (g_has_handle x \<longrightarrow> g_handle x \<notin> att ` tree_paths g)"

lemma foreign_props:
  assumes "foreign_obj place att g x" "\<forall>a. GP_Handle (Some a) \<in> set ps \<longrightarrow> a \<notin> att ` tree_paths g"
    "\<forall>q. GP_Parent q \<in> set ps \<longrightarrow> q \<notin> place ` tree_paths g"
  shows "foreign_obj place att g (fold (gatt_iface_prop b) ps x)
    \<and> (g_has_handle x \<or> (\<exists>a. GP_Handle (Some a) \<in> set ps) \<longrightarrow> g_has_handle (fold (gatt_iface_prop b) ps x))"
  using assms
proof (induction ps arbitrary: x)
  case (Cons p ps)
  have "foreign_obj place att g (gatt_iface_prop b p x)" using Cons.prems
    by (cases p) (auto simp: gatt_iface_prop_def foreign_obj_def split: option.split)
  moreover have "g_has_handle (gatt_iface_prop b p x)" if "g_has_handle x \<or> (\<exists>a. p = GP_Handle (Some a))"
    using that by (cases p) (auto simp: gatt_iface_prop_def split: option.split)
  ultimately show ?case using Cons.IH [of "gatt_iface_prop b p x"] Cons.prems by auto
qed simp

lemma foreign_read:
  assumes "foreign place att g mo" "\<And>p. under_device dev (place p)" "x \<in> set (read_object dev mo)"
  shows "foreign_obj place att g x \<and> g_has_handle x"
proof -
  let ?f = "\<lambda>(iface, props) o1. if under_device dev (fst mo) \<and> is_gatt_iface iface then parse_gatt_iface_props iface props o1 else o1"
  have step: "foreign_obj place att g (parse_gatt_iface_props iface ps o1) \<and> g_has_handle (parse_gatt_iface_props iface ps o1)"
    if "foreign_obj place att g o1" "(iface, ps) \<in> set (snd mo)" "is_gatt_iface iface" for iface ps o1
  proof -
    have k: "foreign_obj place att g (o1\<lparr>g_kind := k\<rparr>)" for k using that(1) by (simp add: foreign_obj_def)
    have "parse_gatt_iface_props iface ps o1 = fold (gatt_iface_prop (iface = ''org.bluez.GattCharacteristic1'')) ps
      (if iface = ''org.bluez.GattCharacteristic1'' then o1\<lparr>g_kind := G_CHAR\<rparr>
       else if iface = ''org.bluez.GattDescriptor1'' then o1\<lparr>g_kind := G_DESC\<rparr>
       else if iface = ''org.bluez.GattService1'' then o1\<lparr>g_kind := G_SERVICE\<rparr> else o1)" (is "_ = fold (gatt_iface_prop ?b) ps ?o2")
      by (simp add: parse_gatt_iface_props_def Let_def)
    moreover have "foreign_obj place att g ?o2" using k that(1) by (simp only: split: if_split) blast
    ultimately obtain b o2 where p: "parse_gatt_iface_props iface ps o1 = fold (gatt_iface_prop b) ps o2" "foreign_obj place att g o2"
      by blast
    have "\<exists>a. GP_Handle (Some a) \<in> set ps" "\<forall>a. GP_Handle (Some a) \<in> set ps \<longrightarrow> a \<notin> att ` tree_paths g"
      "\<forall>q. GP_Parent q \<in> set ps \<longrightarrow> q \<notin> place ` tree_paths g"
      using assms(1) that(2,3) unfolding foreign_def by (metis fst_conv snd_conv)+
    then show ?thesis using foreign_props [OF p(2)] unfolding p(1) by blast
  qed
  have "foreign_obj place att g (fold ?f is o1) \<and> (g_kind (fold ?f is o1) \<noteq> G_OTHER \<longrightarrow> g_has_handle (fold ?f is o1))"
    if "set is \<subseteq> set (snd mo)" "foreign_obj place att g o1" "g_kind o1 \<noteq> G_OTHER \<longrightarrow> g_has_handle o1" for "is" o1
    using that
  proof (induction "is" arbitrary: o1)
    case (Cons i "is")
    show ?case using Cons.IH [of "?f i o1"] Cons.prems step [of o1 "fst i" "snd i"] by (auto simp: case_prod_beta)
  qed simp
  moreover have "place q \<noteq> []" for q using assms(2) [of q] by (auto simp: under_device_def)
  then have "foreign_obj place att g (gattobj_default\<lparr>g_path := fst mo\<rparr>)"
    using assms(1) by (auto simp: foreign_obj_def foreign_def gattobj_default_def) (metis)
  ultimately show ?thesis using assms(3)
    by (auto simp: read_object_def Let_def gattobj_default_def split: if_splits)
qed

lemma foreign_objects:
  assumes "list_all (foreign place att g) extra" "\<And>p. under_device dev (place p)" "x \<in> set (device_objects dev extra)"
  shows "foreign_obj place att g x \<and> g_has_handle x"
  using assms foreign_read by (fastforce simp: device_objects_def list_all_iff)

section \<open>The tree\<close>

lemma filter_concat_key:
  assumes "distinct (map K ps)" "p \<in> set ps" "\<And>q x. q \<in> set ps \<Longrightarrow> x \<in> set (f q) \<Longrightarrow> key x = K q"
  shows "filter (\<lambda>x. key x = K p) (concat (map f ps)) = f p"
  using assms
proof (induction ps)
  case (Cons q ps)
  have o: "filter (\<lambda>x. key x = K p) (f r) = []" if "r \<in> set (q # ps)" "K r \<noteq> K p" for r
    using that Cons.prems(3) by (auto simp: filter_empty_conv)
  show ?case
  proof (cases "p = q")
    case True
    have "filter (\<lambda>x. key x = K p) (concat (map f ps)) = []"
      using Cons.prems True by (auto simp: filter_empty_conv) (metis image_eqI)
    moreover have "filter (\<lambda>x. key x = K p) (f q) = f q" using Cons.prems(3) True by (auto simp: filter_id_conv)
    ultimately show ?thesis using True by simp
  next
    case False
    then have "p \<in> set ps" "K q \<noteq> K p" using Cons.prems(1,2) by auto
    then show ?thesis using Cons o [of q] by simp
  qed
qed simp

definition wf_tree :: "srv_objects \<Rightarrow> nat list \<Rightarrow> bool" where
  "wf_tree ob ss \<longleftrightarrow> list_all (\<lambda>s. wf_uuid (sv_uuid (ob_services ob ! s)) \<and> list_all (\<lambda>c. wf_uuid (sc_uuid (ob_chars ob ! c))
     \<and> list_all (\<lambda>d. wf_uuid (dsc_uuid (ob_descs ob ! d))) (sc_descs (ob_chars ob ! c))) (sv_chars (ob_services ob ! s))) ss"

definition link_objs :: "(string \<Rightarrow> string) \<Rightarrow> (string \<Rightarrow> u16) \<Rightarrow> srv_objects \<Rightarrow> nat list \<Rightarrow> GattObj list" where
  "link_objs place att ob ss = map (\<lambda>p. obj_service place att (x_service ob p)) (enumerate 0 ss)
    @ map (obj_char place att) (concat (map (x_chars ob) (enumerate 0 ss)))
    @ map (obj_desc place att) (concat (map (x_descs ob) (enumerate 0 ss)))
    @ map (obj_cccd place att) (filter (\<lambda>c. notifies (xc_properties c)) (concat (map (x_chars ob) (enumerate 0 ss))))"

lemma obj_kinds [simp]:
  "g_kind (obj_service place att s) = G_SERVICE" "g_kind (obj_char place att c) = G_CHAR"
  "g_kind (obj_desc place att d) = G_DESC" "g_kind (obj_cccd place att c) = G_DESC"
  "g_has_handle (obj_char place att c)" "g_has_handle (obj_desc place att d)" "g_has_handle (obj_cccd place att c)"
  by (simp_all add: obj_service_def obj_char_def obj_desc_def obj_cccd_def)

lemma link_services: "services_of (link_objs place att ob ss) = map (\<lambda>p. obj_service place att (x_service ob p)) (enumerate 0 ss)"
  by (simp add: services_of_def link_objs_def filter_map comp_def)

lemma link_chars:
  assumes "inj place" "(i, s) \<in> set (enumerate 0 ss)"
  shows "chrs_of (link_objs place att ob ss) (obj_service place att (x_service ob (i, s))) = map (obj_char place att) (x_chars ob (i, s))"
proof -
  have "filter (\<lambda>c. xc_service_path c = (svc_path \<circ> fst) (i, s)) (concat (map (x_chars ob) (enumerate 0 ss))) = x_chars ob (i, s)"
    using assms(2) by (intro filter_concat_key)
      (auto simp: distinct_map inj_on_def path_inject in_set_enumerate_eq x_chars_def x_char_def)
  moreover have "place a = place b \<longleftrightarrow> a = b" for a b using assms(1) by (auto dest: injD)
  ultimately show ?thesis
    by (simp add: chrs_of_def link_objs_def filter_map comp_def x_service_def obj_service_def obj_char_def)
qed

lemma link_descs:
  assumes "inj place" "(i, s) \<in> set (enumerate 0 ss)" "(j, c) \<in> set (chr_positions ob s)"
  shows "Gatt_Host.descs_of (link_objs place att ob ss) (obj_char place att (x_char ob (svc_path i) (j, c)))
    = map (obj_desc place att) (map (x_desc ob (chr_path (svc_path i) j)) (dsc_positions ob c))
      @ (if notifies (sc_props (ob_chars ob ! c)) then [obj_cccd place att (x_char ob (svc_path i) (j, c))] else [])"
proof -
  let ?P = "all_positions ob (enumerate 0 ss)" and ?p = "(i, j, c)"
  have m: "?p \<in> set ?P" using assms(2,3) by (force simp: all_positions_def)
  have d: "filter (\<lambda>d. xd_char_path d = pos_path ?p) (concat (map (x_descs ob) (enumerate 0 ss)))
      = map (x_desc ob (chr_path (svc_path i) j)) (dsc_positions ob c)"
    unfolding all_descs using m all_positions_distinct [of ob 0 ss]
    by (subst filter_concat_key) (auto simp: x_desc_def pos_path_def)
  have "concat (map (x_chars ob) (enumerate 0 ss)) = concat (map (\<lambda>(i, q). [x_char ob (svc_path i) q]) ?P)"
    unfolding all_chars by (simp add: case_prod_unfold)
  then have "filter (\<lambda>c. xc_path c = pos_path ?p) (concat (map (x_chars ob) (enumerate 0 ss))) = [x_char ob (svc_path i) (j, c)]"
    using m all_positions_distinct [of ob 0 ss] by (simp only:) (subst filter_concat_key; auto simp: x_char_def pos_path_def)
  then have f: "filter (\<lambda>d. xc_path d = pos_path ?p) (filter (\<lambda>d. notifies (xc_properties d)) (concat (map (x_chars ob) (enumerate 0 ss))))
      = filter (\<lambda>d. notifies (xc_properties d)) [x_char ob (svc_path i) (j, c)]"
    by (metis (no_types, lifting) filter_filter filter_cong conj_commute)
  have e: "place a = place b \<longleftrightarrow> a = b" for a b using assms(1) by (auto dest: injD)
  have p: "pos_path ?p = chr_path (svc_path i) j" by (simp add: pos_path_def)
  have g: "g_parent (obj_desc place att x) = place (xd_char_path x)" "g_parent (obj_cccd place att y) = place (xc_path y)"
    "g_path (obj_char place att y) = place (xc_path y)" for x y
    by (simp_all add: obj_desc_def obj_cccd_def obj_char_def)
  have x: "xc_path (x_char ob (svc_path i) (j, c)) = pos_path ?p" "xc_properties (x_char ob (svc_path i) (j, c)) = sc_props (ob_chars ob ! c)"
    by (simp_all add: x_char_def p)
  show ?thesis unfolding Gatt_Host.descs_of_def link_objs_def filter_append filter_map comp_def g x e
    by (simp add: p x d [unfolded p] f [unfolded p] del: filter_filter)
qed

lemma wf_positions:
  assumes "wf_tree ob ss" "(i, s) \<in> set (enumerate 0 ss)"
  shows "wf_uuid (sv_uuid (ob_services ob ! s))"
    "(j, c) \<in> set (chr_positions ob s) \<Longrightarrow> wf_uuid (sc_uuid (ob_chars ob ! c))"
    "(j, c) \<in> set (chr_positions ob s) \<Longrightarrow> (k, d) \<in> set (dsc_positions ob c) \<Longrightarrow> wf_uuid (dsc_uuid (ob_descs ob ! d))"
proof -
  have s: "s \<in> set ss" using assms(2) by (auto simp: in_set_enumerate_eq)
  have c: "c \<in> set (sv_chars (ob_services ob ! s))" if "(j, c) \<in> set (chr_positions ob s)"
    using that by (auto simp: chr_positions_def in_set_enumerate_eq)
  have d: "d \<in> set (sc_descs (ob_chars ob ! c))" if "(k, d) \<in> set (dsc_positions ob c)"
    using that nth_mem by (fastforce simp: dsc_positions_def in_set_enumerate_eq exportable_def)
  show "wf_uuid (sv_uuid (ob_services ob ! s))" using assms(1) s by (auto simp: wf_tree_def list_all_iff)
  show "wf_uuid (sc_uuid (ob_chars ob ! c))" if "(j, c) \<in> set (chr_positions ob s)"
    using assms(1) s c [OF that] by (auto simp: wf_tree_def list_all_iff)
  show "wf_uuid (dsc_uuid (ob_descs ob ! d))" if "(j, c) \<in> set (chr_positions ob s)" "(k, d) \<in> set (dsc_positions ob c)"
    using assms(1) s c [OF that(1)] d [OF that(2)] by (auto simp: wf_tree_def list_all_iff)
qed

lemma link_tree_char:
  assumes "inj place" "wf_tree ob ss" "(i, s) \<in> set (enumerate 0 ss)" "(j, c) \<in> set (chr_positions ob s)"
  shows "tree_char (link_objs place att ob ss) (obj_char place att (x_char ob (svc_path i) (j, c))) = seen_char att ob (svc_path i) (j, c)"
proof -
  have d: "tree_desc (obj_desc place att (x_desc ob cp (k, d))) = seen_desc att ob cp (k, d)"
    if "(k, d) \<in> set (dsc_positions ob c)" for cp k d
    using wf_positions(3) [OF assms(2-4) that]
    by (simp add: tree_desc_def obj_desc_def x_desc_def seen_desc_def bluez_str_roundtrip)
  show ?thesis unfolding tree_char_def link_descs [OF assms(1,3,4)]
    using d wf_positions(2) [OF assms(2-4)]
    by (auto simp: obj_char_def x_char_def seen_char_def bluez_str_roundtrip tree_desc_def obj_cccd_def seen_cccd_def)
qed

lemma link_tree:
  assumes "inj place" "wf_tree ob ss"
  shows "gatt_tree (link_objs place att ob ss) = map (seen_service att ob) (enumerate 0 ss)"
    "tree_has_handles (link_objs place att ob ss)"
proof -
  let ?objs = "link_objs place att ob ss"
  have "tree_service ?objs (obj_service place att (x_service ob (i, s))) = seen_service att ob (i, s)"
    if p: "(i, s) \<in> set (enumerate 0 ss)" for i s
    using wf_positions(1) [OF assms(2) p] link_tree_char [OF assms p]
    by (auto simp: tree_service_def link_chars [OF assms(1) p] x_chars_def)
      (auto simp: obj_service_def x_service_def seen_service_def bluez_str_roundtrip)
  then show "gatt_tree ?objs = map (seen_service att ob) (enumerate 0 ss)"
    by (auto simp: gatt_tree_def link_services)
  have "list_all (char_has_handles ?objs) (chrs_of ?objs (obj_service place att (x_service ob (i, s))))"
    if p: "(i, s) \<in> set (enumerate 0 ss)" for i s
    by (auto simp: link_chars [OF assms(1) p] x_chars_def char_has_handles_def list_all_iff link_descs [OF assms(1) p])
  then show "tree_has_handles ?objs" unfolding tree_has_handles_def link_services by (auto simp: list_all_iff)
qed


lemma link_objs_shown:
  "g = build_tree ss (new_gatt_server ob) \<Longrightarrow> link_objs place att ob ss = map (obj_service place att) (gs_services g)
    @ map (obj_char place att) (gs_chars g) @ map (obj_desc place att) (gs_descs g)
    @ map (obj_cccd place att) (filter (\<lambda>c. notifies (xc_properties c)) (gs_chars g))"
  by (simp only: link_objs_def tree_lists map_map comp_def)

lemma char_shape:
  "c \<in> set (concat (map (x_chars ob) (enumerate 0 ss))) \<longleftrightarrow>
    (\<exists>i s j k. (i, s) \<in> set (enumerate 0 ss) \<and> (j, k) \<in> set (chr_positions ob s) \<and> c = x_char ob (svc_path i) (j, k))"
  by (auto simp: x_chars_def)

lemma obj_places [simp]:
  "g_path (obj_service place att s) = place (xs_path s)" "g_handle (obj_service place att s) = att (xs_path s)"
  "g_path (obj_char place att c) = place (xc_path c)" "g_handle (obj_char place att c) = att (xc_path c)"
  "g_path (obj_desc place att d) = place (xd_path d)" "g_handle (obj_desc place att d) = att (xd_path d)"
  "g_path (obj_cccd place att c) = place (cccd_path (xc_path c))" "g_handle (obj_cccd place att c) = att (cccd_path (xc_path c))"
  by (simp_all add: obj_service_def obj_char_def obj_desc_def obj_cccd_def)

lemma cccd_not_char: "cccd_path (chr_path (svc_path i) j) \<noteq> chr_path (svc_path i') j'"
  using dec_not_slash [symmetric] by (auto simp: cccd_path_def chr_path_def svc_path_def dec_slash)

lemma desc_no_char:
  assumes "d \<in> set (concat (map (x_descs ob) ps))" shows "xd_path d \<noteq> chr_path (svc_path i) j"
  using assms by (auto simp: x_descs_def x_paths path_differ(3) [symmetric])

text \<open>An object on the central that has the handle of a characteristic is the object of that characteristic.\<close>

lemma obj_of_handle:
  assumes "g = build_tree ss (new_gatt_server ob)" "inj_on att (tree_paths g)" "c \<in> set (gs_chars g)"
    "x \<in> set (link_objs place att ob ss)" "g_handle x = att (xc_path c)"
  shows "g_path x = place (xc_path c) \<and> g_kind x \<noteq> G_DESC"
proof -
  note l = tree_lists [OF assms(1)]
  obtain i j where c: "xc_path c = chr_path (svc_path i) j" using assms(3) unfolding l char_shape by (auto simp: x_paths)
  have t: "xc_path c \<in> tree_paths g" using assms(3) by (simp add: tree_paths_def)
  from assms(4) consider (s) s where "s \<in> set (gs_services g)" "x = obj_service place att s"
    | (c) d where "d \<in> set (gs_chars g)" "x = obj_char place att d"
    | (d) d where "d \<in> set (gs_descs g)" "x = obj_desc place att d"
    | (k) d where "d \<in> set (gs_chars g)" "x = obj_cccd place att d"
    unfolding link_objs_shown [OF assms(1)] by auto
  then show ?thesis
  proof cases
    case s
    then have "xs_path s = xc_path c" using assms(2,5) t by (auto simp: tree_paths_def dest: inj_onD)
    then show ?thesis using s by simp
  next
    case (c d)
    then have "xc_path d = xc_path c" using assms(2,5) t by (auto simp: tree_paths_def dest: inj_onD)
    then show ?thesis using c by simp
  next
    case d
    then have "xd_path d = xc_path c" using assms(2,5) t by (auto simp: tree_paths_def dest: inj_onD)
    then show ?thesis using d desc_no_char c unfolding l by auto
  next
    case (k d)
    then have "cccd_path (xc_path d) = xc_path c" using assms(2,5) t by (auto simp: tree_paths_def dest: inj_onD)
    moreover obtain i' j' where "xc_path d = chr_path (svc_path i') j'" using k(1) unfolding l char_shape by (auto simp: x_paths)
    ultimately show ?thesis using c cccd_not_char by simp
  qed
qed

text \<open>The handle of every characteristic is in the tree.\<close>

lemma char_found:
  assumes "g = build_tree ss (new_gatt_server ob)" "c \<in> set (gs_chars g)" "set (link_objs place att ob ss) \<subseteq> set objs"
  shows "att (xc_path c) \<in> tree_handles (gatt_tree objs)"
proof -
  obtain i s j k where p: "(i, s) \<in> set (enumerate 0 ss)" "(j, k) \<in> set (chr_positions ob s)" "c = x_char ob (svc_path i) (j, k)"
    using assms(2) unfolding tree_lists [OF assms(1)] char_shape by blast
  have "obj_service place att (x_service ob (i, s)) \<in> set objs" "obj_char place att c \<in> set objs"
    using assms p unfolding link_objs_shown [OF assms(1)] tree_lists [OF assms(1)] by auto
  moreover have "g_parent (obj_char place att c) = g_path (obj_service place att (x_service ob (i, s)))"
    by (simp add: obj_char_def p(3) x_char_def x_service_def)
  ultimately have "obj_service place att (x_service ob (i, s)) \<in> set (services_of objs)"
    "obj_char place att c \<in> set (chrs_of objs (obj_service place att (x_service ob (i, s))))"
    by (simp_all add: services_of_def chrs_of_def)
  then show ?thesis
    by (force simp: tree_handles_def gatt_tree_def tree_service_def char_handles_def tree_char_def)
qed

text \<open>The trees of two sets of objects that do not refer to each other, found in any order.\<close>

lemma descs_of_mset: "mset (Gatt_Host.descs_of objs c) = filter_mset (\<lambda>d. g_kind d = G_DESC \<and> g_parent d = g_path c) (mset objs)"
  by (simp add: Gatt_Host.descs_of_def)

lemma chrs_of_mset: "mset (chrs_of objs s) = filter_mset (\<lambda>c. g_kind c = G_CHAR \<and> g_parent c = g_path s) (mset objs)"
  by (simp add: chrs_of_def)

lemma filter_apart: "(\<And>x. x \<in> set b \<Longrightarrow> \<not> P x) \<Longrightarrow> filter_mset P (mset a + mset b) = filter_mset P (mset a)"
proof -
  assume "\<And>x. x \<in> set b \<Longrightarrow> \<not> P x"
  then have "mset (filter P b) = {#}" by (simp add: filter_empty_conv)
  then show ?thesis by simp
qed

definition apart :: "GattObj list \<Rightarrow> GattObj list \<Rightarrow> bool" where
  "apart a b \<longleftrightarrow> (\<forall>x\<in>set a. \<forall>y\<in>set b. g_kind x \<noteq> G_DESC \<and> g_kind y \<noteq> G_SERVICE \<longrightarrow> g_parent y \<noteq> g_path x)"

lemma view_apart:
  assumes "mset objs = mset a + mset b" "apart a b" "s \<in> set a" "g_kind s = G_SERVICE"
  shows "svc_view (tree_service objs s) = svc_view (tree_service a s)"
proof -
  have c: "mset (chrs_of objs s) = mset (chrs_of a s)"
    unfolding chrs_of_mset assms(1) using assms(2-4) by (intro filter_apart) (auto simp: apart_def)
  have "chr_view (tree_char objs x) = chr_view (tree_char a x)" if "x \<in># mset (chrs_of a s)" for x
  proof -
    have x: "x \<in> set a" "g_kind x = G_CHAR" using that by (auto simp: chrs_of_def)
    then have "mset (Gatt_Host.descs_of objs x) = mset (Gatt_Host.descs_of a x)"
      unfolding descs_of_mset assms(1) using assms(2) by (intro filter_apart) (auto simp: apart_def)
    then show ?thesis by (simp add: chr_view_def tree_char_def)
  qed
  then have "image_mset (\<lambda>x. chr_view (tree_char objs x)) (mset (chrs_of a s))
      = image_mset (\<lambda>x. chr_view (tree_char a x)) (mset (chrs_of a s))" by (rule image_mset_cong)
  then show ?thesis using c by (simp add: svc_view_def tree_service_def multiset.map_comp comp_def)
qed

lemma tree_view_apart:
  assumes "mset objs = mset a + mset b" "apart a b" "apart b a"
  shows "tree_view (gatt_tree objs) = tree_view (gatt_tree a) + tree_view (gatt_tree b)"
proof -
  let ?S = "\<lambda>xs. filter_mset (\<lambda>s. g_kind s = G_SERVICE) (mset xs)"
  have t: "tree_view (gatt_tree xs) = image_mset (\<lambda>s. svc_view (tree_service xs s)) (?S xs)" for xs
    by (simp add: tree_view_def gatt_tree_def services_of_def comp_def)
  have "image_mset (\<lambda>s. svc_view (tree_service objs s)) (?S a) = image_mset (\<lambda>s. svc_view (tree_service a s)) (?S a)"
    using view_apart [OF assms(1,2)] by (intro image_mset_cong) auto
  moreover have "image_mset (\<lambda>s. svc_view (tree_service objs s)) (?S b) = image_mset (\<lambda>s. svc_view (tree_service b s)) (?S b)"
    using view_apart [of objs b a, OF _ assms(3)] assms(1) by (intro image_mset_cong) (auto simp: add.commute)
  ultimately show ?thesis unfolding t assms(1) by simp
qed

text \<open>The objects of a server and foreign ones do not refer to each other.\<close>

lemma link_obj_places:
  assumes "g = build_tree ss (new_gatt_server ob)" "x \<in> set (link_objs place att ob ss)"
  shows "g_path x \<in> place ` tree_paths g" "g_has_handle x" "g_kind x = G_SERVICE \<or> g_parent x \<in> place ` tree_paths g"
proof -
  note l = tree_lists [OF assms(1)]
  have kids: "xc_service_path c \<in> xs_path ` set (gs_services g)" if "c \<in> set (gs_chars g)" for c
    using that unfolding l by (force simp: x_chars_def x_char_def x_service_def)
  have dkids: "xd_char_path d \<in> xc_path ` set (gs_chars g)" if "d \<in> set (gs_descs g)" for d
    using that unfolding l all_descs by (force simp: x_chars_def x_char_def x_desc_def all_positions_def pos_path_def)
  from assms(2) consider (s) s where "s \<in> set (gs_services g)" "x = obj_service place att s"
    | (c) d where "d \<in> set (gs_chars g)" "x = obj_char place att d"
    | (d) d where "d \<in> set (gs_descs g)" "x = obj_desc place att d"
    | (k) d where "d \<in> set (gs_chars g)" "x = obj_cccd place att d"
    unfolding link_objs_shown [OF assms(1)] by auto
  then show "g_path x \<in> place ` tree_paths g" "g_has_handle x" "g_kind x = G_SERVICE \<or> g_parent x \<in> place ` tree_paths g"
    by (cases; use kids dkids in \<open>force simp: tree_paths_def obj_service_def obj_char_def obj_desc_def obj_cccd_def\<close>)+
qed

text \<open>C4. When BlueZ on the central shows the tree the application built on the server, in any order and among the objects of
  any other services, each under its own path and with its own handles, the client discovers that tree: every service,
  its characteristics with the properties that were set, and their descriptors, every UUID in its 128-bit form, with the
  configuration descriptor added where the characteristic notifies; besides them it reports exactly what the other objects make
  up, and a synthetic GAP service. The handle of every characteristic is routed to the object BlueZ made for it.\<close>
theorem server_tree_discovered:
  assumes "g = build_tree ss (new_gatt_server ob)" "wf_tree ob ss" "inj place" "\<forall>p. under_device (h_device_path h) (place p)"
    "inj_on att (tree_paths g)" "bz_managed_objects bz = Some mos"
    "mset (filter (\<lambda>m. under_device (h_device_path h) (fst m)) mos) = mset (own @ extra)" "shown place att g own"
    "list_all (foreign place att g) extra" "h_bus h" "\<not> discovered h" "\<not> discovering h"
  shows "\<exists>ev gap. events (try_start_discovery bz h) = events h @ [ev] \<and> ev_kind ev = E_SERVICES_DISCOVERED
    \<and> tree_view (ev_services ev) = tree_view (map (seen_service att ob) (enumerate 0 ss))
        + tree_view (gatt_tree (device_objects (h_device_path h) extra)) + tree_view gap
    \<and> list_all (\<lambda>s. svc_uuid s = from_uint16 0x1800) gap
    \<and> (\<forall>c\<in>set (gs_chars g). \<exists>e. map_of (handle_map (try_start_discovery bz h)) (att (xc_path c)) = Some e
         \<and> obj_kind e = K_CHAR \<and> obj_path e = place (xc_path c))"
proof -
  let ?objs = "device_objects (h_device_path h) mos" and ?own = "link_objs place att ob ss"
    and ?extra = "device_objects (h_device_path h) extra"
  note l = tree_lists [OF assms(1)]
  have u: "\<And>p. under_device (h_device_path h) (place p)" using assms(4) by simp
  have "device_objects (h_device_path h) own = ?own"
    unfolding device_objects_shown [OF u assms(8)] link_objs_shown [OF assms(1)] ..
  then have m: "mset ?objs = mset ?own + mset ?extra"
    using device_objects_perm [OF assms(7), of "h_device_path h"]
    by (simp add: device_objects_append flip: device_objects_under)
  then have o: "set ?objs = set ?own \<union> set ?extra" by (metis set_mset_mset set_mset_union)
  have x: "foreign_obj place att g x \<and> g_has_handle x" if "x \<in> set ?extra" for x
    by (rule foreign_objects [OF assms(9) u that])
  have a: "apart ?own ?extra" "apart ?extra ?own"
    using x link_obj_places [OF assms(1)] unfolding apart_def foreign_obj_def by metis+
  have v: "tree_view (gatt_tree ?objs) = tree_view (map (seen_service att ob) (enumerate 0 ss)) + tree_view (gatt_tree ?extra)"
    using tree_view_apart [OF m a] link_tree(1) [OF assms(3,2)] by simp
  have hh: "g_has_handle y" if "y \<in> set ?objs" for y using that x link_obj_places(2) [OF assms(1)] unfolding o by blast
  then have t: "tree_has_handles (device_objects (h_device_path (h\<lparr>discovering := True\<rparr>)) mos)"
    by (auto simp: tree_has_handles_def char_has_handles_def list_all_iff chrs_of_def Gatt_Host.descs_of_def)
  obtain h2 gap where w: "walk_gatt_tree bz (h\<lparr>discovering := True\<rparr>) = ((True, h2), gatt_tree ?objs @ gap)"
    and hm: "hm_ok ?objs (handle_map h2)" "dom (map_of (handle_map h2)) = tree_handles (gatt_tree ?objs)"
    and gap: "list_all (\<lambda>s. svc_uuid s = from_uint16 0x1800) gap"
    by (rule walk_gatt_tree_ok [OF _ assms(6) t]) (use assms(10) in simp_all)
  have s: "try_start_discovery bz h = post_event ((gatt_event E_SERVICES_DISCOVERED)
      \<lparr>ev_mtu := acquire_mtu bz (h2\<lparr>discovered := True\<rparr>), ev_services := gatt_tree ?objs @ gap\<rparr>)
      (h2\<lparr>discovered := True, discovering := False\<rparr>)"
    by (rule try_start_discovery_ok [OF assms(11,12) w])
  have r: "\<exists>e. map_of (handle_map h2) (att (xc_path c)) = Some e \<and> obj_kind e = K_CHAR \<and> obj_path e = place (xc_path c)"
    if c: "c \<in> set (gs_chars g)" for c
  proof -
    have "att (xc_path c) \<in> tree_handles (gatt_tree ?objs)" using char_found [OF assms(1) c] o by blast
    then obtain e where e: "map_of (handle_map h2) (att (xc_path c)) = Some e" using hm(2) by blast
    then obtain y where y: "y \<in> set ?objs" "g_handle y = att (xc_path c)" "g_path y = obj_path e"
      "g_kind y = (case obj_kind e of K_CHAR \<Rightarrow> G_CHAR | K_DESC \<Rightarrow> G_DESC)"
      using hm(1) unfolding hm_ok_def by blast
    have "y \<notin> set ?extra" using x [of y] y(2) c by (auto simp: foreign_obj_def tree_paths_def)
    then have "y \<in> set ?own" using y(1) o by blast
    from obj_of_handle [OF assms(1,5) c this y(2)] show ?thesis using e y(3,4) by (cases "obj_kind e") auto
  qed
  show ?thesis using s r gap v walk_frame(1) [OF w]
    by (auto simp: post_event_def gatt_event_def tree_view_def)
qed

definition demo_place :: "string \<Rightarrow> string" where "demo_place p = ''/d/'' @ p"
definition demo_att :: "string \<Rightarrow> u16" where "demo_att p = of_nat (length p)"

definition demo_tree :: gatt_server where "demo_tree = build_tree [0] (new_gatt_server demo_objects)"

text \<open>The objects of the demonstration in another order, with further properties, and the GAP service of BlueZ.\<close>

definition demo_service_mo :: managed_object where
  "demo_service_mo = (demo_place (xs_path (gs_services demo_tree ! 0)), [(''org.freedesktop.DBus.Properties'', []),
     (''org.bluez.GattService1'', GP_Other # rev (service_props demo_att (gs_services demo_tree ! 0)))])"

definition demo_char_mo :: managed_object where
  "demo_char_mo = (demo_place (xc_path (gs_chars demo_tree ! 0)),
     [(''org.bluez.GattCharacteristic1'', rev (char_props demo_place demo_att (gs_chars demo_tree ! 0)))])"

definition demo_desc_mo :: managed_object where
  "demo_desc_mo = (demo_place (xd_path (gs_descs demo_tree ! 0)),
     [(''org.bluez.GattDescriptor1'', desc_props demo_place demo_att (gs_descs demo_tree ! 0))])"

definition demo_cccd_mos :: "managed_object list" where
  "demo_cccd_mos = map (\<lambda>c. (demo_place (cccd_path (xc_path c)), [(''org.bluez.GattDescriptor1'', cccd_props demo_place demo_att c)]))
     (filter (\<lambda>c. notifies (xc_properties c)) (gs_chars demo_tree))"

definition demo_gap_mo :: managed_object where
  "demo_gap_mo = (''/d/gap'', [(''org.bluez.GattService1'', [GP_UUID ''00001800-0000-1000-8000-00805f9b34fb'', GP_Handle (Some 1)])])"

definition demo_central :: bluez where
  "demo_central = demo_bluez\<lparr>bz_managed_objects := Some ([demo_gap_mo, demo_char_mo, demo_desc_mo, (''/other/s1'', []),
     demo_service_mo] @ demo_cccd_mos)\<rparr>"

lemma demo_tree_paths:
  "map xs_path (gs_services demo_tree) = [APP_ROOT @ ''/service0'']"
  "map xc_path (gs_chars demo_tree) = [APP_ROOT @ ''/service0/char0'']"
  "map xd_path (gs_descs demo_tree) = [APP_ROOT @ ''/service0/char0/desc0'']"
  unfolding demo_tree_def by code_simp+

lemma exposes_only: "mset ps = mset (props @ others) \<Longrightarrow> set others \<subseteq> {GP_Other} \<Longrightarrow> \<forall>x\<in>set a. \<not> is_gatt_iface (fst x) \<Longrightarrow>
    exposes p iface props (p, a @ [(iface, ps)])"
  unfolding exposes_def by (auto intro!: exI [of _ a]) blast

lemma demo_shown: "shown demo_place demo_att demo_tree ([demo_service_mo] @ [demo_char_mo] @ [demo_desc_mo] @ demo_cccd_mos)"
proof -
  obtain s c d where t: "gs_services demo_tree = [s]" "gs_chars demo_tree = [c]" "gs_descs demo_tree = [d]"
    using demo_tree_paths by (auto simp: map_eq_Cons_conv)
  have "exposes (demo_place (xs_path s)) ''org.bluez.GattService1'' (service_props demo_att s) demo_service_mo"
    using exposes_only [of "GP_Other # rev (service_props demo_att s)" "service_props demo_att s" "[GP_Other]"
        "[(''org.freedesktop.DBus.Properties'', [])]"]
    by (simp add: demo_service_mo_def t is_gatt_iface_def)
  moreover have "exposes (demo_place (xc_path c)) ''org.bluez.GattCharacteristic1'' (char_props demo_place demo_att c) demo_char_mo"
    using exposes_only [of "rev (char_props demo_place demo_att c)" "char_props demo_place demo_att c" "[]" "[]"]
    by (simp add: demo_char_mo_def t)
  moreover have "exposes (demo_place (xd_path d)) ''org.bluez.GattDescriptor1'' (desc_props demo_place demo_att d) demo_desc_mo"
    using exposes_only [of "desc_props demo_place demo_att d" "desc_props demo_place demo_att d" "[]" "[]"]
    by (simp add: demo_desc_mo_def t)
  moreover have "exposes (demo_place (cccd_path (xc_path x))) ''org.bluez.GattDescriptor1'' (cccd_props demo_place demo_att x)
      (demo_place (cccd_path (xc_path x)), [(''org.bluez.GattDescriptor1'', cccd_props demo_place demo_att x)])" for x
    using exposes_only [of "cccd_props demo_place demo_att x" "cccd_props demo_place demo_att x" "[]" "[]"] by simp
  ultimately show ?thesis unfolding shown_def
    by (intro exI [of _ "[demo_service_mo]"] exI [of _ "[demo_char_mo]"] exI [of _ "[demo_desc_mo]"] exI [of _ demo_cccd_mos]
        conjI refl) (simp_all add: demo_cccd_mos_def t list_all2_map2 list_all2_same)
qed

lemma demo_own_under: "filter (\<lambda>m. under_device ''/d'' (fst m)) demo_cccd_mos = demo_cccd_mos"
  by (auto simp: demo_cccd_mos_def filter_id_conv under_device_def demo_place_def)

lemma server_tree_discovered_witness:
  "\<exists>ev gap. events (try_start_discovery demo_central demo_host) = [ev]
    \<and> tree_view (ev_services ev) = tree_view (map (seen_service demo_att demo_objects) (enumerate 0 [0]))
        + tree_view (gatt_tree (device_objects ''/d'' [demo_gap_mo])) + tree_view gap"
proof -
  have w: "wf_tree demo_objects [0]" by code_simp
  have i: "inj demo_place" by (simp add: inj_def demo_place_def)
  have h: "h_device_path demo_host = ''/d''" "h_bus demo_host" "\<not> discovered demo_host" "\<not> discovering demo_host" "events demo_host = []"
    by (simp_all add: demo_host_def new_host_def)
  have u: "\<forall>p. under_device (h_device_path demo_host) (demo_place p)" by (simp add: h under_device_def demo_place_def)
  have tp: "tree_paths demo_tree = {APP_ROOT @ ''/service0'', APP_ROOT @ ''/service0/char0'', APP_ROOT @ ''/service0/char0/desc0'',
      APP_ROOT @ ''/service0/char0/cccd''}"
    using demo_tree_paths by (auto simp: tree_paths_def cccd_path_def map_eq_Cons_conv)
  then have a: "inj_on demo_att (tree_paths demo_tree)" by (auto simp: inj_on_def demo_att_def APP_ROOT_def)
  have b: "bz_managed_objects demo_central = Some ([demo_gap_mo, demo_char_mo, demo_desc_mo, (''/other/s1'', []),
     demo_service_mo] @ demo_cccd_mos)"
    by (simp add: demo_central_def)
  have m: "mset (filter (\<lambda>m. under_device (h_device_path demo_host) (fst m)) ([demo_gap_mo, demo_char_mo, demo_desc_mo,
      (''/other/s1'', []), demo_service_mo] @ demo_cccd_mos))
    = mset (([demo_service_mo] @ [demo_char_mo] @ [demo_desc_mo] @ demo_cccd_mos) @ [demo_gap_mo])"
    unfolding h filter_append demo_own_under
    by (simp add: under_device_def demo_service_mo_def demo_char_mo_def demo_desc_mo_def demo_gap_mo_def demo_place_def)
  have f: "list_all (foreign demo_place demo_att demo_tree) [demo_gap_mo]"
    by (simp add: foreign_def tp demo_gap_mo_def demo_place_def demo_att_def APP_ROOT_def is_gatt_iface_def)
  from server_tree_discovered [OF demo_tree_def w i u a b m demo_shown f h(2-4)] h(1,5) show ?thesis by auto
qed

end
