(* ===== verification/Server_Actions.thy ===== *)
theory Server_Actions
  imports Ble_Server
begin

text \<open>
  The automations of the GATT server (\<open>components/esp32_ble_server/ble_server_automations.{h,cpp}\<close>): the triggers for
  writes of centrals and for their connections, the set-value action with its listeners, the notify action, and the value of a
  characteristic between the two threads.

  The lambdas that an action stores read the state of the application when they run: a stored function takes that state
  and gives the bytes. A trigger of a characteristic or a descriptor is a number; \<open>sa_fired\<close> records what it is given. A
  trigger of the server is the index of its callback.
\<close>

section \<open>State\<close>

record 'e server_actions =
  sa_gatt :: gatt_server
  sa_server :: ble_server
  sa_on_read :: "nat \<Rightarrow> ('e \<Rightarrow> bytes) option"
  sa_on_write :: "nat \<Rightarrow> nat option"
  sa_desc_on_write :: "nat \<Rightarrow> nat option"
  sa_listeners :: "(nat \<times> ('e \<Rightarrow> bytes)) list"
  sa_triggers :: nat
  sa_fired :: "(nat \<times> bytes \<times> u16) list"

definition with_object :: "nat \<Rightarrow> (srv_char \<Rightarrow> srv_char) \<Rightarrow> 'e server_actions \<Rightarrow> 'e server_actions" where
  "with_object c f s = s\<lparr>sa_gatt := (sa_gatt s)\<lparr>gs_ob := on_char c f (gs_ob (sa_gatt s))\<rparr>\<rparr>"

section \<open>Triggers\<close>

definition create_characteristic_on_write_trigger :: "nat \<Rightarrow> 'e server_actions \<Rightarrow> nat \<times> 'e server_actions" where
  "create_characteristic_on_write_trigger c s =
    (sa_triggers s, s\<lparr>sa_triggers := sa_triggers s + 1, sa_on_write := (sa_on_write s)(c \<mapsto> sa_triggers s)\<rparr>)"

definition create_descriptor_on_write_trigger :: "nat \<Rightarrow> 'e server_actions \<Rightarrow> nat \<times> 'e server_actions" where
  "create_descriptor_on_write_trigger d s =
    (sa_triggers s, s\<lparr>sa_triggers := sa_triggers s + 1, sa_desc_on_write := (sa_desc_on_write s)(d \<mapsto> sa_triggers s)\<rparr>)"

definition create_server_on_connect_trigger :: "'e server_actions \<Rightarrow> nat \<times> 'e server_actions" where
  "create_server_on_connect_trigger s =
    (length (bs_callbacks (sa_server s)), s\<lparr>sa_server := on_callback ON_CONNECT (sa_server s)\<rparr>)"

definition create_server_on_disconnect_trigger :: "'e server_actions \<Rightarrow> nat \<times> 'e server_actions" where
  "create_server_on_disconnect_trigger s =
    (length (bs_callbacks (sa_server s)), s\<lparr>sa_server := on_callback ON_DISCONNECT (sa_server s)\<rparr>)"

section \<open>Actions\<close>

definition has_listener :: "nat \<Rightarrow> 'e server_actions \<Rightarrow> bool" where
  "has_listener c s \<longleftrightarrow> find_listener c (sa_listeners s) \<noteq> None"

definition emit_pre_notify :: "'e \<Rightarrow> nat \<Rightarrow> 'e server_actions \<Rightarrow> 'e server_actions" where
  "emit_pre_notify env c s = (case find_listener c (sa_listeners s) of
       None \<Rightarrow> s | Some f \<Rightarrow> with_object c (char_set_value (f env)) s)"

record ('e, 'x) set_value_action =
  av_parent :: nat
  av_buffer :: "'e \<Rightarrow> 'x \<Rightarrow> bytes"

text \<open>\<open>play\<close> for the characteristic \<open>c\<close> and the function \<open>f\<close> that evaluates \<open>buffer_.value(x...)\<close>.\<close>

definition set_value_from :: "nat \<Rightarrow> ('e \<Rightarrow> bytes) \<Rightarrow> 'e \<Rightarrow> 'e server_actions \<Rightarrow> 'e server_actions" where
  "set_value_from c f env s =
    (if has_listener c s then s
     else let s1 = with_object c (char_set_value (f env)) s;
              s2 = s1\<lparr>sa_on_read := (sa_on_read s1)(c \<mapsto> f)\<rparr>
          in s2\<lparr>sa_listeners := set_listener c f (sa_listeners s2)\<rparr>)"

definition play_set_value :: "('e, 'x) set_value_action \<Rightarrow> 'e \<Rightarrow> 'x \<Rightarrow> 'e server_actions \<Rightarrow> 'e server_actions" where
  "play_set_value a env x s = set_value_from (av_parent a) (\<lambda>e. av_buffer a e x) env s"

definition play_notify :: "nat \<Rightarrow> 'e \<Rightarrow> 'e server_actions \<Rightarrow> 'e server_actions" where
  "play_notify c env s = (let s1 = emit_pre_notify env c s in s1\<lparr>sa_gatt := char_notify c (sa_gatt s1)\<rparr>)"

definition play_desc_set_value :: "('e, 'x) set_value_action \<Rightarrow> 'e \<Rightarrow> 'x \<Rightarrow> 'e server_actions \<Rightarrow> 'e server_actions" where
  "play_desc_set_value a env x s = s\<lparr>sa_gatt := (sa_gatt s)\<lparr>gs_ob :=
     on_desc (av_parent a) (desc_set_value (av_buffer a env x)) (gs_ob (sa_gatt s))\<rparr>\<rparr>"

section \<open>The handlers with the stored functions\<close>

definition act_read_value :: "nat \<Rightarrow> opt_entry list \<Rightarrow> 'e \<Rightarrow> 'e server_actions \<Rightarrow> dbus_reply \<times> 'e server_actions" where
  "act_read_value k os env s =
    (case chr_read_value (\<lambda>c. map_option (\<lambda>f _ _. f env) (sa_on_read s c)) k os (sa_gatt s) of
       (r, g) \<Rightarrow> (r, s\<lparr>sa_gatt := g\<rparr>))"

text \<open>What an automation does in answer to a trigger is further steps.\<close>

definition act_write_value :: "nat \<Rightarrow> bytes \<Rightarrow> opt_entry list \<Rightarrow> 'e server_actions \<Rightarrow> dbus_reply \<times> 'e server_actions" where
  "act_write_value k data os s =
    (let c = xc_chr (gs_chars (sa_gatt s) ! k); conn = fst (chr_conn_id c (snd (parse_options os)) (sa_gatt s)) in
     case chr_write_value (\<lambda>c. map_option (\<lambda>_ _ _ v. v) (sa_on_write s c)) k data os (sa_gatt s) of
       (r, g) \<Rightarrow> (r, s\<lparr>sa_gatt := g, sa_fired := sa_fired s @ (case sa_on_write s c of None \<Rightarrow> [] | Some t \<Rightarrow> [(t, data, conn)])\<rparr>))"

definition act_desc_write_value :: "nat \<Rightarrow> bytes \<Rightarrow> opt_entry list \<Rightarrow> 'e server_actions \<Rightarrow> dbus_reply \<times> 'e server_actions" where
  "act_desc_write_value k data os s =
    (let d = xd_desc (gs_descs (sa_gatt s) ! k);
         conn = (case dsc_chr (ob_descs (gs_ob (sa_gatt s)) ! d) of
                   Some c \<Rightarrow> fst (chr_conn_id c (snd (parse_options os)) (sa_gatt s)) | None \<Rightarrow> 0) in
     case desc_write_value k data os (sa_gatt s) of
       (r, g) \<Rightarrow> (r, s\<lparr>sa_gatt := g, sa_fired := sa_fired s @ (case sa_desc_on_write s d of None \<Rightarrow> [] | Some t \<Rightarrow> [(t, data, conn)])\<rparr>))"

section \<open>Executions\<close>

text \<open>The application plays actions and creates triggers, the centrals read and write, and everything else that the
  server does goes on.\<close>

fun other_event :: "gs_event \<Rightarrow> bool" where
  "other_event (G_read f k os) = False"
| "other_event (G_write f k d os) = False"
| "other_event (G_desc_write k d os) = False"
| "other_event _ = True"

inductive act_step :: "'e server_actions \<Rightarrow> 'e server_actions \<Rightarrow> bool" where
  AS_set_value: "act_step s (set_value_from c f env s)"
| AS_notify: "act_step s (play_notify c env s)"
| AS_desc: "act_step s (play_desc_set_value a env () s)"
| AS_char_trigger: "act_step s (snd (create_characteristic_on_write_trigger c s))"
| AS_desc_trigger: "act_step s (snd (create_descriptor_on_write_trigger d s))"
| AS_connect_trigger: "act_step s (snd (create_server_on_connect_trigger s))"
| AS_disconnect_trigger: "act_step s (snd (create_server_on_disconnect_trigger s))"
| AS_read: "act_step s (snd (act_read_value k os env s))"
| AS_write: "act_step s (snd (act_write_value k data os s))"
| AS_desc_write: "act_step s (snd (act_desc_write_value k data os s))"
| AS_server: "other_event e \<Longrightarrow> act_step s (s\<lparr>sa_gatt := gs_apply e (sa_gatt s)\<rparr>)"
| AS_centrals: "act_step s (s\<lparr>sa_server := handle_server_event e (sa_server s)\<rparr>)"

section \<open>The first set-value action rules\<close>

definition ruled_by :: "nat \<Rightarrow> ('e \<Rightarrow> bytes) \<Rightarrow> 'e server_actions \<Rightarrow> bool" where
  "ruled_by c f s \<longleftrightarrow> sa_on_read s c = Some f \<and> find_listener c (sa_listeners s) = Some f"

lemma find_listener_append [simp]:
  "find_listener c (xs @ ys) = (case find_listener c xs of None \<Rightarrow> find_listener c ys | Some f \<Rightarrow> Some f)"
  by (induction xs) (auto simp: find_listener_def)

lemma find_listener_one [simp]: "find_listener c [] = None" "find_listener c [(d, f)] = (if d = c then Some f else None)"
  by (simp_all add: find_listener_def)

lemma set_value_from_frame [simp]:
  "sa_on_read (with_object c h s) = sa_on_read s" "sa_listeners (with_object c h s) = sa_listeners s"
  by (simp_all add: with_object_def)

lemma ruled_by_played: "\<not> has_listener c s \<Longrightarrow> ruled_by c f (set_value_from c f env s)"
  by (simp add: ruled_by_def set_value_from_def has_listener_def set_listener_def Let_def)

lemma ruled_by_step: "act_step s t \<Longrightarrow> ruled_by c f s \<Longrightarrow> ruled_by c f t"
proof (induction rule: act_step.induct)
  case (AS_set_value s d g env)
  then show ?case
    by (cases "d = c") (auto simp: ruled_by_def set_value_from_def has_listener_def set_listener_def Let_def split: option.splits)
qed (auto simp: ruled_by_def play_notify_def emit_pre_notify_def play_desc_set_value_def Let_def act_read_value_def
    act_write_value_def act_desc_write_value_def create_characteristic_on_write_trigger_def
    create_descriptor_on_write_trigger_def create_server_on_connect_trigger_def create_server_on_disconnect_trigger_def
    split: option.split prod.split)

lemma ruled_by_steps: "act_step\<^sup>*\<^sup>* s t \<Longrightarrow> ruled_by c f s \<Longrightarrow> ruled_by c f t"
  by (induction rule: rtranclp_induct) (auto intro: ruled_by_step)

lemma ruled_read:
  assumes "ruled_by c f s" "served (sa_gatt s) k" "xc_chr (gs_chars (sa_gatt s) ! k) = c"
  shows "fst (act_read_value k os env s) = slice_reply (fst (parse_options os)) (f env)"
  using assms by (simp add: ruled_by_def act_read_value_def chr_read_value_def Let_def case_prod_beta on_char_def
      char_host_on_read_def chr_conn_id_keeps served_def)

text \<open>C38. Once a set-value action has been played for a characteristic that had none, it rules the characteristic for good:
  in every later state of every execution, whatever centrals write and the application plays, a read is answered with what the
  buffer of that action gives at that moment for the arguments of that first play, and a set-value action played again for this
  characteristic changes nothing.\<close>
theorem set_value_action_rules:
  assumes "\<not> has_listener (av_parent a) s" "act_step\<^sup>*\<^sup>* (play_set_value a env x s) t"
    "served (sa_gatt t) k" "xc_chr (gs_chars (sa_gatt t) ! k) = av_parent a" "av_parent b = av_parent a"
  shows "fst (act_read_value k os env' t) = slice_reply (fst (parse_options os)) (av_buffer a env' x)
    \<and> play_set_value b env'' y t = t"
proof -
  have r: "ruled_by (av_parent a) (\<lambda>e. av_buffer a e x) t"
    using ruled_by_steps [OF assms(2)] ruled_by_played [OF assms(1)] by (simp add: play_set_value_def)
  have "play_set_value b env'' y t = t"
    using r assms(5) by (simp add: play_set_value_def set_value_from_def has_listener_def ruled_by_def)
  then show ?thesis using ruled_read [OF r assms(3,4)] by simp
qed

definition demo_actions :: "nat server_actions" where
  "demo_actions = \<lparr>sa_gatt = demo_server, sa_server = new_ble_server, sa_on_read = \<lambda>_. None, sa_on_write = \<lambda>_. None,
     sa_desc_on_write = \<lambda>_. None, sa_listeners = [], sa_triggers = 0, sa_fired = []\<rparr>"

text \<open>The buffer is the application's state and the argument; a central writes, and reads the buffer.\<close>

definition demo_action :: "(nat, u8) set_value_action" where
  "demo_action = \<lparr>av_parent = 0, av_buffer = \<lambda>e x. [of_nat e, x]\<rparr>"

definition demo_written :: "nat server_actions" where
  "demo_written = snd (act_write_value 0 [1, 2, 3] [] (play_set_value demo_action 5 9 demo_actions))"

lemma set_value_action_rules_witness:
  "fst (act_read_value 0 [] 6 demo_written) = R_bytes [6, 9] \<and> play_set_value demo_action 7 8 demo_written = demo_written"
proof -
  have p: "av_parent demo_action = 0" by (simp add: demo_action_def)
  have n: "\<not> has_listener (av_parent demo_action) demo_actions" by (simp add: has_listener_def demo_actions_def find_listener_def)
  have r: "act_step\<^sup>*\<^sup>* (play_set_value demo_action 5 9 demo_actions) demo_written"
    unfolding demo_written_def by (rule r_into_rtranclp, rule AS_write)
  have s: "served (sa_gatt demo_written) 0" "xc_chr (gs_chars (sa_gatt demo_written) ! 0) = 0"
    unfolding served_def by code_simp+
  have b: "slice_reply (fst (parse_options [])) (av_buffer demo_action 6 9) = R_bytes [6, 9]"
    by (simp add: slice_reply_def parse_options_def demo_action_def)
  show ?thesis using set_value_action_rules [OF n r s(1), of demo_action "[]" 6 7 8] s(2) p b by simp
qed

text \<open>A notify action sends what the buffer gives when it is played, and leaves it as the value.\<close>
lemma notify_sends_fresh:
  assumes "ruled_by c f s" "c < length (ob_chars (gs_ob (sa_gatt s)))" "sc_gatt_server (ob_chars (gs_ob (sa_gatt s)) ! c)"
    "sc_object_path (ob_chars (gs_ob (sa_gatt s)) ! c) \<noteq> []"
  shows "gs_commands (sa_gatt (play_notify c env s))
      = gs_commands (sa_gatt s) @ [(sc_object_path (ob_chars (gs_ob (sa_gatt s)) ! c), f env)]
    \<and> sc_value (ob_chars (gs_ob (sa_gatt (play_notify c env s))) ! c) = f env"
  using assms by (simp add: ruled_by_def play_notify_def emit_pre_notify_def with_object_def char_notify_def
      notify_characteristic_def on_char_def char_set_value_def Let_def)

text \<open>A write of a central fires the trigger that was created last for the characteristic, once, with the bytes written and
  the connection of the central.\<close>
lemma write_fires_trigger:
  assumes "sa_on_write s (xc_chr (gs_chars (sa_gatt s) ! k)) = Some t"
  shows "sa_fired (snd (act_write_value k data os s)) = sa_fired s
      @ [(t, data, fst (chr_conn_id (xc_chr (gs_chars (sa_gatt s) ! k)) (snd (parse_options os)) (sa_gatt s)))]"
  using assms by (simp add: act_write_value_def Let_def case_prod_beta)

section \<open>The value between the two threads\<close>

text \<open>\<open>value_\<close> has no lock. The worker copies it in \<open>chr_read_value_\<close> byte by byte from the address it loaded; \<open>set_value\<close> on the
  main thread frees the buffer and takes over another one. \<open>vm_heap\<close> are the live buffers.\<close>

datatype value_reader = VR_idle | VR_copying nat nat bytes | VR_crashed

record value_mem =
  vm_heap :: "nat \<Rightarrow> bytes option"
  vm_value :: nat
  vm_reader :: value_reader

definition mem_set_value :: "nat \<Rightarrow> bytes \<Rightarrow> value_mem \<Rightarrow> value_mem" where
  "mem_set_value q data m = m\<lparr>vm_heap := (vm_heap m)(vm_value m := None, q \<mapsto> data), vm_value := q\<rparr>"

definition read_start :: "value_mem \<Rightarrow> value_mem" where
  "read_start m = m\<lparr>vm_reader := (case vm_heap m (vm_value m) of
     None \<Rightarrow> VR_crashed | Some bs \<Rightarrow> VR_copying (vm_value m) (length bs) [])\<rparr>"

definition read_byte :: "value_mem \<Rightarrow> value_mem" where
  "read_byte m = (case vm_reader m of
       VR_copying p n acc \<Rightarrow>
         (if length acc = n then m\<lparr>vm_reader := VR_idle\<rparr>
          else case vm_heap m p of
                 None \<Rightarrow> m\<lparr>vm_reader := VR_crashed\<rparr>
               | Some bs \<Rightarrow> m\<lparr>vm_reader := VR_copying p n (acc @ [bs ! length acc])\<rparr>)
     | _ \<Rightarrow> m)"

inductive mem_step :: "value_mem \<Rightarrow> value_mem \<Rightarrow> bool" where
  MS_set: "vm_heap m q = None \<Longrightarrow> mem_step m (mem_set_value q data m)"
| MS_start: "vm_reader m = VR_idle \<Longrightarrow> mem_step m (read_start m)"
| MS_read: "mem_step m (read_byte m)"

definition mem_init :: "bytes \<Rightarrow> value_mem" where
  "mem_init bs = \<lparr>vm_heap = [0 \<mapsto> bs], vm_value = 0, vm_reader = VR_idle\<rparr>"

text \<open>A \<open>set_value\<close> while the worker copies a value that is not empty makes the worker read freed memory.\<close>
theorem value_read_race:
  "\<exists>m. mem_step\<^sup>*\<^sup>* (mem_init (b # bs)) m \<and> vm_reader m = VR_crashed"
proof (intro exI conjI)
  let ?m = "read_byte (mem_set_value 1 [] (read_start (mem_init (b # bs))))"
  have "mem_step (mem_init (b # bs)) (read_start (mem_init (b # bs)))" by (rule MS_start) (simp add: mem_init_def)
  moreover have "mem_step (read_start (mem_init (b # bs))) (mem_set_value 1 [] (read_start (mem_init (b # bs))))"
    by (rule MS_set) (simp add: mem_init_def read_start_def)
  ultimately show "mem_step\<^sup>*\<^sup>* (mem_init (b # bs)) ?m"
    by (meson MS_read rtranclp.intros)
  show "vm_reader ?m = VR_crashed" by (simp add: read_byte_def mem_set_value_def read_start_def mem_init_def)
qed

end
