(* ===== verification/Gatt_Vtables.thy ===== *)
theory Gatt_Vtables
  imports Gatt_Export Server_Actions Ble_Advert "HOL-Library.Sublist"
begin

text \<open>
  The tables with which objects are put on the bus (\<open>ble_gatt_server.cpp\<close>, lines 27 to 67, and the
  tables of the two advertisers): for every interface its properties, with their signature, their
  getter and the promise about changes, and its methods, with the signatures of argument and result
  and their handler. A handler is given the user data of the object: the server and the index of the
  object in it, or the advertiser. The theory shows that the handlers keep what the tables promise:
  every reply has the declared type, and a property declared constant does not change; for the
  advertisement of the server the last promise is broken.

  The locale \<open>gs_keeps\<close> is for relations between an earlier and a later state of the server; its
  lemmas say that every operation respects such a relation when a few basic updates do.
\<close>

section \<open>The tables\<close>

datatype property_flag = PROPERTY_CONST | PROPERTY_EMITS_CHANGE

type_synonym call_args = "bytes \<times> opt_entry list"

datatype 's vtable_entry =
    SD_BUS_PROPERTY string string "'s \<Rightarrow> dbus_reply" property_flag
  | SD_BUS_METHOD string string string "call_args \<Rightarrow> 's \<Rightarrow> dbus_reply \<times> 's"

type_synonym on_reads = "nat \<Rightarrow> (u16 \<Rightarrow> bytes \<Rightarrow> bytes) option"
type_synonym on_writes = "nat \<Rightarrow> (bytes \<Rightarrow> u16 \<Rightarrow> bytes \<Rightarrow> bytes) option"

definition SERVICE_VTABLE :: "(nat \<times> gatt_server) vtable_entry list" where
  "SERVICE_VTABLE =
    [SD_BUS_PROPERTY ''UUID'' ''s'' (\<lambda>(i, g). svc_get_uuid (gs_services g ! i)) PROPERTY_CONST,
     SD_BUS_PROPERTY ''Primary'' ''b'' (\<lambda>(i, g). svc_get_primary (gs_services g ! i)) PROPERTY_CONST]"

definition CHAR_VTABLE :: "on_reads \<Rightarrow> on_writes \<Rightarrow> (nat \<times> gatt_server) vtable_entry list" where
  "CHAR_VTABLE on_read on_write =
    [SD_BUS_PROPERTY ''UUID'' ''s'' (\<lambda>(k, g). chr_get_uuid (gs_chars g ! k)) PROPERTY_CONST,
     SD_BUS_PROPERTY ''Service'' ''o'' (\<lambda>(k, g). chr_get_service (gs_chars g ! k)) PROPERTY_CONST,
     SD_BUS_PROPERTY ''Flags'' ''as'' (\<lambda>(k, g). chr_get_flags (gs_chars g ! k)) PROPERTY_CONST,
     SD_BUS_PROPERTY ''Value'' ''ay'' (\<lambda>(k, g). chr_get_value (gs_chars g ! k)) PROPERTY_EMITS_CHANGE,
     SD_BUS_PROPERTY ''Notifying'' ''b'' (\<lambda>(k, g). chr_get_notifying (gs_chars g ! k)) PROPERTY_EMITS_CHANGE,
     SD_BUS_METHOD ''ReadValue'' ''a{sv}'' ''ay''
       (\<lambda>(data, os) (k, g). map_prod id (Pair k) (chr_read_value on_read k os g)),
     SD_BUS_METHOD ''WriteValue'' ''aya{sv}'' []
       (\<lambda>(data, os) (k, g). map_prod id (Pair k) (chr_write_value on_write k data os g)),
     SD_BUS_METHOD ''StartNotify'' [] [] (\<lambda>a (k, g). map_prod id (Pair k) (chr_start_notify k g)),
     SD_BUS_METHOD ''StopNotify'' [] [] (\<lambda>a (k, g). map_prod id (Pair k) (chr_stop_notify k g))]"

definition DESC_VTABLE :: "(nat \<times> gatt_server) vtable_entry list" where
  "DESC_VTABLE =
    [SD_BUS_PROPERTY ''UUID'' ''s'' (\<lambda>(k, g). desc_get_uuid (gs_descs g ! k)) PROPERTY_CONST,
     SD_BUS_PROPERTY ''Characteristic'' ''o'' (\<lambda>(k, g). desc_get_char (gs_descs g ! k)) PROPERTY_CONST,
     SD_BUS_PROPERTY ''Flags'' ''as'' (\<lambda>(k, g). desc_get_flags k g) PROPERTY_CONST,
     SD_BUS_PROPERTY ''Value'' ''ay'' (\<lambda>(k, g). desc_get_value k g) PROPERTY_EMITS_CHANGE,
     SD_BUS_METHOD ''ReadValue'' ''a{sv}'' ''ay'' (\<lambda>(data, os) (k, g). (desc_read_value k os g, (k, g))),
     SD_BUS_METHOD ''WriteValue'' ''aya{sv}'' []
       (\<lambda>(data, os) (k, g). map_prod id (Pair k) (desc_write_value k data os g))]"

definition ADV_VTABLE :: "gatt_server vtable_entry list" where
  "ADV_VTABLE =
    [SD_BUS_PROPERTY ''Type'' ''s'' (\<lambda>g. adv_get_type) PROPERTY_CONST,
     SD_BUS_PROPERTY ''LocalName'' ''s'' adv_get_local_name PROPERTY_CONST,
     SD_BUS_PROPERTY ''ServiceUUIDs'' ''as'' adv_get_service_uuids PROPERTY_CONST,
     SD_BUS_PROPERTY ''ManufacturerData'' ''a{qv}'' adv_get_manufacturer_data PROPERTY_CONST,
     SD_BUS_PROPERTY ''ServiceData'' ''a{sv}'' adv_get_service_data PROPERTY_CONST,
     SD_BUS_PROPERTY ''Appearance'' ''q'' adv_get_appearance PROPERTY_CONST,
     SD_BUS_PROPERTY ''Includes'' ''as'' (\<lambda>g. adv_get_includes) PROPERTY_CONST,
     SD_BUS_METHOD ''Release'' [] [] (\<lambda>a g. (R_done, adv_release g))]"

text \<open>The tables of the two advertisers.\<close>

definition BTHOME_VTABLE :: "adv vtable_entry list" where
  "BTHOME_VTABLE =
    [SD_BUS_PROPERTY ''Type'' ''s'' (\<lambda>s. R_string bthome_adv_type) PROPERTY_CONST,
     SD_BUS_PROPERTY ''ServiceUUIDs'' ''as'' (\<lambda>s. R_strings bthome_adv_service_uuids) PROPERTY_CONST,
     SD_BUS_PROPERTY ''ServiceData'' ''a{sv}'' (\<lambda>s. R_entries (bthome_adv_service_data s)) PROPERTY_CONST,
     SD_BUS_PROPERTY ''Includes'' ''as'' (\<lambda>s. R_strings bthome_adv_includes) PROPERTY_CONST,
     SD_BUS_METHOD ''Release'' [] [] (\<lambda>a s. (R_done, bthome_adv_release s))]"

definition BEACON_VTABLE :: "adv vtable_entry list" where
  "BEACON_VTABLE =
    [SD_BUS_PROPERTY ''Type'' ''s'' (\<lambda>s. R_string beacon_adv_type) PROPERTY_CONST,
     SD_BUS_PROPERTY ''ManufacturerData'' ''a{qv}'' (\<lambda>s. R_company (beacon_adv_manufacturer_data s)) PROPERTY_CONST,
     SD_BUS_PROPERTY ''Includes'' ''as'' (\<lambda>s. R_strings beacon_adv_includes) PROPERTY_CONST,
     SD_BUS_METHOD ''Release'' [] [] (\<lambda>a s. (R_done, beacon_adv_release s))]"

lemmas vtable_defs = SERVICE_VTABLE_def CHAR_VTABLE_def DESC_VTABLE_def ADV_VTABLE_def BTHOME_VTABLE_def BEACON_VTABLE_def

lemmas getter_defs = svc_get_uuid_def svc_get_primary_def chr_get_uuid_def chr_get_service_def chr_get_flags_def
  chr_get_value_def chr_get_notifying_def desc_get_uuid_def desc_get_char_def desc_get_flags_def desc_get_value_def
  adv_get_type_def adv_get_local_name_def adv_get_service_uuids_def adv_get_manufacturer_data_def
  adv_get_service_data_def adv_get_appearance_def adv_get_includes_def

section \<open>Replies have the declared type\<close>

fun reply_fits :: "string \<Rightarrow> dbus_reply \<Rightarrow> bool" where
  "reply_fits sg (R_string s) = (sg = ''s'' \<or> sg = ''o'')"
| "reply_fits sg (R_bool b) = (sg = ''b'')"
| "reply_fits sg (R_strings ss) = (sg = ''as'')"
| "reply_fits sg (R_bytes bs) = (sg = ''ay'')"
| "reply_fits sg (R_u16 v) = (sg = ''q'')"
| "reply_fits sg (R_entries es) = (sg = ''a{sv}'')"
| "reply_fits sg (R_company es) = (sg = ''a{qv}'')"
| "reply_fits sg R_done = (sg = [])"
| "reply_fits sg (R_error e) = False"

fun is_error :: "dbus_reply \<Rightarrow> bool" where
  "is_error (R_error e) = True"
| "is_error r = False"

text \<open>A getter never fails; a method replies with its result or with an error.\<close>

fun entry_typed :: "call_args \<Rightarrow> 's \<Rightarrow> 's vtable_entry \<Rightarrow> bool" where
  "entry_typed a s (SD_BUS_PROPERTY n sg get fl) = reply_fits sg (get s)"
| "entry_typed a s (SD_BUS_METHOD n sg res call) = (let r = fst (call a s) in reply_fits res r \<or> is_error r)"

lemma tables_typed:
  "list_all (entry_typed a (k, g)) SERVICE_VTABLE" "list_all (entry_typed a (k, g)) (CHAR_VTABLE on_read on_write)"
  "list_all (entry_typed a (k, g)) DESC_VTABLE" "list_all (entry_typed a g) ADV_VTABLE"
  "list_all (entry_typed a s) BTHOME_VTABLE" "list_all (entry_typed a s) BEACON_VTABLE"
  by (cases a; simp add: vtable_defs getter_defs chr_read_value_def chr_write_value_def chr_start_notify_def
      chr_stop_notify_def set_notifying_def desc_read_value_def desc_write_value_def slice_reply_def Let_def case_prod_beta)+

section \<open>Relations every operation respects\<close>

text \<open>\<open>gs_keeps\<close> lists the updates of objects and tree: the values shown by the exported
  characteristics, and the building of the tree. Handlers that run callbacks on the objects are the
  matter of \<open>gs_keeps_objects\<close>.\<close>

locale gs_keeps =
  fixes keeps :: "gatt_server \<Rightarrow> gatt_server \<Rightarrow> bool"
  assumes keeps_trans: "keeps g1 g2 \<Longrightarrow> keeps g2 g3 \<Longrightarrow> keeps g1 g3"
    and keeps_same: "gs_ob g' = gs_ob g \<Longrightarrow> gs_services g' = gs_services g \<Longrightarrow> gs_chars g' = gs_chars g \<Longrightarrow>
      gs_descs g' = gs_descs g \<Longrightarrow> keeps g g'"
    and keeps_cached: "keeps g (on_xchar k (\<lambda>x. x\<lparr>xc_cached_value := v\<rparr>) g)"
    and keeps_notifying: "keeps g (on_xchar k (\<lambda>x. x\<lparr>xc_notifying := b\<rparr>) g)"
    and keeps_set_cached: "keeps g (g\<lparr>gs_chars := set_cached p v (gs_chars g)\<rparr>)"
    and keeps_build: "keeps g (build_services 0 ss g)"
begin

lemma keeps_refl [simp]: "keeps g g"
  by (simp add: keeps_same)

lemma keeps_call [simp]: "keeps g (gs_call c g)"
  by (simp add: keeps_same gs_call_def)

lemma keeps_fold: "(\<And>x h. keeps h (f x h)) \<Longrightarrow> keeps g (fold f xs g)"
  by (induction xs arbitrary: g) (auto intro: keeps_trans)

lemma keeps_do_notify: "keeps g (do_notify p v g)"
  by (auto simp: do_notify_def intro: keeps_trans [OF keeps_set_cached keeps_call] split: option.split)

lemma keeps_register: "keeps g (register_advertisement env g)"
  by (simp add: register_advertisement_def unregister_advertisement_def gs_call_def Let_def keeps_same)

lemma keeps_power_cycle: "keeps g (power_cycle_adapter env g)"
  unfolding power_cycle_adapter_def by (auto simp: gs_call_def intro: keeps_trans [OF keeps_same keeps_register])

lemma keeps_do_start: "keeps g (gs_do_start env g)"
proof -
  have e: "keeps h (export_all env ps h)" for ps h unfolding export_all_def by (rule keeps_fold) simp
  have r: "keeps h (register_application env h)" for h by (simp add: register_application_def)
  have "keeps g (g\<lparr>gs_started := True, gs_bus := True\<rparr>)" "keeps g (g\<lparr>gs_started := True\<rparr>)" by (simp_all add: keeps_same)
  then show ?thesis by (auto simp: gs_do_start_def gs_open_bus_def intro: keeps_trans [OF _ keeps_trans [OF e r]] keeps_same)
qed

lemma keeps_process: "keeps g (gs_process_commands env g)"
proof -
  let ?g1 = "g\<lparr>gs_start_requested := False, gs_commands := []\<rparr>"
  let ?g2 = "if gs_start_requested g then gs_do_start env ?g1 else ?g1"
  let ?g3 = "fold (\<lambda>(p, v). do_notify p v) (gs_commands g) ?g2"
  have "keeps g ?g1" by (simp add: keeps_same)
  then have "keeps g ?g2" using keeps_trans [OF _ keeps_do_start] by auto
  then have 3: "keeps g ?g3" by (rule keeps_trans) (rule keeps_fold, auto simp: keeps_do_notify)
  then have "keeps g (register_advertisement env (?g3\<lparr>gs_adv_pending := False\<rparr>))"
    by (rule keeps_trans) (rule keeps_trans [OF keeps_same keeps_register]; simp)
  then show ?thesis using 3 by (simp add: gs_process_commands_def Let_def)
qed

lemma keeps_intern: "keeps g (snd (intern_device d g))" "keeps g (snd (chr_conn_id c d g))"
  by (simp_all add: keeps_same intern_device_def chr_conn_id_def split: option.split)

lemma keeps_start: "keeps g (gs_start ss g)"
  by (auto simp: gs_start_def build_tree_def intro: keeps_trans [OF keeps_build keeps_same])

lemma keeps_enumerate: "keeps g (enumerate_connected_devices r g)"
proof -
  have "keeps h (post_server_event e h)" for e h by (simp add: post_server_event_def keeps_same)
  then have "keeps h (enumerate_object o' h)" for o' h
    by (auto simp: enumerate_object_def Let_def case_prod_beta intro: keeps_trans [OF keeps_intern(1)])
  then show ?thesis by (auto simp: enumerate_connected_devices_def intro: keeps_fold split: option.split)
qed

lemma keeps_props: "keeps g (on_device_props_changed now path iface ps g)"
proof -
  have "keeps h (post_server_event e h)" "keeps h (schedule_readvertise now h)" for e h
    by (simp_all add: post_server_event_def schedule_readvertise_def keeps_same)
  then show ?thesis
    by (auto simp: on_device_props_changed_def Let_def case_prod_beta
        intro: keeps_trans [OF keeps_intern(1)] keeps_trans [OF keeps_trans [OF keeps_intern(1)]] split: option.split)
qed

lemma keeps_set_notifying: "keeps g (snd (set_notifying b k g))"
  by (auto simp: set_notifying_def Let_def intro: keeps_notifying keeps_trans [OF keeps_notifying keeps_call])

lemma keeps_adv_reply: "keeps g (on_register_adv_reply env err g)"
  by (auto simp: on_register_adv_reply_def Let_def keeps_same intro: keeps_trans [OF keeps_same keeps_power_cycle])

lemma keeps_timer: "keeps g (on_readvertise_timer env g)"
  unfolding on_readvertise_timer_def by (rule keeps_trans [OF keeps_same keeps_register]) simp_all

lemma keeps_other: "other_event e \<Longrightarrow> keeps g (gs_apply e g)"
  by (cases e) (simp_all add: keeps_start keeps_process char_notify_def notify_characteristic_def Let_def keeps_same
      on_advertising_changed_def drain_server_events_def adv_release_def on_register_app_reply_def keeps_enumerate
      keeps_adv_reply keeps_timer keeps_props keeps_set_notifying)

end

locale gs_keeps_objects = gs_keeps +
  assumes keeps_on_char: "keeps g (g\<lparr>gs_ob := on_char c f (gs_ob g)\<rparr>)"
    and keeps_on_desc: "keeps g (g\<lparr>gs_ob := on_desc d (desc_host_on_write data) (gs_ob g)\<rparr>)"
begin

lemma keeps_read: "keeps g (snd (chr_read_value on_read k os g))"
  by (auto simp: chr_read_value_def Let_def case_prod_beta
      intro: keeps_trans [OF keeps_intern(2) keeps_trans [OF keeps_on_char keeps_cached]])

lemma keeps_write: "keeps g (snd (chr_write_value on_write k data os g))"
  by (auto simp: chr_write_value_def Let_def case_prod_beta
      intro: keeps_trans [OF keeps_intern(2) keeps_trans [OF keeps_on_char keeps_cached]])

lemma keeps_desc_write: "keeps g (snd (desc_write_value k data os g))"
  by (auto simp: desc_write_value_def Let_def case_prod_beta keeps_on_desc
      intro: keeps_trans [OF keeps_intern(2) keeps_on_desc] split: option.split)

lemma keeps_apply: "keeps g (gs_apply e g)"
  using keeps_other [of e g] by (cases e) (simp_all add: keeps_read keeps_write keeps_desc_write)

lemma keeps_run: "keeps g (fold gs_apply es g)"
  by (rule keeps_fold) (rule keeps_apply)

end

section \<open>Constant properties\<close>

fun const_entry :: "'s \<Rightarrow> 's vtable_entry \<Rightarrow> (string \<times> dbus_reply) list" where
  "const_entry s (SD_BUS_PROPERTY n sg get PROPERTY_CONST) = [(n, get s)]"
| "const_entry s e = []"

definition const_values :: "'s \<Rightarrow> 's vtable_entry list \<Rightarrow> (string \<times> dbus_reply) list" where
  "const_values s table = concat (map (const_entry s) table)"

text \<open>What the tree shows under constant properties: services and descriptors stay as they are,
  characteristics but for value and subscription, and descriptors keep their permissions.\<close>

definition fixed_char :: "exported_char \<Rightarrow> nat \<times> string \<times> string \<times> string \<times> u32" where
  "fixed_char x = (xc_chr x, xc_path x, xc_service_path x, xc_uuid_str x, xc_properties x)"

definition dsc_perms :: "srv_desc \<Rightarrow> bool \<times> bool" where
  "dsc_perms d = (dsc_read d, dsc_write d)"

definition same_shape :: "gatt_server \<Rightarrow> gatt_server \<Rightarrow> bool" where
  "same_shape g g' \<longleftrightarrow> prefix (gs_services g) (gs_services g')
     \<and> prefix (map fixed_char (gs_chars g)) (map fixed_char (gs_chars g')) \<and> prefix (gs_descs g) (gs_descs g')
     \<and> (\<forall>d. dsc_perms (ob_descs (gs_ob g') ! d) = dsc_perms (ob_descs (gs_ob g) ! d))"

lemma fixed_char_upd [simp]:
  "fixed_char (x\<lparr>xc_cached_value := v\<rparr>) = fixed_char x" "fixed_char (x\<lparr>xc_notifying := n\<rparr>) = fixed_char x"
  by (simp_all add: fixed_char_def)

lemma map_list_update_same: "f y = f (xs ! k) \<Longrightarrow> map f (xs[k := y]) = map f xs"
  by (cases "k < length xs") (simp_all add: map_update list_update_beyond list_update_same_conv)

interpretation shape: gs_keeps_objects same_shape
proof
  fix g1 g2 g3 assume "same_shape g1 g2" "same_shape g2 g3"
  then show "same_shape g1 g3" unfolding same_shape_def by (metis prefix_order.trans)
next
  fix g :: gatt_server and p v
  have "map fixed_char (set_cached p v cs) = map fixed_char cs" for cs by (induction cs) auto
  then show "same_shape g (g\<lparr>gs_chars := set_cached p v (gs_chars g)\<rparr>)" by (simp add: same_shape_def)
next
  fix g :: gatt_server and ss show "same_shape g (build_services 0 ss g)"
    using build_services_eq [of 0 ss g] by (auto simp: same_shape_def same_export_def)
next
  fix g :: gatt_server and c f show "same_shape g (g\<lparr>gs_ob := on_char c f (gs_ob g)\<rparr>)" by (simp add: same_shape_def on_char_def)
next
  fix g :: gatt_server and d data
  have "dsc_perms ((ob_descs (gs_ob g))[d := desc_host_on_write data (ob_descs (gs_ob g) ! d)] ! i) = dsc_perms (ob_descs (gs_ob g) ! i)" for i
    by (cases "d < length (ob_descs (gs_ob g))")
      (simp_all add: nth_list_update dsc_perms_def desc_host_on_write_def list_update_beyond)
  then show "same_shape g (g\<lparr>gs_ob := on_desc d (desc_host_on_write data) (gs_ob g)\<rparr>)"
    by (simp add: same_shape_def on_desc_def)
qed (simp_all add: same_shape_def on_xchar_def map_list_update_same)

lemma prefix_nth: "prefix xs ys \<Longrightarrow> i < length xs \<Longrightarrow> ys ! i = xs ! i"
  by (auto simp: prefix_def nth_append)

lemma same_shape_nth:
  assumes "same_shape g g'"
  shows "i < length (gs_services g) \<Longrightarrow> gs_services g' ! i = gs_services g ! i"
    "k < length (gs_chars g) \<Longrightarrow> fixed_char (gs_chars g' ! k) = fixed_char (gs_chars g ! k)"
    "d < length (gs_descs g) \<Longrightarrow> gs_descs g' ! d = gs_descs g ! d"
    "dsc_read (ob_descs (gs_ob g') ! j) = dsc_read (ob_descs (gs_ob g) ! j)"
    "dsc_write (ob_descs (gs_ob g') ! j) = dsc_write (ob_descs (gs_ob g) ! j)"
proof -
  show "i < length (gs_services g) \<Longrightarrow> gs_services g' ! i = gs_services g ! i"
    "d < length (gs_descs g) \<Longrightarrow> gs_descs g' ! d = gs_descs g ! d"
    "dsc_read (ob_descs (gs_ob g') ! j) = dsc_read (ob_descs (gs_ob g) ! j)"
    "dsc_write (ob_descs (gs_ob g') ! j) = dsc_write (ob_descs (gs_ob g) ! j)"
    using assms by (auto simp: same_shape_def dsc_perms_def prefix_nth)
  show "fixed_char (gs_chars g' ! k) = fixed_char (gs_chars g ! k)" if "k < length (gs_chars g)"
  proof -
    have p: "prefix (map fixed_char (gs_chars g)) (map fixed_char (gs_chars g'))" using assms by (simp add: same_shape_def)
    then have "k < length (gs_chars g')" using that prefix_length_le [OF p] by simp
    then show ?thesis using prefix_nth [OF p, of k] that by simp
  qed
qed

text \<open>Whatever happens to the server, the constant properties of an exported object stay what they
  are.\<close>

theorem const_properties_kept:
  assumes "i < length (gs_services g)" "k < length (gs_chars g)" "d < length (gs_descs g)" "g' = fold gs_apply es g"
  shows "const_values (i, g') SERVICE_VTABLE = const_values (i, g) SERVICE_VTABLE
    \<and> const_values (k, g') (CHAR_VTABLE on_read on_write) = const_values (k, g) (CHAR_VTABLE on_read on_write)
    \<and> const_values (d, g') DESC_VTABLE = const_values (d, g) DESC_VTABLE"
proof -
  have s: "same_shape g g'" unfolding assms(4) by (rule shape.keeps_run)
  show ?thesis using same_shape_nth [OF s] assms(1-3)
    by (simp add: const_values_def vtable_defs getter_defs fixed_char_def)
qed

text \<open>The advertisement of the server breaks the promise: the application may change the name while
  the object stays on the bus, and no signal says so.\<close>

theorem advertisement_not_constant:
  "\<exists>a. const_values (on_advertising_changed a g) ADV_VTABLE \<noteq> const_values g ADV_VTABLE
     \<and> gs_adv_slot (on_advertising_changed a g) = gs_adv_slot g \<and> gs_calls (on_advertising_changed a g) = gs_calls g"
proof -
  let ?a = "empty_adv\<lparr>ha_active := True, ha_local_name := ha_local_name (gs_pending_adv g) @ ''x''\<rparr>"
  have "const_values (on_advertising_changed ?a g) ADV_VTABLE \<noteq> const_values g ADV_VTABLE"
    by (simp add: const_values_def ADV_VTABLE_def on_advertising_changed_def adv_get_local_name_def)
  then show ?thesis by (intro exI [of _ ?a]) (simp add: on_advertising_changed_def)
qed

text \<open>Those of the two advertisers keep it from the setup on.\<close>

lemma advertiser_payloads:
  "adv_payload s = build_bthome_payload unspec ms enc \<Longrightarrow> adv_payload (bthome_step unspec ms enc e s) = build_bthome_payload unspec ms enc"
  "adv_payload s = build_ibeacon_payload c \<Longrightarrow> adv_payload (beacon_step c e s) = build_ibeacon_payload c"
  by (cases e; simp add: bthome_defs beacon_defs)+

lemma advertisers_constant:
  "const_values (fold (bthome_step unspec ms enc) es (bthome_setup unspec ms enc s)) BTHOME_VTABLE
     = const_values (bthome_setup unspec ms enc s) BTHOME_VTABLE"
  "const_values (fold (beacon_step c) es (beacon_setup c s)) BEACON_VTABLE = const_values (beacon_setup c s) BEACON_VTABLE"
proof -
  have "adv_payload (fold (bthome_step unspec ms enc) es s) = build_bthome_payload unspec ms enc"
    if "adv_payload s = build_bthome_payload unspec ms enc" for s
    using that by (induction es arbitrary: s) (simp_all add: advertiser_payloads)
  from this [of "bthome_setup unspec ms enc s"]
  show "const_values (fold (bthome_step unspec ms enc) es (bthome_setup unspec ms enc s)) BTHOME_VTABLE
     = const_values (bthome_setup unspec ms enc s) BTHOME_VTABLE"
    by (simp add: const_values_def BTHOME_VTABLE_def bthome_adv_service_data_def bthome_setup_def)
  have "adv_payload (fold (beacon_step c) es s) = build_ibeacon_payload c" if "adv_payload s = build_ibeacon_payload c" for s
    using that by (induction es arbitrary: s) (simp_all add: advertiser_payloads)
  from this [of "beacon_setup c s"]
  show "const_values (fold (beacon_step c) es (beacon_setup c s)) BEACON_VTABLE = const_values (beacon_setup c s) BEACON_VTABLE"
    by (simp add: const_values_def BEACON_VTABLE_def beacon_adv_manufacturer_data_def beacon_setup_def)
qed

text \<open>A property that announces its changes: subscribing and unsubscribing announce \<open>Notifying\<close>; what
  a central writes becomes the \<open>Value\<close> without an announcement.\<close>

lemma notifying_announced:
  assumes "sc_gatt_server (ob_chars (gs_ob g) ! xc_chr (gs_chars g ! k))" "k < length (gs_chars g)"
  shows "gs_calls (snd (set_notifying b k g)) = gs_calls g @ [Emit_Notifying (xc_path (gs_chars g ! k))]
    \<and> chr_get_notifying (gs_chars (snd (set_notifying b k g)) ! k) = R_bool b"
  using assms by (simp add: set_notifying_def Let_def on_xchar_def gs_call_def chr_get_notifying_def)

lemma write_not_announced:
  assumes "k < length (gs_chars g)"
  shows "gs_calls (snd (chr_write_value on_write k data os g)) = gs_calls g
    \<and> chr_get_value (gs_chars (snd (chr_write_value on_write k data os g)) ! k) = R_bytes data"
  using assms by (auto simp: chr_write_value_def chr_conn_id_def intern_device_def Let_def case_prod_beta on_xchar_def
      chr_get_value_def split: option.split)

end
