(* ===== verification/Gatt_Values.thy ===== *)
theory Gatt_Values
  imports Gatt_Link Gatt_Vtables "HOL-Library.Sublist"
begin

text \<open>
  The values of the characteristics of one host as the client of the other host reads, writes and is notified of them.
  A command of the client becomes a method call of BlueZ on the server; the commands of a pass are executed one by one, and
  between them the application of the server, other centrals and both main threads go on.

  What is assumed of BlueZ is in the rules: a read that succeeds returns what the server answered, a write with response that
  succeeds was delivered, one that fails may have been, and notifications arrive in their order or are lost. The client reads and
  writes a value in one piece, at offset 0, which is what BlueZ does with one that fits an attribute packet
  (\<open>write_ignores_offset\<close> shows what a longer write does). A read or write callback may assign a new value to its own characteristic.

  \<open>value_\<close> has no lock: the main thread is inside \<open>set_value\<close> from \<open>LK_set_begin\<close> to \<open>LK_set_end\<close>, and a handler of the worker
  that runs in between and touches the same characteristic is a data race, after which anything may happen (\<open>O_race\<close>; what it
  does to the memory is \<open>value_read_race\<close> of \<open>Server_Actions\<close>). A handler is one step, which stands for any point of its
  execution: two that overlap in time are found by a step inside the other.
\<close>

section \<open>State and observations\<close>

record gatt_link =
  lk_host :: gatt_host
  lk_batch :: "HostGattCommand list"
  lk_server :: gatt_server
  lk_air :: "(string \<times> bytes) list"
  lk_setting :: "(nat \<times> bytes) option"

datatype link_obs =
    O_assign nat bytes
  | O_written nat bytes
  | O_read nat bytes
  | O_acked nat bytes
  | O_notify string bytes
  | O_heard string bytes
  | O_race nat

definition srv_value :: "gatt_server \<Rightarrow> nat \<Rightarrow> bytes" where
  "srv_value g c = sc_value (ob_chars (gs_ob g) ! c)"

text \<open>\<open>route\<close> gives the exported characteristic for an object path of the central.\<close>

datatype att_request = AR_read nat | AR_write nat bytes bool

definition routed_to :: "(string \<Rightarrow> nat option) \<Rightarrow> gatt_host \<Rightarrow> u16 \<Rightarrow> nat option" where
  "routed_to route h n = (case map_of (handle_map h) n of None \<Rightarrow> None | Some e \<Rightarrow> route (obj_path e))"

fun request_of :: "(string \<Rightarrow> nat option) \<Rightarrow> gatt_host \<Rightarrow> HostGattCommand \<Rightarrow> att_request option" where
  "request_of route h (C_READ_CHAR n) =
     (if map_of (synthetic_reads h) n = None then map_option AR_read (routed_to route h n) else None)"
| "request_of route h (C_WRITE_CHAR n data resp) = map_option (\<lambda>k. AR_write k data resp) (routed_to route h n)"
| "request_of route h _ = None"

text \<open>What the client has been told by the event of a command.\<close>

fun told_read :: "nat \<Rightarrow> HostGattEvent \<Rightarrow> link_obs list" where
  "told_read c ev = (if ev_kind ev = E_READ_COMPLETE \<and> ev_status ev = ESP_GATT_OK then [O_read c (ev_data ev)] else [])"

fun told_write :: "nat \<Rightarrow> bytes \<Rightarrow> bool \<Rightarrow> HostGattEvent \<Rightarrow> link_obs list" where
  "told_write c data resp ev =
    (if resp \<and> ev_kind ev = E_WRITE_COMPLETE \<and> ev_status ev = ESP_GATT_OK then [O_acked c data] else [])"

definition told_notify :: "string \<Rightarrow> HostGattEvent list \<Rightarrow> link_obs list" where
  "told_notify p evs = concat (map (\<lambda>ev. if ev_kind ev = E_NOTIFY then [O_heard p (ev_data ev)] else []) evs)"

definition new_events :: "gatt_host \<Rightarrow> gatt_host \<Rightarrow> HostGattEvent list" where
  "new_events h h' = drop (length (events h)) (events h')"

text \<open>What the handlers assign: a write the data, a callback \<open>cb\<close> of the characteristic \<open>c\<close> the value it has afterwards.\<close>

definition callback_obs :: "'f option \<Rightarrow> nat \<Rightarrow> gatt_server \<Rightarrow> link_obs list" where
  "callback_obs cb c g' = (case cb of None \<Rightarrow> [] | Some _ \<Rightarrow> [O_assign c (srv_value g' c)])"

text \<open>What a call of the application asks the client to be notified of: \<open>notify()\<close> of an exported characteristic of the server,
  with the value it has at the call.\<close>

fun asked :: "gs_event \<Rightarrow> gatt_server \<Rightarrow> (string \<times> bytes) list" where
  "asked (G_notify c) g =
     (if sc_gatt_server (ob_chars (gs_ob g) ! c) \<and> sc_object_path (ob_chars (gs_ob g) ! c) \<noteq> []
      then [(sc_object_path (ob_chars (gs_ob g) ! c), srv_value g c)] else [])"
| "asked _ g = []"

text \<open>The signals a pass of the server's worker emits: sd-bus fills in the \<open>Value\<close> property when the signal is emitted.\<close>

fun emissions :: "(string \<times> bytes) list \<Rightarrow> gatt_server \<Rightarrow> (string \<times> bytes) list" where
  "emissions [] g = []"
| "emissions ((p, v) # cs) g =
    (let g1 = do_notify p v g in
     (if Emit_Value p \<in> set (drop (length (gs_calls g)) (gs_calls g1)) then
        (case find_char p g1 of None \<Rightarrow> [] | Some c \<Rightarrow> (case chr_get_value c of R_bytes bs \<Rightarrow> [(p, bs)] | _ \<Rightarrow> []))
      else []) @ emissions cs g1)"

definition emitted :: "gs_env \<Rightarrow> gatt_server \<Rightarrow> (string \<times> bytes) list" where
  "emitted env g = (let g1 = g\<lparr>gs_start_requested := False, gs_commands := []\<rparr>
     in emissions (gs_commands g) (if gs_start_requested g then gs_do_start env g1 else g1))"

text \<open>The characteristics that a handler may touch: not the one the main thread is assigning.\<close>

definition untouched :: "gatt_link \<Rightarrow> nat \<Rightarrow> bool" where
  "untouched s c \<longleftrightarrow> (\<forall>v. lk_setting s \<noteq> Some (c, v))"

inductive link_step :: "(string \<Rightarrow> nat option) \<Rightarrow> (string \<Rightarrow> string) \<Rightarrow> gatt_link \<Rightarrow> link_obs list \<Rightarrow> gatt_link \<Rightarrow> bool"
  for route place where
  LK_post: "link_step route place s [] (s\<lparr>lk_host := enqueue_command c (lk_host s)\<rparr>)"
| LK_drain: "link_step route place s [] (s\<lparr>lk_host := snd (drain_events (lk_host s))\<rparr>)"
| LK_take: "lk_batch s = [] \<Longrightarrow>
    link_step route place s [] (s\<lparr>lk_batch := commands (lk_host s), lk_host := (lk_host s)\<lparr>commands := []\<rparr>\<rparr>)"
| LK_local: "lk_batch s = c # cs \<Longrightarrow> request_of route (lk_host s) c = None \<Longrightarrow>
    link_step route place s [] (s\<lparr>lk_batch := cs, lk_host := do_command bz c (lk_host s)\<rparr>)"
| LK_read: "lk_batch s = C_READ_CHAR n # cs \<Longrightarrow> request_of route (lk_host s) (C_READ_CHAR n) = Some (AR_read k) \<Longrightarrow>
    c = xc_chr (gs_chars (lk_server s) ! k) \<Longrightarrow> untouched s c \<Longrightarrow>
    fst (parse_options os) = 0 \<Longrightarrow> chr_read_value on_read k os (lk_server s) = (r, g) \<Longrightarrow>
    map_of (handle_map (lk_host s)) n = Some e \<Longrightarrow>
    bz_read_value bz (obj_path e) = None \<or> (\<exists>v. r = R_bytes v \<and> bz_read_value bz (obj_path e) = Some (Some v)) \<Longrightarrow>
    h = do_command bz (C_READ_CHAR n) (lk_host s) \<Longrightarrow>
    link_step route place s (callback_obs (on_read c) c g @ concat (map (told_read c) (new_events (lk_host s) h)))
      (s\<lparr>lk_batch := cs, lk_host := h, lk_server := g\<rparr>)"
| LK_unread: "lk_batch s = C_READ_CHAR n # cs \<Longrightarrow> request_of route (lk_host s) (C_READ_CHAR n) = Some (AR_read k) \<Longrightarrow>
    map_of (handle_map (lk_host s)) n = Some e \<Longrightarrow> bz_read_value bz (obj_path e) = None \<Longrightarrow>
    link_step route place s [] (s\<lparr>lk_batch := cs, lk_host := do_command bz (C_READ_CHAR n) (lk_host s)\<rparr>)"
| LK_write: "lk_batch s = C_WRITE_CHAR n data resp # cs \<Longrightarrow>
    request_of route (lk_host s) (C_WRITE_CHAR n data resp) = Some (AR_write k data resp) \<Longrightarrow>
    c = xc_chr (gs_chars (lk_server s) ! k) \<Longrightarrow> untouched s c \<Longrightarrow>
    fst (parse_options os) = 0 \<Longrightarrow> g = snd (chr_write_value on_write k data os (lk_server s)) \<Longrightarrow>
    h = do_command bz (C_WRITE_CHAR n data resp) (lk_host s) \<Longrightarrow> map_of (handle_map (lk_host s)) n = Some e \<Longrightarrow>
    link_step route place s (O_written c data # callback_obs (on_write c) c g
        @ concat (map (told_write c data resp) (new_events (lk_host s) h)))
      (s\<lparr>lk_batch := cs, lk_host := h, lk_server := g\<rparr>)"
| LK_unwritten: "lk_batch s = C_WRITE_CHAR n data resp # cs \<Longrightarrow>
    request_of route (lk_host s) (C_WRITE_CHAR n data resp) = Some (AR_write k data resp) \<Longrightarrow>
    map_of (handle_map (lk_host s)) n = Some e \<Longrightarrow> \<not> (bz_write_value bz (obj_path e) data resp \<and> resp) \<Longrightarrow>
    h = do_command bz (C_WRITE_CHAR n data resp) (lk_host s) \<Longrightarrow>
    link_step route place s (concat (map (told_write (xc_chr (gs_chars (lk_server s) ! k)) data resp) (new_events (lk_host s) h)))
      (s\<lparr>lk_batch := cs, lk_host := h\<rparr>)"
| LK_signal: "link_step route place s [] (s\<lparr>lk_host := host_on_properties_changed bz iface props (lk_host s)\<rparr>)"
| LK_set_begin: "lk_setting s = None \<Longrightarrow> c < length (ob_chars (gs_ob (lk_server s))) \<Longrightarrow>
    link_step route place s [] (s\<lparr>lk_setting := Some (c, v)\<rparr>)"
| LK_set_end: "lk_setting s = Some (c, v) \<Longrightarrow>
    link_step route place s [O_assign c v]
      (s\<lparr>lk_setting := None, lk_server := (lk_server s)\<lparr>gs_ob := on_char c (char_set_value v) (gs_ob (lk_server s))\<rparr>\<rparr>)"
| LK_race: "lk_setting s = Some (xc_chr (gs_chars (lk_server s) ! k), v) \<Longrightarrow>
    link_step route place s [O_race (xc_chr (gs_chars (lk_server s) ! k))] t"
| LK_central: "served (lk_server s) k \<Longrightarrow> c = xc_chr (gs_chars (lk_server s) ! k) \<Longrightarrow> untouched s c \<Longrightarrow>
    g = snd (chr_write_value on_write k data os (lk_server s)) \<Longrightarrow>
    link_step route place s (O_written c data # callback_obs (on_write c) c g) (s\<lparr>lk_server := g\<rparr>)"
| LK_other_read: "served (lk_server s) k \<Longrightarrow> c = xc_chr (gs_chars (lk_server s) ! k) \<Longrightarrow> untouched s c \<Longrightarrow>
    g = snd (chr_read_value on_read k os (lk_server s)) \<Longrightarrow>
    link_step route place s (callback_obs (on_read c) c g) (s\<lparr>lk_server := g\<rparr>)"
| LK_desc: "link_step route place s [] (s\<lparr>lk_server := snd (desc_write_value k data os (lk_server s))\<rparr>)"
| LK_server: "other_event e \<Longrightarrow> \<forall>env. e \<noteq> G_process env \<Longrightarrow>
    link_step route place s (map (\<lambda>(p, v). O_notify p v) (asked e (lk_server s))) (s\<lparr>lk_server := gs_apply e (lk_server s)\<rparr>)"
| LK_process: "link_step route place s []
    (s\<lparr>lk_server := gs_process_commands env (lk_server s), lk_air := lk_air s @ emitted env (lk_server s)\<rparr>)"
| LK_deliver: "lk_air s = (p, v) # air \<Longrightarrow>
    h = on_value_changed (place p) ''org.bluez.GattCharacteristic1'' [VP_Value (Some v)] (lk_host s) \<Longrightarrow>
    link_step route place s (told_notify p (new_events (lk_host s) h)) (s\<lparr>lk_air := air, lk_host := h\<rparr>)"
| LK_lost: "lk_air s = n # air \<Longrightarrow> link_step route place s [] (s\<lparr>lk_air := air\<rparr>)"

inductive link_run :: "(string \<Rightarrow> nat option) \<Rightarrow> (string \<Rightarrow> string) \<Rightarrow> gatt_link \<Rightarrow> link_obs list \<Rightarrow> gatt_link \<Rightarrow> bool"
  for route place where
  LR_none: "link_run route place s [] s"
| LR_step: "link_run route place s obs t \<Longrightarrow> link_step route place t o1 u \<Longrightarrow> link_run route place s (obs @ o1) u"

definition race_free :: "link_obs list \<Rightarrow> bool" where
  "race_free obs \<longleftrightarrow> (\<forall>c. O_race c \<notin> set obs)"

lemma race_free_append [simp]: "race_free (a @ b) \<longleftrightarrow> race_free a \<and> race_free b"
  by (auto simp: race_free_def)

section \<open>One memory\<close>

text \<open>The specification: a memory of values, and for each of them the data last written by a client. An answered read gives the
  value last assigned, and an acknowledged write is the last that was written.\<close>

fun mem_obs :: "(nat \<Rightarrow> bytes) \<Rightarrow> (nat \<rightharpoonup> bytes) \<Rightarrow> link_obs list \<Rightarrow> ((nat \<Rightarrow> bytes) \<times> (nat \<rightharpoonup> bytes)) option" where
  "mem_obs m w [] = Some (m, w)"
| "mem_obs m w (O_assign c v # os) = mem_obs (m(c := v)) w os"
| "mem_obs m w (O_written c v # os) = mem_obs (m(c := v)) (w(c \<mapsto> v)) os"
| "mem_obs m w (O_read c v # os) = (if m c = v then mem_obs m w os else None)"
| "mem_obs m w (O_acked c v # os) = (if w c = Some v then mem_obs m w os else None)"
| "mem_obs m w (_ # os) = mem_obs m w os"

lemma mem_obs_append: "mem_obs m w (a @ b) = (case mem_obs m w a of None \<Rightarrow> None | Some (m', w') \<Rightarrow> mem_obs m' w' b)"
  by (induction m w a rule: mem_obs.induct) (auto simp del: fun_upd_apply)

definition link_ok :: "(string \<Rightarrow> nat option) \<Rightarrow> gatt_server \<Rightarrow> bool" where
  "link_ok route g \<longleftrightarrow> (\<forall>p k. route p = Some k \<longrightarrow> served g k)"

text \<open>The server kept its values, and its characteristics their places.\<close>

definition kept :: "gatt_server \<Rightarrow> gatt_server \<Rightarrow> bool" where
  "kept g g' \<longleftrightarrow> srv_value g' = srv_value g \<and> length (ob_chars (gs_ob g')) = length (ob_chars (gs_ob g))
     \<and> (\<exists>more. map xc_chr (gs_chars g') = map xc_chr (gs_chars g) @ more)"

lemma kept_trans: "kept a b \<Longrightarrow> kept b c \<Longrightarrow> kept a c"
  by (auto simp: kept_def)

lemma kept_same: "gs_ob g' = gs_ob g \<Longrightarrow> gs_chars g' = gs_chars g \<Longrightarrow> kept g g'"
  by (simp add: kept_def srv_value_def fun_eq_iff)

lemma kept_on_xchar:
  assumes "\<And>x. xc_chr (f x) = xc_chr x" shows "kept g (on_xchar k f g)"
  using assms by (simp add: kept_def on_xchar_def srv_value_def fun_eq_iff map_list_update_same)

interpretation keeping: gs_keeps kept
proof
  fix g :: gatt_server and p v
  have "map xc_chr (set_cached p v cs) = map xc_chr cs" for cs by (induction cs) auto
  then show "kept g (g\<lparr>gs_chars := set_cached p v (gs_chars g)\<rparr>)" by (simp add: kept_def srv_value_def fun_eq_iff)
next
  fix g :: gatt_server and ss show "kept g (build_services 0 ss g)"
    using build_services_eq [of 0 ss g] by (auto simp: kept_def same_export_def srv_value_def fun_eq_iff)
qed (auto intro: kept_trans kept_same kept_on_xchar)

lemma kept_desc_write: "kept g (snd (desc_write_value k data os g))"
proof -
  have "kept g (g1\<lparr>gs_ob := on_desc d f (gs_ob g1)\<rparr>)" if "kept g g1" for g1 d f
    using that by (simp add: kept_def srv_value_def on_desc_def fun_eq_iff)
  then show ?thesis
    by (auto simp: desc_write_value_def Let_def case_prod_beta keeping.keeps_intern split: option.split)
qed

lemma read_completion:
  assumes "map_of (synthetic_reads h) n = None" "map_of (handle_map h) n = Some e"
  shows "new_events h (do_command bz (C_READ_CHAR n) h) = [(case bz_read_value bz (obj_path e) of
      None \<Rightarrow> (gatt_event E_READ_COMPLETE)\<lparr>ev_handle := n, ev_status := ESP_GATT_ERROR\<rparr>
    | Some r \<Rightarrow> read_ay r ((gatt_event E_READ_COMPLETE)\<lparr>ev_handle := n, ev_status := ESP_GATT_OK\<rparr>))]"
  using assms by (simp add: do_command_def do_read_def new_events_def host_frame Let_def gatt_codes split: option.split)

lemma write_completion:
  assumes "map_of (handle_map h) n = Some e"
  shows "new_events h (do_command bz (C_WRITE_CHAR n data resp) h) = [(gatt_event E_WRITE_COMPLETE)\<lparr>ev_handle := n,
     ev_status := (if bz_write_value bz (obj_path e) data resp then ESP_GATT_OK else ESP_GATT_ERROR)\<rparr>]"
  using assms by (simp add: do_command_def do_write_def new_events_def host_frame Let_def)

definition in_place :: "gatt_server \<Rightarrow> gatt_server \<Rightarrow> bool" where
  "in_place g g' \<longleftrightarrow> length (ob_chars (gs_ob g')) = length (ob_chars (gs_ob g))
     \<and> (\<exists>more. map xc_chr (gs_chars g') = map xc_chr (gs_chars g) @ more)"

lemma in_place_served:
  assumes "in_place g g'" "served g k" shows "served g' k \<and> xc_chr (gs_chars g' ! k) = xc_chr (gs_chars g ! k)"
proof -
  obtain more where m: "map xc_chr (gs_chars g') = map xc_chr (gs_chars g) @ more" using assms(1) by (auto simp: in_place_def)
  have l: "k < length (gs_chars g)" using assms(2) by (simp add: served_def)
  moreover have "length (gs_chars g) \<le> length (gs_chars g')" using arg_cong [OF m, of length] by simp
  ultimately have "xc_chr (gs_chars g' ! k) = xc_chr (gs_chars g ! k)" "k < length (gs_chars g')"
    using arg_cong [OF m, of "\<lambda>xs. xs ! k"] by (simp_all add: nth_append)
  then show ?thesis using assms by (simp add: served_def in_place_def)
qed

lemma in_place_ok: "in_place g g' \<Longrightarrow> link_ok route g \<Longrightarrow> link_ok route g'"
  using in_place_served unfolding link_ok_def by blast

lemma kept_in_place: "kept g g' \<Longrightarrow> in_place g g' \<and> srv_value g' = srv_value g"
  by (auto simp: kept_def in_place_def)

text \<open>What a step does to the values is what its observations say.\<close>

definition faithful :: "gatt_server \<Rightarrow> link_obs list \<Rightarrow> gatt_server \<Rightarrow> bool" where
  "faithful g os g' \<longleftrightarrow> in_place g g' \<and> (\<forall>w. \<exists>w'. mem_obs (srv_value g) w os = Some (srv_value g', w'))"

lemma faithful_kept: "kept g g' \<Longrightarrow> (\<And>w. mem_obs (srv_value g) w os = Some (srv_value g, w)) \<Longrightarrow> faithful g os g'"
  using kept_in_place by (auto simp: faithful_def)

lemma mem_obs_notify: "mem_obs m w (map (\<lambda>(p, v). O_notify p v) ns) = Some (m, w)"
  by (induction ns) auto

lemma mem_obs_heard: "mem_obs m w (told_notify p evs) = Some (m, w)"
  by (induction evs) (auto simp: told_notify_def)

lemma routed_served: "link_ok route g \<Longrightarrow> routed_to route h n = Some k \<Longrightarrow> served g k"
  by (auto simp: routed_to_def link_ok_def split: option.splits)

text \<open>A read answers with the value after its callback, which is the only one that it may change.\<close>

lemma read_handler:
  assumes "chr_read_value on_read k os g = (r, g')" "c = xc_chr (gs_chars g ! k)"
  shows "in_place g g'" "r = slice_reply (fst (parse_options os)) (srv_value g' c)"
    "mem_obs (srv_value g) w (callback_obs (on_read c) c g') = Some (srv_value g', w)"
proof -
  let ?g1 = "snd (chr_conn_id c (snd (parse_options os)) g)"
  let ?f = "char_host_on_read (on_read c) (fst (chr_conn_id c (snd (parse_options os)) g))"
  have g': "g' = on_xchar k (\<lambda>x. x\<lparr>xc_cached_value := srv_value (g\<lparr>gs_ob := on_char c ?f (gs_ob g)\<rparr>) c\<rparr>)
      (?g1\<lparr>gs_ob := on_char c ?f (gs_ob g)\<rparr>)"
    and r: "r = slice_reply (fst (parse_options os)) (srv_value (g\<lparr>gs_ob := on_char c ?f (gs_ob g)\<rparr>) c)"
    using assms by (auto simp: chr_read_value_def Let_def case_prod_beta srv_value_def chr_conn_id_keeps)
  have v: "srv_value g' = srv_value (g\<lparr>gs_ob := on_char c ?f (gs_ob g)\<rparr>)"
    by (simp add: g' srv_value_def on_xchar_def fun_eq_iff)
  show "in_place g g'"
    by (simp add: g' in_place_def on_xchar_def on_char_def chr_conn_id_keeps map_list_update_same)
  show "r = slice_reply (fst (parse_options os)) (srv_value g' c)" by (simp add: v r)
  have "srv_value g' x = srv_value g x" if "x \<noteq> c" for x using that by (simp add: v srv_value_def on_char_def)
  moreover have "srv_value g' = srv_value g" if "on_read c = None"
    using that by (simp add: v srv_value_def on_char_def char_host_on_read_def)
  ultimately show "mem_obs (srv_value g) w (callback_obs (on_read c) c g') = Some (srv_value g', w)"
    by (auto simp: callback_obs_def fun_eq_iff split: option.split)
qed

text \<open>A write stores the data, and then its callback may assign another value.\<close>

lemma write_handler:
  assumes "served g k" "g' = snd (chr_write_value on_write k data os g)" "c = xc_chr (gs_chars g ! k)"
  shows "in_place g g'"
    "mem_obs (srv_value g) w (O_written c data # callback_obs (on_write c) c g') = Some (srv_value g', w(c \<mapsto> data))"
proof -
  let ?g1 = "snd (chr_conn_id c (snd (parse_options os)) g)"
  let ?f = "char_host_on_write (on_write c) data (fst (chr_conn_id c (snd (parse_options os)) g))"
  have g': "g' = on_xchar k (\<lambda>x. x\<lparr>xc_cached_value := data\<rparr>) (?g1\<lparr>gs_ob := on_char c ?f (gs_ob g)\<rparr>)"
    using assms(2,3) by (auto simp: chr_write_value_def Let_def case_prod_beta chr_conn_id_keeps)
  have v: "srv_value g' = srv_value (g\<lparr>gs_ob := on_char c ?f (gs_ob g)\<rparr>)"
    by (simp add: g' srv_value_def on_xchar_def fun_eq_iff)
  show "in_place g g'"
    by (simp add: g' in_place_def on_xchar_def on_char_def chr_conn_id_keeps map_list_update_same)
  have "srv_value g' x = srv_value g x" if "x \<noteq> c" for x using that by (simp add: v srv_value_def on_char_def)
  moreover have "srv_value g' c = data" if "on_write c = None"
    using that assms(1,3) by (simp add: v srv_value_def on_char_def char_host_on_write_def served_def)
  ultimately show "mem_obs (srv_value g) w (O_written c data # callback_obs (on_write c) c g') = Some (srv_value g', w(c \<mapsto> data))"
    by (auto simp: callback_obs_def fun_eq_iff split: option.split)
qed

lemma read_faithful:
  assumes "map_of (synthetic_reads h) n = None" "map_of (handle_map h) n = Some e" "fst (parse_options os) = 0"
    "chr_read_value on_read k os g = (r, g')" "c = xc_chr (gs_chars g ! k)"
    "bz_read_value bz (obj_path e) = None \<or> (\<exists>v. r = R_bytes v \<and> bz_read_value bz (obj_path e) = Some (Some v))"
  shows "faithful g (callback_obs (on_read c) c g' @ concat (map (told_read c) (new_events h (do_command bz (C_READ_CHAR n) h)))) g'"
proof -
  note rh = read_handler [OF assms(4,5)]
  have r: "r = R_bytes (srv_value g' c)" using rh(2) assms(3) by (auto simp: slice_reply_def)
  have "mem_obs (srv_value g') w (concat (map (told_read c) (new_events h (do_command bz (C_READ_CHAR n) h))))
      = Some (srv_value g', w)" for w
    unfolding read_completion [OF assms(1,2)] using assms(6) r by (auto simp: gatt_codes read_ay_def gatt_event_def)
  then show ?thesis using rh(1,3) by (simp add: faithful_def mem_obs_append)
qed

lemma write_faithful:
  assumes "served g k" "map_of (handle_map h) n = Some e" "g' = snd (chr_write_value on_write k data os g)"
    "c = xc_chr (gs_chars g ! k)"
  shows "faithful g (O_written c data # callback_obs (on_write c) c g'
    @ concat (map (told_write c data resp) (new_events h (do_command bz (C_WRITE_CHAR n data resp) h)))) g'"
proof -
  note wh = write_handler [OF assms(1,3,4)]
  have "mem_obs (srv_value g') (w(c \<mapsto> data)) (concat (map (told_write c data resp) (new_events h (do_command bz (C_WRITE_CHAR n data resp) h))))
      = Some (srv_value g', w(c \<mapsto> data))" for w
    unfolding write_completion [OF assms(2)] by (simp add: gatt_event_def)
  then show ?thesis using wh(1) wh(2) mem_obs_append [of _ _ "O_written c data # callback_obs (on_write c) c g'"]
    by (simp add: faithful_def)
qed

lemma unwritten_silent:
  assumes "map_of (handle_map h) n = Some e" "\<not> (bz_write_value bz (obj_path e) data resp \<and> resp)"
  shows "concat (map (told_write c data resp) (new_events h (do_command bz (C_WRITE_CHAR n data resp) h))) = []"
  unfolding write_completion [OF assms(1)] using assms(2) by (auto simp: gatt_event_def gatt_codes)

lemma set_faithful:
  assumes "c < length (ob_chars (gs_ob g))"
  shows "faithful g [O_assign c v] (g\<lparr>gs_ob := on_char c (char_set_value v) (gs_ob g)\<rparr>)"
  using assms by (auto simp: faithful_def in_place_def srv_value_def on_char_def char_set_value_def fun_eq_iff nth_list_update)

definition setting_ok :: "gatt_link \<Rightarrow> bool" where
  "setting_ok s \<longleftrightarrow> (\<forall>c v. lk_setting s = Some (c, v) \<longrightarrow> c < length (ob_chars (gs_ob (lk_server s))))"

lemma step_faithful:
  assumes "link_step route place s obs t" "link_ok route (lk_server s)" "setting_ok s" "race_free obs"
  shows "faithful (lk_server s) obs (lk_server t) \<and> (lk_setting t = lk_setting s \<or> lk_setting t = None
    \<or> lk_server t = lk_server s \<and> setting_ok t)"
  using assms
proof (induction rule: link_step.induct)
  case (LK_read s n cs k c os on_read r g e bz h)
  have "map_of (synthetic_reads (lk_host s)) n = None" using LK_read(2) by (auto split: if_splits)
  then show ?case using read_faithful [OF _ LK_read(7,5,6,3,8)] LK_read(9) by simp
next
  case (LK_write s n data resp cs k c os g on_write h bz e)
  have "served (lk_server s) k" using LK_write(2,9) routed_served by auto
  then show ?case using write_faithful [OF _ LK_write(8,6,3)] LK_write(7) by simp
next
  case (LK_unwritten s n data resp cs k e bz h)
  show ?case unfolding LK_unwritten(5) unwritten_silent [OF LK_unwritten(3,4)] by (simp add: faithful_kept kept_same)
next
  case (LK_server e s)
  then show ?case by (simp add: faithful_kept keeping.keeps_other mem_obs_notify)
next
  case (LK_process s env)
  show ?case by (simp add: faithful_kept keeping.keeps_process)
next
  case (LK_deliver s p v air h)
  then show ?case by (simp add: faithful_kept kept_same mem_obs_heard)
next
  case (LK_central s k c g on_write data os)
  note wh = write_handler [OF LK_central(1,4,2)]
  show ?case using wh by (simp add: faithful_def)
next
  case (LK_other_read s k c g on_read os)
  then have r: "chr_read_value on_read k os (lk_server s) = (fst (chr_read_value on_read k os (lk_server s)), g)" by simp
  show ?case using read_handler [OF r LK_other_read(2)] by (simp add: faithful_def)
next
  case (LK_set_begin s c v)
  then show ?case by (simp add: faithful_kept kept_same setting_ok_def)
next
  case (LK_set_end s c v)
  then show ?case using set_faithful [of c "lk_server s" v] by (simp add: setting_ok_def)
next
  case LK_race
  then show ?case by (simp add: race_free_def)
qed (simp_all add: faithful_kept kept_same kept_desc_write)

lemma run_faithful:
  "link_run route place s obs t \<Longrightarrow> link_ok route (lk_server s) \<Longrightarrow> setting_ok s \<Longrightarrow> race_free obs \<Longrightarrow>
    faithful (lk_server s) obs (lk_server t) \<and> link_ok route (lk_server t) \<and> setting_ok t"
proof (induction rule: link_run.induct)
  case (LR_none s)
  then show ?case by (simp add: faithful_kept kept_same)
next
  case (LR_step s obs t o1 u)
  then have t: "faithful (lk_server s) obs (lk_server t)" "link_ok route (lk_server t)" "setting_ok t" by auto
  have u: "faithful (lk_server t) o1 (lk_server u)"
    "lk_setting u = lk_setting t \<or> lk_setting u = None \<or> lk_server u = lk_server t \<and> setting_ok u"
    using step_faithful [OF LR_step(2) t(2,3)] LR_step(6) by auto
  have p: "in_place (lk_server t) (lk_server u)" using u(1) by (simp add: faithful_def)
  have "\<exists>w'. mem_obs (srv_value (lk_server s)) w (obs @ o1) = Some (srv_value (lk_server u), w')" for w
  proof -
    obtain w1 where "mem_obs (srv_value (lk_server s)) w obs = Some (srv_value (lk_server t), w1)"
      using t(1) by (auto simp: faithful_def)
    then show ?thesis using u(1) by (simp add: faithful_def mem_obs_append)
  qed
  moreover have "in_place (lk_server s) (lk_server u)" using t(1) p by (auto simp: faithful_def in_place_def)
  moreover have "setting_ok u" using u(2) t(3) p by (auto simp: setting_ok_def in_place_def)
  ultimately show ?case using in_place_ok [OF p t(2)] by (simp add: faithful_def)
qed


section \<open>Notifications\<close>

fun asked_of :: "link_obs list \<Rightarrow> (string \<times> bytes) list" where
  "asked_of [] = []"
| "asked_of (O_notify p v # os) = (p, v) # asked_of os"
| "asked_of (_ # os) = asked_of os"

fun heard_of :: "link_obs list \<Rightarrow> (string \<times> bytes) list" where
  "heard_of [] = []"
| "heard_of (O_heard p v # os) = (p, v) # heard_of os"
| "heard_of (_ # os) = heard_of os"

lemma obs_append: "asked_of (a @ b) = asked_of a @ asked_of b" "heard_of (a @ b) = heard_of a @ heard_of b"
  by (induction a rule: asked_of.induct) auto

lemma callback_nothing [simp]: "heard_of (callback_obs cb c g) = []" "asked_of (callback_obs cb c g) = []"
  by (auto simp: callback_obs_def split: option.split)

lemma told_nothing:
  "heard_of (concat (map (told_read c) evs)) = []" "asked_of (concat (map (told_read c) evs)) = []"
  "heard_of (concat (map (told_write c d r) evs)) = []" "asked_of (concat (map (told_write c d r) evs)) = []"
  "asked_of (told_notify p evs) = []"
  by (induction evs) (auto simp: told_notify_def obs_append)

lemma notify_obs: "heard_of (map (\<lambda>(p, v). O_notify p v) ns) = []" "asked_of (map (\<lambda>(p, v). O_notify p v) ns) = ns"
  by (induction ns) auto

lemma notify_completion:
  "new_events h (on_value_changed path ''org.bluez.GattCharacteristic1'' [VP_Value (Some v)] h)
    = (case map_of (notify_subs h) path of None \<Rightarrow> [] | Some n \<Rightarrow> [(gatt_event E_NOTIFY)\<lparr>ev_handle := n, ev_data := v, ev_len := of_nat (length v)\<rparr>])"
  by (simp add: on_value_changed_def value_entry_def new_events_def host_frame read_ay_def split: option.split)

text \<open>The queue of the worker.\<close>

lemma queue_register [simp]: "gs_commands (register_advertisement env g) = gs_commands g"
  by (simp add: register_advertisement_def unregister_advertisement_def gs_call_def Let_def)

lemma queue_call [simp]: "gs_commands (gs_call c g) = gs_commands g" "gs_commands (post_server_event e g) = gs_commands g"
    "gs_commands (snd (intern_device d g)) = gs_commands g" "gs_commands (snd (chr_conn_id x d g)) = gs_commands g"
    "gs_commands (on_xchar k f g) = gs_commands g"
  by (simp_all add: gs_call_def post_server_event_def intern_device_def chr_conn_id_def on_xchar_def split: option.split)

lemma queue_build [simp]: "gs_commands (build_services i ss g) = gs_commands g"
  by (induction ss arbitrary: i g) (simp_all add: build_services_step case_prod_beta del: build_services.simps(2))

lemma queue_do_start [simp]: "gs_commands (gs_do_start env g) = gs_commands g"
proof -
  have "gs_commands (export_all env ps h) = gs_commands h" for ps h
    unfolding export_all_def by (induction ps arbitrary: h) simp_all
  then show ?thesis by (simp add: gs_do_start_def gs_open_bus_def register_application_def)
qed

lemma queue_process: "gs_commands (gs_process_commands env g) = []"
proof -
  have "gs_commands (fold (\<lambda>(p, v). do_notify p v) cs h) = gs_commands h" for cs h
    by (induction cs arbitrary: h) (auto simp: do_notify_def split: option.split)
  then show ?thesis by (simp add: gs_process_commands_def Let_def)
qed

lemma queue_enumerate [simp]: "gs_commands (enumerate_connected_devices r g) = gs_commands g"
proof -
  have "gs_commands (fold enumerate_object os h) = gs_commands h" for os h
    by (induction os arbitrary: h) (simp_all add: enumerate_object_def Let_def case_prod_beta)
  then show ?thesis by (simp add: enumerate_connected_devices_def split: option.split)
qed

lemma queue_other: "other_event e \<Longrightarrow> \<forall>env. e \<noteq> G_process env \<Longrightarrow> gs_commands (gs_apply e g) = gs_commands g @ asked e g"
  by (cases e) (auto simp: gs_start_def build_tree_def char_notify_def notify_characteristic_def on_advertising_changed_def
      drain_server_events_def on_register_app_reply_def on_register_adv_reply_def power_cycle_adapter_def adv_release_def
      on_readvertise_timer_def on_device_props_changed_def schedule_readvertise_def set_notifying_def Let_def case_prod_beta
      srv_value_def split: option.split)

lemma queue_handlers:
  "gs_commands (snd (chr_read_value r k os g)) = gs_commands g" "gs_commands (snd (chr_write_value w k d os g)) = gs_commands g"
  "gs_commands (snd (desc_write_value k d os g)) = gs_commands g"
  by (simp_all add: chr_read_value_def chr_write_value_def desc_write_value_def Let_def case_prod_beta split: option.split)

lemma emissions_queue: "subseq (emissions cs g) cs"
proof (induction cs g rule: emissions.induct)
  case (2 p v cs g)
  let ?g = "do_notify p v g"
  show ?case
  proof (cases "find_char p g")
    case None
    then have "?g = g" by (simp add: do_notify_def)
    then show ?thesis using 2 by (auto simp: Let_def)
  next
    case (Some c)
    then have "p \<in> set (map xc_path (gs_chars g))" by (auto simp: find_char_def find_Some_iff)
    then obtain c' where "find_char p ?g = Some c'" "xc_cached_value c' = v" using do_notify_effect(3) [of p g v] by auto
    then show ?thesis using 2 by (auto simp: Let_def chr_get_value_def)
  qed
qed simp

text \<open>What is on its way, from the queue of the server to the client.\<close>

definition on_way :: "gatt_link \<Rightarrow> (string \<times> bytes) list" where
  "on_way s = lk_air s @ gs_commands (lk_server s)"

lemma step_notifies:
  "link_step route place s obs t \<Longrightarrow> race_free obs \<Longrightarrow> subseq (heard_of obs @ on_way t) (on_way s @ asked_of obs)"
proof (induction rule: link_step.induct)
  case (LK_write s n data resp cs k c os g on_write h bz e)
  then show ?case by (simp add: obs_append told_nothing on_way_def queue_handlers)
next
  case (LK_unwritten s n data resp cs k e bz h)
  then show ?case by (simp add: told_nothing on_way_def)
next
  case (LK_server e s)
  then show ?case using queue_other [of e "lk_server s"] by (simp add: notify_obs on_way_def)
next
  case (LK_process s env)
  then show ?case using emissions_queue by (simp add: on_way_def queue_process emitted_def Let_def subseq_append')
next
  case (LK_read s n cs k c os on_read r g e bz h)
  then show ?case using queue_handlers(1) [of on_read k os "lk_server s"] by (simp add: on_way_def obs_append told_nothing)
next
  case (LK_deliver s p v air h)
  then show ?case
    by (auto simp: on_way_def told_nothing notify_completion told_notify_def gatt_event_def split: option.split)
next
  case LK_race
  then show ?case by (simp add: race_free_def)
qed (auto simp: on_way_def queue_handlers)


section \<open>An execution\<close>

text \<open>A write and a read of the client, and a notification.\<close>

definition demo_route :: "string \<Rightarrow> nat option" where "demo_route p = (if p = ''/r'' then Some 0 else None)"
definition demo_paths :: "string \<Rightarrow> string" where "demo_paths p = ''/r''"

definition demo_link :: gatt_link where
  "demo_link = \<lparr>lk_host = (new_host ''hci0'' ''/d'')\<lparr>h_bus := True, h_bus_open := True,
       handle_map := [(3, \<lparr>obj_path = ''/r'', obj_kind = K_CHAR, parent_char_handle = 3\<rparr>)], notify_subs := [(''/r'', 3)]\<rparr>,
     lk_batch = [C_WRITE_CHAR 3 [9] True, C_READ_CHAR 3],
     lk_server = demo_server, lk_air = [], lk_setting = None\<rparr>"

definition demo_air :: bluez where
  "demo_air = demo_bluez\<lparr>bz_read_value := \<lambda>_. Some (Some [9])\<rparr>"

definition demo_written_link :: gatt_link where
  "demo_written_link = demo_link\<lparr>lk_batch := [C_READ_CHAR 3],
     lk_host := do_command demo_air (C_WRITE_CHAR 3 [9] True) (lk_host demo_link),
     lk_server := snd (chr_write_value (\<lambda>_. None) 0 [9] [] (lk_server demo_link))\<rparr>"

definition demo_read_link :: gatt_link where
  "demo_read_link = demo_written_link\<lparr>lk_batch := [],
     lk_host := do_command demo_air (C_READ_CHAR 3) (lk_host demo_written_link),
     lk_server := snd (chr_read_value (\<lambda>_. None) 0 [] (lk_server demo_written_link))\<rparr>"

lemma link_run_one: "link_step route place s obs t \<Longrightarrow> obs' = obs \<Longrightarrow> link_run route place s obs' t"
  using LR_step [OF LR_none] by fastforce

lemma link_run_more:
  "link_run route place s obs t \<Longrightarrow> link_step route place t o1 u \<Longrightarrow> obs' = obs @ o1 \<Longrightarrow> link_run route place s obs' u"
  by (simp add: LR_step)

lemma demo_link_run: "link_run demo_route demo_paths demo_link [O_written 0 [9], O_acked 0 [9], O_read 0 [9]] demo_read_link"
proof (rule link_run_more)
  have w: "O_written 0 [9] # callback_obs (None :: (bytes \<Rightarrow> u16 \<Rightarrow> bytes \<Rightarrow> bytes) option) 0
        (snd (chr_write_value (\<lambda>_. None) 0 [9] [] (lk_server demo_link)))
      @ concat (map (told_write 0 [9] True) (new_events (lk_host demo_link) (do_command demo_air (C_WRITE_CHAR 3 [9] True) (lk_host demo_link))))
    = [O_written 0 [9], O_acked 0 [9]]"
    by code_simp
  have "link_step demo_route demo_paths demo_link [O_written 0 [9], O_acked 0 [9]] demo_written_link"
    unfolding w [symmetric] unfolding demo_written_link_def
    by (rule LK_write [where k = 0 and n = 3 and resp = True and data = "[9]" and bz = demo_air and os = "[]"
        and on_write = "\<lambda>_. None" and e = "\<lparr>obj_path = ''/r'', obj_kind = K_CHAR, parent_char_handle = 3\<rparr>"];
      (simp add: untouched_def demo_link_def; fail | code_simp | simp))
  then show "link_run demo_route demo_paths demo_link [O_written 0 [9], O_acked 0 [9]] demo_written_link"
    by (rule link_run_one) simp
  have o: "callback_obs (None :: (u16 \<Rightarrow> bytes \<Rightarrow> bytes) option) 0
        (snd (chr_read_value (\<lambda>_. None) 0 [] (lk_server demo_written_link))) @ concat (map (told_read 0)
      (new_events (lk_host demo_written_link) (do_command demo_air (C_READ_CHAR 3) (lk_host demo_written_link)))) = [O_read 0 [9]]"
    by code_simp
  show "link_step demo_route demo_paths demo_written_link [O_read 0 [9]] demo_read_link"
    unfolding o [symmetric] unfolding demo_read_link_def
  proof (rule LK_read [where k = 0 and n = 3 and bz = demo_air and os = "[]" and on_read = "\<lambda>_. None"
        and e = "\<lparr>obj_path = ''/r'', obj_kind = K_CHAR, parent_char_handle = 3\<rparr>"])
    show "chr_read_value (\<lambda>_. None) 0 [] (lk_server demo_written_link)
      = (R_bytes [9], snd (chr_read_value (\<lambda>_. None) 0 [] (lk_server demo_written_link)))"
      by (rule prod_eqI) (code_simp, simp)
    show "bz_read_value demo_air (obj_path \<lparr>obj_path = ''/r'', obj_kind = K_CHAR, parent_char_handle = 3\<rparr>) = None
      \<or> (\<exists>v. R_bytes [9] = R_bytes v \<and> bz_read_value demo_air (obj_path \<lparr>obj_path = ''/r'', obj_kind = K_CHAR, parent_char_handle = 3\<rparr>)
            = Some (Some v))"
      by (simp add: demo_air_def)
    show "untouched demo_written_link 0" by (simp add: untouched_def demo_written_link_def demo_link_def)
  qed (rule refl | code_simp)+
qed simp


text \<open>The application notifies, the worker emits, the client hears.\<close>

definition demo_idle_link :: gatt_link where
  "demo_idle_link = demo_link\<lparr>lk_server := demo_server\<lparr>gs_ob := on_char 0
     (\<lambda>x. x\<lparr>sc_gatt_server := True, sc_object_path := ''/c''\<rparr>) demo_objects\<rparr>\<rparr>"

definition demo_asked_link :: gatt_link where
  "demo_asked_link = demo_idle_link\<lparr>lk_server := gs_apply (G_notify 0) (lk_server demo_idle_link)\<rparr>"

definition demo_sent_link :: gatt_link where
  "demo_sent_link = demo_asked_link\<lparr>lk_server := gs_process_commands demo_env (lk_server demo_asked_link),
     lk_air := lk_air demo_asked_link @ emitted demo_env (lk_server demo_asked_link)\<rparr>"

definition demo_heard_link :: gatt_link where
  "demo_heard_link = demo_sent_link\<lparr>lk_air := [], lk_host := on_value_changed (demo_paths ''/c'')
     ''org.bluez.GattCharacteristic1'' [VP_Value (Some [7])] (lk_host demo_sent_link)\<rparr>"


end
