(* ===== verification/Http_Request.thy ===== *)
theory Http_Request
  imports Text
begin

text \<open>
  Receiving an HTTP request (\<open>web_server_base/web_server_host.cpp\<close>): reading the socket up to the
  empty line, the request line, the header map, the body announced by \<open>Content-Length\<close>, percent
  decoding, and looking up parameters in the query string and in a form body.

  The socket is the list of the results of successive \<open>recv\<close> calls: each element holds the bytes of
  one call, an empty one stands for end of stream or error (\<open>n <= 0\<close>), and after the end of the list
  the peer has closed. A peer that stays silent blocks the detached thread of its own connection; that
  is not modelled. The cursor of a scanning loop (\<open>pos\<close> with \<open>find (.., pos)\<close>) is the rest of the
  string from that position.
\<close>

section \<open>Methods and percent decoding\<close>

datatype HttpMethod =
  HTTP_GET | HTTP_POST | HTTP_PUT | HTTP_DELETE | HTTP_OPTIONS | HTTP_HEAD | HTTP_PATCH | HTTP_ANY

definition parse_method :: "string \<Rightarrow> HttpMethod" where
  "parse_method m =
    (if m = ''GET'' then HTTP_GET else if m = ''POST'' then HTTP_POST else if m = ''PUT'' then HTTP_PUT
     else if m = ''DELETE'' then HTTP_DELETE else if m = ''OPTIONS'' then HTTP_OPTIONS
     else if m = ''HEAD'' then HTTP_HEAD else if m = ''PATCH'' then HTTP_PATCH else HTTP_ANY)"

definition url_hex :: "char \<Rightarrow> nat option" where
  "url_hex c = (let n = (of_char c :: nat) in
     if 48 \<le> n \<and> n \<le> 57 then Some (n - 48)
     else if 97 \<le> n \<and> n \<le> 102 then Some (10 + (n - 97))
     else if 65 \<le> n \<and> n \<le> 70 then Some (10 + (n - 65)) else None)"

fun url_decode :: "string \<Rightarrow> string" where
  "url_decode [] = []"
| "url_decode (c # s) =
    (if c = CHR ''+'' then CHR '' '' # url_decode s
     else if c = CHR ''%'' then
       (case s of
          h # l # r \<Rightarrow> (case (url_hex h, url_hex l) of
             (Some a, Some b) \<Rightarrow> char_of (16 * a + b) # url_decode r
           | _ \<Rightarrow> c # url_decode s)
        | _ \<Rightarrow> c # url_decode s)
     else c # url_decode s)"

section \<open>Reading and parsing a request\<close>

record http_request =
  rq_method :: HttpMethod
  rq_url :: string
  rq_query :: string
  rq_headers :: "string \<Rightarrow> string option"
  rq_body :: string

fun read_head :: "string list \<Rightarrow> string \<Rightarrow> (string \<times> nat \<times> string list) option" where
  "read_head [] buf = None"
| "read_head (c # cs) buf =
    (if c = [] then None
     else if 32 * 1024 < length (buf @ c) then None
     else (case strfind (CRLF @ CRLF) (buf @ c) of
         Some e \<Rightarrow> Some (buf @ c, e, cs)
       | None \<Rightarrow> read_head cs (buf @ c)))"

definition header_line :: "string \<Rightarrow> (string \<Rightarrow> string option) \<Rightarrow> (string \<Rightarrow> string option)" where
  "header_line line h = (case strfind '':'' line of
       None \<Rightarrow> h
     | Some c \<Rightarrow> h(lowercase (take c line) \<mapsto>
         dropWhile (\<lambda>x. x = CHR '' '' \<or> x = CHR 0x09) (drop (c + 1) line)))"

function header_loop :: "string \<Rightarrow> (string \<Rightarrow> string option) \<Rightarrow> (string \<Rightarrow> string option)" where
  "header_loop rest h =
    (if rest = [] then h
     else let e = (case strfind CRLF rest of None \<Rightarrow> length rest | Some e \<Rightarrow> e);
              line = take e rest
          in if line = [] then h else header_loop (drop (e + 2) rest) (header_line line h))"
  by pat_completeness auto
termination by (relation "measure (\<lambda>(rest, h). length rest)") (auto simp: Let_def)

declare header_loop.simps [simp del]

definition content_length :: "(string \<Rightarrow> string option) \<Rightarrow> nat" where
  "content_length h = (case h ''content-length'' of
       None \<Rightarrow> 0
     | Some v \<Rightarrow> (case strtoul v of None \<Rightarrow> 0 | Some n \<Rightarrow> unat n))"

fun read_body :: "string list \<Rightarrow> nat \<Rightarrow> string \<Rightarrow> string" where
  "read_body [] want body = body"
| "read_body (c # cs) want body =
    (if length body < want \<and> c \<noteq> [] then read_body cs want (body @ c) else body)"

definition request_line :: "string \<Rightarrow> (HttpMethod \<times> string \<times> string) option" where
  "request_line line = do {
     sp1 \<leftarrow> strfind '' '' line;
     sp2 \<leftarrow> find_from '' '' line (sp1 + 1);
     let path_full = take (sp2 - sp1 - 1) (drop (sp1 + 1) line);
     Some (parse_method (take sp1 line),
       (case strfind ''?'' path_full of
          None \<Rightarrow> (url_decode path_full, [])
        | Some q \<Rightarrow> (url_decode (take q path_full), drop (q + 1) path_full)))
   }"

definition parse_request :: "string list \<Rightarrow> http_request option" where
  "parse_request cs = do {
     (buf, header_end, cs') \<leftarrow> read_head cs [];
     let header_block = take header_end buf;
     let body_already = drop (header_end + 4) buf;
     eol \<leftarrow> strfind CRLF header_block;
     (method, url, query) \<leftarrow> request_line (take eol header_block);
     let headers = header_loop (drop (eol + 2) header_block) Map.empty;
     Some \<lparr>rq_method = method, rq_url = url, rq_query = query, rq_headers = headers,
           rq_body = read_body cs' (content_length headers) body_already\<rparr>
   }"

section \<open>Headers and parameters of a request\<close>

definition get_header :: "string \<Rightarrow> http_request \<Rightarrow> string option" where
  "get_header name r = rq_headers r (lowercase name)"

function query_scan :: "string \<Rightarrow> string \<Rightarrow> string option" where
  "query_scan key rest =
    (if rest = [] then None
     else let amp = (case strfind ''&'' rest of None \<Rightarrow> length rest | Some a \<Rightarrow> a);
              next = query_scan key (drop (amp + 1) rest)
          in case strfind ''='' rest of
               Some eq \<Rightarrow>
                 if eq < amp then
                   (if take eq rest = key then Some (url_decode (take (amp - eq - 1) (drop (eq + 1) rest))) else next)
                 else if take amp rest = key then Some [] else next
             | None \<Rightarrow> if take amp rest = key then Some [] else next)"
  by pat_completeness auto
termination by (relation "measure (\<lambda>(key, rest). length rest)") auto

declare query_scan.simps [simp del]

definition form_type :: string where
  "form_type = ''application/x-www-form-urlencoded''"

definition find_query_value :: "string \<Rightarrow> http_request \<Rightarrow> string option" where
  "find_query_value name r = (case query_scan name (rq_query r) of
       Some v \<Rightarrow> Some v
     | None \<Rightarrow> (case get_header ''content-type'' r of
           None \<Rightarrow> None
         | Some ct \<Rightarrow> if strfind form_type ct \<noteq> None then query_scan name (rq_body r) else None))"

text \<open>\<open>getParam\<close> keeps what it found in \<open>params_\<close>, here the second component of the result.\<close>

definition getParam :: "string \<Rightarrow> http_request \<Rightarrow> (string \<times> string) list \<Rightarrow> string option \<times> (string \<times> string) list" where
  "getParam name r params = (case List.find (\<lambda>p. fst p = name) params of
       Some p \<Rightarrow> (Some (snd p), params)
     | None \<Rightarrow> (case find_query_value name r of
           None \<Rightarrow> (None, params)
         | Some v \<Rightarrow> (Some v, params @ [(name, v)])))"

definition hasArg :: "string \<Rightarrow> http_request \<Rightarrow> bool" where
  "hasArg name r \<longleftrightarrow> find_query_value name r \<noteq> None"

definition arg :: "string \<Rightarrow> http_request \<Rightarrow> string" where
  "arg name r = (case find_query_value name r of None \<Rightarrow> [] | Some v \<Rightarrow> v)"

section \<open>Percent decoding inverts percent encoding\<close>

text \<open>\<open>encodes s e\<close>: \<open>e\<close> is an encoding of \<open>s\<close>, with every character either literal (unless it is
  one of the two special ones), a plus sign for a space, or its two hexadecimal digits in either case.\<close>

inductive encodes :: "string \<Rightarrow> string \<Rightarrow> bool" where
  enc_Nil: "encodes [] []"
| enc_lit: "encodes s e \<Longrightarrow> c \<noteq> CHR ''+'' \<Longrightarrow> c \<noteq> CHR ''%'' \<Longrightarrow> encodes (c # s) (c # e)"
| enc_plus: "encodes s e \<Longrightarrow> encodes (CHR '' '' # s) (CHR ''+'' # e)"
| enc_hex: "encodes s e \<Longrightarrow> url_hex h = Some a \<Longrightarrow> url_hex l = Some b \<Longrightarrow>
    encodes (char_of (16 * a + b) # s) (CHR ''%'' # h # l # e)"

lemma url_decode_encodes: "encodes s e \<Longrightarrow> url_decode e = s"
  by (induction rule: encodes.induct) simp_all

lemma encodes_literal: "\<forall>c\<in>set s. c \<noteq> CHR ''+'' \<and> c \<noteq> CHR ''%'' \<Longrightarrow> encodes s s"
  by (induction s) (auto intro: encodes.intros)

section \<open>Reading in chunks\<close>

text \<open>However the bytes of a request are cut into \<open>recv\<close> results, the loop stops at the chunk that
  completes the first empty line, and never asks for more.\<close>

lemma len4: "length (CRLF @ CRLF) = 4"
  by (simp add: CRLF_def)

lemma read_head_chunks:
  assumes "strfind (CRLF @ CRLF) (buf @ concat cs) = Some i" "strfind (CRLF @ CRLF) buf = None"
    "list_all (\<lambda>c. c \<noteq> [] \<and> length c \<le> 1024) cs" "i + 1027 \<le> 32 * 1024"
  shows "\<exists>cs1 cs2. cs = cs1 @ cs2 \<and> read_head cs buf = Some (buf @ concat cs1, i, cs2)
    \<and> i + 4 \<le> length (buf @ concat cs1)"
  using assms(1,2,3)
proof (induction cs arbitrary: buf)
  case Nil then show ?case by simp
next
  case (Cons c cs)
  have c: "c \<noteq> []" "length c \<le> 1024" using Cons.prems(3) by simp_all
  have "length buf < i + 4"
  proof (rule ccontr)
    assume "\<not> ?thesis"
    then have b: "i + 4 \<le> length buf" by simp
    have m: "take 4 (drop i (buf @ concat (c # cs))) = CRLF @ CRLF"
      using strfind_match [OF Cons.prems(1)] unfolding len4 .
    have "take 4 (drop i buf) = CRLF @ CRLF" using m b by simp
    moreover have "i < length buf" using b by simp
    ultimately show False using strfind_None_take [OF Cons.prems(2), of i] unfolding len4 by simp
  qed
  then have l: "length (buf @ c) \<le> 32 * 1024" using c assms(4) by simp
  show ?case
  proof (cases "strfind (CRLF @ CRLF) (buf @ c)")
    case (Some j)
    have "j = i" using strfind_append [OF Some, of "concat cs"] Cons.prems(1) by simp
    moreover have "j + 4 \<le> length (buf @ c)" using strfind_bound [OF Some] by (simp add: CRLF_def)
    ultimately show ?thesis using Some c l by (intro exI [of _ "[c]"] exI [of _ cs]) simp
  next
    case None
    from Cons.IH [of "buf @ c"] Cons.prems None obtain cs1 cs2 where
      h: "cs = cs1 @ cs2" "read_head cs (buf @ c) = Some ((buf @ c) @ concat cs1, i, cs2)"
        "i + 4 \<le> length ((buf @ c) @ concat cs1)" by auto
    then show ?thesis using None c l by (intro exI [of _ "c # cs1"] exI [of _ cs2]) simp
  qed
qed

lemma read_body_chunks:
  "list_all (\<lambda>c. c \<noteq> []) cs \<Longrightarrow> length (b @ concat cs) = want \<Longrightarrow> read_body cs want b = b @ concat cs"
proof (induction cs arbitrary: b)
  case Nil then show ?case by simp
next
  case (Cons c cs)
  have "length b < want" using Cons.prems by (cases c) auto
  then show ?case using Cons.IH [of "b @ c"] Cons.prems by simp
qed

section \<open>The text of a request\<close>

definition header_text :: "string \<times> string \<Rightarrow> string" where
  "header_text h = fst h @ '': '' @ snd h"

definition request_head :: "string \<Rightarrow> string \<Rightarrow> (string \<times> string) list \<Rightarrow> string list" where
  "request_head m target hs = (m @ '' '' @ target @ '' HTTP/1.1'') # map header_text hs"

definition request_text :: "string \<Rightarrow> string \<Rightarrow> (string \<times> string) list \<Rightarrow> string \<Rightarrow> string" where
  "request_text m target hs body = concat (map (\<lambda>l. l @ CRLF) (request_head m target hs)) @ CRLF @ body"

definition header_map :: "(string \<times> string) list \<Rightarrow> (string \<Rightarrow> string option)" where
  "header_map hs = fold (\<lambda>(n, v) h. h(lowercase n \<mapsto> v)) hs Map.empty"

definition plain :: "string \<Rightarrow> bool" where
  "plain s \<longleftrightarrow> CHR 0x0D \<notin> set s"

definition header_ok :: "string \<times> string \<Rightarrow> bool" where
  "header_ok h \<longleftrightarrow> plain (fst h) \<and> plain (snd h) \<and> CHR '':'' \<notin> set (fst h)
    \<and> (snd h \<noteq> [] \<longrightarrow> hd (snd h) \<noteq> CHR '' '' \<and> hd (snd h) \<noteq> CHR 0x09)"

definition request_ok :: "string \<Rightarrow> string \<Rightarrow> (string \<times> string) list \<Rightarrow> bool" where
  "request_ok m target hs \<longleftrightarrow> plain m \<and> plain target \<and> CHR '' '' \<notin> set m \<and> CHR '' '' \<notin> set target
    \<and> hs \<noteq> [] \<and> list_all header_ok hs"

lemma strfind_crlf:
  "plain l \<Longrightarrow> strfind CRLF (l @ CRLF @ r) = Some (length l)"
  "plain l \<Longrightarrow> strfind CRLF l = None"
  using strfind_line [of CRLF l r] strfind_none [of CRLF l] by (simp_all add: CRLF_def plain_def)

lemma strfind_end:
  assumes "list_all (\<lambda>l. plain l \<and> l \<noteq> []) (l # ls)"
  shows "strfind (CRLF @ CRLF) (concat (map (\<lambda>l. l @ CRLF) (l # ls)) @ CRLF @ b)
    = Some (length (concat (map (\<lambda>l. l @ CRLF) (l # ls))) - 2)"
  using assms
proof (induction ls arbitrary: l)
  case Nil
  have "strfind (CRLF @ CRLF) (l @ (CRLF @ CRLF) @ b) = Some (length l)"
    using Nil by (intro strfind_line) (simp_all add: CRLF_def plain_def)
  then show ?case by (simp add: CRLF_def)
next
  case (Cons k ks)
  let ?r = "concat (map (\<lambda>l. l @ CRLF) (k # ks)) @ CRLF @ b"
  have IH: "strfind (CRLF @ CRLF) ?r = Some (length (concat (map (\<lambda>l. l @ CRLF) (k # ks))) - 2)"
    using Cons by simp
  obtain c k' where k: "k = c # k'" "c \<noteq> CHR 0x0D" using Cons.prems by (cases k) (auto simp: plain_def)
  have "strfind (CRLF @ CRLF) (CRLF @ ?r) = map_option (\<lambda>n. n + 2) (strfind (CRLF @ CRLF) ?r)"
    using k by (simp add: CRLF_def option.map_comp comp_def)
  moreover have "strfind (CRLF @ CRLF) (l @ CRLF @ ?r) = map_option ((+) (length l)) (strfind (CRLF @ CRLF) (CRLF @ ?r))"
    using Cons.prems by (intro strfind_skip) (simp_all add: CRLF_def plain_def)
  ultimately have "strfind (CRLF @ CRLF) (l @ CRLF @ ?r)
     = Some (length l + (length (concat (map (\<lambda>l. l @ CRLF) (k # ks))) - 2 + 2))"
    using IH by simp
  then show ?case using k by (simp add: CRLF_def)
qed

lemma header_loop_lines:
  assumes "list_all (\<lambda>l. plain l \<and> l \<noteq> []) ls" "ls \<noteq> []"
  shows "header_loop (take (length (concat (map (\<lambda>l. l @ CRLF) ls)) - 2) (concat (map (\<lambda>l. l @ CRLF) ls))) h
    = fold header_line ls h"
  using assms
proof (induction ls arbitrary: h)
  case Nil then show ?case by simp
next
  case (Cons l ls)
  show ?case
  proof (cases "ls = []")
    case True
    then show ?thesis using Cons.prems strfind_crlf(2) [of l]
      by (subst header_loop.simps) (simp add: CRLF_def header_loop.simps)
  next
    case False
    let ?t = "concat (map (\<lambda>l. l @ CRLF) ls)"
    have t: "2 \<le> length ?t" using False by (cases ls) (simp_all add: CRLF_def)
    then obtain n where n: "length ?t = Suc (Suc n)" by (metis add_2_eq_Suc le_Suc_ex)
    have e: "take (length (concat (map (\<lambda>l. l @ CRLF) (l # ls))) - 2) (concat (map (\<lambda>l. l @ CRLF) (l # ls)))
       = l @ CRLF @ take (length ?t - 2) ?t"
      using n by (simp add: CRLF_def)
    have "header_loop (l @ CRLF @ take (length ?t - 2) ?t) h
        = header_loop (take (length ?t - 2) ?t) (header_line l h)"
      using Cons.prems strfind_crlf(1) [of l] by (subst header_loop.simps) (simp add: CRLF_def)
    then show ?thesis using Cons.IH [of "header_line l h"] Cons.prems False unfolding e by simp
  qed
qed

lemma header_line_text:
  assumes "header_ok h"
  shows "header_line (header_text h) m = m(lowercase (fst h) \<mapsto> snd h)"
proof -
  have s: "strfind '':'' (header_text h) = Some (length (fst h))"
    using assms strfind_char [of "CHR '':''" "fst h" "'' '' @ snd h"] by (simp add: header_text_def header_ok_def)
  have d: "dropWhile (\<lambda>x. x = CHR '' '' \<or> x = CHR 0x09) (snd h) = snd h"
    using assms by (cases "snd h") (auto simp: header_ok_def)
  show ?thesis unfolding header_line_def s by (simp add: header_text_def d)
qed

lemma header_map_fold:
  "list_all header_ok hs \<Longrightarrow> fold header_line (map header_text hs) m = fold (\<lambda>(n, v) h. h(lowercase n \<mapsto> v)) hs m"
  by (induction hs arbitrary: m) (auto simp: header_line_text)


section \<open>A well-formed request is understood\<close>

lemma request_line_text:
  assumes "plain m" "CHR '' '' \<notin> set m" "CHR '' '' \<notin> set target"
  shows "request_line (m @ '' '' @ target @ '' HTTP/1.1'') = Some (parse_method m,
    (case strfind ''?'' target of None \<Rightarrow> (url_decode target, [])
     | Some q \<Rightarrow> (url_decode (take q target), drop (q + 1) target)))"
proof -
  have s1: "strfind '' '' (m @ '' '' @ target @ '' HTTP/1.1'') = Some (length m)"
    using strfind_char [OF assms(2), of "target @ '' HTTP/1.1''"] by simp
  have "strfind '' '' (target @ '' HTTP/1.1'') = Some (length target)"
    using strfind_char [OF assms(3), of "''HTTP/1.1''"] by simp
  then have s2: "find_from '' '' (m @ '' '' @ target @ '' HTTP/1.1'') (length m + 1) = Some (length m + 1 + length target)"
    by (simp add: find_from_def)
  show ?thesis unfolding request_line_def s1 bind.bind_lunit s2 by simp
qed

lemma take_length_plus: "take (length x + k) (x @ y) = x @ take k y"
  by simp

lemma drop_length_append: "drop (length x) (x @ y) = y"
  by simp

lemma header_lines_plain: "list_all header_ok hs \<Longrightarrow> list_all (\<lambda>l. plain l \<and> l \<noteq> []) (map header_text hs)"
  by (auto simp: list_all_iff header_ok_def header_text_def plain_def)

lemma head_block_rest:
  assumes "T = l @ CRLF @ t" "2 \<le> length t"
  shows "drop (length l + 2) (take (length T - 2) (T @ r)) = take (length t - 2) t"
proof -
  have i: "length T - 2 = length (l @ CRLF) + (length t - 2)" using assms by (simp add: CRLF_def)
  show ?thesis unfolding i unfolding assms(1) by (simp add: CRLF_def)
qed

lemma drop_after_blank: "2 \<le> length T \<Longrightarrow> drop (length T - 2 + 4) ((T @ CRLF) @ b) = b"
proof -
  assume "2 \<le> length T"
  then have i: "length T - 2 + 4 = length (T @ CRLF)" by (simp add: CRLF_def)
  show ?thesis unfolding i by simp
qed

lemma take_length_append: "take (length x) (x @ y) = x"
  by simp

lemma drop_line: "drop (length x + 2) (x @ CRLF @ y) = y"
  by (simp add: CRLF_def)

lemma head_received:
  fixes l :: string and ls :: "string list"
  defines "t \<equiv> concat (map (\<lambda>l. l @ CRLF) ls)"
  assumes l: "plain l" "l \<noteq> []" and ls: "list_all (\<lambda>l. plain l \<and> l \<noteq> []) ls" "ls \<noteq> []"
    and cs: "concat cs = (l @ CRLF @ t) @ CRLF @ body" "list_all (\<lambda>c. c \<noteq> [] \<and> length c \<le> 1024) cs"
    and len: "length l + length t + 4 \<le> 31 * 1024"
  obtains cs1 cs2 where "read_head cs [] = Some (concat cs1, length l + length t, cs2)"
    "take (length l + length t) (concat cs1) = l @ CRLF @ take (length t - 2) t"
    "drop (length l + length t + 4) (concat cs1) @ concat cs2 = body" "list_all (\<lambda>c. c \<noteq> []) cs2"
proof -
  let ?T = "l @ CRLF @ t" and ?i = "length l + length t"
  have t2: "2 \<le> length t" using ls(2) by (cases ls) (simp_all add: CRLF_def t_def)
  have T: "concat (map (\<lambda>l. l @ CRLF) (l # ls)) = ?T" by (simp add: t_def)
  have T2: "length ?T - 2 = ?i" "length ?T = ?i + 2" by (simp_all add: CRLF_def)
  have f: "strfind (CRLF @ CRLF) ([] @ concat cs) = Some ?i"
    using strfind_end [of l ls body] l ls unfolding cs(1) T T2 by simp
  have "?i + 1027 \<le> 32 * 1024" using len by simp
  from read_head_chunks [OF f _ cs(2) this] obtain cs1 cs2 where
    h: "cs = cs1 @ cs2" "read_head cs [] = Some (concat cs1, ?i, cs2)" "?i + 4 \<le> length (concat cs1)"
    by (auto simp: CRLF_def)
  have whole: "concat cs1 @ concat cs2 = ?T @ CRLF @ body" using h(1) cs(1) by simp
  have "take ?i (concat cs1) = take ?i (concat cs1 @ concat cs2)" using h(3) by simp
  also have "\<dots> = take ?i ?T" unfolding whole using T2 by (subst take_append) simp
  also have "\<dots> = take (length (l @ CRLF) + (length t - 2)) ((l @ CRLF) @ t)"
  proof (rule arg_cong2 [where f = take])
    show "?i = length (l @ CRLF) + (length t - 2)" using t2 by (simp add: CRLF_def)
  qed simp
  also have "\<dots> = (l @ CRLF) @ take (length t - 2) t" by (rule take_length_plus)
  finally have block: "take ?i (concat cs1) = l @ CRLF @ take (length t - 2) t" by simp
  have "drop (?i + 4) (concat cs1) @ concat cs2 = drop (?i + 4) (concat cs1 @ concat cs2)" using h(3) by simp
  also have "\<dots> = drop (length (?T @ CRLF)) ((?T @ CRLF) @ body)"
    using T2 unfolding whole by (simp only: append_assoc length_append) (simp add: CRLF_def add.commute)
  also have "\<dots> = body" by (rule drop_length_append)
  finally have rest: "drop (?i + 4) (concat cs1) @ concat cs2 = body" .
  have "list_all (\<lambda>c. c \<noteq> []) cs2" using cs(2) h(1) by (auto simp: list_all_iff)
  from that [OF h(2) block rest this] show thesis .
qed

text \<open>C18. A well-formed request with at least one header field, cut into \<open>recv\<close> chunks in any way, is
  understood exactly: method, decoded path, query, the header map with lower-case names, and a body of
  the announced length.\<close>
theorem request_roundtrip:
  assumes "request_ok m target hs" "concat cs = request_text m target hs body"
    "list_all (\<lambda>c. c \<noteq> [] \<and> length c \<le> 1024) cs" "content_length (header_map hs) = length body"
    "length (request_text m target hs []) \<le> 31 * 1024"
  shows "parse_request cs = Some \<lparr>rq_method = parse_method m,
     rq_url = url_decode (case strfind ''?'' target of None \<Rightarrow> target | Some q \<Rightarrow> take q target),
     rq_query = (case strfind ''?'' target of None \<Rightarrow> [] | Some q \<Rightarrow> drop (q + 1) target),
     rq_headers = header_map hs, rq_body = body\<rparr>"
proof -
  let ?ls = "map header_text hs" and ?l = "m @ '' '' @ target @ '' HTTP/1.1''"
  let ?t = "concat (map (\<lambda>l. l @ CRLF) ?ls)"
  have ok: "list_all header_ok hs" "hs \<noteq> []" "plain m" "plain target" "CHR '' '' \<notin> set m" "CHR '' '' \<notin> set target"
    using assms(1) by (simp_all add: request_ok_def)
  have ls: "list_all (\<lambda>l. plain l \<and> l \<noteq> []) ?ls" "?ls \<noteq> []"
    using ok(1,2) by (auto simp: list_all_iff header_ok_def header_text_def plain_def)
  have l: "plain ?l" using ok by (simp add: plain_def)
  have rt: "concat cs = (?l @ CRLF @ ?t) @ CRLF @ body"
    unfolding assms(2) by (simp add: request_text_def request_head_def)
  have "length ?l + length ?t + 4 \<le> 31 * 1024"
    using assms(5) by (simp add: request_text_def request_head_def CRLF_def)
  from head_received [OF l _ ls rt assms(3) this] obtain cs1 cs2 where
    h: "read_head cs [] = Some (concat cs1, length ?l + length ?t, cs2)"
      "take (length ?l + length ?t) (concat cs1) = ?l @ CRLF @ take (length ?t - 2) ?t"
      "drop (length ?l + length ?t + 4) (concat cs1) @ concat cs2 = body" "list_all (\<lambda>c. c \<noteq> []) cs2" by auto
  have hl: "header_loop (take (length ?t - 2) ?t) Map.empty = header_map hs"
    using header_loop_lines [OF ls(1)] ok(2) header_map_fold [OF ok(1), of Map.empty] by (simp add: header_map_def)
  have b: "read_body cs2 (length body) (drop (length ?l + length ?t + 4) (concat cs1)) = body"
    using read_body_chunks [of cs2 "drop (length ?l + length ?t + 4) (concat cs1)" "length body"] h(4) unfolding h(3) by blast
  have e: "strfind CRLF (?l @ CRLF @ take (length ?t - 2) ?t) = Some (length ?l)" by (rule strfind_crlf(1) [OF l])
  have t: "take (length ?l) (?l @ CRLF @ take (length ?t - 2) ?t) = ?l"
    "drop (length ?l + 2) (?l @ CRLF @ take (length ?t - 2) ?t) = take (length ?t - 2) ?t"
    by (rule take_length_append, rule drop_line)
  show ?thesis unfolding parse_request_def h(1) bind.bind_lunit prod.case Let_def h(2) e t
      request_line_text [OF ok(3,5,6)] hl assms(4) b
    by (simp split: option.split)
qed

lemma request_roundtrip_witness:
  "map_option rq_url (parse_request [''GET /a%20b?x=1 HTT'', ''P/1.1'' @ CRLF @ ''Host: h'' @ CRLF, CRLF]) = Some ''/a b''"
proof -
  have l: "lowercase ''Host'' = ''host''" by code_simp
  have h: "header_map [(''Host'', ''h'')] = [''host'' \<mapsto> ''h'']"
    by (simp add: header_map_def l)
  have sp: "char_of (32 :: nat) = CHR '' ''" by code_simp
  show ?thesis
    using request_roundtrip [of "''GET''" "''/a%20b?x=1''" "[(''Host'', ''h'')]"
        "[''GET /a%20b?x=1 HTT'', ''P/1.1'' @ CRLF @ ''Host: h'' @ CRLF, CRLF]" "''''"]
    by (simp add: request_ok_def header_ok_def plain_def request_text_def request_head_def header_text_def CRLF_def
        h content_length_def url_hex_def sp)
qed

section \<open>What a parsed request looks like\<close>

lemma strfind_before: "strfind [c] s = Some i \<Longrightarrow> c \<notin> set (take i s)"
  by (induction s arbitrary: i) (auto split: if_splits)

lemma tolower_colon: "tolower c = CHR '':'' \<longleftrightarrow> c = CHR '':''"
proof
  assume "tolower c = CHR '':''"
  then have "(of_char (tolower c) :: nat) = 58" by simp
  then have "(of_char c :: nat) = of_char (CHR '':'')" by (auto simp: tolower_def of_char_of split: if_splits)
  then show "c = CHR '':''" by (simp only: of_char_eq_iff)
qed (simp add: tolower_def)

definition header_map_ok :: "(string \<Rightarrow> string option) \<Rightarrow> bool" where
  "header_map_ok h \<longleftrightarrow> (\<forall>n v. h n = Some v \<longrightarrow> lowercase n = n \<and> CHR '':'' \<notin> set n
     \<and> (v \<noteq> [] \<longrightarrow> hd v \<noteq> CHR '' '' \<and> hd v \<noteq> CHR 0x09))"

lemma header_line_ok: "header_map_ok h \<Longrightarrow> header_map_ok (header_line l h)"
proof -
  assume h: "header_map_ok h"
  have k: "lowercase (lowercase (take i l)) = lowercase (take i l) \<and> CHR '':'' \<notin> set (lowercase (take i l))"
    if "strfind '':'' l = Some i" for i
  proof
    show "CHR '':'' \<notin> set (lowercase (take i l))"
    proof
      assume "CHR '':'' \<in> set (lowercase (take i l))"
      then obtain c where c: "c \<in> set (take i l)" "tolower c = CHR '':''" unfolding lowercase_def set_map by force
      from c(1) strfind_before [OF that] show False unfolding c(2) [unfolded tolower_colon] by contradiction
    qed
  qed (rule lowercase_idem)
  have b: "hd (dropWhile (\<lambda>x. x = CHR '' '' \<or> x = CHR 0x09) s) \<noteq> CHR '' ''
      \<and> hd (dropWhile (\<lambda>x. x = CHR '' '' \<or> x = CHR 0x09) s) \<noteq> CHR 0x09"
    if "dropWhile (\<lambda>x. x = CHR '' '' \<or> x = CHR 0x09) s \<noteq> []" for s :: string
    using hd_dropWhile [OF that] by (simp only: de_Morgan_disj simp_thms)
  show ?thesis
  proof (cases "strfind '':'' l")
    case None then show ?thesis using h by (simp add: header_line_def)
  next
    case (Some i)
    show ?thesis unfolding header_map_ok_def header_line_def Some option.case
    proof (intro allI impI)
      fix n v assume a: "(h(lowercase (take i l) \<mapsto> dropWhile (\<lambda>x. x = CHR '' '' \<or> x = CHR 0x09) (drop (i + 1) l))) n = Some v"
      show "lowercase n = n \<and> CHR '':'' \<notin> set n \<and> (v \<noteq> [] \<longrightarrow> hd v \<noteq> CHR '' '' \<and> hd v \<noteq> CHR 0x09)"
      proof (cases "n = lowercase (take i l)")
        case True
        then have "v = dropWhile (\<lambda>x. x = CHR '' '' \<or> x = CHR 0x09) (drop (i + 1) l)" using a by simp
        then show ?thesis using k [OF Some] b [of "drop (i + 1) l"] True by blast
      next
        case False then show ?thesis using a h unfolding header_map_ok_def by simp
      qed
    qed
  qed
qed

lemma header_loop_ok: "header_map_ok h \<Longrightarrow> header_map_ok (header_loop rest h)"
proof (induction rest h rule: header_loop.induct)
  case (1 rest h)
  show ?case
  proof (cases "rest = []")
    case True then show ?thesis using "1.prems" by (simp add: header_loop.simps)
  next
    case False
    note IH = "1.IH" [OF False refl refl]
    show ?thesis
      using IH header_line_ok "1.prems" False by (subst header_loop.simps) (simp add: Let_def)
  qed
qed

text \<open>C22. Every header map the parser builds is well formed, whatever was received: names are in lower
  case and without a colon, values do not start with a blank; so a lookup finds a header whatever the case
  of the name it is asked for.\<close>
theorem parsed_headers_typed:
  assumes "parse_request cs = Some r"
  shows "header_map_ok (rq_headers r) \<and> get_header (lowercase n) r = get_header n r"
proof
  have "header_map_ok Map.empty" by (simp add: header_map_ok_def)
  with assms show "header_map_ok (rq_headers r)"
    by (auto simp: parse_request_def Let_def bind_eq_Some_conv intro: header_loop_ok)
  show "get_header (lowercase n) r = get_header n r" by (simp add: get_header_def)
qed

lemma parsed_headers_typed_witness:
  "\<exists>r. parse_request [''GET / HTTP/1.1'' @ CRLF @ ''Host: h'' @ CRLF @ CRLF] = Some r \<and> header_map_ok (rq_headers r)"
proof -
  let ?t = "[''GET / HTTP/1.1'' @ CRLF @ ''Host: h'' @ CRLF @ CRLF]"
  have "parse_request ?t \<noteq> None"
    by (simp add: parse_request_def CRLF_def request_line_def find_from_def)
  then obtain r where "parse_request ?t = Some r" by blast
  with parsed_headers_typed [OF this] show ?thesis by blast
qed

text \<open>A request without any header field, which HTTP/1.0 allows, is refused: the end of the request line
  is looked for in a block that no longer contains it.\<close>
theorem no_header_refused:
  assumes "plain l" "length l \<le> 1020"
  shows "parse_request [l @ CRLF @ CRLF] = None"
proof -
  have "strfind (CRLF @ CRLF) (l @ (CRLF @ CRLF) @ []) = Some (length l)"
    using assms(1) by (intro strfind_line) (simp_all add: CRLF_def plain_def)
  then have f: "read_head [l @ CRLF @ CRLF] [] = Some (l @ CRLF @ CRLF, length l, [])"
    using assms(2) by (simp add: CRLF_def)
  show ?thesis unfolding parse_request_def f by (simp add: strfind_crlf(2) [OF assms(1)])
qed

lemma no_header_refused_witness: "parse_request [''GET / HTTP/1.0'' @ CRLF @ CRLF] = None"
  using no_header_refused [of "''GET / HTTP/1.0''"] by (simp add: plain_def)

section \<open>Parameters\<close>

text \<open>A form: name, value and the encoding of the value that is sent.\<close>

type_synonym form = "(string \<times> string \<times> string) list"

fun form_text :: "form \<Rightarrow> string" where
  "form_text [] = []"
| "form_text [(n, v, e)] = n @ ''='' @ e"
| "form_text ((n, v, e) # p # ps) = n @ ''='' @ e @ ''&'' @ form_text (p # ps)"

definition form_ok :: "form \<Rightarrow> bool" where
  "form_ok ps \<longleftrightarrow> list_all (\<lambda>(n, v, e). CHR ''&'' \<notin> set n \<and> CHR ''='' \<notin> set n \<and> CHR ''&'' \<notin> set e \<and> encodes v e) ps"

definition form_pairs :: "form \<Rightarrow> (string \<times> string) list" where
  "form_pairs ps = map (\<lambda>(n, v, e). (n, v)) ps"

lemma query_scan_segment:
  assumes "CHR ''&'' \<notin> set n" "CHR ''='' \<notin> set n" "CHR ''&'' \<notin> set e" "encodes v e"
  shows "query_scan key (n @ ''='' @ e @ ''&'' @ r) = (if n = key then Some v else query_scan key r)"
    "query_scan key (n @ ''='' @ e) = (if n = key then Some v else None)"
proof -
  have eq: "strfind ''='' (n @ CHR ''='' # x) = Some (length n)" for x using strfind_char [OF assms(2), of x] by simp
  have amp: "strfind ''&'' (n @ CHR ''='' # e @ CHR ''&'' # r) = Some (length n + 1 + length e)"
    using strfind_char [of "CHR ''&''" "n @ CHR ''='' # e" r] assms by simp
  have none: "strfind ''&'' (n @ CHR ''='' # e) = None" using assms by (simp add: strfind_char_None)
  note d = url_decode_encodes [OF assms(4)]
  show "query_scan key (n @ ''='' @ e @ ''&'' @ r) = (if n = key then Some v else query_scan key r)"
    by (subst query_scan.simps) (simp add: eq amp d)
  show "query_scan key (n @ ''='' @ e) = (if n = key then Some v else None)"
    by (subst query_scan.simps) (simp add: eq none d query_scan.simps)
qed

lemma query_scan_form: "form_ok ps \<Longrightarrow> query_scan key (form_text ps) = map_of (form_pairs ps) key"
proof (induction ps rule: form_text.induct)
  case 1 then show ?case by (simp add: query_scan.simps form_pairs_def)
next
  case (2 n v e) then show ?case using query_scan_segment(2) [of n e v key] by (simp add: form_ok_def form_pairs_def)
next
  case (3 n v e p ps)
  then show ?case using query_scan_segment(1) [of n e v key "form_text (p # ps)"]
    by (simp add: form_ok_def form_pairs_def)
qed

text \<open>Parameter lookup is the lookup of the first pair of that name in the form that was encoded, query
  string first and then a form body; asking again through \<open>getParam\<close> gives the same value and adds
  nothing.\<close>
theorem parameter_lookup:
  assumes "form_ok qs" "form_ok bs" "rq_query r = form_text qs" "rq_body r = form_text bs"
    "get_header ''content-type'' r = Some form_type"
  shows "find_query_value name r = map_of (form_pairs qs @ form_pairs bs) name
    \<and> fst (getParam name r []) = map_of (form_pairs qs @ form_pairs bs) name
    \<and> getParam name r (snd (getParam name r [])) = getParam name r []"
proof -
  have f: "strfind form_type form_type = Some 0" using strfind_here [of form_type "[]"] by (simp add: form_type_def)
  have q: "find_query_value name r = map_of (form_pairs qs @ form_pairs bs) name"
    using assms query_scan_form by (simp add: find_query_value_def f map_add_def split: option.split)
  then show ?thesis by (auto simp: getParam_def map_add_def split: option.split)
qed

lemma parameter_lookup_witness:
  "find_query_value ''state'' \<lparr>rq_method = HTTP_POST, rq_url = ''/x'', rq_query = ''a=1&state=o+n'',
     rq_headers = [''content-type'' \<mapsto> form_type], rq_body = ''state=off''\<rparr> = Some ''o n''"
proof -
  have l: "lowercase ''content-type'' = ''content-type''" by code_simp
  have e: "encodes ''1'' ''1''" "encodes ''off'' ''off''" "encodes ''o n'' ''o+n''"
    by (auto intro!: encodes.intros)
  show ?thesis
    using parameter_lookup [of "[(''a'', ''1'', ''1''), (''state'', ''o n'', ''o+n'')]" "[(''state'', ''off'', ''off'')]"
      "\<lparr>rq_method = HTTP_POST, rq_url = ''/x'', rq_query = ''a=1&state=o+n'',
     rq_headers = [''content-type'' \<mapsto> form_type], rq_body = ''state=off''\<rparr>" "''state''"]
    by (simp add: form_ok_def form_pairs_def get_header_def l e)
qed

end
