(* ===== verification/Http_Server.thy ===== *)
theory Http_Server
  imports Http_Request "HOL-Library.Sublist"
begin

text \<open>
  Answering an HTTP request (\<open>web_server_base/web_server_host.cpp\<close>): responses and their text, the
  send loop over partial writes, the life of a connection from the accepted socket to its close, and the
  dispatch to the registered handlers.

  The state of a connection holds what the request object holds (\<open>fd_\<close>, \<open>rsp_\<close>, \<open>response_sent_\<close>,
  \<open>params_\<close>) and what the socket has seen: the bytes written and the number of \<open>close\<close> calls. \<open>cn_tx\<close> are
  the results of the coming \<open>send\<close> calls; after the last one the peer is gone and \<open>send\<close> fails.
  \<open>DefaultHeaders\<close> is the list \<open>dh\<close>. Handlers are functions on this state: they are the web server and
  event source of the application, and what they may do is the relation \<open>api_step\<close>, one rule for each
  operation of the request object.
\<close>

section \<open>Responses\<close>

text \<open>\<open>rs_data\<close> is \<open>None\<close> for the empty response, whose \<open>get_content_data\<close> is a null pointer.\<close>

record http_response =
  rs_code :: int
  rs_type :: string
  rs_extra :: "(string \<times> string) list"
  rs_data :: "string option"

definition addHeader :: "string \<Rightarrow> string \<Rightarrow> http_response \<Rightarrow> http_response" where
  "addHeader name v r = r\<lparr>rs_extra := rs_extra r @ [(name, v)]\<rparr>"

definition stream_print :: "string \<Rightarrow> http_response \<Rightarrow> http_response" where
  "stream_print s r = r\<lparr>rs_data := map_option (\<lambda>d. d @ s) (rs_data r)\<rparr>"

definition content_size :: "http_response \<Rightarrow> nat" where
  "content_size r = (case rs_data r of None \<Rightarrow> 0 | Some d \<Rightarrow> length d)"

definition reason_phrase :: "int \<Rightarrow> string" where
  "reason_phrase code =
    (if code = 201 then ''Created'' else if code = 204 then ''No Content'' else if code = 302 then ''Found''
     else if code = 400 then ''Bad Request'' else if code = 401 then ''Unauthorized''
     else if code = 404 then ''Not Found'' else if code = 405 then ''Method Not Allowed''
     else if code = 409 then ''Conflict'' else if code = 500 then ''Internal Server Error'' else ''OK'')"

definition dec_int :: "int \<Rightarrow> string" where
  "dec_int i = (if i < 0 then ''-'' @ dec (nat (- i)) else dec (nat i))"

definition header_field :: "string \<times> string \<Rightarrow> string" where
  "header_field h = fst h @ '': '' @ snd h @ CRLF"

definition response_head :: "(string \<times> string) list \<Rightarrow> http_response \<Rightarrow> string" where
  "response_head dh r =
     snprintf 160 (''HTTP/1.1 '' @ dec_int (rs_code r) @ '' '' @ reason_phrase (rs_code r) @ CRLF)
     @ (if rs_type r = [] then [] else header_field (''Content-Type'', rs_type r))
     @ concat (map header_field dh)
     @ concat (map header_field (rs_extra r))
     @ snprintf 160 (''Content-Length: '' @ dec (content_size r) @ CRLF @ ''Connection: close'' @ CRLF @ CRLF)"

definition response_body :: "http_response \<Rightarrow> string" where
  "response_body r = (case rs_data r of None \<Rightarrow> [] | Some d \<Rightarrow> d)"

section \<open>Sending\<close>

datatype send_res = Sent nat | S_EINTR | S_ERR

fun send_all :: "send_res list \<Rightarrow> string \<Rightarrow> bool \<times> string \<times> send_res list" where
  "send_all rs [] = (True, [], rs)"
| "send_all [] data = (False, [], [])"
| "send_all (S_EINTR # rs) data = send_all rs data"
| "send_all (S_ERR # rs) data = (False, [], rs)"
| "send_all (Sent n # rs) data =
    (if n = 0 then (False, [], rs)
     else (case send_all rs (drop n data) of (ok, w, rs') \<Rightarrow> (ok, take n data @ w, rs')))"

record conn =
  cn_fd :: bool
  cn_tx :: "send_res list"
  cn_out :: string
  cn_closes :: nat
  cn_req :: http_request
  cn_rsp :: "http_response option"
  cn_response_sent :: bool
  cn_params :: "(string \<times> string) list"

definition write_fd :: "string \<Rightarrow> conn \<Rightarrow> conn" where
  "write_fd data c = (if cn_fd c then
       (case send_all (cn_tx c) data of (ok, w, tx) \<Rightarrow> c\<lparr>cn_tx := tx, cn_out := cn_out c @ w\<rparr>)
     else c)"

definition default_response :: http_response where
  "default_response = \<lparr>rs_code = 200, rs_type = [], rs_extra = [], rs_data = None\<rparr>"

definition send_response :: "(string \<times> string) list \<Rightarrow> conn \<Rightarrow> conn" where
  "send_response dh c =
    (if cn_response_sent c then c
     else let r = (case cn_rsp c of None \<Rightarrow> default_response | Some r \<Rightarrow> r);
              c1 = write_fd (response_head dh r) (c\<lparr>cn_response_sent := True\<rparr>)
          in if response_body r \<noteq> [] then write_fd (response_body r) c1 else c1)"

section \<open>The operations of the request object\<close>

definition init_response :: "http_response \<Rightarrow> int \<Rightarrow> string \<Rightarrow> conn \<Rightarrow> conn" where
  "init_response r code ctype c = c\<lparr>cn_rsp := Some (r\<lparr>rs_code := code, rs_type := ctype\<rparr>)\<rparr>"

definition beginResponse :: "int \<Rightarrow> string \<Rightarrow> string option \<Rightarrow> conn \<Rightarrow> conn" where
  "beginResponse code ctype content c = init_response (default_response\<lparr>rs_data := content\<rparr>) code ctype c"

definition beginResponseStream :: "string \<Rightarrow> conn \<Rightarrow> conn" where
  "beginResponseStream ctype c = init_response (default_response\<lparr>rs_data := Some []\<rparr>) 200 ctype c"

definition send_rsp :: "(string \<times> string) list \<Rightarrow> http_response \<Rightarrow> conn \<Rightarrow> conn" where
  "send_rsp dh r c = send_response dh (c\<lparr>cn_rsp := Some r\<rparr>)"

definition send_code :: "(string \<times> string) list \<Rightarrow> int \<Rightarrow> string \<Rightarrow> string \<Rightarrow> conn \<Rightarrow> conn" where
  "send_code dh code ctype content c =
     send_response dh (init_response (default_response\<lparr>rs_data := Some content\<rparr>) code ctype c)"

definition redirect :: "(string \<times> string) list \<Rightarrow> string \<Rightarrow> conn \<Rightarrow> conn" where
  "redirect dh url c = (let c1 = beginResponse 302 ''text/html'' None c in
     send_rsp dh (addHeader ''Location'' url (default_response\<lparr>rs_code := 302, rs_type := ''text/html''\<rparr>)) c1)"

definition take_fd :: "conn \<Rightarrow> conn" where
  "take_fd c = c\<lparr>cn_fd := False\<rparr>"

definition close_request :: "conn \<Rightarrow> conn" where
  "close_request c = (if cn_fd c then c\<lparr>cn_fd := False, cn_closes := cn_closes c + 1\<rparr> else c)"

text \<open>\<open>url_to\<close> copies at most 511 characters; \<open>canHandle\<close> of the event source compares that copy.\<close>

definition url_to :: "http_request \<Rightarrow> string" where
  "url_to r = take 511 (rq_url r)"

definition event_source_canHandle :: "string \<Rightarrow> http_request \<Rightarrow> bool" where
  "event_source_canHandle url r \<longleftrightarrow> rq_method r = HTTP_GET \<and> url_to r = url"

section \<open>A connection\<close>

record web_handler =
  wh_canHandle :: "http_request \<Rightarrow> bool"
  wh_handleBody :: "string \<Rightarrow> conn \<Rightarrow> conn"
  wh_handleRequest :: "conn \<Rightarrow> conn"

definition not_found :: "(string \<times> string) list \<Rightarrow> conn \<Rightarrow> conn" where
  "not_found dh = send_code dh 404 ''text/plain'' (''not found'' @ [CHR 0x0A])"

definition dispatch :: "(string \<times> string) list \<Rightarrow> web_handler list \<Rightarrow> (conn \<Rightarrow> conn) option \<Rightarrow> conn \<Rightarrow> conn" where
  "dispatch dh hs on_not_found c =
    (case List.find (\<lambda>h. wh_canHandle h (cn_req c)) hs of
       Some h \<Rightarrow> wh_handleRequest h (if rq_body (cn_req c) \<noteq> [] then wh_handleBody h (rq_body (cn_req c)) c else c)
     | None \<Rightarrow> (case on_not_found of Some f \<Rightarrow> f c | None \<Rightarrow> not_found dh c))"

definition simple_head :: "int \<Rightarrow> string \<Rightarrow> string \<Rightarrow> string" where
  "simple_head code reason body = snprintf 256 (''HTTP/1.1 '' @ dec_int code @ '' '' @ reason @ CRLF @
     ''Content-Type: text/plain'' @ CRLF @ ''Content-Length: '' @ dec (length body) @ CRLF @
     ''Connection: close'' @ CRLF @ CRLF)"

definition send_simple :: "int \<Rightarrow> string \<Rightarrow> string \<Rightarrow> conn \<Rightarrow> conn" where
  "send_simple code reason body c = write_fd (cstr body) (write_fd (simple_head code reason (cstr body)) c)"

definition new_conn :: "send_res list \<Rightarrow> http_request \<Rightarrow> conn" where
  "new_conn tx r = \<lparr>cn_fd = True, cn_tx = tx, cn_out = [], cn_closes = 0, cn_req = r, cn_rsp = None,
     cn_response_sent = False, cn_params = []\<rparr>"

definition no_request :: http_request where
  "no_request = \<lparr>rq_method = HTTP_GET, rq_url = [], rq_query = [], rq_headers = Map.empty, rq_body = []\<rparr>"

definition handle_connection ::
    "(string \<times> string) list \<Rightarrow> web_handler list \<Rightarrow> (conn \<Rightarrow> conn) option \<Rightarrow> string list \<Rightarrow> send_res list \<Rightarrow> conn" where
  "handle_connection dh hs on_not_found cs tx =
    (case parse_request cs of
       None \<Rightarrow> close_request (send_simple 400 ''Bad Request'' (''bad request'' @ [CHR 0x0A]) (new_conn tx no_request))
     | Some r \<Rightarrow> (let c = dispatch dh hs on_not_found (new_conn tx r) in
         if \<not> cn_fd c then c
         else close_request (if cn_response_sent c then c else send_code dh 204 [] [] c)))"

section \<open>What a handler may do\<close>

inductive api_step :: "(string \<times> string) list \<Rightarrow> conn \<Rightarrow> conn \<Rightarrow> bool" for dh where
  api_send: "api_step dh c (send_code dh code ctype content c)"
| api_send_rsp: "api_step dh c (send_rsp dh r c)"
| api_redirect: "api_step dh c (redirect dh url c)"
| api_begin: "api_step dh c (beginResponse code ctype content c)"
| api_stream: "api_step dh c (beginResponseStream ctype c)"
| api_modify: "cn_rsp c = Some r \<Longrightarrow> r' = addHeader n v r \<or> r' = stream_print s r \<Longrightarrow> api_step dh c (c\<lparr>cn_rsp := Some r'\<rparr>)"
| api_param: "api_step dh c (c\<lparr>cn_params := snd (getParam name (cn_req c) (cn_params c))\<rparr>)"
| api_take: "api_step dh c (take_fd c)"

definition conforms :: "(string \<times> string) list \<Rightarrow> web_handler \<Rightarrow> bool" where
  "conforms dh h \<longleftrightarrow> (\<forall>c b. (api_step dh)\<^sup>*\<^sup>* c (wh_handleRequest h c) \<and> (api_step dh)\<^sup>*\<^sup>* c (wh_handleBody h b c))"

section \<open>One answer per connection\<close>

fun benign :: "send_res \<Rightarrow> bool" where
  "benign S_EINTR \<longleftrightarrow> True"
| "benign S_ERR \<longleftrightarrow> False"
| "benign (Sent n) \<longleftrightarrow> n \<noteq> 0"

text \<open>What the loop has written is always a prefix of the data; it reports success exactly for all of it,
  and an interrupted call does not end it.\<close>

lemma send_all_prefix:
  "send_all rs data = (ok, w, rs') \<Longrightarrow> prefix w data \<and> (ok \<longrightarrow> w = data)
     \<and> (list_all benign rs \<longrightarrow> list_all benign rs' \<and> (ok \<or> rs' = []))"
proof (induction rs data arbitrary: ok w rs' rule: send_all.induct)
  case (5 n rs v va)
  show ?case
  proof (cases "n = 0")
    case True then show ?thesis using "5.prems" by simp
  next
    case False
    obtain ok1 w1 rs1 where s: "send_all rs (drop n (v # va)) = (ok1, w1, rs1)" by (cases "send_all rs (drop n (v # va))")
    then have e: "ok = ok1" "w = take n (v # va) @ w1" "rs' = rs1" using "5.prems" False by auto
    have "prefix (take n (v # va) @ w1) (take n (v # va) @ drop n (v # va))"
      using "5.IH" [OF False s] by (simp only: same_prefix_prefix)
    then show ?thesis using "5.IH" [OF False s] False unfolding e by auto
  qed
qed auto

definition written :: "(string \<times> string) list \<Rightarrow> send_res list \<Rightarrow> conn \<Rightarrow> bool" where
  "written dh tx c \<longleftrightarrow> (\<exists>r h b. cn_out c = h @ b \<and> prefix h (response_head dh r) \<and> prefix b (response_body r)
     \<and> (list_all benign tx \<longrightarrow> cn_tx c \<noteq> [] \<longrightarrow> cn_out c = response_head dh r @ response_body r))"

definition conn_inv :: "(string \<times> string) list \<Rightarrow> send_res list \<Rightarrow> conn \<Rightarrow> bool" where
  "conn_inv dh tx c \<longleftrightarrow> cn_closes c = 0 \<and> (list_all benign tx \<longrightarrow> list_all benign (cn_tx c))
     \<and> (\<not> cn_response_sent c \<longrightarrow> cn_out c = [])
     \<and> (cn_response_sent c \<longrightarrow> cn_fd c \<longrightarrow> written dh tx c)"

lemma write_fd_effect:
  assumes "cn_fd c"
  obtains ok w tx where "send_all (cn_tx c) data = (ok, w, tx)" "write_fd data c = c\<lparr>cn_tx := tx, cn_out := cn_out c @ w\<rparr>"
  using assms by (cases "send_all (cn_tx c) data") (simp add: write_fd_def)

lemma write_fd_keeps [simp]:
  "cn_fd (write_fd data c) = cn_fd c" "cn_closes (write_fd data c) = cn_closes c"
  "cn_response_sent (write_fd data c) = cn_response_sent c" "cn_req (write_fd data c) = cn_req c"
  "cn_rsp (write_fd data c) = cn_rsp c" "cn_params (write_fd data c) = cn_params c"
  by (simp_all add: write_fd_def split: prod.split)

lemma send_response_inv:
  assumes "conn_inv dh tx c"
  shows "conn_inv dh tx (send_response dh c) \<and> cn_response_sent (send_response dh c)
    \<and> cn_fd (send_response dh c) = cn_fd c"
proof (cases "cn_response_sent c")
  case True then show ?thesis using assms by (simp add: send_response_def)
next
  case False
  define r where "r = (case cn_rsp c of None \<Rightarrow> default_response | Some r \<Rightarrow> r)"
  let ?c = "c\<lparr>cn_response_sent := True\<rparr>"
  let ?c1 = "write_fd (response_head dh r) ?c"
  have out: "cn_out c = []" "cn_closes c = 0" "list_all benign tx \<longrightarrow> list_all benign (cn_tx c)"
    using assms False by (simp_all add: conn_inv_def)
  have e: "send_response dh c = (if response_body r \<noteq> [] then write_fd (response_body r) ?c1 else ?c1)"
    unfolding send_response_def r_def using False by (simp add: Let_def)
  show ?thesis
  proof (cases "cn_fd c")
    case False
    then have w: "write_fd d x = x" if "\<not> cn_fd x" for d x using that by (simp add: write_fd_def)
    have "send_response dh c = ?c" unfolding e using False by (simp add: w)
    then show ?thesis using out False by (simp add: conn_inv_def)
  next
    case True
    then have "cn_fd ?c" by simp
    then obtain ok1 w1 tx1 where s1: "send_all (cn_tx ?c) (response_head dh r) = (ok1, w1, tx1)"
      "?c1 = ?c\<lparr>cn_tx := tx1, cn_out := cn_out ?c @ w1\<rparr>" by (rule write_fd_effect)
    note p1 = send_all_prefix [OF s1(1)]
    show ?thesis
    proof (cases "response_body r = []")
      case b: True
      have "written dh tx ?c1" unfolding written_def using p1 b out unfolding s1(2)
        by (intro exI [of _ r] exI [of _ w1] exI [of _ "[]"]) auto
      then show ?thesis unfolding e using b out p1 True by (simp add: conn_inv_def s1(2))
    next
      case b: False
      have "cn_fd ?c1" using True by simp
      then obtain ok2 w2 tx2 where s2: "send_all (cn_tx ?c1) (response_body r) = (ok2, w2, tx2)"
        "write_fd (response_body r) ?c1 = ?c1\<lparr>cn_tx := tx2, cn_out := cn_out ?c1 @ w2\<rparr>" by (rule write_fd_effect)
      note p2 = send_all_prefix [OF s2(1)]
      have dead: "tx1 = [] \<Longrightarrow> tx2 = []" using s2(1) b s1(2) by (cases "response_body r") auto
      have "written dh tx (write_fd (response_body r) ?c1)" unfolding written_def s2(2)
        using p1 p2 dead out s1(2) by (intro exI [of _ r] exI [of _ w1] exI [of _ w2]) auto
      then show ?thesis unfolding e using b out p1 p2 True s1(2) s2(2) by (simp add: conn_inv_def)
    qed
  qed
qed

lemma init_response_inv: "conn_inv dh tx c \<Longrightarrow> conn_inv dh tx (init_response r code t c)"
  by (simp add: conn_inv_def init_response_def written_def)

lemma rsp_inv: "conn_inv dh tx (c\<lparr>cn_rsp := x\<rparr>) = conn_inv dh tx c" "conn_inv dh tx (c\<lparr>cn_params := y\<rparr>) = conn_inv dh tx c"
  by (simp_all add: conn_inv_def written_def)

lemma send_rsp_inv: "conn_inv dh tx c \<Longrightarrow> conn_inv dh tx (send_rsp dh r c)"
  using send_response_inv [of dh tx "c\<lparr>cn_rsp := Some r\<rparr>"] by (simp add: send_rsp_def rsp_inv)

lemma send_code_inv:
  assumes "conn_inv dh tx c"
  shows "conn_inv dh tx (send_code dh code t s c) \<and> cn_response_sent (send_code dh code t s c)
    \<and> cn_fd (send_code dh code t s c) = cn_fd c"
  using send_response_inv [OF init_response_inv [OF assms]] by (simp add: send_code_def init_response_def)

lemma api_step_inv: "api_step dh c c' \<Longrightarrow> conn_inv dh tx c \<Longrightarrow> conn_inv dh tx c'"
proof (induction rule: api_step.induct)
  case (api_redirect c url)
  then show ?case unfolding redirect_def Let_def beginResponse_def by (intro send_rsp_inv init_response_inv)
next
  case (api_take c) then show ?case by (simp add: take_fd_def conn_inv_def)
qed (simp_all add: send_code_inv send_rsp_inv beginResponse_def beginResponseStream_def init_response_inv rsp_inv)

lemma api_steps_inv: "(api_step dh)\<^sup>*\<^sup>* c c' \<Longrightarrow> conn_inv dh tx c \<Longrightarrow> conn_inv dh tx c'"
  by (induction rule: rtranclp_induct) (blast intro: api_step_inv)+

lemma dispatch_inv:
  assumes "list_all (conforms dh) hs" "\<forall>f c. onf = Some f \<longrightarrow> (api_step dh)\<^sup>*\<^sup>* c (f c)" "conn_inv dh tx c"
  shows "conn_inv dh tx (dispatch dh hs onf c)"
proof (cases "List.find (\<lambda>h. wh_canHandle h (cn_req c)) hs")
  case None
  then show ?thesis using assms(2,3) send_code_inv [OF assms(3)]
    by (auto simp: dispatch_def not_found_def split: option.split intro: api_steps_inv)
next
  case (Some h)
  then have "conforms dh h" using assms(1) find_SomeD [OF Some] by (simp add: list_all_iff)
  then have "conn_inv dh tx (wh_handleBody h b c)" "conn_inv dh tx x \<Longrightarrow> conn_inv dh tx (wh_handleRequest h x)" for b x
    using assms(3) unfolding conforms_def by (blast intro: api_steps_inv)+
  then show ?thesis using assms(3) Some by (simp add: dispatch_def)
qed

text \<open>C19. However the handlers use the request object, a connection is answered at most once and closed
  exactly once, unless a handler took the socket over, in which case the thread does neither; what is
  written is a prefix of one response head and of its body, and all of it as long as the socket accepts
  data, however it cuts or interrupts the calls.\<close>
theorem one_response:
  assumes "list_all (conforms dh) hs" "\<forall>f c. onf = Some f \<longrightarrow> (api_step dh)\<^sup>*\<^sup>* c (f c)"
    "parse_request cs = Some r" "d = dispatch dh hs onf (new_conn tx r)" "c = handle_connection dh hs onf cs tx"
  shows "\<not> cn_fd c \<and> cn_closes c = (if cn_fd d then 1 else 0) \<and> (cn_fd d \<longrightarrow> cn_response_sent c \<and> written dh tx c)"
proof -
  have n: "conn_inv dh tx (new_conn tx r)" by (simp add: conn_inv_def new_conn_def)
  have d: "conn_inv dh tx d" unfolding assms(4) by (rule dispatch_inv [OF assms(1,2) n])
  have c: "c = (if \<not> cn_fd d then d else close_request (if cn_response_sent d then d else send_code dh 204 [] [] d))"
    using assms(3,4,5) by (simp add: handle_connection_def Let_def)
  show ?thesis
  proof (cases "cn_fd d")
    case False then show ?thesis using c d by (simp add: conn_inv_def)
  next
    case True
    let ?e = "if cn_response_sent d then d else send_code dh 204 [] [] d"
    have e: "conn_inv dh tx ?e" "cn_response_sent ?e" "cn_fd ?e" using d True send_code_inv [OF d] by simp_all
    then have "written dh tx ?e" "cn_closes ?e = 0" unfolding conn_inv_def by blast+
    moreover have "written dh tx (close_request ?e)" if "written dh tx ?e"
      using that by (simp add: written_def close_request_def)
    ultimately show ?thesis using c True e by (simp add: close_request_def)
  qed
qed


definition hello_handler :: web_handler where
  "hello_handler = \<lparr>wh_canHandle = (\<lambda>r. rq_url r = ''/''), wh_handleBody = (\<lambda>_ c. c),
     wh_handleRequest = send_code [] 200 ''text/plain'' ''hello''\<rparr>"

lemma one_response_witness:
  "cn_closes (handle_connection [] [hello_handler] None [''GET / HTTP/1.1'' @ CRLF @ ''Host: h'' @ CRLF @ CRLF]
     [Sent 20, S_EINTR, Sent 500, Sent 5, Sent 1]) = 1"
proof -
  let ?cs = "[''GET / HTTP/1.1'' @ CRLF @ ''Host: h'' @ CRLF @ CRLF]" and ?tx = "[Sent 20, S_EINTR, Sent 500, Sent 5, Sent 1]"
  have h: "list_all (conforms []) [hello_handler]"
    by (simp add: conforms_def hello_handler_def) (blast intro: api_step.intros)
  have "\<exists>r. parse_request ?cs = Some r \<and> rq_url r = ''/'' \<and> rq_body r = []"
    by (simp add: parse_request_def CRLF_def request_line_def find_from_def Let_def)
  then obtain r where r: "parse_request ?cs = Some r" "rq_url r = ''/''" "rq_body r = []" by blast
  have fd: "cn_fd (dispatch [] [hello_handler] None (new_conn ?tx r))"
    using r by (simp add: dispatch_def hello_handler_def send_code_def init_response_def new_conn_def send_response_def Let_def)
  show ?thesis using one_response [OF h _ r(1) refl refl, of None ?tx] fd by simp
qed

section \<open>A client can frame the response\<close>

text \<open>The head of a response, read with the rules the server uses itself for requests.\<close>

definition response_lines :: "(string \<times> string) list \<Rightarrow> http_response \<Rightarrow> string list" where
  "response_lines dh r = (''HTTP/1.1 '' @ dec_int (rs_code r) @ '' '' @ reason_phrase (rs_code r))
     # map header_text ((if rs_type r = [] then [] else [(''Content-Type'', rs_type r)]) @ dh @ rs_extra r
        @ [(''Content-Length'', dec (content_size r)), (''Connection'', ''close'')])"

lemma length_reason: "length (reason_phrase code) \<le> 21"
  by (simp add: reason_phrase_def)

lemma length_dec10: "n < 10000000000 \<Longrightarrow> length (dec n) \<le> 10"
  using length_dec [of n 10] by (cases "n = 0") (auto simp: dec.simps)

lemma length_dec20: "n < 2 ^ 64 \<Longrightarrow> length (dec n) \<le> 20"
  using length_dec [of n 20] by (cases "n = 0") (auto simp: dec.simps)

lemma response_head_lines:
  assumes "0 \<le> rs_code r" "rs_code r < 2 ^ 31" "content_size r < 2 ^ 64"
  shows "response_head dh r = concat (map (\<lambda>l. l @ CRLF) (response_lines dh r)) @ CRLF"
proof -
  have "length (dec_int (rs_code r)) \<le> 10" using assms(1,2) length_dec10 [of "nat (rs_code r)"] by (simp add: dec_int_def)
  then have a: "snprintf 160 (''HTTP/1.1 '' @ dec_int (rs_code r) @ '' '' @ reason_phrase (rs_code r) @ CRLF)
     = ''HTTP/1.1 '' @ dec_int (rs_code r) @ '' '' @ reason_phrase (rs_code r) @ CRLF"
    using length_reason [of "rs_code r"] unfolding snprintf_def by (intro take_all) (simp add: CRLF_def)
  have b: "snprintf 160 (''Content-Length: '' @ dec (content_size r) @ CRLF @ ''Connection: close'' @ CRLF @ CRLF)
     = ''Content-Length: '' @ dec (content_size r) @ CRLF @ ''Connection: close'' @ CRLF @ CRLF"
    using length_dec20 [OF assms(3)] unfolding snprintf_def by (intro take_all) (simp add: CRLF_def)
  have f: "header_field = (\<lambda>h. header_text h @ CRLF)" by (rule ext) (simp add: header_text_def header_field_def)
  show ?thesis unfolding response_head_def response_lines_def a b f
    by (simp add: header_text_def comp_def)
qed

lemma dec_header: "header_ok (''Content-Length'', dec n)"
  by (simp add: header_ok_def plain_def)

lemma fold_header_last:
  "fold (\<lambda>(n, v) h. h(lowercase n \<mapsto> v)) (hs @ [(''Content-Length'', d), (''Connection'', e)]) m ''content-length'' = Some d"
proof -
  have l: "lowercase ''Content-Length'' = ''content-length''" "lowercase ''Connection'' = ''connection''" by code_simp+
  show ?thesis by (simp add: l)
qed

text \<open>A response can be framed by its reader, for every status code and content and all header fields
  free of line breaks: the first empty line ends the head, what follows is the body, and the length
  announced in the head is the length of the body; neither \<open>snprintf\<close> buffer of 160 bytes truncates.\<close>
theorem response_framed:
  assumes "0 \<le> rs_code r" "rs_code r < 2 ^ 31" "content_size r < 2 ^ 64"
    "list_all header_ok (dh @ rs_extra r)" "header_ok (''Content-Type'', rs_type r)"
  shows "\<exists>i eol. strfind (CRLF @ CRLF) (response_head dh r @ response_body r) = Some i
    \<and> drop (i + 4) (response_head dh r @ response_body r) = response_body r
    \<and> strfind CRLF (response_head dh r) = Some eol
    \<and> content_length (header_loop (drop (eol + 2) (take i (response_head dh r))) Map.empty) = length (response_body r)"
proof -
  let ?hs = "(if rs_type r = [] then [] else [(''Content-Type'', rs_type r)]) @ dh @ rs_extra r
        @ [(''Content-Length'', dec (content_size r)), (''Connection'', ''close'')]"
  let ?l = "''HTTP/1.1 '' @ dec_int (rs_code r) @ '' '' @ reason_phrase (rs_code r)" and ?ls = "map header_text ?hs"
  let ?t = "concat (map (\<lambda>l. l @ CRLF) ?ls)" and ?T = "concat (map (\<lambda>l. l @ CRLF) (?l # ?ls))"
  have head: "response_head dh r = ?T @ CRLF"
    using response_head_lines [OF assms(1-3)] by (simp add: response_lines_def)
  have ok: "list_all header_ok ?hs"
    using assms(4,5) dec_header [of "content_size r"] by (simp add: header_ok_def plain_def)
  then have ls: "list_all (\<lambda>l. plain l \<and> l \<noteq> []) ?ls" by (rule header_lines_plain)
  have "CHR 0x0D \<notin> set (dec_int (rs_code r))" using assms(1) by (simp add: dec_int_def)
  then have l: "plain ?l" by (simp add: plain_def reason_phrase_def)
  have f: "strfind (CRLF @ CRLF) (response_head dh r @ response_body r) = Some (length ?T - 2)"
    unfolding head append_assoc using strfind_end [of ?l ?ls "response_body r"] l ls by simp
  have T: "?T = ?l @ CRLF @ ?t" by simp
  have t2: "2 \<le> length ?t" by (simp add: CRLF_def)
  have d: "drop (length ?T - 2 + 4) (response_head dh r @ response_body r) = response_body r"
    unfolding head by (rule drop_after_blank) (simp add: CRLF_def)
  have e: "strfind CRLF (response_head dh r) = Some (length ?l)"
    using strfind_crlf(1) [OF l, of "?t @ CRLF"] unfolding head T append_assoc .
  have k: "drop (length ?l + 2) (take (length ?T - 2) (response_head dh r)) = take (length ?t - 2) ?t"
    unfolding head by (rule head_block_rest [OF T t2])
  have m: "header_loop (take (length ?t - 2) ?t) Map.empty = fold (\<lambda>(n, v) h. h(lowercase n \<mapsto> v)) ?hs Map.empty"
    using header_loop_lines [OF ls] header_map_fold [OF ok, of Map.empty] by simp
  have n: "content_length (header_loop (take (length ?t - 2) ?t) Map.empty) = length (response_body r)"
    unfolding m content_length_def
    using fold_header_last [of "(if rs_type r = [] then [] else [(''Content-Type'', rs_type r)]) @ dh @ rs_extra r"
        "dec (content_size r)" "''close''" Map.empty] assms(3) strtoul_dec [OF assms(3)]
    by (simp add: unat_of_nat content_size_def response_body_def take_bit_nat_eq_self split: option.split)
  show ?thesis using f d e n unfolding k [symmetric] by blast
qed

lemma response_framed_witness:
  "\<exists>i. strfind (CRLF @ CRLF) (response_head [(''Server'', ''x'')]
       \<lparr>rs_code = 200, rs_type = ''text/plain'', rs_extra = [], rs_data = Some ''hello''\<rparr> @ ''hello'') = Some i"
  using response_framed [of "\<lparr>rs_code = 200, rs_type = ''text/plain'', rs_extra = [], rs_data = Some ''hello''\<rparr>" "[(''Server'', ''x'')]"]
  by (auto simp: content_size_def header_ok_def plain_def response_body_def)

end
