(* ===== verification/Event_Source.thy ===== *)
theory Event_Source
  imports Http_Server
begin

text \<open>
  Server-sent events (\<open>AsyncEventSource\<close> and \<open>AsyncEventSourceResponse\<close> of
  \<open>web_server_base/web_server_host.cpp\<close>): the frame of an event, the sessions taken over from HTTP
  connections, the queue of deferred states, and one loop of the event source.

  The generators of the web server (\<open>message_generator_t\<close>) and its entity iterator are upstream code:
  \<open>gen g s\<close> is the text generator \<open>g\<close> makes for the source \<open>s\<close>, \<open>completed\<close> and \<open>advance\<close> are the
  iterator, an advance yielding the new iterator and the states it defers. A deferred state is the pair
  of source and generator. Sockets are as for HTTP: the results of the coming \<open>send\<close> calls.
\<close>

section \<open>Frames\<close>

definition LF :: string where
  "LF = [CHR 0x0A]"

function sse_data :: "string \<Rightarrow> string" where
  "sse_data p = (case strfind LF p of
       None \<Rightarrow> ''data: '' @ p @ LF
     | Some nl \<Rightarrow> ''data: '' @ take nl p @ LF @ sse_data (drop (nl + 1) p))"
  by pat_completeness auto
termination
proof (relation "measure length", simp)
  fix p nl assume "strfind LF p = Some nl"
  from strfind_bound [OF this] show "(drop (nl + 1) p, p) \<in> measure length" by (simp add: LF_def)
qed

declare sse_data.simps [simp del]

definition build_sse_frame :: "string \<Rightarrow> string option \<Rightarrow> u32 \<Rightarrow> u32 \<Rightarrow> string" where
  "build_sse_frame message event eid reconnect =
     (case event of Some e \<Rightarrow> if e \<noteq> [] then ''event: '' @ e @ LF else [] | None \<Rightarrow> [])
     @ (if eid \<noteq> 0 then snprintf 32 (''id: '' @ dec (unat eid) @ LF) else [])
     @ (if reconnect \<noteq> 0 then snprintf 32 (''retry: '' @ dec (unat reconnect) @ LF) else [])
     @ sse_data message @ LF"

section \<open>Sessions\<close>

type_synonym deferred = "nat \<times> nat"

record 'it sse_session =
  ss_fd :: bool
  ss_tx :: "send_res list"
  ss_out :: string
  ss_closes :: nat
  ss_deferred :: "deferred list"
  ss_it :: 'it

definition sse_header :: string where
  "sse_header = ''HTTP/1.1 200 OK'' @ CRLF @ ''Content-Type: text/event-stream'' @ CRLF @
     ''Cache-Control: no-cache'' @ CRLF @ ''Connection: keep-alive'' @ CRLF @
     ''Access-Control-Allow-Origin: *'' @ CRLF @ ''X-Accel-Buffering: no'' @ CRLF @ CRLF"

text \<open>\<open>send_raw\<close>: a failed send closes the socket.\<close>

definition send_raw :: "string \<Rightarrow> 'it sse_session \<Rightarrow> bool \<times> 'it sse_session" where
  "send_raw chunk s =
    (if \<not> ss_fd s then (False, s)
     else (case send_all (ss_tx s) chunk of (ok, w, tx) \<Rightarrow>
       let s1 = s\<lparr>ss_tx := tx, ss_out := ss_out s @ w\<rparr>
       in if ok then (True, s1) else (False, s1\<lparr>ss_fd := False, ss_closes := ss_closes s + 1\<rparr>)))"

definition new_session :: "'it \<Rightarrow> 'it \<Rightarrow> conn \<Rightarrow> 'it sse_session" where
  "new_session it0 it_begun c =
    (let s = \<lparr>ss_fd = cn_fd c, ss_tx = cn_tx c, ss_out = [], ss_closes = 0, ss_deferred = [], ss_it = it0\<rparr>
     in case send_raw sse_header s of (ok, s1) \<Rightarrow> if ok then s1\<lparr>ss_it := it_begun\<rparr> else s1)"

definition session_try_send_nodefer :: "string \<Rightarrow> string option \<Rightarrow> u32 \<Rightarrow> u32 \<Rightarrow> 'it sse_session \<Rightarrow> bool \<times> 'it sse_session" where
  "session_try_send_nodefer message event eid reconnect s = send_raw (build_sse_frame message event eid reconnect) s"

definition deq_push_back_with_dedup :: "deferred \<Rightarrow> 'it sse_session \<Rightarrow> 'it sse_session" where
  "deq_push_back_with_dedup ev s =
    (if List.find (\<lambda>e. e = ev) (ss_deferred s) \<noteq> None then s else s\<lparr>ss_deferred := ss_deferred s @ [ev]\<rparr>)"

definition session_deferrable_send_state :: "nat \<Rightarrow> nat \<Rightarrow> 'it sse_session \<Rightarrow> 'it sse_session" where
  "session_deferrable_send_state source g s = deq_push_back_with_dedup (source, g) s"

definition state_frame :: "(nat \<Rightarrow> nat \<Rightarrow> string) \<Rightarrow> deferred \<Rightarrow> string" where
  "state_frame gen ev = build_sse_frame (cstr (gen (snd ev) (fst ev))) (Some ''state'') 0 0"

fun process_deferred :: "(nat \<Rightarrow> nat \<Rightarrow> string) \<Rightarrow> deferred list \<Rightarrow> 'it sse_session \<Rightarrow> 'it sse_session" where
  "process_deferred gen [] s = s"
| "process_deferred gen (ev # q) s =
    (if \<not> ss_fd s then s
     else if gen (snd ev) (fst ev) \<noteq> [] then
       (case send_raw (state_frame gen ev) s of (ok, s1) \<Rightarrow>
          if ok then process_deferred gen q (s1\<lparr>ss_deferred := q\<rparr>) else s1)
     else process_deferred gen q (s\<lparr>ss_deferred := q\<rparr>))"

definition process_deferred_queue :: "(nat \<Rightarrow> nat \<Rightarrow> string) \<Rightarrow> 'it sse_session \<Rightarrow> 'it sse_session" where
  "process_deferred_queue gen s = process_deferred gen (ss_deferred s) s"

section \<open>The event source\<close>

text \<open>\<open>es_gone\<close> are the sessions that a loop deleted, in the order \<open>on_disconnect_\<close> was called for them, \<open>es_deleted\<close> those
  that the destructor deleted; \<open>es_alive\<close> holds until the destructor runs.\<close>

record 'it event_source =
  es_sessions :: "'it sse_session list"
  es_gone :: "'it sse_session list"
  es_deleted :: "'it sse_session list"
  es_alive :: bool

definition es_handleRequest :: "'it \<Rightarrow> 'it \<Rightarrow> conn \<Rightarrow> 'it event_source \<Rightarrow> conn \<times> 'it event_source" where
  "es_handleRequest it0 it_begun c es =
     (take_fd c, es\<lparr>es_sessions := es_sessions es @ [new_session it0 it_begun c]\<rparr>)"

definition es_try_send_nodefer :: "string \<Rightarrow> string option \<Rightarrow> u32 \<Rightarrow> u32 \<Rightarrow> 'it event_source \<Rightarrow> 'it event_source" where
  "es_try_send_nodefer message event eid reconnect es =
     es\<lparr>es_sessions := map (\<lambda>s. snd (session_try_send_nodefer message event eid reconnect s)) (es_sessions es)\<rparr>"

definition es_deferrable_send_state :: "nat \<Rightarrow> nat \<Rightarrow> 'it event_source \<Rightarrow> 'it event_source" where
  "es_deferrable_send_state source g es =
     es\<lparr>es_sessions := map (session_deferrable_send_state source g) (es_sessions es)\<rparr>"

definition on_session :: "nat \<Rightarrow> ('it sse_session \<Rightarrow> 'it sse_session) \<Rightarrow> 'it event_source \<Rightarrow> 'it event_source" where
  "on_session i f es = es\<lparr>es_sessions := (es_sessions es)[i := f (es_sessions es ! i)]\<rparr>"

text \<open>\<open>process_buffer\<close>: at most \<open>n\<close> = 16 steps of the iterator of session \<open>i\<close>.\<close>

fun process_buffer :: "('it \<Rightarrow> bool) \<Rightarrow> ('it \<Rightarrow> 'it \<times> deferred list) \<Rightarrow> nat \<Rightarrow> nat \<Rightarrow> 'it event_source \<Rightarrow> 'it event_source" where
  "process_buffer completed advance 0 i es = es"
| "process_buffer completed advance (Suc n) i es =
    (if completed (ss_it (es_sessions es ! i)) then es
     else (case advance (ss_it (es_sessions es ! i)) of (it, evs) \<Rightarrow>
       process_buffer completed advance n i
         (fold (\<lambda>(s, g). es_deferrable_send_state s g) evs (on_session i (\<lambda>s. s\<lparr>ss_it := it\<rparr>) es))))"

definition session_loop ::
    "(nat \<Rightarrow> nat \<Rightarrow> string) \<Rightarrow> ('it \<Rightarrow> bool) \<Rightarrow> ('it \<Rightarrow> 'it \<times> deferred list) \<Rightarrow> nat \<Rightarrow> 'it event_source \<Rightarrow> 'it event_source" where
  "session_loop gen completed advance i es =
    (if \<not> ss_fd (es_sessions es ! i) then es
     else on_session i (process_deferred_queue gen) (process_buffer completed advance 16 i es))"

definition es_loop ::
    "(nat \<Rightarrow> nat \<Rightarrow> string) \<Rightarrow> ('it \<Rightarrow> bool) \<Rightarrow> ('it \<Rightarrow> 'it \<times> deferred list) \<Rightarrow> 'it event_source \<Rightarrow> bool \<times> 'it event_source" where
  "es_loop gen completed advance es =
    (let es1 = fold (session_loop gen completed advance) [0..<length (es_sessions es)] es;
         es2 = es1\<lparr>es_sessions := filter ss_fd (es_sessions es1),
                    es_gone := es_gone es1 @ filter (\<lambda>s. \<not> ss_fd s) (es_sessions es1)\<rparr>
     in (es_sessions es2 \<noteq> [], es2))"

text \<open>The destructor deletes the sessions, which have no destructor of their own: nothing closes their sockets.\<close>

definition es_destroy :: "'it event_source \<Rightarrow> 'it event_source" where
  "es_destroy es = es\<lparr>es_deleted := es_deleted es @ es_sessions es, es_sessions := [], es_alive := False\<rparr>"

section \<open>Reading a stream of events\<close>

text \<open>The reader of an event stream, by the rules of the HTML standard: lines end at LF, CR or CRLF; a
  field is the part before the first colon, its value the part after it without one leading space; an
  empty line completes an event.\<close>

fun sse_lines :: "string \<Rightarrow> string \<Rightarrow> string list" where
  "sse_lines acc [] = []"
| "sse_lines acc (c # s) =
    (if c = CHR 0x0A then rev acc # sse_lines [] s
     else if c = CHR 0x0D then rev acc # (case s of d # r \<Rightarrow> if d = CHR 0x0A then sse_lines [] r else sse_lines [] s | [] \<Rightarrow> [])
     else sse_lines (c # acc) s)"

record sse_event =
  se_type :: string
  se_id :: "string option"
  se_retry :: "string option"
  se_data :: "string list"

definition no_event :: sse_event where
  "no_event = \<lparr>se_type = [], se_id = None, se_retry = None, se_data = []\<rparr>"

definition sse_field :: "string \<Rightarrow> sse_event \<Rightarrow> sse_event" where
  "sse_field line e =
    (let name = takeWhile (\<lambda>c. c \<noteq> CHR '':'') line; r = drop (length name + 1) line;
         v = (if r \<noteq> [] \<and> hd r = CHR '' '' then tl r else r)
     in if name = ''event'' then e\<lparr>se_type := v\<rparr> else if name = ''id'' then e\<lparr>se_id := Some v\<rparr>
        else if name = ''retry'' then e\<lparr>se_retry := Some v\<rparr>
        else if name = ''data'' then e\<lparr>se_data := se_data e @ [v]\<rparr> else e)"

fun sse_read :: "sse_event \<Rightarrow> string list \<Rightarrow> sse_event list" where
  "sse_read e [] = []"
| "sse_read e (l # ls) = (if l = [] then e # sse_read no_event ls else sse_read (sse_field l e) ls)"

text \<open>The text of an event's data is its data lines joined by LF.\<close>

fun join_lines :: "string list \<Rightarrow> string" where
  "join_lines [] = []"
| "join_lines [l] = l"
| "join_lines (l # ls) = l @ LF @ join_lines ls"


section \<open>The reader gets the events that were sent\<close>

function msg_lines :: "string \<Rightarrow> string list" where
  "msg_lines p = (case strfind LF p of None \<Rightarrow> [p] | Some nl \<Rightarrow> take nl p # msg_lines (drop (nl + 1) p))"
  by pat_completeness auto
termination
proof (relation "measure length", simp)
  fix p nl assume "strfind LF p = Some nl"
  from strfind_bound [OF this] show "(drop (nl + 1) p, p) \<in> measure length" by (simp add: LF_def)
qed

declare msg_lines.simps [simp del]

lemma msg_lines_not_Nil [simp]: "msg_lines p \<noteq> []"
  by (subst msg_lines.simps) (simp split: option.split)

lemma sse_data_lines: "sse_data p = concat (map (\<lambda>l. ''data: '' @ l @ LF) (msg_lines p))"
proof (induction p rule: msg_lines.induct)
  case (1 p)
  then show ?case by (subst sse_data.simps, subst msg_lines.simps) (simp split: option.split)
qed

lemma join_msg_lines: "join_lines (msg_lines p) = p"
proof (induction p rule: msg_lines.induct)
  case (1 p)
  show ?case
  proof (cases "strfind LF p")
    case None then show ?thesis by (subst msg_lines.simps) simp
  next
    case (Some nl)
    have m: "take 1 (drop nl p) = LF" using strfind_match [OF Some] by (simp add: LF_def)
    have "p = take nl p @ take 1 (drop nl p) @ drop (nl + 1) p"
      by (metis append_take_drop_id drop_drop add.commute)
    then have p: "p = take nl p @ LF @ drop (nl + 1) p" unfolding m .
    obtain l ls where l: "msg_lines (drop (nl + 1) p) = l # ls" by (meson msg_lines_not_Nil neq_Nil_conv)
    have "join_lines (take nl p # l # ls) = take nl p @ LF @ drop (nl + 1) p"
      using "1.IH" [OF Some] unfolding l by simp
    then show ?thesis using p Some l by (subst msg_lines.simps) simp
  qed
qed

lemma msg_lines_sub: "l \<in> set (msg_lines p) \<Longrightarrow> set l \<subseteq> set p \<and> CHR 0x0A \<notin> set l"
proof (induction p rule: msg_lines.induct)
  case (1 p)
  show ?case
  proof (cases "strfind LF p")
    case None
    then have "msg_lines p = [p]" by (subst msg_lines.simps) simp
    moreover have "CHR 0x0A \<notin> set p" using None by (simp add: LF_def strfind_char_None)
    ultimately show ?thesis using "1.prems" by simp
  next
    case (Some nl)
    then consider "l = take nl p" | "l \<in> set (msg_lines (drop (nl + 1) p))"
      using "1.prems" by (subst (asm) msg_lines.simps) auto
    then show ?thesis
    proof cases
      case 1 then show ?thesis using strfind_before [of "CHR 0x0A" p nl] Some set_take_subset [of nl p] by (simp add: LF_def)
    next
      case 2
      then show ?thesis using "1.IH" [OF Some 2] set_drop_subset [of "nl + 1" p] by blast
    qed
  qed
qed

definition one_line :: "string \<Rightarrow> bool" where
  "one_line l \<longleftrightarrow> CHR 0x0A \<notin> set l \<and> CHR 0x0D \<notin> set l"

lemma sse_lines_line: "one_line l \<Longrightarrow> sse_lines acc (l @ LF @ r) = (rev acc @ l) # sse_lines [] r"
  by (induction l arbitrary: acc) (auto simp: one_line_def LF_def)

lemma sse_lines_lines: "list_all one_line ls \<Longrightarrow> sse_lines [] (concat (map (\<lambda>l. l @ LF) ls) @ r) = ls @ sse_lines [] r"
  by (induction ls) (simp_all add: sse_lines_line)

definition frame_lines :: "string \<Rightarrow> string option \<Rightarrow> u32 \<Rightarrow> u32 \<Rightarrow> string list" where
  "frame_lines message event eid reconnect =
     (case event of Some e \<Rightarrow> if e \<noteq> [] then [''event: '' @ e] else [] | None \<Rightarrow> [])
     @ (if eid \<noteq> 0 then [''id: '' @ dec (unat eid)] else [])
     @ (if reconnect \<noteq> 0 then [''retry: '' @ dec (unat reconnect)] else [])
     @ map (\<lambda>l. ''data: '' @ l) (msg_lines message) @ [[]]"

lemma length_dec_u32: "length (dec (unat (n :: u32))) \<le> 10"
proof -
  have "unat n < 2 ^ LENGTH(32)" by (rule unsigned_less)
  then show ?thesis by (intro length_dec10) simp
qed

lemma build_sse_frame_lines:
  "build_sse_frame message event eid reconnect = concat (map (\<lambda>l. l @ LF) (frame_lines message event eid reconnect))"
proof -
  have s: "snprintf 32 (''id: '' @ dec (unat n) @ LF) = ''id: '' @ dec (unat n) @ LF"
    "snprintf 32 (''retry: '' @ dec (unat n) @ LF) = ''retry: '' @ dec (unat n) @ LF" for n :: u32
    using length_dec_u32 [of n] unfolding snprintf_def by (auto intro!: take_all simp: LF_def)
  show ?thesis unfolding build_sse_frame_def s sse_data_lines frame_lines_def
    by (simp add: comp_def LF_def split: option.split)
qed

definition sent_event :: "string \<Rightarrow> string option \<Rightarrow> u32 \<Rightarrow> u32 \<Rightarrow> sse_event" where
  "sent_event message event eid reconnect =
    \<lparr>se_type = (case event of None \<Rightarrow> [] | Some e \<Rightarrow> e), se_id = (if eid \<noteq> 0 then Some (dec (unat eid)) else None),
     se_retry = (if reconnect \<noteq> 0 then Some (dec (unat reconnect)) else None), se_data = msg_lines message\<rparr>"

lemma sse_field_values:
  "sse_field (''event: '' @ v) e = e\<lparr>se_type := v\<rparr>" "sse_field (''id: '' @ v) e = e\<lparr>se_id := Some v\<rparr>"
  "sse_field (''retry: '' @ v) e = e\<lparr>se_retry := Some v\<rparr>" "sse_field (''data: '' @ v) e = e\<lparr>se_data := se_data e @ [v]\<rparr>"
  by (simp_all add: sse_field_def)

lemma sse_read_data:
  "sse_read e (map (\<lambda>l. ''data: '' @ l) ls @ [] # r) = e\<lparr>se_data := se_data e @ ls\<rparr> # sse_read no_event r"
proof (induction ls arbitrary: e)
  case Nil then show ?case by simp
next
  case (Cons l ls) then show ?case using sse_field_values(4) [of l e] by simp
qed

lemma sse_read_frame:
  "sse_read no_event (frame_lines message event eid reconnect @ r) = sent_event message event eid reconnect # sse_read no_event r"
  by (cases event; cases "eid = 0"; cases "reconnect = 0")
    (auto simp: frame_lines_def sse_field_values [simplified] sse_read_data [simplified] sent_event_def no_event_def)

lemma frame_lines_one_line:
  assumes "CHR 0x0D \<notin> set message" "\<forall>e. event = Some e \<longrightarrow> one_line e"
  shows "list_all one_line (frame_lines message event eid reconnect)"
proof -
  have "one_line (''data: '' @ l)" if "l \<in> set (msg_lines message)" for l
    using msg_lines_sub [OF that] assms(1) by (auto simp: one_line_def)
  then show ?thesis using assms(2) by (auto simp: frame_lines_def list_all_iff one_line_def split: option.split)
qed

text \<open>C21. An event stream is read back as the events that were sent: any sequence of frames, with messages
  of any number of lines (free of carriage returns), decodes to the same event names, ids, retry times and
  texts, in order.\<close>
theorem sse_stream_roundtrip:
  assumes "list_all (\<lambda>(m, e, i, r). CHR 0x0D \<notin> set m \<and> (\<forall>t. e = Some t \<longrightarrow> one_line t)) fs"
  shows "map (\<lambda>e. (se_type e, se_id e, se_retry e, join_lines (se_data e)))
      (sse_read no_event (sse_lines [] (concat (map (\<lambda>(m, e, i, r). build_sse_frame m e i r) fs))))
    = map (\<lambda>(m, e, i, r). (case e of None \<Rightarrow> [] | Some t \<Rightarrow> t, if i \<noteq> 0 then Some (dec (unat i)) else None,
        if r \<noteq> 0 then Some (dec (unat r)) else None, m)) fs"
  using assms
proof (induction fs)
  case Nil then show ?case by simp
next
  case (Cons f fs)
  obtain m e i r where f: "f = (m, e, i, r)" by (cases f) auto
  have o: "list_all one_line (frame_lines m e i r)" using Cons.prems f by (auto intro: frame_lines_one_line)
  show ?case using Cons.IH Cons.prems
    by (simp add: f build_sse_frame_lines sse_lines_lines [OF o] sse_read_frame sent_event_def join_msg_lines)
qed

lemma sse_stream_roundtrip_witness:
  "map se_type (sse_read no_event (sse_lines [] (build_sse_frame (''a'' @ LF @ ''b'') (Some ''state'') 0 0))) = [''state'']"
proof -
  have "map (\<lambda>e. (se_type e, se_id e, se_retry e, join_lines (se_data e)))
      (sse_read no_event (sse_lines [] (build_sse_frame (''a'' @ LF @ ''b'') (Some ''state'') 0 0)))
    = [(''state'', None, None, ''a'' @ LF @ ''b'')]"
    using sse_stream_roundtrip [of "[(''a'' @ LF @ ''b'', Some ''state'', 0, 0)]"] by (simp add: one_line_def LF_def)
  then show ?thesis by (auto simp: map_eq_Cons_conv)
qed


section \<open>Deferred states\<close>

definition state_text :: "(nat \<Rightarrow> nat \<Rightarrow> string) \<Rightarrow> deferred \<Rightarrow> string" where
  "state_text gen ev = (if gen (snd ev) (fst ev) \<noteq> [] then state_frame gen ev else [])"

lemma send_raw_cases:
  assumes "ss_fd s"
  obtains (ok) tx where "send_raw x s = (True, s\<lparr>ss_tx := tx, ss_out := ss_out s @ x\<rparr>)"
      "list_all benign (ss_tx s) \<longrightarrow> list_all benign tx"
  | (failed) tx w where "send_raw x s = (False, s\<lparr>ss_tx := tx, ss_out := ss_out s @ w, ss_fd := False, ss_closes := ss_closes s + 1\<rparr>)"
      "prefix w x" "list_all benign (ss_tx s) \<longrightarrow> tx = []"
proof -
  obtain b w tx where s: "send_all (ss_tx s) x = (b, w, tx)" by (cases "send_all (ss_tx s) x")
  note p = send_all_prefix [OF s]
  show ?thesis
  proof (cases b)
    case True then show ?thesis using ok [of tx] s assms p by (simp add: send_raw_def)
  next
    case False then show ?thesis using failed [of w tx] s assms p by (simp add: send_raw_def)
  qed
qed

definition drained :: "(nat \<Rightarrow> nat \<Rightarrow> string) \<Rightarrow> deferred list \<Rightarrow> string \<Rightarrow> nat \<Rightarrow> bool \<Rightarrow> 'it sse_session \<Rightarrow> bool" where
  "drained gen q out closes good s \<longleftrightarrow> (\<exists>sent rest w. q = sent @ rest \<and> ss_deferred s = rest
    \<and> ss_out s = out @ concat (map (state_text gen) sent) @ w
    \<and> (if ss_fd s then rest = [] \<and> w = [] \<and> ss_closes s = closes
       else rest \<noteq> [] \<and> prefix w (state_text gen (hd rest)) \<and> ss_closes s = closes + 1)
    \<and> (good \<longrightarrow> ss_tx s \<noteq> [] \<longrightarrow> ss_fd s))"

lemma drained_step:
  assumes "drained gen q (out @ state_text gen ev) closes good' s" "good \<longrightarrow> good'"
  shows "drained gen (ev # q) out closes good s"
proof -
  from assms(1) obtain sent rest w where "q = sent @ rest \<and> ss_deferred s = rest
    \<and> ss_out s = (out @ state_text gen ev) @ concat (map (state_text gen) sent) @ w
    \<and> (if ss_fd s then rest = [] \<and> w = [] \<and> ss_closes s = closes
       else rest \<noteq> [] \<and> prefix w (state_text gen (hd rest)) \<and> ss_closes s = closes + 1)
    \<and> (good' \<longrightarrow> ss_tx s \<noteq> [] \<longrightarrow> ss_fd s)" unfolding drained_def by blast
  then show ?thesis unfolding drained_def using assms(2)
    by (intro exI [of _ "ev # sent"] exI [of _ rest] exI [of _ w]) (simp split: if_splits)
qed

lemma drained_process:
  "ss_fd s \<Longrightarrow> ss_deferred s = q \<Longrightarrow>
    drained gen q (ss_out s) (ss_closes s) (list_all benign (ss_tx s)) (process_deferred gen q s)"
proof (induction q arbitrary: s)
  case Nil then show ?case by (simp add: drained_def)
next
  case (Cons ev q)
  show ?case
  proof (cases "gen (snd ev) (fst ev) = []")
    case True
    then have "process_deferred gen (ev # q) s = process_deferred gen q (s\<lparr>ss_deferred := q\<rparr>)" "state_text gen ev = []"
      using Cons.prems by (simp_all add: state_text_def)
    then show ?thesis using Cons.IH [of "s\<lparr>ss_deferred := q\<rparr>"] Cons.prems
      by (intro drained_step [where good' = "list_all benign (ss_tx s)"]) simp_all
  next
    case False
    then have t: "state_text gen ev = state_frame gen ev" by (simp add: state_text_def)
    from Cons.prems(1) show ?thesis
    proof (cases rule: send_raw_cases [where x = "state_frame gen ev"])
      case (ok tx)
      let ?s = "s\<lparr>ss_tx := tx, ss_out := ss_out s @ state_frame gen ev, ss_deferred := q\<rparr>"
      have p: "process_deferred gen (ev # q) s = process_deferred gen q ?s"
        using False Cons.prems ok(1) by simp
      show ?thesis unfolding p using Cons.IH [of ?s] Cons.prems ok(2)
        by (intro drained_step [where good' = "list_all benign tx"]) (simp_all add: t)
    next
      case (failed tx w)
      then have p: "process_deferred gen (ev # q) s
          = s\<lparr>ss_tx := tx, ss_out := ss_out s @ w, ss_fd := False, ss_closes := ss_closes s + 1\<rparr>"
        using False Cons.prems by simp
      show ?thesis unfolding p drained_def using Cons.prems failed(2,3)
        by (intro exI [of _ "[]"] exI [of _ "ev # q"] exI [of _ w]) (simp add: t)
    qed
  qed
qed

text \<open>Draining the queue of deferred states sends the frames of a leading part of it, each once and in
  order, and removes exactly that part; all of the queue as long as the socket accepts data. If a send
  fails, the socket is closed, once, and the state whose frame was cut stays in the queue.\<close>
theorem deferred_queue_drained:
  assumes "ss_fd s" "s' = process_deferred_queue gen s"
  shows "\<exists>sent rest w. ss_deferred s = sent @ rest \<and> ss_deferred s' = rest
    \<and> ss_out s' = ss_out s @ concat (map (state_text gen) sent) @ w
    \<and> (if ss_fd s' then rest = [] \<and> w = [] \<and> ss_closes s' = ss_closes s
       else rest \<noteq> [] \<and> prefix w (state_text gen (hd rest)) \<and> ss_closes s' = ss_closes s + 1)
    \<and> (list_all benign (ss_tx s) \<longrightarrow> ss_tx s' \<noteq> [] \<longrightarrow> ss_fd s')"
  using drained_process [OF assms(1) refl, of gen] unfolding assms(2) process_deferred_queue_def drained_def .

definition demo_session :: "nat sse_session" where
  "demo_session = \<lparr>ss_fd = True, ss_tx = [Sent 100, Sent 100], ss_out = [], ss_closes = 0, ss_deferred = [(1, 2)], ss_it = 0\<rparr>"

lemma deferred_queue_drained_witness:
  "ss_out (process_deferred_queue (\<lambda>_ _. ''{}'') demo_session) = state_frame (\<lambda>_ _. ''{}'') (1, 2)"
proof -
  have "state_frame (\<lambda>_ _. ''{}'') (1, 2) = ''event: state'' @ LF @ ''data: {}'' @ LF @ LF"
    by (simp add: state_frame_def build_sse_frame_def cstr_def LF_def sse_data.simps)
  then have "ss_fd (process_deferred_queue (\<lambda>_ _. ''{}'') demo_session)"
    by (simp add: process_deferred_queue_def demo_session_def send_raw_def LF_def)
  then show ?thesis using deferred_queue_drained [of demo_session _ "\<lambda>_ _. ''{}''", OF _ refl]
    by (auto simp: demo_session_def state_text_def split: if_splits)
qed


section \<open>The life of a session\<close>

text \<open>The operations on an event source that has not been destroyed; the label tells whether a socket was taken over
  from the server.\<close>

inductive es_step :: "bool \<Rightarrow> 'it event_source \<Rightarrow> 'it event_source \<Rightarrow> bool" where
  es_connect: "es_alive es \<Longrightarrow> cn_fd c \<Longrightarrow> es_step True es (snd (es_handleRequest it0 it_begun c es))"
| es_nodefer: "es_alive es \<Longrightarrow> es_step False es (es_try_send_nodefer message event eid reconnect es)"
| es_defer: "es_alive es \<Longrightarrow> es_step False es (es_deferrable_send_state source g es)"
| es_looped: "es_alive es \<Longrightarrow> es_step False es (snd (es_loop gen completed advance es))"
| es_destroyed: "es_alive es \<Longrightarrow> es_step False es (es_destroy es)"

definition session_ok :: "'it sse_session \<Rightarrow> bool" where
  "session_ok s \<longleftrightarrow> distinct (ss_deferred s) \<and> ss_closes s = (if ss_fd s then 0 else 1)"

definition all_sessions :: "'it event_source \<Rightarrow> 'it sse_session list" where
  "all_sessions es = es_sessions es @ es_gone es @ es_deleted es"

definition es_ok :: "'it event_source \<Rightarrow> bool" where
  "es_ok es \<longleftrightarrow> list_all session_ok (all_sessions es) \<and> list_all (\<lambda>s. \<not> ss_fd s) (es_gone es)
     \<and> (if es_alive es then es_deleted es = [] else es_sessions es = [])"

definition new_event_source :: "'it event_source" where
  "new_event_source = \<lparr>es_sessions = [], es_gone = [], es_deleted = [], es_alive = True\<rparr>"

text \<open>The executions in which \<open>n\<close> sockets were taken over.\<close>

inductive es_run :: "nat \<Rightarrow> 'it event_source \<Rightarrow> bool" where
  run_new: "es_run 0 new_event_source"
| run_step: "es_run n es \<Longrightarrow> es_step taken es es' \<Longrightarrow> es_run (if taken then Suc n else n) es'"

lemma send_raw_ok: "session_ok s \<Longrightarrow> session_ok (snd (send_raw x s))"
  by (auto simp: session_ok_def send_raw_def Let_def split: prod.split)

lemma new_session_ok: "cn_fd c \<Longrightarrow> session_ok (new_session it0 it_begun c)"
  using send_raw_ok [of "\<lparr>ss_fd = cn_fd c, ss_tx = cn_tx c, ss_out = [], ss_closes = 0, ss_deferred = [], ss_it = it0\<rparr>" sse_header]
  by (auto simp: new_session_def Let_def session_ok_def split: prod.splits if_splits)

lemma dedup_ok: "session_ok s \<Longrightarrow> session_ok (session_deferrable_send_state source g s)"
  by (auto simp: session_ok_def session_deferrable_send_state_def deq_push_back_with_dedup_def find_None_iff split: if_splits)

lemma process_deferred_queue_ok: "session_ok s \<Longrightarrow> session_ok (process_deferred_queue gen s)"
proof (cases "ss_fd s")
  case False
  assume "session_ok s"
  moreover have "process_deferred_queue gen s = s"
    using False by (cases "ss_deferred s") (simp_all add: process_deferred_queue_def)
  ultimately show ?thesis by simp
next
  case True
  assume "session_ok s"
  then show ?thesis using drained_process [OF True refl, of gen] True
    by (auto simp: session_ok_def drained_def process_deferred_queue_def split: if_splits) (metis distinct_append)+
qed

lemma defer_es_ok: "es_ok es \<Longrightarrow> es_ok (es_deferrable_send_state source g es)"
  by (auto simp: es_ok_def all_sessions_def es_deferrable_send_state_def list_all_iff dedup_ok)

lemma fold_defer_ok: "es_ok es \<Longrightarrow> es_ok (fold (\<lambda>(s, g). es_deferrable_send_state s g) evs es)"
  by (induction evs arbitrary: es) (auto simp: defer_es_ok)

lemma on_session_ok:
  assumes "es_ok es" "\<And>s. session_ok s \<Longrightarrow> session_ok (f s)"
  shows "es_ok (on_session i f es)"
proof (cases "i < length (es_sessions es)")
  case True
  then have "session_ok (f (es_sessions es ! i))" using assms by (simp add: es_ok_def all_sessions_def list_all_iff)
  then show ?thesis using assms(1) True
    by (auto simp: es_ok_def all_sessions_def on_session_def list_all_iff dest: set_update_subset_insert [THEN subsetD])
next
  case False then show ?thesis using assms(1) by (simp add: es_ok_def on_session_def list_update_beyond)
qed

lemma process_buffer_ok: "es_ok es \<Longrightarrow> es_ok (process_buffer completed advance n i es)"
proof (induction n arbitrary: es)
  case 0 then show ?case by simp
next
  case (Suc n)
  have "es_ok (on_session i (\<lambda>s. s\<lparr>ss_it := it\<rparr>) es)" for it
    using Suc.prems by (rule on_session_ok) (simp add: session_ok_def)
  then show ?case using Suc by (auto simp: fold_defer_ok split: prod.split)
qed

lemma session_loop_ok: "es_ok es \<Longrightarrow> es_ok (session_loop gen completed advance i es)"
  by (auto simp: session_loop_def intro: on_session_ok process_buffer_ok process_deferred_queue_ok)

lemma fold_session_loop_ok: "es_ok es \<Longrightarrow> es_ok (fold (session_loop gen completed advance) is es)"
  by (induction "is" arbitrary: es) (auto simp: session_loop_ok)

lemma es_loop_ok: "es_ok es \<Longrightarrow> es_ok (snd (es_loop gen completed advance es))"
  using fold_session_loop_ok [of es gen completed advance "[0..<length (es_sessions es)]"]
  by (auto simp: es_loop_def Let_def es_ok_def all_sessions_def list_all_iff session_ok_def)

lemma es_step_ok: "es_step taken es es' \<Longrightarrow> es_ok es \<Longrightarrow> es_ok es'"
proof (induction rule: es_step.induct)
  case es_connect then show ?case by (simp add: es_handleRequest_def es_ok_def all_sessions_def new_session_ok)
next
  case es_nodefer
  then show ?case
    by (auto simp: es_try_send_nodefer_def es_ok_def all_sessions_def list_all_iff session_try_send_nodefer_def send_raw_ok)
next
  case es_destroyed then show ?case by (simp add: es_destroy_def es_ok_def all_sessions_def)
qed (auto simp: defer_es_ok es_loop_ok)

lemma es_run_ok: "es_run n es \<Longrightarrow> es_ok es"
proof (induction rule: es_run.induct)
  case run_new show ?case by (simp add: es_ok_def all_sessions_def new_event_source_def)
qed (rule es_step_ok)

text \<open>No operation makes a session out of nothing or forgets one.\<close>

lemma on_session_frame [simp]:
  "length (es_sessions (on_session i f es)) = length (es_sessions es)" "es_gone (on_session i f es) = es_gone es"
  "es_deleted (on_session i f es) = es_deleted es"
  by (simp_all add: on_session_def)

lemma defer_frame [simp]:
  "length (es_sessions (es_deferrable_send_state source g es)) = length (es_sessions es)"
  "es_gone (es_deferrable_send_state source g es) = es_gone es"
  "es_deleted (es_deferrable_send_state source g es) = es_deleted es"
  by (simp_all add: es_deferrable_send_state_def)

lemma fold_defer_frame [simp]:
  "length (es_sessions (fold (\<lambda>(s, g). es_deferrable_send_state s g) evs es)) = length (es_sessions es)"
  "es_gone (fold (\<lambda>(s, g). es_deferrable_send_state s g) evs es) = es_gone es"
  "es_deleted (fold (\<lambda>(s, g). es_deferrable_send_state s g) evs es) = es_deleted es"
  by (induction evs arbitrary: es) auto

lemma process_buffer_frame [simp]:
  "length (es_sessions (process_buffer completed advance n i es)) = length (es_sessions es)"
  "es_gone (process_buffer completed advance n i es) = es_gone es"
  "es_deleted (process_buffer completed advance n i es) = es_deleted es"
  by (induction n arbitrary: es) (auto split: prod.split)

lemma fold_session_loop_frame [simp]:
  "length (es_sessions (fold (session_loop gen completed advance) is es)) = length (es_sessions es)"
  "es_gone (fold (session_loop gen completed advance) is es) = es_gone es"
  "es_deleted (fold (session_loop gen completed advance) is es) = es_deleted es"
  by (induction "is" arbitrary: es) (auto simp: session_loop_def)

lemma es_step_sessions:
  "es_step taken es es' \<Longrightarrow> length (all_sessions es') = length (all_sessions es) + (if taken then 1 else 0)"
proof (induction rule: es_step.induct)
  case (es_looped es gen completed advance)
  let ?es = "fold (session_loop gen completed advance) [0..<length (es_sessions es)] es"
  show ?case using sum_length_filter_compl [of ss_fd "es_sessions ?es"]
    by (simp add: all_sessions_def es_loop_def Let_def)
qed (simp_all add: all_sessions_def es_handleRequest_def es_try_send_nodefer_def es_destroy_def)

lemma es_run_sessions: "es_run n es \<Longrightarrow> length (all_sessions es) = n"
proof (induction rule: es_run.induct)
  case run_new show ?case by (simp add: all_sessions_def new_event_source_def)
qed (auto dest: es_step_sessions)

lemma sessions_closes:
  "list_all session_ok ss \<Longrightarrow> sum_list (map ss_closes ss) + length (filter ss_fd ss) = length ss"
  by (induction ss) (auto simp: session_ok_def)


text \<open>Destroying the event source after a loop leaks the socket of every session it still serves.\<close>
theorem destroyed_sessions_leak:
  assumes "es_run n es" "es_alive es"
  shows "list_all (\<lambda>s. ss_fd s \<and> ss_closes s = 0) (es_deleted (es_destroy (snd (es_loop gen completed advance es))))"
proof -
  have "es_ok (snd (es_loop gen completed advance es))" using es_run_ok [OF assms(1)] by (rule es_loop_ok)
  moreover have "\<forall>s\<in>set (es_sessions (snd (es_loop gen completed advance es))). ss_fd s" by (simp add: es_loop_def Let_def)
  moreover have "es_deleted (snd (es_loop gen completed advance es)) = []"
    using es_run_ok [OF assms(1)] assms(2) by (simp add: es_loop_def Let_def es_ok_def)
  ultimately show ?thesis by (auto simp: es_destroy_def es_ok_def all_sessions_def session_ok_def list_all_iff)
qed


end
