(* ===== verification/Web_Base.thy ===== *)
theory Web_Base
  imports Http_Server
begin

text \<open>
  The web server of the application (\<open>web_server_base/web_server_base.{h,cpp}\<close>): counted initialisation,
  registration of handlers, the authentication middleware; and of \<open>web_server_host.{h,cpp}\<close> the listening
  socket, the accept loop and the authentication functions of the request.

  The default headers are a global list. \<open>ws_open\<close> holds the listening descriptors that are open. The threads
  that serve connections are detached: \<open>ws_conns\<close> lists, for each, the number of the server object it works for;
  \<open>ws_crashed\<close> says that one of them used a server that was deleted.
\<close>

section \<open>Authentication\<close>

record credentials =
  cr_username :: string
  cr_password :: string

definition authenticate :: "string \<Rightarrow> string \<Rightarrow> http_request \<Rightarrow> bool" where
  "authenticate username password r = True"

definition requestAuthentication :: "conn \<Rightarrow> conn" where
  "requestAuthentication c = c"

definition middleware :: "web_handler \<Rightarrow> web_handler" where
  "middleware nxt = \<lparr>wh_canHandle = wh_canHandle nxt, wh_handleBody = wh_handleBody nxt,
     wh_handleRequest = wh_handleRequest nxt\<rparr>"

definition check_auth :: "credentials \<Rightarrow> conn \<Rightarrow> bool \<times> conn" where
  "check_auth cr c =
    (if authenticate (cr_username cr) (cr_password cr) (cn_req c) then (True, c) else (False, requestAuthentication c))"

definition auth_middleware :: "credentials \<Rightarrow> web_handler \<Rightarrow> web_handler" where
  "auth_middleware cr nxt = (middleware nxt)\<lparr>
     wh_handleRequest := (\<lambda>c. case check_auth cr c of (ok, c') \<Rightarrow> if ok then wh_handleRequest (middleware nxt) c' else c'),
     wh_handleBody := (\<lambda>b c. case check_auth cr c of (ok, c') \<Rightarrow> if ok then wh_handleBody (middleware nxt) b c' else c')\<rparr>"

section \<open>The request's remaining accessors\<close>

definition contentLength :: "http_request \<Rightarrow> nat" where
  "contentLength r = length (rq_body r)"

definition hasParam :: "string \<Rightarrow> conn \<Rightarrow> bool" where
  "hasParam name c = (fst (getParam name (cn_req c) (cn_params c)) \<noteq> None)"

definition hasHeader :: "string \<Rightarrow> http_request \<Rightarrow> bool" where
  "hasHeader name r = (get_header name r \<noteq> None)"

definition default_headers_add :: "string \<Rightarrow> string \<Rightarrow> (string \<times> string) list \<Rightarrow> (string \<times> string) list" where
  "default_headers_add name v dh = dh @ [(name, v)]"

section \<open>The listening server\<close>

record async_server =
  sv_port :: u16
  sv_listen_fd :: int
  sv_running :: bool
  sv_thread :: bool
  sv_handlers :: "web_handler list"

text \<open>The descriptor \<open>socket\<close> returns (negative when it fails), success of \<open>bind\<close> and \<open>listen\<close>.\<close>

record net_env =
  ne_socket :: int
  ne_bind :: bool
  ne_listen :: bool

definition new_server :: "u16 \<Rightarrow> async_server" where
  "new_server port = \<lparr>sv_port = port, sv_listen_fd = - 1, sv_running = False, sv_thread = False, sv_handlers = []\<rparr>"

definition server_begin :: "net_env \<Rightarrow> async_server \<times> int set \<Rightarrow> async_server \<times> int set" where
  "server_begin env = (\<lambda>(s, open_fds).
    if 0 \<le> sv_listen_fd s then (s, open_fds)
    else if ne_socket env < 0 then (s\<lparr>sv_listen_fd := ne_socket env\<rparr>, open_fds)
    else
      (let opened = insert (ne_socket env) open_fds; closed = opened - {ne_socket env}
       in if \<not> ne_bind env then (s\<lparr>sv_listen_fd := - 1\<rparr>, closed)
          else if \<not> ne_listen env then (s\<lparr>sv_listen_fd := - 1\<rparr>, closed)
          else (s\<lparr>sv_listen_fd := ne_socket env, sv_running := True, sv_thread := True\<rparr>, opened)))"

text \<open>The shut down socket makes \<open>accept\<close> fail, and the accept thread, which then finds \<open>running_\<close> false, is joined.\<close>

definition server_end :: "async_server \<times> int set \<Rightarrow> async_server \<times> int set" where
  "server_end = (\<lambda>(s, open_fds).
    let s1 = s\<lparr>sv_running := False\<rparr>;
        (s2, fds) = (if 0 \<le> sv_listen_fd s1 then (s1\<lparr>sv_listen_fd := - 1\<rparr>, open_fds - {sv_listen_fd s1}) else (s1, open_fds))
    in (s2\<lparr>sv_thread := False\<rparr>, fds))"

definition server_addHandler :: "web_handler \<Rightarrow> async_server \<Rightarrow> async_server" where
  "server_addHandler h s = s\<lparr>sv_handlers := sv_handlers s @ [h]\<rparr>"

section \<open>The web server base\<close>

record web_base =
  wb_initialized :: u8
  wb_port :: u16
  wb_server :: "async_server option"
  wb_handlers :: "web_handler list"
  wb_credentials :: credentials

record web_sys =
  ws_base :: web_base
  ws_dh :: "(string \<times> string) list"
  ws_open :: "int set"
  ws_generation :: nat
  ws_conns :: "nat list"
  ws_crashed :: bool

definition add_handler_without_auth :: "web_handler \<Rightarrow> web_base \<Rightarrow> web_base" where
  "add_handler_without_auth h b =
    b\<lparr>wb_handlers := wb_handlers b @ [h], wb_server := map_option (server_addHandler h) (wb_server b)\<rparr>"

definition add_handler :: "web_handler \<Rightarrow> web_base \<Rightarrow> web_base" where
  "add_handler h b =
    add_handler_without_auth
      (if cr_username (wb_credentials b) \<noteq> [] then auth_middleware (wb_credentials b) h else h) b"

definition ACAO :: "string \<times> string" where
  "ACAO = (''Access-Control-Allow-Origin'', ''*'')"

definition web_init :: "net_env \<Rightarrow> web_sys \<Rightarrow> web_sys" where
  "web_init env w =
    (let b = ws_base w
     in if wb_initialized b \<noteq> 0 then w\<lparr>ws_base := b\<lparr>wb_initialized := wb_initialized b + 1\<rparr>\<rparr>
        else
          (let (sv, fds) = server_begin env (new_server (wb_port b), ws_open w);
               sv' = fold server_addHandler (wb_handlers b) sv
           in w\<lparr>ws_base := b\<lparr>wb_server := Some sv', wb_initialized := wb_initialized b + 1\<rparr>,
                ws_dh := default_headers_add (fst ACAO) (snd ACAO) (ws_dh w), ws_open := fds,
                ws_generation := ws_generation w + 1\<rparr>))"

text \<open>\<open>delete server_\<close> runs \<open>end\<close>.\<close>

definition web_deinit :: "web_sys \<Rightarrow> web_sys" where
  "web_deinit w =
    (let b = (ws_base w)\<lparr>wb_initialized := wb_initialized (ws_base w) - 1\<rparr>
     in if wb_initialized b = 0 then
          (case wb_server b of
             Some sv \<Rightarrow> w\<lparr>ws_base := b\<lparr>wb_server := None\<rparr>, ws_open := snd (server_end (sv, ws_open w))\<rparr>
           | None \<Rightarrow> w\<lparr>ws_base := b\<lparr>wb_server := None\<rparr>\<rparr>)
        else w\<lparr>ws_base := b\<rparr>)"

text \<open>A connection thread of server number \<open>g\<close> looks up the handlers of its server, unless that was deleted.\<close>

datatype accept_result = AR_connection | AR_retry | AR_error

definition accept_once :: "accept_result \<Rightarrow> web_sys \<Rightarrow> web_sys" where
  "accept_once r w = (case r of AR_connection \<Rightarrow> w\<lparr>ws_conns := ws_conns w @ [ws_generation w]\<rparr> | _ \<Rightarrow> w)"

definition serve_connection :: "nat \<Rightarrow> web_sys \<Rightarrow> web_sys" where
  "serve_connection i w =
    (let g = ws_conns w ! i; w1 = w\<lparr>ws_conns := take i (ws_conns w) @ drop (Suc i) (ws_conns w)\<rparr>
     in if wb_server (ws_base w) = None \<or> g \<noteq> ws_generation w then w1\<lparr>ws_crashed := True\<rparr> else w1)"

definition server_running :: "web_sys \<Rightarrow> bool" where
  "server_running w = (case wb_server (ws_base w) of Some sv \<Rightarrow> sv_running sv | None \<Rightarrow> False)"

text \<open>The main thread initialises, deinitialises and registers, the other threads accept and serve; \<open>deinit\<close>
  undoes an \<open>init\<close>, of which there are at most 255 at a time.\<close>

inductive web_step :: "web_sys \<Rightarrow> web_sys \<Rightarrow> bool" where
  WS_init: "wb_initialized (ws_base w) \<noteq> 255 \<Longrightarrow> ne_socket env \<notin> ws_open w \<Longrightarrow> web_step w (web_init env w)"
| WS_deinit: "wb_initialized (ws_base w) \<noteq> 0 \<Longrightarrow> web_step w (web_deinit w)"
| WS_add: "web_step w (w\<lparr>ws_base := add_handler h (ws_base w)\<rparr>)"
| WS_add_plain: "web_step w (w\<lparr>ws_base := add_handler_without_auth h (ws_base w)\<rparr>)"
| WS_port: "web_step w (w\<lparr>ws_base := (ws_base w)\<lparr>wb_port := port\<rparr>\<rparr>)"
| WS_credentials: "web_step w (w\<lparr>ws_base := (ws_base w)\<lparr>wb_credentials := cr\<rparr>\<rparr>)"
| WS_accept: "server_running w \<Longrightarrow> web_step w (accept_once r w)"
| WS_serve: "i < length (ws_conns w) \<Longrightarrow> web_step w (serve_connection i w)"

definition web_start :: web_sys where
  "web_start = \<lparr>ws_base = \<lparr>wb_initialized = 0, wb_port = 80, wb_server = None, wb_handlers = [],
       wb_credentials = \<lparr>cr_username = [], cr_password = []\<rparr>\<rparr>,
     ws_dh = [], ws_open = {}, ws_generation = 0, ws_conns = [], ws_crashed = False\<rparr>"

definition web_reachable :: "web_sys \<Rightarrow> bool" where
  "web_reachable w = web_step\<^sup>*\<^sup>* web_start w"

section \<open>Authentication has no effect\<close>

lemma auth_middleware_next: "auth_middleware cr h = middleware h"
  by (simp add: auth_middleware_def middleware_def check_auth_def authenticate_def)

lemma middleware_id: "middleware h = h"
  by (simp add: middleware_def)

text \<open>With a user name and a password configured every request is answered exactly as without: whatever the request
  says, each handler behind the authentication middleware runs.\<close>

theorem authentication_ignored:
  "handle_connection dh (map (auth_middleware cr) hs) nf cs tx = handle_connection dh hs nf cs tx
   \<and> (\<exists>h'. wb_handlers (add_handler h (b\<lparr>wb_credentials := cr\<rparr>)) = wb_handlers b @ [h']
        \<and> (\<forall>c. wh_handleRequest h' c = wh_handleRequest h c) \<and> (\<forall>d c. wh_handleBody h' d c = wh_handleBody h d c))"
proof -
  have "auth_middleware cr = (\<lambda>h. h)" by (simp add: fun_eq_iff auth_middleware_next middleware_id)
  then show ?thesis
    by (simp add: add_handler_def add_handler_without_auth_def)
qed

section \<open>Initialisation is counted\<close>

definition web_inv :: "web_sys \<Rightarrow> bool" where
  "web_inv w \<longleftrightarrow> (wb_server (ws_base w) = None \<longleftrightarrow> wb_initialized (ws_base w) = 0)
     \<and> (case wb_server (ws_base w) of
          None \<Rightarrow> ws_open w = {}
        | Some sv \<Rightarrow> sv_handlers sv = wb_handlers (ws_base w) \<and> (sv_running sv \<longleftrightarrow> 0 \<le> sv_listen_fd sv)
            \<and> sv_thread sv = sv_running sv \<and> ws_open w = (if sv_running sv then {sv_listen_fd sv} else {}))"

lemma fold_addHandler:
  "sv_handlers (fold server_addHandler hs sv) = sv_handlers sv @ hs"
  "sv_running (fold server_addHandler hs sv) = sv_running sv" "sv_thread (fold server_addHandler hs sv) = sv_thread sv"
  "sv_listen_fd (fold server_addHandler hs sv) = sv_listen_fd sv"
  by (induction hs arbitrary: sv) (simp_all add: server_addHandler_def)

lemma begin_state:
  assumes "server_begin env (new_server p, {}) = (sv, fds)"
  shows "sv_handlers sv = []" "sv_running sv \<longleftrightarrow> 0 \<le> sv_listen_fd sv" "sv_thread sv = sv_running sv"
    "fds = (if sv_running sv then {sv_listen_fd sv} else {})"
  using assms by (auto simp: server_begin_def new_server_def Let_def split: if_splits)

lemma u8_succ_nonzero: "(n :: u8) \<noteq> 255 \<Longrightarrow> n + 1 \<noteq> 0"
proof
  assume n: "n \<noteq> 255" and "n + 1 = 0"
  then have "n = - 1" by (simp add: eq_neg_iff_add_eq_0)
  moreover have "(- 1 :: u8) = 255" by simp
  ultimately show False using n by simp
qed

lemma web_inv_init: "web_inv w \<Longrightarrow> wb_initialized (ws_base w) \<noteq> 255 \<Longrightarrow> web_inv (web_init env w)"
proof -
  assume w: "web_inv w" and n: "wb_initialized (ws_base w) \<noteq> 255"
  show "web_inv (web_init env w)"
  proof (cases "wb_initialized (ws_base w) = 0")
    case True
    then have o: "ws_open w = {}" "wb_server (ws_base w) = None" using w by (auto simp: web_inv_def split: option.splits)
    obtain sv fds where b: "server_begin env (new_server (wb_port (ws_base w)), {}) = (sv, fds)" by fastforce
    show ?thesis using begin_state [OF b] True
      by (auto simp: web_init_def Let_def o b web_inv_def fold_addHandler)
  next
    case False
    then show ?thesis using w u8_succ_nonzero [OF n] by (auto simp: web_init_def Let_def web_inv_def)
  qed
qed

lemma web_inv_deinit: "web_inv w \<Longrightarrow> wb_initialized (ws_base w) \<noteq> 0 \<Longrightarrow> web_inv (web_deinit w)"
  by (auto simp: web_inv_def web_deinit_def server_end_def Let_def split: option.splits if_splits)

lemma web_inv_add: "web_inv w \<Longrightarrow> web_inv (w\<lparr>ws_base := add_handler_without_auth h (ws_base w)\<rparr>)"
  by (auto simp: web_inv_def add_handler_without_auth_def server_addHandler_def split: option.splits)

lemma web_inv_step: "web_step w w' \<Longrightarrow> web_inv w \<Longrightarrow> web_inv w'"
proof (induction rule: web_step.induct)
  case (WS_init w env) then show ?case by (simp add: web_inv_init)
next
  case (WS_deinit w) then show ?case by (simp add: web_inv_deinit)
next
  case (WS_add w h) then show ?case unfolding add_handler_def by (rule_tac web_inv_add)
next
  case (WS_add_plain w h) then show ?case by (rule_tac web_inv_add)
next
  case (WS_accept w r) then show ?case by (auto simp: accept_once_def web_inv_def split: accept_result.split option.splits)
next
  case (WS_serve i w) then show ?case by (auto simp: serve_connection_def Let_def web_inv_def split: option.splits)
qed (auto simp: web_inv_def split: option.splits)

text \<open>However \<open>init\<close>, \<open>deinit\<close> and the registrations are interleaved with connections, there is a server exactly
  while initialisations outnumber deinitialisations, it serves exactly the registered handlers in order of
  registration, and exactly one listening descriptor is open while it runs, none otherwise.\<close>

theorem web_server_counted:
  assumes "web_reachable w"
  shows "(wb_server (ws_base w) = None \<longleftrightarrow> wb_initialized (ws_base w) = 0)
    \<and> (case wb_server (ws_base w) of
         None \<Rightarrow> ws_open w = {}
       | Some sv \<Rightarrow> sv_handlers sv = wb_handlers (ws_base w)
           \<and> ws_open w = (if sv_running sv then {sv_listen_fd sv} else {}))"
proof -
  have "web_inv w"
    using assms unfolding web_reachable_def
  proof (induction rule: rtranclp_induct)
    case base show ?case by (simp add: web_inv_def web_start_def)
  next
    case (step y z) then show ?case by (rule_tac web_inv_step)
  qed
  then show ?thesis by (auto simp: web_inv_def split: option.splits)
qed

lemma web_reach_start: "web_reachable web_start"
  by (simp add: web_reachable_def)

lemma web_reach_step: "web_reachable a \<Longrightarrow> web_step a b \<Longrightarrow> b = c \<Longrightarrow> web_reachable c"
  by (auto simp: web_reachable_def intro: rtranclp.rtrancl_into_rtrancl)

definition demo_net :: net_env where
  "demo_net = \<lparr>ne_socket = 4, ne_bind = True, ne_listen = True\<rparr>"

definition demo_running :: web_sys where
  "demo_running = web_init demo_net web_start"

lemma demo_running_reachable: "web_reachable demo_running"
  by (rule web_reach_step [OF web_reach_start WS_init [where env = demo_net]])
    (simp_all add: demo_running_def web_start_def)

theorem web_server_counted_witness:
  "wb_server (ws_base demo_running) \<noteq> None \<and> ws_open demo_running = {4}"
  using web_server_counted [OF demo_running_reachable]
  by (simp add: demo_running_def web_init_def web_start_def Let_def server_begin_def new_server_def demo_net_def)

text \<open>After \<open>deinit\<close> and \<open>init\<close> the default headers hold the access control header twice.\<close>

lemma reinit_duplicates_header:
  assumes "wb_initialized (ws_base w) = 0"
  shows "ws_dh (web_init e2 (web_deinit (web_init e1 w))) = ws_dh w @ [ACAO, ACAO]"
  using assms by (simp add: web_init_def web_deinit_def default_headers_add_def ACAO_def Let_def case_prod_beta split: option.split)

text \<open>\<open>deinit\<close> deletes the server under a connection that is being served.\<close>

lemma deinit_under_connection: "\<exists>w. web_reachable w \<and> ws_crashed w"
proof -
  have "server_running demo_running"
    by (simp add: server_running_def demo_running_def web_init_def web_start_def Let_def server_begin_def new_server_def demo_net_def)
  from web_reach_step [OF demo_running_reachable WS_accept [OF this, of AR_connection] refl]
  have a: "web_reachable (accept_once AR_connection demo_running)" (is "web_reachable ?a") .
  have "wb_initialized (ws_base ?a) = 1"
    by (simp add: accept_once_def demo_running_def web_init_def web_start_def Let_def case_prod_beta)
  then have d: "web_reachable (web_deinit ?a)" and s: "wb_server (ws_base (web_deinit ?a)) = None"
    using web_reach_step [OF a WS_deinit refl] by (simp_all add: web_deinit_def Let_def split: option.split)
  have "length (ws_conns (web_deinit ?a)) = 1"
    by (simp add: web_deinit_def Let_def accept_once_def demo_running_def web_init_def web_start_def case_prod_beta split: option.split)
  then have "web_reachable (serve_connection 0 (web_deinit ?a))"
    using web_reach_step [OF d WS_serve [of 0] refl] by simp
  moreover have "ws_crashed (serve_connection 0 (web_deinit ?a))"
    using s by (simp add: serve_connection_def Let_def)
  ultimately show ?thesis by blast
qed

end
