(* ===== verification/Linux_Gpio.thy ===== *)
theory Linux_Gpio
  imports Text
begin

text \<open>
  GPIO lines over the character device (\<open>components/linux_gpio/gpio.{h,cpp}\<close>): the pins, the cache of chip
  descriptors, and the background thread that polls the lines with edge detection.

  A bit mask of named flags is the set of its names: the code only tests, adds and removes named bits. The
  results of the system calls are the arguments \<open>gpio_env\<close>; the calls are recorded in \<open>gp_calls\<close>, and \<open>gp_open\<close>
  is the set of descriptors that are open because of them. A function pointer is its number, \<open>None\<close> the null
  pointer. The process-wide singletons (cache, list of alerts) are fields of
  \<open>gpio_sys\<close>; the poll thread, which runs beside the pins, has its own state \<open>alert_thread\<close>, whose entries are
  those of the list of alerts. The pipe of the thread is assumed to have been created.
\<close>

section \<open>Data\<close>

datatype gpio_flag = FLAG_INPUT | FLAG_OUTPUT | FLAG_OPEN_DRAIN | FLAG_PULLUP | FLAG_PULLDOWN

datatype line_flag = LF_INPUT | LF_OUTPUT | LF_EDGE_RISING | LF_EDGE_FALLING | LF_OPEN_DRAIN
  | LF_BIAS_PULL_UP | LF_BIAS_PULL_DOWN

datatype interrupt_type = RISING_EDGE | FALLING_EDGE | ANY_EDGE | LOW_LEVEL | HIGH_LEVEL

text \<open>An attribute with its mask.\<close>

datatype line_attr = Attr_output_values u64 u64 | Attr_debounce u32 u64

record line_config =
  lc_flags :: "line_flag set"
  lc_attrs :: "line_attr list"

record linux_pin =
  lp_pin :: u8
  lp_chip_path :: string
  lp_chip_fd :: int
  lp_line_fd :: int
  lp_inverted :: bool
  lp_flags :: "gpio_flag set"
  lp_debounce_us :: u32
  lp_output_value :: bool

record alert_entry =
  al_fd :: int
  al_func :: "nat option"
  al_arg :: nat

datatype gpio_call =
    K_open string
  | K_set_config int line_config
  | K_get_line int u8 line_config nat string
  | K_get_values int
  | K_set_values int u64 u64
  | K_nonblock int
  | K_close int

record gpio_sys =
  gp_cache :: "(string \<times> int) list"
  gp_entries :: "alert_entry list"
  gp_calls :: "gpio_call list"
  gp_open :: "int set"

text \<open>Results of \<open>open\<close>, of \<open>GPIO_V2_LINE_SET_CONFIG_IOCTL\<close> and the descriptor of \<open>GPIO_V2_GET_LINE_IOCTL\<close>
  (negative when it fails).\<close>

record gpio_env =
  ke_open :: int
  ke_set_config :: bool
  ke_line :: int

definition new_pin :: linux_pin where
  "new_pin = \<lparr>lp_pin = 0, lp_chip_path = [], lp_chip_fd = - 1, lp_line_fd = - 1, lp_inverted = False,
     lp_flags = {}, lp_debounce_us = 0, lp_output_value = False\<rparr>"

definition kcall :: "gpio_call \<Rightarrow> gpio_sys \<Rightarrow> gpio_sys" where
  "kcall c s = s\<lparr>gp_calls := gp_calls s @ [c]\<rparr>"

definition kclose :: "int \<Rightarrow> gpio_sys \<Rightarrow> gpio_sys" where
  "kclose fd s = (kcall (K_close fd) s)\<lparr>gp_open := gp_open s - {fd}\<rparr>"

section \<open>Configuration\<close>

definition apply_line_config :: "line_flag set \<Rightarrow> u32 \<Rightarrow> bool \<Rightarrow> line_config" where
  "apply_line_config flags debounce_us output_value =
     \<lparr>lc_flags = flags,
      lc_attrs = (if LF_OUTPUT \<in> flags then [Attr_output_values (if output_value then 1 else 0) 1] else [])
        @ (if debounce_us > 0 then [Attr_debounce debounce_us 1] else [])\<rparr>"

definition build_line_flags :: "gpio_flag set \<Rightarrow> line_flag set" where
  "build_line_flags fl =
    (let l0 = (if FLAG_INPUT \<in> fl then {LF_INPUT} else {});
         l1 = (if FLAG_OUTPUT \<in> fl then insert LF_OUTPUT l0 else l0);
         l2 = (if FLAG_PULLUP \<in> fl then insert LF_BIAS_PULL_UP l1 else l1);
         l3 = (if FLAG_PULLDOWN \<in> fl then insert LF_BIAS_PULL_DOWN l2 else l2)
     in if FLAG_OPEN_DRAIN \<in> fl then insert LF_OPEN_DRAIN l3 else l3)"

definition edge_flags :: "interrupt_type \<Rightarrow> line_flag set" where
  "edge_flags ty = (case ty of
       RISING_EDGE \<Rightarrow> {LF_EDGE_RISING}
     | FALLING_EDGE \<Rightarrow> {LF_EDGE_FALLING}
     | ANY_EDGE \<Rightarrow> {LF_EDGE_RISING, LF_EDGE_FALLING}
     | _ \<Rightarrow> {LF_EDGE_RISING, LF_EDGE_FALLING})"

section \<open>Pins\<close>

definition open_chip :: "gpio_env \<Rightarrow> string \<Rightarrow> gpio_sys \<Rightarrow> int \<times> gpio_sys" where
  "open_chip env path s = (case map_of (gp_cache s) path of
       Some fd \<Rightarrow> (fd, s)
     | None \<Rightarrow>
         (let s1 = kcall (K_open path) s; fd = ke_open env in
          if fd < 0 then (- 1, s1)
          else (fd, s1\<lparr>gp_cache := gp_cache s1 @ [(path, fd)], gp_open := insert fd (gp_open s1)\<rparr>)))"

definition ensure_chip :: "gpio_env \<Rightarrow> linux_pin \<times> gpio_sys \<Rightarrow> linux_pin \<times> gpio_sys" where
  "ensure_chip env = (\<lambda>(p, s).
     if lp_chip_fd p < 0 then (case open_chip env (lp_chip_path p) s of (fd, s') \<Rightarrow> (p\<lparr>lp_chip_fd := fd\<rparr>, s'))
     else (p, s))"

text \<open>The end of \<open>claim_line_\<close>: a new request of the line.\<close>

definition claim_request :: "gpio_env \<Rightarrow> gpio_flag set \<Rightarrow> linux_pin \<times> gpio_sys \<Rightarrow> linux_pin \<times> gpio_sys" where
  "claim_request env flags = (\<lambda>(p, s).
     let cfg = apply_line_config (build_line_flags flags) (lp_debounce_us p) (lp_output_value p);
         s1 = kcall (K_get_line (lp_chip_fd p) (lp_pin p) cfg 0 ''esphome'') s
     in if ke_line env < 0 then (p, s1)
        else (p\<lparr>lp_line_fd := ke_line env, lp_flags := flags\<rparr>, s1\<lparr>gp_open := insert (ke_line env) (gp_open s1)\<rparr>))"

definition claim_line :: "gpio_env \<Rightarrow> gpio_flag set \<Rightarrow> linux_pin \<times> gpio_sys \<Rightarrow> linux_pin \<times> gpio_sys" where
  "claim_line env flags ps = (case ensure_chip env ps of (p, s) \<Rightarrow>
     if lp_chip_fd p < 0 then (p, s)
     else if 0 \<le> lp_line_fd p then
       (let cfg = apply_line_config (build_line_flags flags) (lp_debounce_us p) (lp_output_value p);
            s1 = kcall (K_set_config (lp_line_fd p) cfg) s
        in if ke_set_config env then (p\<lparr>lp_flags := flags\<rparr>, s1)
           else claim_request env flags (p\<lparr>lp_line_fd := - 1\<rparr>, kclose (lp_line_fd p) s1))
     else claim_request env flags (p, s))"

definition pin_mode :: "gpio_env \<Rightarrow> gpio_flag set \<Rightarrow> linux_pin \<times> gpio_sys \<Rightarrow> linux_pin \<times> gpio_sys" where
  "pin_mode env flags ps = claim_line env flags ps"

definition pin_setup :: "gpio_env \<Rightarrow> linux_pin \<times> gpio_sys \<Rightarrow> linux_pin \<times> gpio_sys" where
  "pin_setup env ps = pin_mode env (lp_flags (fst ps)) ps"

text \<open>\<open>bits\<close> is the result of \<open>GPIO_V2_LINE_GET_VALUES_IOCTL\<close>, \<open>None\<close> when it fails.\<close>

definition digital_read :: "u64 option \<Rightarrow> linux_pin \<times> gpio_sys \<Rightarrow> bool \<times> gpio_sys" where
  "digital_read bits = (\<lambda>(p, s).
     if lp_line_fd p < 0 then (lp_inverted p, s)
     else (case bits of
         None \<Rightarrow> lp_inverted p
       | Some b \<Rightarrow> (b AND 1 \<noteq> 0) \<noteq> lp_inverted p, kcall (K_get_values (lp_line_fd p)) s))"

definition digital_write :: "bool \<Rightarrow> linux_pin \<times> gpio_sys \<Rightarrow> linux_pin \<times> gpio_sys" where
  "digital_write v = (\<lambda>(p, s).
     if lp_line_fd p < 0 then (p, s)
     else let p1 = p\<lparr>lp_output_value := (v \<noteq> lp_inverted p)\<rparr>
          in (p1, kcall (K_set_values (lp_line_fd p) 1 (if lp_output_value p1 then 1 else 0)) s))"

section \<open>Interrupts\<close>

definition alert_add :: "int \<Rightarrow> nat option \<Rightarrow> nat \<Rightarrow> gpio_sys \<Rightarrow> gpio_sys" where
  "alert_add fd f a s = s\<lparr>gp_entries := gp_entries s @ [\<lparr>al_fd = fd, al_func = f, al_arg = a\<rparr>]\<rparr>"

definition alert_remove :: "int \<Rightarrow> gpio_sys \<Rightarrow> gpio_sys" where
  "alert_remove fd s = s\<lparr>gp_entries := filter (\<lambda>e. al_fd e \<noteq> fd) (gp_entries s)\<rparr>"

definition detach_interrupt :: "linux_pin \<times> gpio_sys \<Rightarrow> linux_pin \<times> gpio_sys" where
  "detach_interrupt = (\<lambda>(p, s).
     if lp_line_fd p < 0 then (p, s)
     else (p\<lparr>lp_line_fd := - 1\<rparr>, kclose (lp_line_fd p) (alert_remove (lp_line_fd p) s)))"

definition attach_interrupt ::
    "gpio_env \<Rightarrow> nat option \<Rightarrow> nat \<Rightarrow> interrupt_type \<Rightarrow> linux_pin \<times> gpio_sys \<Rightarrow> linux_pin \<times> gpio_sys" where
  "attach_interrupt env f a ty ps = (case ensure_chip env ps of (p, s) \<Rightarrow>
     if lp_chip_fd p < 0 then (p, s)
     else
       (case (if 0 \<le> lp_line_fd p
              then (p\<lparr>lp_line_fd := - 1\<rparr>, kclose (lp_line_fd p) (alert_remove (lp_line_fd p) s)) else (p, s)) of
         (p1, s1) \<Rightarrow>
         let lf = insert LF_INPUT (build_line_flags (lp_flags p1) - {LF_OUTPUT}) \<union> edge_flags ty;
             cfg = apply_line_config lf (lp_debounce_us p1) False;
             s2 = kcall (K_get_line (lp_chip_fd p1) (lp_pin p1) cfg 1024 ''esphome-irq'') s1
         in if ke_line env < 0 then (p1, s2)
            else (p1\<lparr>lp_line_fd := ke_line env\<rparr>,
                  alert_add (ke_line env) f a
                    (kcall (K_nonblock (ke_line env)) (s2\<lparr>gp_open := insert (ke_line env) (gp_open s2)\<rparr>)))))"

definition dump_summary :: "nat \<Rightarrow> linux_pin \<Rightarrow> string" where
  "dump_summary n p = snprintf n (''GPIO'' @ dec (unat (lp_pin p)) @ '' ('' @ lp_chip_path p @ '')'')"


text \<open>\<open>to_isr\<close> only copies the number and the inversion.\<close>

definition to_isr :: "linux_pin \<Rightarrow> u8 \<times> bool" where
  "to_isr p = (lp_pin p, lp_inverted p)"

section \<open>Several pins\<close>

record gpio_world =
  gw_pins :: "linux_pin list"
  gw_sys :: gpio_sys

definition on_pin :: "nat \<Rightarrow> (linux_pin \<times> gpio_sys \<Rightarrow> linux_pin \<times> gpio_sys) \<Rightarrow> gpio_world \<Rightarrow> gpio_world" where
  "on_pin i f w = (case f (gw_pins w ! i, gw_sys w) of (p, s) \<Rightarrow> \<lparr>gw_pins = (gw_pins w)[i := p], gw_sys = s\<rparr>)"

text \<open>The kernel returns descriptors that are not in use; a line that is requested again may get the number
  of the line that was just closed.\<close>

definition fresh_fds :: "gpio_env \<Rightarrow> linux_pin \<Rightarrow> gpio_sys \<Rightarrow> bool" where
  "fresh_fds env p s \<longleftrightarrow> (0 \<le> ke_open env \<longrightarrow> ke_open env \<notin> gp_open s)
     \<and> (0 \<le> ke_line env \<longrightarrow> ke_line env \<notin> gp_open s - {lp_line_fd p} \<and> ke_line env \<noteq> ke_open env)"

inductive pin_op :: "linux_pin \<times> gpio_sys \<Rightarrow> linux_pin \<times> gpio_sys \<Rightarrow> bool" where
  PO_mode: "fresh_fds env p s \<Longrightarrow> pin_op (p, s) (pin_mode env flags (p, s))"
| PO_setup: "fresh_fds env p s \<Longrightarrow> pin_op (p, s) (pin_setup env (p, s))"
| PO_write: "pin_op (p, s) (digital_write v (p, s))"
| PO_read: "pin_op (p, s) (p, snd (digital_read bits (p, s)))"
| PO_attach: "fresh_fds env p s \<Longrightarrow> pin_op (p, s) (attach_interrupt env f a ty (p, s))"
| PO_detach: "pin_op (p, s) (detach_interrupt (p, s))"

inductive gpio_step :: "gpio_world \<Rightarrow> gpio_world \<Rightarrow> bool" where
  "i < length (gw_pins w) \<Longrightarrow> pin_op (gw_pins w ! i, gw_sys w) (p, s) \<Longrightarrow>
     gpio_step w \<lparr>gw_pins = (gw_pins w)[i := p], gw_sys = s\<rparr>"

definition gpio_start :: "linux_pin list \<Rightarrow> gpio_world" where
  "gpio_start ps = \<lparr>gw_pins = map (\<lambda>p. p\<lparr>lp_chip_fd := - 1, lp_line_fd := - 1\<rparr>) ps,
     gw_sys = \<lparr>gp_cache = [], gp_entries = [], gp_calls = [], gp_open = {}\<rparr>\<rparr>"

section \<open>Descriptors\<close>

definition own_line :: "linux_pin \<Rightarrow> int set" where
  "own_line p = (if 0 \<le> lp_line_fd p then {lp_line_fd p} else {})"

definition chip_fds :: "gpio_sys \<Rightarrow> int set" where
  "chip_fds s = snd ` set (gp_cache s)"

text \<open>What holds of one pin when \<open>L\<close> are the lines of the others.\<close>

definition pin_ok :: "int set \<Rightarrow> linux_pin \<Rightarrow> gpio_sys \<Rightarrow> bool" where
  "pin_ok L p s \<longleftrightarrow> distinct (map fst (gp_cache s)) \<and> distinct (map snd (gp_cache s)) \<and> (\<forall>fd\<in>chip_fds s \<union> L. 0 \<le> fd)
     \<and> chip_fds s \<inter> (L \<union> own_line p) = {} \<and> L \<inter> own_line p = {}
     \<and> gp_open s = chip_fds s \<union> L \<union> own_line p
     \<and> (0 \<le> lp_chip_fd p \<longrightarrow> map_of (gp_cache s) (lp_chip_path p) = Some (lp_chip_fd p))"

definition cache_grows :: "gpio_sys \<Rightarrow> gpio_sys \<Rightarrow> bool" where
  "cache_grows s s' \<longleftrightarrow> (\<forall>x fd. map_of (gp_cache s) x = Some fd \<longrightarrow> map_of (gp_cache s') x = Some fd)"

lemma kcall_fields [simp]:
  "gp_cache (kcall c s) = gp_cache s" "gp_entries (kcall c s) = gp_entries s" "gp_open (kcall c s) = gp_open s"
  "chip_fds (kcall c s) = chip_fds s"
  by (simp_all add: kcall_def chip_fds_def)

lemma kclose_fields [simp]:
  "gp_cache (kclose fd s) = gp_cache s" "gp_open (kclose fd s) = gp_open s - {fd}"
  "chip_fds (kclose fd s) = chip_fds s"
  by (simp_all add: kclose_def chip_fds_def)

lemma alert_fields [simp]:
  "gp_cache (alert_add fd f a s) = gp_cache s" "gp_open (alert_add fd f a s) = gp_open s"
  "gp_cache (alert_remove fd s) = gp_cache s" "gp_open (alert_remove fd s) = gp_open s"
  "chip_fds (alert_add fd f a s) = chip_fds s" "chip_fds (alert_remove fd s) = chip_fds s"
  by (simp_all add: alert_add_def alert_remove_def chip_fds_def)

lemma pin_ok_fields: "gp_cache s' = gp_cache s \<Longrightarrow> gp_open s' = gp_open s \<Longrightarrow> lp_line_fd p' = lp_line_fd p \<Longrightarrow>
    lp_chip_fd p' = lp_chip_fd p \<Longrightarrow> lp_chip_path p' = lp_chip_path p \<Longrightarrow> pin_ok L p' s' = pin_ok L p s"
  by (simp add: pin_ok_def own_line_def chip_fds_def)

lemma pin_ok_open: "pin_ok L p s \<Longrightarrow> fd \<in> gp_open s \<Longrightarrow> 0 \<le> fd"
  by (auto simp: pin_ok_def own_line_def split: if_splits)

lemma cache_grows_same: "gp_cache s' = gp_cache s \<Longrightarrow> cache_grows s s'"
  by (simp add: cache_grows_def)

lemma cache_grows_trans: "cache_grows s s' \<Longrightarrow> cache_grows s' s'' \<Longrightarrow> cache_grows s s''"
  by (simp add: cache_grows_def)

lemma ensure_chip_ok:
  assumes "pin_ok L p s" "0 \<le> ke_open env \<longrightarrow> ke_open env \<notin> gp_open s" "ensure_chip env (p, s) = (p', s')"
  shows "pin_ok L p' s'" "cache_grows s s'" "lp_line_fd p' = lp_line_fd p"
    "gp_open s' \<subseteq> insert (ke_open env) (gp_open s)"
proof -
  show "lp_line_fd p' = lp_line_fd p" "gp_open s' \<subseteq> insert (ke_open env) (gp_open s)"
    using assms(3) by (auto simp: ensure_chip_def open_chip_def Let_def split: if_splits option.splits)
  show "cache_grows s s'" using assms(3)
    by (auto simp: ensure_chip_def open_chip_def Let_def cache_grows_def map_add_def split: if_splits option.splits)
  show "pin_ok L p' s'"
  proof (cases "lp_chip_fd p < 0")
    case False then show ?thesis using assms(1,3) by (simp add: ensure_chip_def)
  next
    case neg: True
    show ?thesis
    proof (cases "map_of (gp_cache s) (lp_chip_path p)")
      case (Some fd)
      then show ?thesis using assms(1,3) neg by (auto simp: ensure_chip_def open_chip_def pin_ok_def own_line_def)
    next
      case None
      then have new: "lp_chip_path p \<notin> fst ` set (gp_cache s)" by (simp add: map_of_eq_None_iff)
      show ?thesis
      proof (cases "ke_open env < 0")
        case True
        then show ?thesis using assms(1,3) neg None by (auto simp: ensure_chip_def open_chip_def pin_ok_def own_line_def)
      next
        case False
        then have "p' = p\<lparr>lp_chip_fd := ke_open env\<rparr>"
          "s' = (kcall (K_open (lp_chip_path p)) s)\<lparr>gp_cache := gp_cache s @ [(lp_chip_path p, ke_open env)],
             gp_open := insert (ke_open env) (gp_open s)\<rparr>"
          using assms(3) neg None by (simp_all add: ensure_chip_def open_chip_def Let_def)
        then show ?thesis using assms(1,2) False new None
          by (auto simp: pin_ok_def own_line_def chip_fds_def map_add_def)
      qed
    qed
  qed
qed


lemma pin_ok_request:
  assumes "pin_ok L p s" "lp_line_fd p < 0" "0 \<le> fd" "fd \<notin> gp_open s"
    "gp_cache s' = gp_cache s" "gp_open s' = insert fd (gp_open s)"
    "lp_line_fd p' = fd" "lp_chip_fd p' = lp_chip_fd p" "lp_chip_path p' = lp_chip_path p"
  shows "pin_ok L p' s'"
  using assms by (auto simp: pin_ok_def own_line_def chip_fds_def)

lemma pin_ok_close:
  assumes "pin_ok L p s" "0 \<le> lp_line_fd p" "gp_cache s' = gp_cache s" "gp_open s' = gp_open s - {lp_line_fd p}"
    "lp_line_fd p' = - 1" "lp_chip_fd p' = lp_chip_fd p" "lp_chip_path p' = lp_chip_path p"
  shows "pin_ok L p' s'"
  using assms by (auto simp: pin_ok_def own_line_def chip_fds_def)

lemma claim_request_ok:
  assumes "pin_ok L p s" "lp_line_fd p < 0" "0 \<le> ke_line env \<longrightarrow> ke_line env \<notin> gp_open s"
    "claim_request env flags (p, s) = (p', s')"
  shows "pin_ok L p' s' \<and> gp_cache s' = gp_cache s"
proof (cases "ke_line env < 0")
  case True
  then show ?thesis using assms by (auto simp: claim_request_def Let_def intro: pin_ok_fields [THEN iffD2])
next
  case False
  then have e: "p' = p\<lparr>lp_line_fd := ke_line env, lp_flags := flags\<rparr>" "gp_cache s' = gp_cache s"
    "gp_open s' = insert (ke_line env) (gp_open s)"
    using assms(4) by (auto simp: claim_request_def Let_def)
  show ?thesis using pin_ok_request [OF assms(1,2), of "ke_line env" s' p'] False assms(3) e by simp
qed

lemma claim_line_ok:
  assumes "pin_ok L p s" "fresh_fds env p s" "claim_line env flags (p, s) = (p', s')"
  shows "pin_ok L p' s' \<and> cache_grows s s'"
proof -
  obtain p1 s1 where e: "ensure_chip env (p, s) = (p1, s1)" by fastforce
  note c = ensure_chip_ok [OF assms(1) _ e]
  have f: "0 \<le> ke_open env \<longrightarrow> ke_open env \<notin> gp_open s"
    "0 \<le> ke_line env \<longrightarrow> ke_line env \<notin> gp_open s1 - {lp_line_fd p1}"
    using assms(2) c(3,4) unfolding fresh_fds_def by auto
  note ok = c(1) [OF f(1)] and grows = c(2) [OF f(1)]
  consider (nochip) "lp_chip_fd p1 < 0" | (new) "0 \<le> lp_chip_fd p1" "lp_line_fd p1 < 0"
    | (conf) "0 \<le> lp_chip_fd p1" "0 \<le> lp_line_fd p1" "ke_set_config env"
    | (again) "0 \<le> lp_chip_fd p1" "0 \<le> lp_line_fd p1" "\<not> ke_set_config env" by linarith
  then show ?thesis
  proof cases
    case nochip then show ?thesis using assms(3) ok grows by (simp add: claim_line_def e)
  next
    case new
    then have r: "claim_request env flags (p1, s1) = (p', s')" using assms(3) by (simp add: claim_line_def e)
    have "lp_line_fd p1 \<notin> gp_open s1" using pin_ok_open [OF ok] new by fastforce
    then have "gp_open s1 - {lp_line_fd p1} = gp_open s1" by simp
    then show ?thesis using claim_request_ok [OF ok new(2) _ r] f(2) grows by (auto simp: cache_grows_def)
  next
    case conf
    then have "p' = p1\<lparr>lp_flags := flags\<rparr>" "gp_cache s' = gp_cache s1" "gp_open s' = gp_open s1"
      using assms(3) by (auto simp: claim_line_def e Let_def)
    then show ?thesis using ok grows pin_ok_fields [of s' s1 p' p1 L] by (simp add: cache_grows_def)
  next
    case again
    let ?p = "p1\<lparr>lp_line_fd := - 1\<rparr>"
    let ?s = "kclose (lp_line_fd p1) (kcall (K_set_config (lp_line_fd p1)
      (apply_line_config (build_line_flags flags) (lp_debounce_us p1) (lp_output_value p1))) s1)"
    have r: "claim_request env flags (?p, ?s) = (p', s')" using again assms(3) by (simp add: claim_line_def e Let_def)
    have "pin_ok L ?p ?s" by (rule pin_ok_close [OF ok again(2)]) simp_all
    from claim_request_ok [OF this _ _ r] f(2) show ?thesis using grows by (auto simp: cache_grows_def)
  qed
qed


lemma detach_ok:
  assumes "pin_ok L p s" "detach_interrupt (p, s) = (p', s')"
  shows "pin_ok L p' s' \<and> cache_grows s s'"
proof (cases "lp_line_fd p < 0")
  case True then show ?thesis using assms by (simp add: detach_interrupt_def cache_grows_def)
next
  case False
  then have e: "p' = p\<lparr>lp_line_fd := - 1\<rparr>" "s' = kclose (lp_line_fd p) (alert_remove (lp_line_fd p) s)"
    using assms(2) by (auto simp: detach_interrupt_def)
  show ?thesis using pin_ok_close [OF assms(1), of s' p'] False by (simp add: e cache_grows_def)
qed

lemma attach_ok:
  assumes "pin_ok L p s" "fresh_fds env p s" "attach_interrupt env f a ty (p, s) = (p', s')"
  shows "pin_ok L p' s' \<and> cache_grows s s'"
proof -
  obtain p1 s1 where e: "ensure_chip env (p, s) = (p1, s1)" by fastforce
  note c = ensure_chip_ok [OF assms(1) _ e]
  have f: "0 \<le> ke_open env \<longrightarrow> ke_open env \<notin> gp_open s"
    "0 \<le> ke_line env \<longrightarrow> ke_line env \<notin> gp_open s1 - {lp_line_fd p1}"
    using assms(2) c(3,4) unfolding fresh_fds_def by auto
  note ok = c(1) [OF f(1)] and grows = c(2) [OF f(1)]
  show ?thesis
  proof (cases "lp_chip_fd p1 < 0")
    case True then show ?thesis using assms(3) ok grows by (simp add: attach_interrupt_def e)
  next
    case False
    obtain p2 s2 where d: "detach_interrupt (p1, s1) = (p2, s2)" by fastforce
    have rel: "(if 0 \<le> lp_line_fd p1 then (p1\<lparr>lp_line_fd := - 1\<rparr>, kclose (lp_line_fd p1) (alert_remove (lp_line_fd p1) s1))
        else (p1, s1)) = (p2, s2)"
      using d by (auto simp: detach_interrupt_def)
    note ok2 = detach_ok [OF ok d, THEN conjunct1] and grows2 = detach_ok [OF ok d, THEN conjunct2]
    have line: "lp_line_fd p2 < 0" "0 \<le> ke_line env \<longrightarrow> ke_line env \<notin> gp_open s2"
      using d f(2) ok by (auto simp: detach_interrupt_def dest: pin_ok_open split: if_splits)
    show ?thesis
    proof (cases "ke_line env < 0")
      case True
      then have "gp_cache s' = gp_cache s2" "gp_open s' = gp_open s2" "p' = p2"
        using assms(3) False by (auto simp: attach_interrupt_def e rel Let_def)
      then show ?thesis using ok2 grows grows2 pin_ok_fields [of s' s2 p' p2 L] by (simp add: cache_grows_def)
    next
      case line_ok: False
      have e2: "gp_cache s' = gp_cache s2" "gp_open s' = insert (ke_line env) (gp_open s2)" "p' = p2\<lparr>lp_line_fd := ke_line env\<rparr>"
        using assms(3) False line_ok by (auto simp: attach_interrupt_def e rel Let_def)
      show ?thesis using pin_ok_request [OF ok2 line(1), of "ke_line env" s' p'] line_ok line(2) e2 grows grows2
        by (simp add: cache_grows_def)
    qed
  qed
qed

lemma pin_op_ok:
  assumes "pin_op (p, s) (p', s')" "pin_ok L p s"
  shows "pin_ok L p' s' \<and> cache_grows s s'"
  using assms(1)
proof cases
  case (PO_mode env flags)
  then show ?thesis using claim_line_ok [OF assms(2), of env flags p' s'] by (simp add: pin_mode_def)
next
  case (PO_setup env)
  then show ?thesis using claim_line_ok [OF assms(2), of env "lp_flags p" p' s'] by (simp add: pin_setup_def pin_mode_def)
next
  case (PO_write v)
  then have "gp_cache s' = gp_cache s" "gp_open s' = gp_open s" "lp_line_fd p' = lp_line_fd p" "lp_chip_fd p' = lp_chip_fd p"
    "lp_chip_path p' = lp_chip_path p"
    by (auto simp: digital_write_def Let_def split: if_splits)
  then show ?thesis using pin_ok_fields [of s' s p' p L] assms(2) by (simp add: cache_grows_def)
next
  case (PO_read bits)
  then have "gp_cache s' = gp_cache s" "gp_open s' = gp_open s" "p' = p"
    by (auto simp: digital_read_def split: if_splits)
  then show ?thesis using pin_ok_fields [of s' s p' p L] assms(2) by (simp add: cache_grows_def)
next
  case (PO_attach env f a ty)
  then show ?thesis using attach_ok [OF assms(2), of env f a ty p' s'] by simp
next
  case PO_detach
  then show ?thesis using detach_ok [OF assms(2), of p' s'] by simp
qed

section \<open>All pins\<close>

abbreviation pin_at :: "gpio_world \<Rightarrow> nat \<Rightarrow> linux_pin" where
  "pin_at w i \<equiv> gw_pins w ! i"

definition other_lines :: "gpio_world \<Rightarrow> nat \<Rightarrow> int set" where
  "other_lines w i = (\<Union>j\<in>{j. j < length (gw_pins w) \<and> j \<noteq> i}. own_line (pin_at w j))"

definition all_lines :: "gpio_world \<Rightarrow> int set" where
  "all_lines w = (\<Union>j<length (gw_pins w). own_line (pin_at w j))"

definition gpio_ok :: "gpio_world \<Rightarrow> bool" where
  "gpio_ok w \<longleftrightarrow> (\<forall>i<length (gw_pins w). pin_ok (other_lines w i) (pin_at w i) (gw_sys w))
     \<and> gp_open (gw_sys w) = chip_fds (gw_sys w) \<union> all_lines w"

text \<open>One pin changes: its new line joins the lines of the others.\<close>

lemma lines_moved:
  assumes "length (gw_pins w') = length (gw_pins w)" "i < length (gw_pins w)" "\<And>j. j \<noteq> i \<Longrightarrow> pin_at w' j = pin_at w j"
  shows "other_lines w' i = other_lines w i" "all_lines w' = other_lines w i \<union> own_line (pin_at w' i)"
proof -
  show "other_lines w' i = other_lines w i" using assms by (auto simp: other_lines_def)
  show "all_lines w' = other_lines w i \<union> own_line (pin_at w' i)"
    using assms by (auto simp: all_lines_def other_lines_def) metis
qed

lemma lines_of_rest:
  assumes "length (gw_pins w') = length (gw_pins w)" "i < length (gw_pins w)" "\<And>j. j \<noteq> i \<Longrightarrow> pin_at w' j = pin_at w j"
    "j < length (gw_pins w)" "j \<noteq> i"
  shows "other_lines w' j \<union> own_line (pin_at w j) = other_lines w i \<union> own_line (pin_at w' i)"
proof
  show "other_lines w' j \<union> own_line (pin_at w j) \<subseteq> other_lines w i \<union> own_line (pin_at w' i)"
  proof
    fix x assume "x \<in> other_lines w' j \<union> own_line (pin_at w j)"
    then consider k where "k < length (gw_pins w)" "k \<noteq> j" "x \<in> own_line (pin_at w' k)" | "x \<in> own_line (pin_at w j)"
      using assms(1) by (auto simp: other_lines_def)
    then show "x \<in> other_lines w i \<union> own_line (pin_at w' i)"
      using assms(3-5) by cases (auto simp: other_lines_def, metis)
  qed
  show "other_lines w i \<union> own_line (pin_at w' i) \<subseteq> other_lines w' j \<union> own_line (pin_at w j)"
    using assms by (auto simp: other_lines_def)
qed

lemma lines_disjoint:
  assumes "length (gw_pins w') = length (gw_pins w)" "\<And>j. j \<noteq> i \<Longrightarrow> pin_at w' j = pin_at w j"
    "j < length (gw_pins w)" "j \<noteq> i"
    "other_lines w i \<inter> own_line (pin_at w' i) = {}" "other_lines w j \<inter> own_line (pin_at w j) = {}"
  shows "other_lines w' j \<inter> own_line (pin_at w j) = {}"
proof (rule ccontr)
  assume "other_lines w' j \<inter> own_line (pin_at w j) \<noteq> {}"
  then obtain k x where k: "k < length (gw_pins w)" "k \<noteq> j" "x \<in> own_line (pin_at w' k)" "x \<in> own_line (pin_at w j)"
    using assms(1) by (auto simp: other_lines_def)
  show False
  proof (cases "k = i")
    case True
    have "x \<in> other_lines w i" using assms(3,4) k(4) by (auto simp: other_lines_def)
    then show False using assms(5) k(3) True by auto
  next
    case False
    then have "x \<in> other_lines w j" using k assms(2) by (auto simp: other_lines_def)
    then show False using assms(6) k(4) by auto
  qed
qed

lemma gpio_step_ok:
  assumes "gpio_step w w'" "gpio_ok w"
  shows "gpio_ok w'"
  using assms(1)
proof cases
  case (1 i p s)
  let ?n = "length (gw_pins w)"
  have w': "gw_sys w' = s" "length (gw_pins w') = ?n" "pin_at w' i = p" "\<And>j. j \<noteq> i \<Longrightarrow> pin_at w' j = pin_at w j"
    using 1 by simp_all
  have ok: "pin_ok (other_lines w j) (pin_at w j) (gw_sys w)" if "j < ?n" for j
    using assms(2) that by (simp add: gpio_ok_def)
  note new = pin_op_ok [OF 1(3) ok [OF 1(2)]]
  note moved = lines_moved [OF w'(2) 1(2) w'(4), unfolded w'(3)]
  have nonneg: "0 \<le> x" if "x \<in> own_line q" for x q using that by (auto simp: own_line_def split: if_splits)
  have "pin_ok (other_lines w' j) (pin_at w' j) (gw_sys w')" if j: "j < ?n" for j
  proof (cases "j = i")
    case True then show ?thesis using new moved(1) w' by simp
  next
    case False
    have oj: "other_lines w' j \<union> own_line (pin_at w j) = other_lines w i \<union> own_line p"
      using lines_of_rest [OF w'(2) 1(2) w'(4) j False] unfolding w'(3) .
    have "other_lines w i \<inter> own_line (pin_at w' i) = {}" "other_lines w j \<inter> own_line (pin_at w j) = {}"
      using new ok [OF j] by (simp_all add: pin_ok_def w'(3))
    from lines_disjoint [OF w'(2,4) j False this] have disj: "other_lines w' j \<inter> own_line (pin_at w j) = {}" .
    have "\<forall>fd\<in>chip_fds s \<union> other_lines w' j. 0 \<le> fd" using new nonneg oj by (auto simp: pin_ok_def)
    moreover have "0 \<le> lp_chip_fd (pin_at w j) \<longrightarrow> map_of (gp_cache s) (lp_chip_path (pin_at w j)) = Some (lp_chip_fd (pin_at w j))"
      using ok [OF j] new unfolding pin_ok_def cache_grows_def by blast
    ultimately show ?thesis using new disj oj by (simp add: pin_ok_def w'(1) w'(4) [OF False] Un_assoc)
  qed
  moreover have "gp_open (gw_sys w') = chip_fds (gw_sys w') \<union> all_lines w'"
    using new by (simp add: pin_ok_def moved(2) w'(1) Un_assoc)
  ultimately show ?thesis by (simp add: gpio_ok_def w'(2))
qed

text \<open>C27. In every execution, with any number of pins on any chips and any results of the system calls, the open
  descriptors are exactly those of the chip cache and of the claimed lines: none is leaked, none is
  used after it was closed, no two pins share a line descriptor, and a chip that several pins use is opened once.\<close>
theorem gpio_descriptors:
  assumes "gpio_step\<^sup>*\<^sup>* (gpio_start ps) w"
  shows "gp_open (gw_sys w) = chip_fds (gw_sys w) \<union> all_lines w
    \<and> (\<forall>i<length (gw_pins w). \<forall>j<length (gw_pins w). i \<noteq> j \<longrightarrow> 0 \<le> lp_line_fd (pin_at w i) \<longrightarrow>
         lp_line_fd (pin_at w i) \<noteq> lp_line_fd (pin_at w j))
    \<and> (\<forall>i<length (gw_pins w). 0 \<le> lp_chip_fd (pin_at w i) \<longrightarrow>
         map_of (gp_cache (gw_sys w)) (lp_chip_path (pin_at w i)) = Some (lp_chip_fd (pin_at w i)))
    \<and> chip_fds (gw_sys w) \<inter> all_lines w = {}"
proof -
  have "gpio_ok w" using assms
  proof (induction rule: rtranclp_induct)
    case base show ?case
      by (auto simp: gpio_ok_def gpio_start_def pin_ok_def own_line_def other_lines_def all_lines_def chip_fds_def)
  next
    case step then show ?case by (blast intro: gpio_step_ok)
  qed
  then have ok: "\<And>i. i < length (gw_pins w) \<Longrightarrow> pin_ok (other_lines w i) (pin_at w i) (gw_sys w)"
    and op: "gp_open (gw_sys w) = chip_fds (gw_sys w) \<union> all_lines w"
    by (simp_all add: gpio_ok_def)
  have "lp_line_fd (pin_at w i) \<noteq> lp_line_fd (pin_at w j)"
    if "i < length (gw_pins w)" "j < length (gw_pins w)" "i \<noteq> j" "0 \<le> lp_line_fd (pin_at w i)" for i j
  proof
    assume "lp_line_fd (pin_at w i) = lp_line_fd (pin_at w j)"
    then have "lp_line_fd (pin_at w i) \<in> other_lines w i" using that by (auto simp: other_lines_def own_line_def)
    then show False using ok [OF that(1)] that(4) by (auto simp: pin_ok_def own_line_def)
  qed
  moreover have "chip_fds (gw_sys w) \<inter> all_lines w = {}" using ok by (fastforce simp: all_lines_def pin_ok_def)
  ultimately show ?thesis using ok op by (simp add: pin_ok_def)
qed

definition demo_gpio_env :: gpio_env where
  "demo_gpio_env = \<lparr>ke_open = 3, ke_set_config = False, ke_line = 4\<rparr>"

lemma gpio_descriptors_witness:
  "gp_open (gw_sys (on_pin 0 (attach_interrupt (demo_gpio_env\<lparr>ke_open := 5\<rparr>) None 0 RISING_EDGE)
     (on_pin 0 (pin_mode demo_gpio_env {FLAG_INPUT}) (gpio_start [new_pin])))) = {3, 4}"
proof -
  let ?w = "on_pin 0 (pin_mode demo_gpio_env {FLAG_INPUT}) (gpio_start [new_pin])"
  let ?v = "on_pin 0 (attach_interrupt (demo_gpio_env\<lparr>ke_open := 5\<rparr>) None 0 RISING_EDGE) ?w"
  note defs = on_pin_def gpio_start_def new_pin_def demo_gpio_env_def pin_mode_def claim_line_def ensure_chip_def
    open_chip_def claim_request_def attach_interrupt_def alert_remove_def Let_def
  have a: "gpio_step (gpio_start [new_pin]) ?w"
    unfolding on_pin_def case_prod_unfold
    by (rule gpio_step.intros) (use PO_mode [of demo_gpio_env _ _ "{FLAG_INPUT}"] in
      \<open>simp_all add: gpio_start_def fresh_fds_def demo_gpio_env_def\<close>)
  have f: "fresh_fds (demo_gpio_env\<lparr>ke_open := 5\<rparr>) (pin_at ?w 0) (gw_sys ?w)" "0 < length (gw_pins ?w)"
    by (simp_all add: fresh_fds_def defs)
  have b: "gpio_step ?w ?v"
    unfolding on_pin_def [of 0 "attach_interrupt (demo_gpio_env\<lparr>ke_open := 5\<rparr>) None 0 RISING_EDGE"] case_prod_unfold
    by (rule gpio_step.intros) (use PO_attach [OF f(1), of None 0 RISING_EDGE] f(2) in simp_all)
  have "gpio_step\<^sup>*\<^sup>* (gpio_start [new_pin]) ?v"
    using r_into_rtranclp [of gpio_step, OF a] b by (rule rtranclp.rtrancl_into_rtrancl)
  note gpio_descriptors [OF this, THEN conjunct1]
  moreover have "chip_fds (gw_sys ?v) = {3}" "all_lines ?v = {4}"
    by (simp_all add: defs chip_fds_def all_lines_def own_line_def lessThan_Suc apply_line_config_def alert_add_def kclose_def kcall_def)
  ultimately show ?thesis by auto
qed


section \<open>Levels\<close>

text \<open>The level that the last request or configuration of a line asked for.\<close>

fun output_attr :: "line_attr list \<Rightarrow> bool option" where
  "output_attr [] = None"
| "output_attr (Attr_output_values v m # as) = (if m AND 1 \<noteq> 0 then Some (v AND 1 \<noteq> 0) else output_attr as)"
| "output_attr (Attr_debounce d m # as) = output_attr as"

text \<open>A written level reads back, and survives every later configuration: after \<open>digital_write\<close> the line carries
  the value with the pin's inversion, reading that level gives the value, and a \<open>pin_mode\<close> to an output,
  whether it reconfigures the line or requests it again, asks for exactly that level, with at most two
  attributes; an input is configured without a level.\<close>
theorem written_level_survives:
  assumes "0 \<le> lp_line_fd p"
  shows "\<exists>p1 s1 bits. digital_write v (p, s) = (p1, s1)
    \<and> gp_calls s1 = gp_calls s @ [K_set_values (lp_line_fd p) 1 bits] \<and> (bits AND 1 \<noteq> 0) = (v \<noteq> lp_inverted p)
    \<and> fst (digital_read (Some bits) (p1, s1)) = v
    \<and> (\<forall>flags. output_attr (lc_attrs (apply_line_config (build_line_flags flags) (lp_debounce_us p1) (lp_output_value p1)))
          = (if FLAG_OUTPUT \<in> flags then Some (v \<noteq> lp_inverted p) else None)
        \<and> length (lc_attrs (apply_line_config (build_line_flags flags) (lp_debounce_us p1) (lp_output_value p1))) \<le> 2)
    \<and> (\<forall>env flags. 0 \<le> lp_chip_fd p \<longrightarrow>
        lp_output_value (fst (pin_mode env flags (p1, s1))) = (v \<noteq> lp_inverted p)
        \<and> hd (drop (length (gp_calls s1)) (gp_calls (snd (pin_mode env flags (p1, s1)))))
          = K_set_config (lp_line_fd p) (apply_line_config (build_line_flags flags) (lp_debounce_us p) (v \<noteq> lp_inverted p)))"
proof -
  let ?p1 = "p\<lparr>lp_output_value := (v \<noteq> lp_inverted p)\<rparr>"
  let ?bits = "if v \<noteq> lp_inverted p then 1 else 0 :: u64"
  let ?s1 = "kcall (K_set_values (lp_line_fd p) 1 ?bits) s"
  have w: "digital_write v (p, s) = (?p1, ?s1)" using assms by (simp add: digital_write_def)
  have l: "LF_OUTPUT \<in> build_line_flags flags \<longleftrightarrow> FLAG_OUTPUT \<in> flags" for flags
    by (auto simp: build_line_flags_def Let_def)
  show ?thesis
    unfolding w using assms
    by (intro exI [of _ ?p1] exI [of _ ?s1] exI [of _ ?bits])
      (auto simp: digital_read_def apply_line_config_def l pin_mode_def claim_line_def ensure_chip_def claim_request_def
        kcall_def kclose_def Let_def)
qed

lemma written_level_survives_witness:
  "\<exists>p1 s1 bits. digital_write True (new_pin\<lparr>lp_line_fd := 4, lp_inverted := True\<rparr>,
      \<lparr>gp_cache = [], gp_entries = [], gp_calls = [], gp_open = {4}\<rparr>) = (p1, s1)
    \<and> fst (digital_read (Some bits) (p1, s1)) = True \<and> (bits AND 1 \<noteq> 0) = False"
  using written_level_survives [of "new_pin\<lparr>lp_line_fd := 4, lp_inverted := True\<rparr>" True] by fastforce

text \<open>Edge detection is requested on an input without a driven level, for at least one edge, whatever the
  configured flags and the interrupt type.\<close>

lemma interrupt_config:
  assumes "0 \<le> lp_chip_fd p" "0 \<le> ke_line env"
  shows "\<exists>cfg. K_get_line (lp_chip_fd p) (lp_pin p) cfg 1024 ''esphome-irq'' \<in> set (gp_calls (snd (attach_interrupt env f a ty (p, s))))
    \<and> LF_INPUT \<in> lc_flags cfg \<and> LF_OUTPUT \<notin> lc_flags cfg
    \<and> (LF_EDGE_RISING \<in> lc_flags cfg \<or> LF_EDGE_FALLING \<in> lc_flags cfg) \<and> output_attr (lc_attrs cfg) = None"
  using assms
  by (intro exI [of _ "apply_line_config (insert LF_INPUT (build_line_flags (lp_flags p) - {LF_OUTPUT}) \<union> edge_flags ty)
        (lp_debounce_us p) False"])
    (auto simp: attach_interrupt_def ensure_chip_def apply_line_config_def edge_flags_def kcall_def kclose_def alert_add_def
      alert_remove_def Let_def split: interrupt_type.splits)

text \<open>A line with an interrupt that is configured again and refuses the configuration is closed without being
  removed from the alert thread, which goes on polling the closed number.\<close>

lemma reconfigure_leaves_alert:
  assumes "0 \<le> lp_chip_fd p" "0 \<le> lp_line_fd p" "e \<in> set (gp_entries s)" "al_fd e = lp_line_fd p"
    "\<not> ke_set_config env" "ke_line env \<noteq> lp_line_fd p"
  shows "e \<in> set (gp_entries (snd (pin_mode env flags (p, s)))) \<and> al_fd e \<notin> gp_open (snd (pin_mode env flags (p, s)))"
  using assms by (auto simp: pin_mode_def claim_line_def ensure_chip_def claim_request_def kclose_def kcall_def Let_def)


section \<open>The alert thread\<close>

text \<open>One wake-up drains a line: batches of at most 16 events until a batch is not full. \<open>k\<close> is the number of events
  in the kernel's FIFO, an empty FIFO is \<open>EAGAIN\<close>. The result is the number of events handed to the callback.\<close>

function drain_fifo :: "nat \<Rightarrow> nat" where
  "drain_fifo k = (if k = 0 then 0 else let c = min k 16 in if c < 16 then c else c + drain_fifo (k - c))"
  by pat_completeness auto
termination by (relation "measure id") auto

declare drain_fifo.simps [simp del]

lemma drain_fifo_all [simp]: "drain_fifo k = k"
  by (induction k rule: drain_fifo.induct) (subst drain_fifo.simps, auto simp: Let_def min_def)

text \<open>\<open>AP_poll\<close> is the blocking call on the snapshot, \<open>AP_pass\<close> the loop over the lines that were ready. \<open>at_pipe\<close> is
  the number of bytes in the wake-up pipe, \<open>at_owes\<close> that the main thread has changed the entries and has not yet
  called \<open>wake_\<close>. \<open>at_lines\<close> are the kernel's event queues, one for each descriptor on which a line is open for edges;
  closing the descriptor discards its queue, and a line that is opened later under the same number starts with an
  empty one. \<open>at_edges\<close> counts the events the kernel has put into the queues of a descriptor, \<open>at_lost\<close> those it has
  discarded, and \<open>at_log\<close> has one element for each event that was handed to a callback.\<close>

datatype alert_phase = AP_top | AP_poll "alert_entry list" | AP_pass "alert_entry list" | AP_ended

record alert_thread =
  at_stop :: bool
  at_entries :: "alert_entry list"
  at_pipe :: nat
  at_owes :: bool
  at_phase :: alert_phase
  at_lines :: "int \<Rightarrow> nat option"
  at_edges :: "int \<Rightarrow> nat"
  at_lost :: "int \<Rightarrow> nat"
  at_log :: "alert_entry list"

definition new_alert_thread :: alert_thread where
  "new_alert_thread = \<lparr>at_stop = False, at_entries = [], at_pipe = 0, at_owes = False, at_phase = AP_top,
     at_lines = (\<lambda>_. None), at_edges = (\<lambda>_. 0), at_lost = (\<lambda>_. 0), at_log = []\<rparr>"

definition queued :: "alert_thread \<Rightarrow> int \<Rightarrow> nat" where
  "queued t fd = (case at_lines t fd of Some k \<Rightarrow> k | None \<Rightarrow> 0)"

definition at_add :: "alert_entry \<Rightarrow> alert_thread \<Rightarrow> alert_thread" where
  "at_add e t = t\<lparr>at_entries := at_entries t @ [e], at_owes := True\<rparr>"

definition at_remove :: "int \<Rightarrow> alert_thread \<Rightarrow> alert_thread" where
  "at_remove fd t = t\<lparr>at_entries := filter (\<lambda>e. al_fd e \<noteq> fd) (at_entries t), at_owes := True\<rparr>"

text \<open>The main thread requests a line for edges, and closes it (\<open>attach_interrupt\<close>, \<open>detach_interrupt\<close>, \<open>claim_line_\<close>).\<close>

definition at_open_line :: "int \<Rightarrow> alert_thread \<Rightarrow> alert_thread" where
  "at_open_line fd t = t\<lparr>at_lines := (at_lines t)(fd \<mapsto> 0)\<rparr>"

definition at_close_line :: "int \<Rightarrow> alert_thread \<Rightarrow> alert_thread" where
  "at_close_line fd t = t\<lparr>at_lines := (at_lines t)(fd := None), at_lost := (at_lost t)(fd := at_lost t fd + queued t fd)\<rparr>"

text \<open>The kernel queues an edge; a full queue, of the size the line was requested with, loses its oldest event.\<close>

definition EVENT_BUFFER_SIZE :: nat where "EVENT_BUFFER_SIZE = 1024"

definition at_edge :: "int \<Rightarrow> alert_thread \<Rightarrow> alert_thread" where
  "at_edge fd t = (case at_lines t fd of
       None \<Rightarrow> t
     | Some k \<Rightarrow>
         let t1 = t\<lparr>at_edges := (at_edges t)(fd := at_edges t fd + 1)\<rparr> in
         if k < EVENT_BUFFER_SIZE then t1\<lparr>at_lines := (at_lines t)(fd \<mapsto> k + 1)\<rparr>
         else t1\<lparr>at_lost := (at_lost t)(fd := at_lost t fd + 1)\<rparr>)"

text \<open>The destructor asks the thread to stop, wakes it and joins it.\<close>

definition at_destroy :: "alert_thread \<Rightarrow> alert_thread" where
  "at_destroy t = t\<lparr>at_stop := True, at_owes := True\<rparr>"

text \<open>The pipe is non-blocking: a write to a full pipe is lost.\<close>

definition at_wake :: "nat \<Rightarrow> alert_thread \<Rightarrow> alert_thread" where
  "at_wake capacity t = t\<lparr>at_pipe := (if at_pipe t < capacity then at_pipe t + 1 else at_pipe t)\<rparr>"

definition at_snapshot :: "alert_thread \<Rightarrow> alert_thread" where
  "at_snapshot t = (if at_stop t then t\<lparr>at_phase := AP_ended\<rparr> else t\<lparr>at_phase := AP_poll (at_entries t)\<rparr>)"

text \<open>\<open>poll\<close> has returned for the snapshot: up to 16 bytes of the pipe are read, then the ready lines follow. A closed
  descriptor is \<open>POLLNVAL\<close>, which is not \<open>POLLIN\<close>.\<close>

definition at_poll_ready :: "alert_entry list \<Rightarrow> alert_thread \<Rightarrow> alert_thread" where
  "at_poll_ready snap t = t\<lparr>at_pipe := at_pipe t - min 16 (at_pipe t),
     at_phase := AP_pass (filter (\<lambda>e. 0 < queued t (al_fd e)) snap)\<rparr>"

definition at_poll_error :: "bool \<Rightarrow> alert_thread \<Rightarrow> alert_thread" where
  "at_poll_error eintr t = t\<lparr>at_phase := (if eintr then AP_top else AP_ended)\<rparr>"

text \<open>The next ready line is drained through its descriptor, which the main thread may have closed or reopened since:
  reading a closed one fails.\<close>

definition at_serve :: "alert_thread \<Rightarrow> alert_thread" where
  "at_serve t = (case at_phase t of
       AP_pass (e # es) \<Rightarrow>
         (case at_lines t (al_fd e) of
            None \<Rightarrow> t\<lparr>at_phase := AP_pass es\<rparr>
          | Some k \<Rightarrow> t\<lparr>at_log := at_log t @ replicate (drain_fifo k) e,
                         at_lines := (at_lines t)(al_fd e \<mapsto> k - drain_fifo k), at_phase := AP_pass es\<rparr>)
     | AP_pass [] \<Rightarrow> t\<lparr>at_phase := AP_top\<rparr>
     | _ \<Rightarrow> t)"

text \<open>The callbacks the thread has called.\<close>

definition at_callbacks :: "alert_thread \<Rightarrow> (nat \<times> nat) list" where
  "at_callbacks t = List.map_filter (\<lambda>e. map_option (\<lambda>f. (f, al_arg e)) (al_func e)) (at_log t)"

inductive alert_step :: "nat \<Rightarrow> alert_thread \<Rightarrow> alert_thread \<Rightarrow> bool" for capacity where
  AS_open: "\<not> at_owes t \<Longrightarrow> at_lines t fd = None \<Longrightarrow> alert_step capacity t (at_open_line fd t)"
| AS_close: "\<not> at_owes t \<Longrightarrow> alert_step capacity t (at_close_line fd t)"
| AS_add: "\<not> at_owes t \<Longrightarrow> at_lines t (al_fd e) \<noteq> None \<Longrightarrow> alert_step capacity t (at_add e t)"
| AS_remove: "\<not> at_owes t \<Longrightarrow> alert_step capacity t (at_remove fd t)"
| AS_stop: "\<not> at_owes t \<Longrightarrow> alert_step capacity t (at_destroy t)"
| AS_wake: "at_owes t \<Longrightarrow> alert_step capacity t ((at_wake capacity t)\<lparr>at_owes := False\<rparr>)"
| AS_edge: "alert_step capacity t (at_edge fd t)"
| AS_snapshot: "at_phase t = AP_top \<Longrightarrow> alert_step capacity t (at_snapshot t)"
| AS_poll: "at_phase t = AP_poll snap \<Longrightarrow> alert_step capacity t (at_poll_ready snap t)"
| AS_error: "at_phase t = AP_poll snap \<Longrightarrow> alert_step capacity t (at_poll_error eintr t)"
| AS_serve: "at_phase t = AP_pass es \<Longrightarrow> alert_step capacity t (at_serve t)"

definition handed :: "alert_thread \<Rightarrow> int \<Rightarrow> nat" where
  "handed t fd = length (filter (\<lambda>e. al_fd e = fd) (at_log t))"

definition alert_inv :: "alert_thread \<Rightarrow> bool" where
  "alert_inv t \<longleftrightarrow> (\<forall>fd. at_edges t fd = handed t fd + queued t fd + at_lost t fd)
     \<and> (\<forall>snap. at_phase t = AP_poll snap \<longrightarrow> snap = at_entries t \<and> \<not> at_stop t \<or> at_owes t \<or> 0 < at_pipe t)"

lemma filter_replicate: "filter P (replicate n x) = (if P x then replicate n x else [])"
  by (induction n) auto

lemma alert_step_inv:
  assumes "0 < capacity"
  shows "alert_step capacity t t' \<Longrightarrow> alert_inv t \<Longrightarrow> alert_inv t'"
proof (induction rule: alert_step.induct)
  case (AS_serve t es)
  then show ?case
    by (cases es) (auto simp: alert_inv_def handed_def queued_def at_serve_def filter_replicate split: option.split)
next
  case (AS_edge t fd)
  then show ?case by (auto simp: alert_inv_def handed_def queued_def at_edge_def Let_def split: option.split)
qed (use assms in \<open>auto simp: alert_inv_def handed_def queued_def at_add_def at_remove_def at_destroy_def at_wake_def
    at_snapshot_def at_poll_ready_def at_poll_error_def at_open_line_def at_close_line_def\<close>)

lemma alert_inv_reachable: "(alert_step capacity)\<^sup>*\<^sup>* new_alert_thread t \<Longrightarrow> 0 < capacity \<Longrightarrow> alert_inv t"
proof (induction rule: rtranclp_induct)
  case base show ?case by (simp add: alert_inv_def handed_def queued_def new_alert_thread_def)
next
  case step then show ?case by (blast intro: alert_step_inv)
qed

text \<open>The thread on its own: \<open>poll\<close> returns when the pipe or a line of the snapshot is ready, or a descriptor of the
  snapshot is closed.\<close>

definition at_advance :: "alert_thread \<Rightarrow> alert_thread" where
  "at_advance t = (case at_phase t of
       AP_top \<Rightarrow> at_snapshot t
     | AP_poll snap \<Rightarrow>
         if 0 < at_pipe t \<or> list_ex (\<lambda>e. 0 < queued t (al_fd e) \<or> at_lines t (al_fd e) = None) snap
         then at_poll_ready snap t else t
     | AP_pass es \<Rightarrow> at_serve t
     | AP_ended \<Rightarrow> t)"

lemma at_advance_step: "at_advance t = t \<or> alert_step capacity t (at_advance t)"
  by (auto simp: at_advance_def intro: alert_step.intros split: alert_phase.split)

definition at_runs :: "alert_thread \<Rightarrow> alert_thread \<Rightarrow> bool" where
  "at_runs t t' \<longleftrightarrow> (\<exists>n. t' = (at_advance ^^ n) t)"

lemma at_runs_refl: "at_runs t t"
  unfolding at_runs_def by (rule exI [of _ 0]) simp

lemma at_runs_step: "at_runs (at_advance t) t' \<Longrightarrow> at_runs t t'"
  by (metis at_runs_def comp_apply funpow_Suc_right)

lemma at_advance_keeps: "at_entries (at_advance t) = at_entries t \<and> at_stop (at_advance t) = at_stop t
    \<and> handed (at_advance t) fd + queued (at_advance t) fd = handed t fd + queued t fd
    \<and> queued (at_advance t) fd \<le> queued t fd"
  by (auto simp: at_advance_def at_snapshot_def at_poll_ready_def at_serve_def handed_def queued_def filter_replicate
      split: alert_phase.split list.split option.split)

lemma at_runs_keeps:
  assumes "at_runs t t'"
  shows "at_entries t' = at_entries t \<and> at_stop t' = at_stop t
    \<and> handed t' fd + queued t' fd = handed t fd + queued t fd \<and> queued t' fd \<le> queued t fd"
proof -
  have "at_entries ((at_advance ^^ n) t) = at_entries t \<and> at_stop ((at_advance ^^ n) t) = at_stop t
      \<and> handed ((at_advance ^^ n) t) fd + queued ((at_advance ^^ n) t) fd = handed t fd + queued t fd
      \<and> queued ((at_advance ^^ n) t) fd \<le> queued t fd" for n
  proof (induction n)
    case (Suc n) then show ?case using at_advance_keeps [of "(at_advance ^^ n) t" fd] by auto
  qed simp
  then show ?thesis using assms by (auto simp: at_runs_def)
qed

text \<open>A pass comes back to the top of the loop with the lines it had found ready drained.\<close>

lemma pass_drains:
  "at_phase t = AP_pass es \<Longrightarrow> \<exists>t'. at_runs t t' \<and> at_phase t' = AP_top \<and> (\<forall>e\<in>set es. queued t' (al_fd e) = 0)"
proof (induction es arbitrary: t)
  case Nil
  then have "at_phase (at_advance t) = AP_top" by (simp add: at_advance_def at_serve_def)
  then show ?case using at_runs_step [OF at_runs_refl] by auto
next
  case (Cons e es)
  then have p: "at_phase (at_advance t) = AP_pass es" and q: "queued (at_advance t) (al_fd e) = 0"
    by (auto simp: at_advance_def at_serve_def queued_def split: option.split)
  from Cons.IH [OF p] obtain t' where t': "at_runs (at_advance t) t'" "at_phase t' = AP_top"
    "\<forall>e\<in>set es. queued t' (al_fd e) = 0" by blast
  with q at_runs_keeps [OF t'(1), of "al_fd e"] show ?case by (auto intro: at_runs_step)
qed

lemma at_runs_trans: "at_runs t t' \<Longrightarrow> at_runs t' t'' \<Longrightarrow> at_runs t t''"
  by (metis at_runs_def comp_apply funpow_add)

lemma ready_line_drained:
  assumes "at_phase t = AP_poll snap" "e \<in> set snap"
  shows "\<exists>t'. at_runs t t' \<and> queued t' (al_fd e) = 0"
proof (cases "queued t (al_fd e) = 0")
  case True then show ?thesis using at_runs_refl by blast
next
  case False
  then have "list_ex (\<lambda>e. 0 < queued t (al_fd e) \<or> at_lines t (al_fd e) = None) snap"
    using assms(2) by (auto simp: list_ex_iff)
  then have "at_phase (at_advance t) = AP_pass (filter (\<lambda>e. 0 < queued t (al_fd e)) snap)"
    using assms(1) by (simp add: at_advance_def at_poll_ready_def)
  from pass_drains [OF this] show ?thesis using assms(2) False by (auto intro: at_runs_step)
qed

lemma top_line_drained:
  assumes "at_phase t = AP_top" "\<not> at_stop t" "e \<in> set (at_entries t)"
  shows "\<exists>t'. at_runs t t' \<and> queued t' (al_fd e) = 0"
proof -
  have "at_phase (at_advance t) = AP_poll (at_entries t)" using assms by (simp add: at_advance_def at_snapshot_def)
  from ready_line_drained [OF this assms(3)] show ?thesis by (blast intro: at_runs_step)
qed

lemma pass_then_drained:
  assumes "at_phase t = AP_pass es" "\<not> at_stop t" "e \<in> set (at_entries t)"
  shows "\<exists>t'. at_runs t t' \<and> queued t' (al_fd e) = 0"
proof -
  from pass_drains [OF assms(1)] obtain t' where t': "at_runs t t'" "at_phase t' = AP_top" by blast
  from at_runs_keeps [OF t'(1), of 0] assms(2,3) have "\<not> at_stop t'" "e \<in> set (at_entries t')" by simp_all
  from top_line_drained [OF t'(2) this] t'(1) show ?thesis by (blast intro: at_runs_trans)
qed

lemma registered_line_drained:
  assumes "alert_inv t" "\<not> at_owes t" "\<not> at_stop t" "at_phase t \<noteq> AP_ended" "e \<in> set (at_entries t)"
  shows "\<exists>t'. at_runs t t' \<and> queued t' (al_fd e) = 0"
proof (cases "at_phase t")
  case AP_top then show ?thesis using top_line_drained assms by blast
next
  case (AP_pass es) then show ?thesis using pass_then_drained assms by blast
next
  case (AP_poll snap)
  show ?thesis
  proof (cases "0 < at_pipe t")
    case False
    then have "snap = at_entries t" using assms(1,2) AP_poll by (auto simp: alert_inv_def)
    then show ?thesis using ready_line_drained [OF AP_poll] assms(5) by blast
  next
    case True
    then have "at_phase (at_advance t) = AP_pass (filter (\<lambda>e. 0 < queued t (al_fd e)) snap)"
      using AP_poll by (simp add: at_advance_def at_poll_ready_def)
    from pass_then_drained [OF this, of e] at_advance_keeps [of t 0] assms(3,5) show ?thesis by (auto intro: at_runs_step)
  qed
qed (use assms(4) in simp)

text \<open>C28. In every interleaving of pins, kernel and poll thread, each event the kernel put into the queue of a line was
  handed to a callback once, is still queued, or was discarded by the kernel with a full or a closed line. The
  events of a registered line do not stay queued: once the main thread has woken the thread, the thread's own
  steps hand over every event of the line that is queued. It blocks in \<open>poll\<close> with an empty pipe only on the lines
  that are registered at that moment, and not when it was asked to stop.\<close>
theorem alerts_delivered:
  assumes "(alert_step capacity)\<^sup>*\<^sup>* new_alert_thread t" "0 < capacity"
  shows "(\<forall>fd. at_edges t fd = handed t fd + queued t fd + at_lost t fd)
    \<and> (\<not> at_owes t \<and> \<not> at_stop t \<and> at_phase t \<noteq> AP_ended \<and> e \<in> set (at_entries t) \<longrightarrow>
        (\<exists>n. handed ((at_advance ^^ n) t) (al_fd e) = handed t (al_fd e) + queued t (al_fd e)))
    \<and> (at_phase t = AP_poll snap \<and> \<not> at_owes t \<and> at_pipe t = 0 \<longrightarrow> snap = at_entries t \<and> \<not> at_stop t)"
proof (intro conjI impI)
  note inv = alert_inv_reachable [OF assms]
  show "\<forall>fd. at_edges t fd = handed t fd + queued t fd + at_lost t fd" using inv by (simp add: alert_inv_def)
  assume "\<not> at_owes t \<and> \<not> at_stop t \<and> at_phase t \<noteq> AP_ended \<and> e \<in> set (at_entries t)"
  then obtain t' where t': "at_runs t t'" "queued t' (al_fd e) = 0" using registered_line_drained [OF inv] by blast
  with at_runs_keeps [OF t'(1), of "al_fd e"]
  show "\<exists>n. handed ((at_advance ^^ n) t) (al_fd e) = handed t (al_fd e) + queued t (al_fd e)"
    by (auto simp: at_runs_def)
qed (use alert_inv_reachable [OF assms] in \<open>auto simp: alert_inv_def\<close>)

lemma pass_ends: "at_phase t = AP_pass es \<Longrightarrow> at_stop t \<Longrightarrow> at_phase ((at_advance ^^ (length es + 2)) t) = AP_ended"
proof (induction es arbitrary: t)
  case Nil then show ?case by (simp add: at_advance_def at_serve_def at_snapshot_def)
next
  case (Cons e es)
  from Cons.prems have "at_phase (at_advance t) = AP_pass es" "at_stop (at_advance t)"
    by (simp_all add: at_advance_def at_serve_def split: option.split)
  from Cons.IH [OF this] show ?case by (simp only: list.size add_Suc_right add_Suc add_0_right funpow_Suc_right comp_apply)
qed

text \<open>The join of the destructor returns: once the thread has been asked to stop and woken, it ends without any
  further event.\<close>

lemma destroyed_thread_ends:
  assumes "(alert_step capacity)\<^sup>*\<^sup>* new_alert_thread t" "0 < capacity" "at_stop t" "\<not> at_owes t"
  shows "\<exists>n. at_phase ((at_advance ^^ n) t) = AP_ended"
proof (cases "at_phase t")
  case AP_top
  then show ?thesis using assms(3) by (intro exI [of _ 1]) (simp add: at_advance_def at_snapshot_def)
next
  case (AP_poll snap)
  then have "0 < at_pipe t" using alert_inv_reachable [OF assms(1,2)] assms(3,4) by (auto simp: alert_inv_def)
  then have "at_phase (at_advance t) = AP_pass (filter (\<lambda>e. 0 < queued t (al_fd e)) snap)" "at_stop (at_advance t)"
    using AP_poll assms(3) by (simp_all add: at_advance_def at_poll_ready_def)
  from pass_ends [OF this] obtain n where "at_phase ((at_advance ^^ n) (at_advance t)) = AP_ended" by blast
  then show ?thesis by (intro exI [of _ "Suc n"]) (simp only: funpow_Suc_right comp_apply)
next
  case (AP_pass es) from pass_ends [OF this assms(3)] show ?thesis by blast
next
  case AP_ended then show ?thesis by (intro exI [of _ 0]) simp
qed

lemma alert_run: "(alert_step c)\<^sup>*\<^sup>* a b \<Longrightarrow> alert_step c b d \<Longrightarrow> d = d' \<Longrightarrow> (alert_step c)\<^sup>*\<^sup>* a d'"
  by (simp add: rtranclp.rtrancl_into_rtrancl)

abbreviation demo_entry :: alert_entry where
  "demo_entry \<equiv> \<lparr>al_fd = 4, al_func = Some 7, al_arg = 9\<rparr>"

abbreviation demo_alert :: "bool \<Rightarrow> alert_entry list \<Rightarrow> nat \<Rightarrow> alert_phase \<Rightarrow> nat \<Rightarrow> alert_entry list \<Rightarrow> alert_thread" where
  "demo_alert owes es pipe ph n log \<equiv> \<lparr>at_stop = False, at_entries = es, at_pipe = pipe, at_owes = owes, at_phase = ph,
     at_lines = [4 \<mapsto> n], at_edges = (\<lambda>_. 0)(4 := 1), at_lost = (\<lambda>_. 0), at_log = log\<rparr>"

text \<open>An interrupt is attached to a line, which gets an edge.\<close>

lemma demo_queued: "(alert_step 65536)\<^sup>*\<^sup>* new_alert_thread (demo_alert False [demo_entry] 1 AP_top 1 [])"
proof -
  let ?R = "(alert_step 65536)\<^sup>*\<^sup>*"
  have "?R new_alert_thread (at_open_line 4 new_alert_thread)"
    by (rule alert_run [OF rtranclp.rtrancl_refl AS_open]) (simp_all add: new_alert_thread_def)
  then have "?R new_alert_thread (at_add demo_entry (at_open_line 4 new_alert_thread))"
    by (rule alert_run [OF _ AS_add]) (simp_all add: new_alert_thread_def at_open_line_def)
  then have "?R new_alert_thread ((at_add demo_entry (at_open_line 4 new_alert_thread))\<lparr>at_pipe := 1, at_owes := False\<rparr>)"
    by (rule alert_run [OF _ AS_wake]) (simp_all add: new_alert_thread_def at_add_def at_open_line_def at_wake_def)
  then show "?R new_alert_thread (demo_alert False [demo_entry] 1 AP_top 1 [])"
    by (rule alert_run [OF _ AS_edge [of _ _ 4]])
      (simp add: new_alert_thread_def at_add_def at_open_line_def at_edge_def EVENT_BUFFER_SIZE_def)
qed

text \<open>The line is detached while its event is already being served: the callback of the detached line is still
  called, with its old argument.\<close>
lemma callback_after_detach:
  "(alert_step 65536)\<^sup>*\<^sup>* new_alert_thread (demo_alert False [] 1 (AP_pass []) 0 [demo_entry])
    \<and> at_callbacks (demo_alert False [] 1 (AP_pass []) 0 [demo_entry]) = [(7, 9)]"
proof
  let ?R = "(alert_step 65536)\<^sup>*\<^sup>*"
  from demo_queued have "?R new_alert_thread (demo_alert False [demo_entry] 1 (AP_poll [demo_entry]) 1 [])"
    by (rule alert_run [OF _ AS_snapshot]) (simp_all add: at_snapshot_def)
  then have "?R new_alert_thread (demo_alert False [demo_entry] 0 (AP_pass [demo_entry]) 1 [])"
    by (rule alert_run [OF _ AS_poll [of _ "[demo_entry]"]]) (simp_all add: at_poll_ready_def queued_def)
  then have "?R new_alert_thread (demo_alert True [] 0 (AP_pass [demo_entry]) 1 [])"
    by (rule alert_run [OF _ AS_remove [of _ _ 4]]) (simp_all add: at_remove_def)
  then have "?R new_alert_thread (demo_alert False [] 1 (AP_pass [demo_entry]) 1 [])"
    by (rule alert_run [OF _ AS_wake]) (simp_all add: at_wake_def)
  then show "?R new_alert_thread (demo_alert False [] 1 (AP_pass []) 0 [demo_entry])"
    by (rule alert_run [OF _ AS_serve [of _ "[demo_entry]"]]) (simp_all add: at_serve_def)
  show "at_callbacks (demo_alert False [] 1 (AP_pass []) 0 [demo_entry]) = [(7, 9)]"
    by (simp add: at_callbacks_def map_filter_simps)
qed

text \<open>The line of a ready descriptor is closed, and another line opened under its number gets an edge, before the
  thread reads: the event goes to the callback of the old line, although only the new one is registered.\<close>
lemma reused_descriptor_misdelivers:
  assumes "e' = \<lparr>al_fd = 4, al_func = Some 8, al_arg = 10\<rparr>"
  shows "\<exists>t. (alert_step 65536)\<^sup>*\<^sup>* (demo_alert False [] 1 (AP_pass [demo_entry]) 1 []) t
    \<and> at_entries t = [e'] \<and> at_callbacks t = [(7, 9)]"
proof -
  let ?R = "(alert_step 65536)\<^sup>*\<^sup>*" and ?t = "demo_alert False [] 1 (AP_pass [demo_entry]) 1 []"
  have "?R ?t (at_close_line 4 ?t)" by (rule alert_run [OF rtranclp.rtrancl_refl AS_close]) simp_all
  then have "?R ?t (at_open_line 4 (at_close_line 4 ?t))"
    by (rule alert_run [OF _ AS_open]) (simp_all add: at_close_line_def)
  then have "?R ?t (at_add e' (at_open_line 4 (at_close_line 4 ?t)))"
    by (rule alert_run [OF _ AS_add]) (simp_all add: at_close_line_def at_open_line_def assms)
  then have "?R ?t (at_edge 4 (at_add e' (at_open_line 4 (at_close_line 4 ?t))))"
    by (rule alert_run [OF _ AS_edge]) simp
  then have "?R ?t (at_serve (at_edge 4 (at_add e' (at_open_line 4 (at_close_line 4 ?t)))))"
    by (rule alert_run [OF _ AS_serve [of _ "[demo_entry]"]])
      (simp_all add: at_close_line_def at_open_line_def at_add_def at_edge_def EVENT_BUFFER_SIZE_def)
  moreover have "at_callbacks (at_serve (at_edge 4 (at_add e' (at_open_line 4 (at_close_line 4 ?t))))) = [(7, 9)]"
    "at_entries (at_serve (at_edge 4 (at_add e' (at_open_line 4 (at_close_line 4 ?t))))) = [e']"
    by (simp_all add: at_close_line_def at_open_line_def at_add_def at_edge_def at_serve_def EVENT_BUFFER_SIZE_def
        at_callbacks_def map_filter_simps)
  ultimately show ?thesis by blast
qed

lemma alerts_delivered_witness:
  "\<exists>n. handed ((at_advance ^^ n) (demo_alert False [demo_entry] 1 AP_top 1 [])) 4 = 1"
  using alerts_delivered [OF demo_queued, THEN conjunct2, THEN conjunct1, of demo_entry]
  by (simp add: handed_def queued_def)

end
