(* ===== verification/Linux_Buses.thy ===== *)
theory Linux_Buses
  imports Prelude
begin

text \<open>
  The buses over Linux devices: CAN (\<open>components/socketcan\<close>), I2C (\<open>components/linux_i2c\<close>) and SPI
  (\<open>components/linux_spi\<close>). The results of system calls are arguments; a failing call is its \<open>errno\<close>.
  Logging and \<open>dump_config\<close> are left out.
\<close>

datatype errno = EPERM | ENOENT | EINTR | ENXIO | EAGAIN | EACCES | EINVAL | ENETDOWN | ENOBUFS | ETIMEDOUT
  | EREMOTEIO | E_unknown nat

section \<open>SocketCAN\<close>

text \<open>\<open>struct can_frame\<close> of the kernel and \<open>CanFrame\<close> of the CAN bus component, both with 8 bytes of data.\<close>

record can_frame =
  cf_id :: u32
  cf_dlc :: u8
  cf_data :: bytes

record canbus_frame =
  cb_use_extended_id :: bool
  cb_remote_transmission_request :: bool
  cb_can_id :: u32
  cb_dlc :: u8
  cb_data :: bytes

datatype canbus_error = ERROR_OK | ERROR_FAIL | ERROR_ALLTXBUSY | ERROR_FAILINIT | ERROR_FAILTX | ERROR_NOMSG

definition CAN_EFF_FLAG :: u32 where "CAN_EFF_FLAG = 0x80000000"
definition CAN_RTR_FLAG :: u32 where "CAN_RTR_FLAG = 0x40000000"
definition CAN_ERR_FLAG :: u32 where "CAN_ERR_FLAG = 0x20000000"
definition CAN_SFF_MASK :: u32 where "CAN_SFF_MASK = 0x7FF"
definition CAN_EFF_MASK :: u32 where "CAN_EFF_MASK = 0x1FFFFFFF"

lemmas can_consts = CAN_EFF_FLAG_def CAN_RTR_FLAG_def CAN_ERR_FLAG_def CAN_SFF_MASK_def CAN_EFF_MASK_def

record socketcan =
  sc_interface :: string
  sc_fd :: int
  sc_failed :: bool
  sc_open :: "int set"
  sc_bound :: "(int \<times> nat) option"
  sc_nonblock :: bool

text \<open>Descriptor of \<open>socket\<close> (negative when it fails), index of an interface name, success of \<open>bind\<close>.\<close>

record can_env =
  ce_socket :: int
  ce_ifindex :: "string \<Rightarrow> nat option"
  ce_bind :: bool

definition can_give_up :: "int \<Rightarrow> socketcan \<Rightarrow> socketcan" where
  "can_give_up fd s = s\<lparr>sc_open := sc_open s - {fd}, sc_fd := - 1, sc_failed := True\<rparr>"

text \<open>\<open>strncpy\<close> into \<open>ifr_name\<close> keeps 15 characters.\<close>

definition can_setup_internal :: "can_env \<Rightarrow> socketcan \<Rightarrow> bool \<times> socketcan" where
  "can_setup_internal env s =
    (let s1 = s\<lparr>sc_fd := ce_socket env\<rparr>
     in if ce_socket env < 0 then (False, s1\<lparr>sc_failed := True\<rparr>)
        else
          (let s2 = s1\<lparr>sc_open := insert (ce_socket env) (sc_open s1)\<rparr>
           in case ce_ifindex env (take 15 (sc_interface s2)) of
                None \<Rightarrow> (False, can_give_up (ce_socket env) s2)
              | Some ix \<Rightarrow>
                  if \<not> ce_bind env then (False, can_give_up (ce_socket env) s2)
                  else (True, s2\<lparr>sc_bound := Some (ce_socket env, ix), sc_nonblock := True\<rparr>)))"

definition can_clamp :: "u8 \<Rightarrow> u8" where
  "can_clamp n = (if n > 8 then 8 else n)"

text \<open>The frame \<open>can_send_message\<close> writes; the rest of the zero-initialised \<open>data\<close> stays zero.\<close>

definition can_encode :: "canbus_frame \<Rightarrow> can_frame" where
  "can_encode f =
    (let id0 = (if cb_use_extended_id f then cb_can_id f AND CAN_EFF_MASK else cb_can_id f AND CAN_SFF_MASK);
         id1 = (if cb_use_extended_id f then id0 OR CAN_EFF_FLAG else id0);
         id2 = (if cb_remote_transmission_request f then id1 OR CAN_RTR_FLAG else id1);
         n = can_clamp (cb_dlc f)
     in \<lparr>cf_id = id2, cf_dlc = n, cf_data = take (unat n) (cb_data f) @ replicate (8 - unat n) 0\<rparr>)"

definition can_send_message :: "errno option \<Rightarrow> socketcan \<Rightarrow> canbus_frame \<Rightarrow> canbus_error \<times> can_frame option" where
  "can_send_message failure s f =
    (if sc_fd s < 0 then (ERROR_FAILINIT, None)
     else case failure of
       Some e \<Rightarrow> (if e \<in> {ENOBUFS, EAGAIN, EINTR, ENETDOWN} then ERROR_ALLTXBUSY else ERROR_FAILTX, None)
     | None \<Rightarrow> (ERROR_OK, Some (can_encode f)))"

text \<open>\<open>read\<close>: an error, fewer (or other) bytes than a frame, or a frame.\<close>

datatype can_read = CR_error errno | CR_other | CR_frame can_frame

definition can_decode :: "can_frame \<Rightarrow> canbus_frame \<Rightarrow> canbus_frame" where
  "can_decode c f =
    (let ext = (cf_id c AND CAN_EFF_FLAG \<noteq> 0); n = can_clamp (cf_dlc c)
     in f\<lparr>cb_use_extended_id := ext, cb_remote_transmission_request := (cf_id c AND CAN_RTR_FLAG \<noteq> 0),
          cb_can_id := cf_id c AND (if ext then CAN_EFF_MASK else CAN_SFF_MASK), cb_dlc := n,
          cb_data := take (unat n) (cf_data c) @ drop (unat n) (cb_data f)\<rparr>)"

definition can_read_message :: "can_read \<Rightarrow> socketcan \<Rightarrow> canbus_frame \<Rightarrow> canbus_error \<times> canbus_frame" where
  "can_read_message r s f =
    (if sc_fd s < 0 then (ERROR_FAILINIT, f)
     else case r of
       CR_error e \<Rightarrow> (if e \<in> {EAGAIN, EINTR, ENETDOWN} then ERROR_NOMSG else ERROR_FAIL, f)
     | CR_other \<Rightarrow> (ERROR_NOMSG, f)
     | CR_frame c \<Rightarrow>
         if cf_id c AND CAN_ERR_FLAG \<noteq> 0 then (ERROR_NOMSG, f) else (ERROR_OK, can_decode c f))"

section \<open>I2C\<close>

record i2c_msg =
  im_addr :: u16
  im_read :: bool
  im_len :: u16
  im_buf :: bytes

datatype i2c_error = I2C_OK | I2C_INVALID_ARGUMENT | I2C_NOT_ACKNOWLEDGED | I2C_TIMEOUT | I2C_NOT_INITIALIZED
  | I2C_UNKNOWN

record linux_i2c =
  li_fd :: int
  li_failed :: bool
  li_scanned :: bool

text \<open>\<open>i2c_scan_\<close> belongs to the base class.\<close>

definition i2c_setup :: "int \<Rightarrow> bool \<Rightarrow> linux_i2c \<Rightarrow> linux_i2c" where
  "i2c_setup opened scan s =
    (if opened < 0 then s\<lparr>li_fd := opened, li_failed := True\<rparr> else s\<lparr>li_fd := opened, li_scanned := scan\<rparr>)"

text \<open>A buffer is \<open>None\<close> when its pointer is null; \<open>rn\<close> is the length of the read buffer. A message to read has
  the buffer itself as its place, no bytes to send.\<close>

definition i2c_messages :: "u8 \<Rightarrow> bytes option \<Rightarrow> nat \<Rightarrow> bool \<Rightarrow> nat \<Rightarrow> i2c_msg list" where
  "i2c_messages address wbuf wn has_rbuf rn =
    (let ws = (case wbuf of
           Some bs \<Rightarrow> if wn > 0 then [\<lparr>im_addr = ucast address, im_read = False, im_len = of_nat wn, im_buf = bs\<rparr>] else []
         | None \<Rightarrow> []);
         rs = (if rn > 0 \<and> has_rbuf then [\<lparr>im_addr = ucast address, im_read = True, im_len = of_nat rn, im_buf = []\<rparr>] else []);
         ms = ws @ rs
     in if ms = [] then [\<lparr>im_addr = ucast address, im_read = False, im_len = 0, im_buf = []\<rparr>] else ms)"

text \<open>\<open>bus\<close> is \<open>ioctl (I2C_RDWR)\<close>: the bytes it stores for the message to read, or its error.\<close>

definition write_readv :: "(i2c_msg list \<Rightarrow> errno + bytes) \<Rightarrow> linux_i2c \<Rightarrow> u8 \<Rightarrow> bytes option \<Rightarrow> nat \<Rightarrow> bytes option \<Rightarrow> nat \<Rightarrow>
    i2c_error \<times> bytes option" where
  "write_readv bus s address wbuf wn rbuf rn =
    (if li_fd s < 0 then (I2C_NOT_INITIALIZED, rbuf)
     else case bus (i2c_messages address wbuf wn (rbuf \<noteq> None) rn) of
       Inl ENXIO \<Rightarrow> (I2C_NOT_ACKNOWLEDGED, rbuf)
     | Inl EREMOTEIO \<Rightarrow> (I2C_NOT_ACKNOWLEDGED, rbuf)
     | Inl ETIMEDOUT \<Rightarrow> (I2C_TIMEOUT, rbuf)
     | Inl EINVAL \<Rightarrow> (I2C_INVALID_ARGUMENT, rbuf)
     | Inl _ \<Rightarrow> (I2C_UNKNOWN, rbuf)
     | Inr bs \<Rightarrow> (I2C_OK, map_option (\<lambda>r. bs @ drop (length bs) r) rbuf))"

section \<open>SPI\<close>

datatype spi_mode = MODE0 | MODE1 | MODE2 | MODE3

datatype spi_bit_order = LSB_FIRST | MSB_FIRST

definition SPI_CPHA :: u8 where "SPI_CPHA = 0x01"
definition SPI_CPOL :: u8 where "SPI_CPOL = 0x02"
definition SPI_LSB_FIRST :: u8 where "SPI_LSB_FIRST = 0x08"
definition SPI_CHUNK_MAX :: nat where "SPI_CHUNK_MAX = 4096"

definition kernel_mode_from :: "spi_mode \<Rightarrow> u8" where
  "kernel_mode_from m = (case m of MODE0 \<Rightarrow> 0 | MODE1 \<Rightarrow> SPI_CPHA | MODE2 \<Rightarrow> SPI_CPOL | MODE3 \<Rightarrow> SPI_CPOL OR SPI_CPHA)"

record spi_delegate =
  sd_fd :: int
  sd_kernel_mode :: u8
  sd_bit_order :: spi_bit_order
  sd_data_rate :: u32

definition spi_new_delegate :: "int \<Rightarrow> u32 \<Rightarrow> spi_bit_order \<Rightarrow> spi_mode \<Rightarrow> spi_delegate" where
  "spi_new_delegate fd rate order mode =
    \<lparr>sd_fd = fd,
     sd_kernel_mode = (if order = LSB_FIRST then kernel_mode_from mode OR SPI_LSB_FIRST else kernel_mode_from mode),
     sd_bit_order = order, sd_data_rate = rate\<rparr>"

text \<open>\<open>accepts\<close>: the modes the controller accepts; \<open>cur\<close>: the mode the device is in. The base class toggles the
  chip select pin.\<close>

definition begin_transaction :: "(u8 \<Rightarrow> bool) \<Rightarrow> u8 \<Rightarrow> spi_delegate \<Rightarrow> u8 \<times> spi_delegate" where
  "begin_transaction accepts cur d =
    (if sd_fd d < 0 then (cur, d)
     else if accepts (sd_kernel_mode d) then (sd_kernel_mode d, d)
     else if sd_kernel_mode d AND SPI_LSB_FIRST \<noteq> 0 then
       (let d' = d\<lparr>sd_kernel_mode := sd_kernel_mode d AND NOT SPI_LSB_FIRST\<rparr>
        in (if accepts (sd_kernel_mode d') then sd_kernel_mode d' else cur, d'))
     else (cur, d))"

text \<open>One \<open>SPI_IOC_MESSAGE\<close>: bytes sent (zeros when there is no buffer), speed; result, bytes received, and the
  device state afterwards.\<close>

type_synonym 's spi_kernel = "'s \<Rightarrow> bytes \<Rightarrow> u32 \<Rightarrow> int \<times> bytes \<times> 's"

definition patch :: "nat \<Rightarrow> bytes \<Rightarrow> bytes \<Rightarrow> bytes" where
  "patch off bs r = take off r @ bs @ drop (off + length bs) r"

text \<open>The \<open>for\<close> loop from \<open>off\<close>; \<open>rx\<close> is the receive buffer if there is one. When both pointers are the same
  buffer, the part still to be sent has not been overwritten yet.\<close>

function spi_chunks :: "'s spi_kernel \<Rightarrow> u32 \<Rightarrow> bytes option \<Rightarrow> nat \<Rightarrow> nat \<Rightarrow> bytes option \<Rightarrow> 's \<Rightarrow> bytes option \<times> 's" where
  "spi_chunks k rate tx n off rx s =
    (if off < n then
       (let chunk = min SPI_CHUNK_MAX (n - off);
            out = (case tx of Some t \<Rightarrow> take chunk (drop off t) | None \<Rightarrow> replicate chunk 0)
        in case k s out rate of
             (rc, rcv, s') \<Rightarrow>
               (let rx' = map_option (patch off rcv) rx
                in if rc < int chunk then (rx', s') else spi_chunks k rate tx n (off + SPI_CHUNK_MAX) rx' s'))
     else (rx, s))"
  by pat_completeness auto
termination
  by (relation "measure (\<lambda>(k, rate, tx, n, off, rx, s). n - off)") (auto simp: SPI_CHUNK_MAX_def)

declare spi_chunks.simps [simp del]

definition do_transfer :: "'s spi_kernel \<Rightarrow> spi_delegate \<Rightarrow> bytes option \<Rightarrow> bytes option \<Rightarrow> nat \<Rightarrow> 's \<Rightarrow> bytes option \<times> 's" where
  "do_transfer k d tx rx n s =
    (if sd_fd d < 0 \<or> n = 0 then (rx, s) else spi_chunks k (sd_data_rate d) tx n 0 rx s)"

definition spi_transfer_byte :: "'s spi_kernel \<Rightarrow> spi_delegate \<Rightarrow> u8 \<Rightarrow> 's \<Rightarrow> u8 \<times> 's" where
  "spi_transfer_byte k d b s = (case do_transfer k d (Some [b]) (Some [0]) 1 s of
     (rx, s') \<Rightarrow> (case rx of Some (r # _) \<Rightarrow> r | _ \<Rightarrow> 0, s'))"

definition spi_transfer_inplace :: "'s spi_kernel \<Rightarrow> spi_delegate \<Rightarrow> bytes \<Rightarrow> 's \<Rightarrow> bytes option \<times> 's" where
  "spi_transfer_inplace k d buf s = do_transfer k d (Some buf) (Some buf) (length buf) s"

definition spi_transfer :: "'s spi_kernel \<Rightarrow> spi_delegate \<Rightarrow> bytes option \<Rightarrow> bytes option \<Rightarrow> nat \<Rightarrow> 's \<Rightarrow> bytes option \<times> 's" where
  "spi_transfer k d txbuf rxbuf n s = do_transfer k d txbuf rxbuf n s"

definition spi_write_array :: "'s spi_kernel \<Rightarrow> spi_delegate \<Rightarrow> bytes \<Rightarrow> 's \<Rightarrow> 's" where
  "spi_write_array k d buf s = snd (do_transfer k d (Some buf) None (length buf) s)"

definition spi_read_array :: "'s spi_kernel \<Rightarrow> spi_delegate \<Rightarrow> nat \<Rightarrow> 's \<Rightarrow> bytes option \<times> 's" where
  "spi_read_array k d n s = do_transfer k d (Some (replicate n 0)) (Some (replicate n 0)) n s"

definition write16_bytes :: "spi_bit_order \<Rightarrow> u16 \<Rightarrow> bytes" where
  "write16_bytes order v =
    (if order = MSB_FIRST then [ucast (drop_bit 8 v AND 0xFF), ucast (v AND 0xFF)]
     else [ucast (v AND 0xFF), ucast (drop_bit 8 v AND 0xFF)])"

definition spi_write16 :: "'s spi_kernel \<Rightarrow> spi_delegate \<Rightarrow> u16 \<Rightarrow> 's \<Rightarrow> 's" where
  "spi_write16 k d v s = snd (do_transfer k d (Some (write16_bytes (sd_bit_order d) v)) None 2 s)"

record spi_component =
  sp_fd :: int
  sp_failed :: bool
  sp_bus :: "int option"

definition spi_setup :: "int \<Rightarrow> spi_component \<Rightarrow> spi_component" where
  "spi_setup opened s =
    (if opened < 0 then s\<lparr>sp_fd := opened, sp_failed := True\<rparr> else s\<lparr>sp_fd := opened, sp_bus := Some opened\<rparr>)"

definition spi_get_delegate :: "int \<Rightarrow> u32 \<Rightarrow> spi_bit_order \<Rightarrow> spi_mode \<Rightarrow> spi_delegate" where
  "spi_get_delegate bus_fd rate order mode = spi_new_delegate bus_fd rate order mode"

section \<open>CAN frames\<close>

definition frame_ok :: "canbus_frame \<Rightarrow> bool" where
  "frame_ok f \<longleftrightarrow> length (cb_data f) = 8"

text \<open>The frame a receiver sees: the identifier cut to its width, at most 8 bytes, the receiver's bytes behind them.\<close>

definition can_canonical :: "canbus_frame \<Rightarrow> canbus_frame \<Rightarrow> canbus_frame" where
  "can_canonical f g =
    \<lparr>cb_use_extended_id = cb_use_extended_id f, cb_remote_transmission_request = cb_remote_transmission_request f,
     cb_can_id = (if cb_use_extended_id f then take_bit 29 (cb_can_id f) else take_bit 11 (cb_can_id f)),
     cb_dlc = min (cb_dlc f) 8,
     cb_data = take (unat (min (cb_dlc f) 8)) (cb_data f) @ drop (unat (min (cb_dlc f) 8)) (cb_data g)\<rparr>"

lemma can_clamp_min: "can_clamp n = min n 8"
  by (simp add: can_clamp_def min_def not_le [symmetric])

lemma can_clamp_idem [simp]: "can_clamp (min n 8) = min n 8"
  by (simp add: can_clamp_min)

lemma unat_clamp: "unat (min n (8 :: u8)) \<le> 8"
proof -
  have "unat (min n (8 :: u8)) \<le> unat (8 :: u8)" by (simp only: word_le_nat_alt [symmetric] min.cobounded2)
  then show ?thesis by simp
qed

lemma bit_can_consts:
  "bit CAN_EFF_FLAG n \<longleftrightarrow> n = 31" "bit CAN_RTR_FLAG n \<longleftrightarrow> n = 30" "bit CAN_ERR_FLAG n \<longleftrightarrow> n = 29"
  "bit CAN_SFF_MASK n \<longleftrightarrow> n < 11" "bit CAN_EFF_MASK n \<longleftrightarrow> n < 29"
proof -
  have e: "CAN_EFF_FLAG = 2 ^ 31" "CAN_RTR_FLAG = 2 ^ 30" "CAN_ERR_FLAG = 2 ^ 29"
    "CAN_SFF_MASK = mask 11" "CAN_EFF_MASK = mask 29"
    by (simp_all add: can_consts mask_eq_exp_minus_1)
  show "bit CAN_EFF_FLAG n \<longleftrightarrow> n = 31" "bit CAN_RTR_FLAG n \<longleftrightarrow> n = 30" "bit CAN_ERR_FLAG n \<longleftrightarrow> n = 29"
    "bit CAN_SFF_MASK n \<longleftrightarrow> n < 11" "bit CAN_EFF_MASK n \<longleftrightarrow> n < 29"
    unfolding e bit_exp_iff bit_mask_iff by auto
qed

lemma can_flag_tests:
  "x AND CAN_EFF_FLAG \<noteq> 0 \<longleftrightarrow> bit x 31" "x AND CAN_RTR_FLAG \<noteq> 0 \<longleftrightarrow> bit x 30" "x AND CAN_ERR_FLAG \<noteq> 0 \<longleftrightarrow> bit x 29"
proof -
  have "x AND 2 ^ n \<noteq> 0 \<longleftrightarrow> bit x n" for n by (simp add: and_exp_eq_0_iff_not_bit)
  from this [of 31] this [of 30] this [of 29] show
    "x AND CAN_EFF_FLAG \<noteq> 0 \<longleftrightarrow> bit x 31" "x AND CAN_RTR_FLAG \<noteq> 0 \<longleftrightarrow> bit x 30" "x AND CAN_ERR_FLAG \<noteq> 0 \<longleftrightarrow> bit x 29"
    by (simp_all add: can_consts)
qed

lemma can_encode_bits:
  "bit (cf_id (can_encode f)) n \<longleftrightarrow>
     (n < (if cb_use_extended_id f then 29 else 11) \<and> bit (cb_can_id f) n)
     \<or> (n = 31 \<and> cb_use_extended_id f) \<or> (n = 30 \<and> cb_remote_transmission_request f)"
  by (auto simp: can_encode_def Let_def bit_simps bit_can_consts)

text \<open>C34. A frame that was sent is received as the same frame: a receiver gets its flags, its identifier cut
  to 29 or 11 bits, and its at most 8 data bytes, the rest of the receiver's buffer untouched; it is never
  taken for an error frame, whatever identifier the caller gave.\<close>

theorem can_roundtrip:
  assumes "0 \<le> sc_fd s" "0 \<le> sc_fd r" "frame_ok f" "frame_ok g"
  shows "\<exists>c. can_send_message None s f = (ERROR_OK, Some c) \<and> length (cf_data c) = 8
      \<and> can_read_message (CR_frame c) r g = (ERROR_OK, can_canonical f g)"
proof -
  let ?c = "can_encode f" and ?n = "unat (min (cb_dlc f) 8)"
  have len: "?n \<le> 8" by (rule unat_clamp)
  have dlc: "cf_dlc ?c = min (cb_dlc f) 8" "can_clamp (cf_dlc ?c) = min (cb_dlc f) 8"
    by (simp_all add: can_encode_def Let_def can_clamp_min)
  have data: "cf_data ?c = take ?n (cb_data f) @ replicate (8 - ?n) 0" "length (cf_data ?c) = 8"
    using len assms(3) by (simp_all add: can_encode_def Let_def can_clamp_min frame_ok_def)
  have flags: "bit (cf_id ?c) 31 \<longleftrightarrow> cb_use_extended_id f" "bit (cf_id ?c) 30 \<longleftrightarrow> cb_remote_transmission_request f"
    "\<not> bit (cf_id ?c) 29"
    by (simp_all add: can_encode_bits)
  have idt: "cf_id ?c AND (if cb_use_extended_id f then CAN_EFF_MASK else CAN_SFF_MASK)
      = (if cb_use_extended_id f then take_bit 29 (cb_can_id f) else take_bit 11 (cb_can_id f))"
    by (rule bit_word_eqI) (auto simp: bit_simps bit_can_consts can_encode_bits)
  have "can_decode ?c g = can_canonical f g"
    using len assms(3)
    by (cases g) (simp add: can_decode_def Let_def can_flag_tests flags idt dlc can_canonical_def data frame_ok_def)
  then show ?thesis
    using assms(1,2) data(2) flags(3) by (simp add: can_send_message_def can_read_message_def can_flag_tests)
qed

theorem can_roundtrip_witness:
  "\<exists>c. can_send_message None \<lparr>sc_interface = ''can0'', sc_fd = 3, sc_failed = False, sc_open = {3}, sc_bound = None,
        sc_nonblock = True\<rparr> \<lparr>cb_use_extended_id = False, cb_remote_transmission_request = False, cb_can_id = 0xFFFFFFFF,
        cb_dlc = 200, cb_data = [1, 2, 3, 4, 5, 6, 7, 8]\<rparr> = (ERROR_OK, Some c) \<and> length (cf_data c) = 8
      \<and> fst (can_read_message (CR_frame c) \<lparr>sc_interface = ''can0'', sc_fd = 4, sc_failed = False, sc_open = {4}, sc_bound = None,
        sc_nonblock = True\<rparr> \<lparr>cb_use_extended_id = True, cb_remote_transmission_request = True, cb_can_id = 0,
        cb_dlc = 0, cb_data = replicate 8 0\<rparr>) = ERROR_OK"
  using can_roundtrip [of "\<lparr>sc_interface = ''can0'', sc_fd = 3, sc_failed = False, sc_open = {3}, sc_bound = None,
        sc_nonblock = True\<rparr>" "\<lparr>sc_interface = ''can0'', sc_fd = 4, sc_failed = False, sc_open = {4}, sc_bound = None,
        sc_nonblock = True\<rparr>" "\<lparr>cb_use_extended_id = False, cb_remote_transmission_request = False, cb_can_id = 0xFFFFFFFF,
        cb_dlc = 200, cb_data = [1, 2, 3, 4, 5, 6, 7, 8]\<rparr>" "\<lparr>cb_use_extended_id = True, cb_remote_transmission_request = True,
        cb_can_id = 0, cb_dlc = 0, cb_data = replicate 8 0\<rparr>"]
  by (auto simp: frame_ok_def)

text \<open>A setup that fails leaves no descriptor open; one that succeeds leaves the bound, non-blocking socket.\<close>

lemma can_setup_descriptors:
  assumes "sc_open s = {}" "can_setup_internal env s = (ok, s')"
  shows "if ok then sc_open s' = {sc_fd s'} \<and> 0 \<le> sc_fd s' \<and> sc_nonblock s' \<and> (\<exists>ix. sc_bound s' = Some (sc_fd s', ix))
    else sc_open s' = {} \<and> sc_fd s' < 0 \<and> sc_failed s'"
  using assms by (auto simp: can_setup_internal_def can_give_up_def Let_def split: if_splits option.splits)

section \<open>I2C transactions\<close>

text \<open>Lengths of 65536 and more are cut to 16 bits: a read of 65536 bytes asks for none and reports success.\<close>

lemma i2c_length_cut:
  assumes "0 \<le> li_fd s" "\<And>ms. bus ms = Inr (concat (map (\<lambda>m. if im_read m then replicate (unat (im_len m)) 0xAA else []) ms))"
  shows "write_readv bus s a None 0 (Some buf) 65536 = (I2C_OK, Some buf)"
  using assms by (simp add: write_readv_def i2c_messages_def Let_def)

text \<open>A transaction is one or two messages to the address: the bytes to write first, then the read.\<close>

lemma i2c_messages_shape:
  assumes "wn < 65536" "rn < 65536"
  shows "map (\<lambda>m. (im_read m, unat (im_len m))) (i2c_messages a wbuf wn has_rbuf rn)
      = (if 0 < wn \<and> wbuf \<noteq> None then if 0 < rn \<and> has_rbuf then [(False, wn), (True, rn)] else [(False, wn)]
         else if 0 < rn \<and> has_rbuf then [(True, rn)] else [(False, 0)])
    \<and> list_all (\<lambda>m. im_addr m = ucast a) (i2c_messages a wbuf wn has_rbuf rn)"
  using assms by (auto simp: i2c_messages_def Let_def unat_of_nat split: option.split)

section \<open>SPI transfers\<close>

text \<open>A full-duplex device answers every byte with a byte. The kernel exchanges a whole message and then
  releases the chip select when it drives it: \<open>release\<close> is what that does to the device (nothing, when the chip
  select is a pin that \<open>begin_transaction\<close> holds, or when there is none).\<close>

fun spi_exchange :: "('s \<Rightarrow> u8 \<Rightarrow> u8 \<times> 's) \<Rightarrow> 's \<Rightarrow> bytes \<Rightarrow> bytes \<times> 's" where
  "spi_exchange dev s [] = ([], s)"
| "spi_exchange dev s (b # bs) = (case dev s b of (r, s1) \<Rightarrow> (case spi_exchange dev s1 bs of (rs, s2) \<Rightarrow> (r # rs, s2)))"

definition kernel_exchange :: "('s \<Rightarrow> u8 \<Rightarrow> u8 \<times> 's) \<Rightarrow> ('s \<Rightarrow> 's) \<Rightarrow> 's spi_kernel" where
  "kernel_exchange dev release s bs rate = (case spi_exchange dev s bs of (rs, s') \<Rightarrow> (int (length bs), rs, release s'))"

text \<open>What the device should see of a buffer: consecutive messages of 4096 bytes, and a last one of the rest, each
  followed by the release.\<close>

function spi_framed :: "('s \<Rightarrow> u8 \<Rightarrow> u8 \<times> 's) \<Rightarrow> ('s \<Rightarrow> 's) \<Rightarrow> 's \<Rightarrow> bytes \<Rightarrow> bytes \<times> 's" where
  "spi_framed dev release s bs =
    (if bs = [] then ([], s)
     else case spi_exchange dev s (take 4096 bs) of (rs, s1) \<Rightarrow>
       (case spi_framed dev release (release s1) (drop 4096 bs) of (qs, s2) \<Rightarrow> (rs @ qs, s2)))"
  by pat_completeness auto
termination by (relation "measure (\<lambda>(dev, release, s, bs). length bs)") auto

declare spi_framed.simps [simp del]

lemma spi_framed_Nil [simp]: "spi_framed dev release s [] = ([], s)"
  by (simp add: spi_framed.simps)

lemma spi_exchange_append:
  "spi_exchange dev s (xs @ ys) = (case spi_exchange dev s xs of (rs, s1) \<Rightarrow>
     (case spi_exchange dev s1 ys of (qs, s2) \<Rightarrow> (rs @ qs, s2)))"
  by (induction xs arbitrary: s) (auto split: prod.split)

lemma length_spi_exchange [simp]: "length (fst (spi_exchange dev s bs)) = length bs"
  by (induction bs arbitrary: s) (simp_all add: case_prod_beta)

lemma patch_patch:
  assumes "off + length a + length b \<le> length r"
  shows "patch (off + length a) b (patch off a r) = patch off (a @ b) r"
proof -
  have "min (length r) off = off" using assms by simp
  then show ?thesis by (simp add: patch_def ac_simps)
qed

lemma length_patch [simp]: "off + length a \<le> length r \<Longrightarrow> length (patch off a r) = length r"
  by (simp add: patch_def)

lemma patch_Nil [simp]: "patch off [] r = r"
  by (simp add: patch_def)

lemma chunk_cut:
  "take (n - off) (drop off t)
     = take (min SPI_CHUNK_MAX (n - off)) (drop off t) @ take (n - (off + SPI_CHUNK_MAX)) (drop (off + SPI_CHUNK_MAX) t)"
proof (cases "n - off \<le> SPI_CHUNK_MAX")
  case False
  define m where "m = n - (off + SPI_CHUNK_MAX)"
  have "n - off = SPI_CHUNK_MAX + m" using False by (simp add: m_def)
  then show ?thesis by (simp add: take_add add.commute m_def)
qed simp

text \<open>What a run of the loop makes of the receive buffer, when the kernel exchanges every message.\<close>

lemma patch_chunks:
  assumes "length rs = min SPI_CHUNK_MAX (n - off)" "length qs = n - (off + SPI_CHUNK_MAX)" "rx \<noteq> None \<Longrightarrow> n \<le> length (the rx)"
  shows "map_option (patch (off + SPI_CHUNK_MAX) qs) (map_option (patch off rs) rx) = map_option (patch off (rs @ qs)) rx"
proof (cases rx)
  case (Some r)
  show ?thesis
  proof (cases "qs = []")
    case False
    then have c: "length rs = SPI_CHUNK_MAX" using assms(1,2) by (cases qs) auto
    then have "patch (off + length rs) qs (patch off rs r) = patch off (rs @ qs) r"
      using assms(2,3) Some False by (intro patch_patch) (cases qs, auto)
    then show ?thesis using Some c by simp
  qed (simp add: Some)
qed simp

lemma length_spi_framed [simp]: "length (fst (spi_framed dev release s bs)) = length bs"
proof (induction dev release s bs rule: spi_framed.induct)
  case (1 dev release s bs)
  show ?case
  proof (cases "bs = []")
    case False
    obtain rs s1 where x: "spi_exchange dev s (take 4096 bs) = (rs, s1)" by fastforce
    then have "length rs = min 4096 (length bs)" using length_spi_exchange [of dev s "take 4096 bs"] by simp
    then show ?thesis using 1 [OF False x [symmetric]] False
      by (subst spi_framed.simps) (simp add: x case_prod_beta)
  qed simp
qed

lemma spi_framed_held:
  assumes "\<And>s. release s = s" shows "spi_framed dev release s bs = spi_exchange dev s bs"
proof (induction "length bs" arbitrary: s bs rule: less_induct)
  case less
  show ?case
  proof (cases "bs = []")
    case False
    then have "spi_framed dev release s' (drop 4096 bs) = spi_exchange dev s' (drop 4096 bs)" for s'
      by (intro less.hyps) simp
    then show ?thesis using False spi_exchange_append [of dev s "take 4096 bs" "drop 4096 bs"]
      by (subst spi_framed.simps) (simp add: assms)
  qed simp
qed

lemma spi_chunks_exchange:
  assumes "n \<le> length t" "\<And>r. rx = Some r \<Longrightarrow> n \<le> length r"
  shows "spi_chunks (kernel_exchange dev release) rate (Some t) n off rx s =
    (map_option (patch off (fst (spi_framed dev release s (take (n - off) (drop off t))))) rx,
     snd (spi_framed dev release s (take (n - off) (drop off t))))"
  using assms
proof (induction "n - off" arbitrary: off rx s rule: less_induct)
  case less
  show ?case
  proof (cases "off < n")
    case False
    then show ?thesis by (subst spi_chunks.simps) (simp add: option.map_ident_strong)
  next
    case True
    define chunk where "chunk = min SPI_CHUNK_MAX (n - off)"
    define out where "out = take chunk (drop off t)"
    obtain rs s1 where x: "spi_exchange dev s out = (rs, s1)" by fastforce
    have lout: "length out = chunk" using True less.prems(1) by (simp add: out_def chunk_def)
    then have lrs: "length rs = chunk" using length_spi_exchange [of dev s out] x by simp
    have k: "kernel_exchange dev release s out rate = (int chunk, rs, release s1)" by (simp add: kernel_exchange_def x lout)
    have le: "off + chunk \<le> n" using True by (simp add: chunk_def)
    let ?rx = "map_option (patch off rs) rx"
    have step: "spi_chunks (kernel_exchange dev release) rate (Some t) n off rx s
        = spi_chunks (kernel_exchange dev release) rate (Some t) n (off + SPI_CHUNK_MAX) ?rx (release s1)"
      by (subst spi_chunks.simps) (simp add: True Let_def chunk_def [symmetric] out_def [symmetric] k)
    have rx: "n \<le> length r" if "?rx = Some r" for r
      using that less.prems(2) le lrs by (auto simp: order.trans)
    have meas: "n - (off + SPI_CHUNK_MAX) < n - off" using True by (simp add: SPI_CHUNK_MAX_def)
    let ?rest = "take (n - (off + SPI_CHUNK_MAX)) (drop (off + SPI_CHUNK_MAX) t)"
    note IH = less.hyps [OF meas less.prems(1) rx]
    obtain qs s2 where q: "spi_framed dev release (release s1) ?rest = (qs, s2)" by fastforce
    have whole: "spi_framed dev release s (take (n - off) (drop off t)) = (rs @ qs, s2)"
      using True less.prems(1) x q
      by (subst spi_framed.simps) (simp add: out_def chunk_def SPI_CHUNK_MAX_def drop_take add.commute)
    have qlen: "length qs = n - (off + SPI_CHUNK_MAX)"
      using length_spi_framed [of dev release "release s1" ?rest] q less.prems(1) by simp
    have "map_option (patch (off + SPI_CHUNK_MAX) qs) ?rx = map_option (patch off (rs @ qs)) rx"
      using lrs qlen less.prems(2) by (intro patch_chunks) (auto simp: chunk_def)
    then show ?thesis by (simp add: step IH q whole)
  qed
qed



text \<open>With a chip select that the kernel drives, a transfer of more than 4096 bytes is several transactions to the
  device: one that counts the bytes of a transaction and is asked for 4097 of them starts again at the last.\<close>

lemma spi_chip_select_released:
  "fst (spi_framed (\<lambda>c b. (of_bool (c = 0), Suc c)) (\<lambda>_. 0) 0 (replicate 4097 (0 :: u8))) ! 4096 = 1
   \<and> fst (spi_exchange (\<lambda>c b. (of_bool (c = 0), Suc c)) 0 (replicate 4097 (0 :: u8))) ! 4096 = (0 :: u8)"
proof -
  have e: "spi_exchange (\<lambda>c b. (of_bool (c = 0), Suc c)) k (replicate n (0 :: u8)) = (map (\<lambda>i. of_bool (k + i = 0)) [0..<n], k + n)" for k n
  proof (induction n arbitrary: k)
    case (Suc n)
    show ?case by (simp add: Suc upt_conv_Cons map_Suc_upt [symmetric] del: upt_Suc)
  qed simp
  show ?thesis
    by (subst spi_framed.simps, subst spi_framed.simps, subst spi_framed.simps) (simp add: e nth_append)
qed

text \<open>Whatever the kernel answers, the messages are consecutive parts of the buffer, at most 4096 bytes each, and the
  first short one ends the transfer. The kernel of this statement keeps the messages it was given.\<close>

definition logging_kernel :: "(bytes \<Rightarrow> int \<times> bytes) \<Rightarrow> bytes list spi_kernel" where
  "logging_kernel f log out rate = (case f out of (rc, rcv) \<Rightarrow> (rc, rcv, log @ [out]))"

lemma spi_chunks_log:
  "n \<le> length t \<Longrightarrow> \<exists>outs rest. snd (spi_chunks (logging_kernel f) rate (Some t) n off rx log) = log @ outs
     \<and> concat outs @ rest = take (n - off) (drop off t) \<and> list_all (\<lambda>m. length m \<le> 4096) outs
     \<and> (list_all (\<lambda>m. int (length m) \<le> fst (f m)) outs \<longrightarrow> rest = [])"
proof (induction "n - off" arbitrary: off rx log rule: less_induct)
  case less
  show ?case
  proof (cases "off < n")
    case False
    then show ?thesis by (subst spi_chunks.simps) simp
  next
    case True
    define chunk where "chunk = min SPI_CHUNK_MAX (n - off)"
    define out where "out = take chunk (drop off t)"
    obtain rc rcv where f: "f out = (rc, rcv)" by fastforce
    have lout: "length out = chunk" using True less.prems by (simp add: out_def chunk_def)
    have small: "length out \<le> 4096" by (simp add: lout chunk_def SPI_CHUNK_MAX_def)
    let ?rest = "take (n - (off + SPI_CHUNK_MAX)) (drop (off + SPI_CHUNK_MAX) t)"
    let ?rx = "map_option (patch off rcv) rx"
    have cut: "take (n - off) (drop off t) = out @ ?rest"
      unfolding out_def chunk_def by (rule chunk_cut)
    have step: "spi_chunks (logging_kernel f) rate (Some t) n off rx log = (if rc < int chunk then (?rx, log @ [out])
        else spi_chunks (logging_kernel f) rate (Some t) n (off + SPI_CHUNK_MAX) ?rx (log @ [out]))"
      by (subst spi_chunks.simps)
        (simp add: True Let_def chunk_def [symmetric] out_def [symmetric] logging_kernel_def f)
    show ?thesis
    proof (cases "rc < int chunk")
      case True
      show ?thesis
        by (rule exI [of _ "[out]"], rule exI [of _ ?rest]) (use True small in \<open>auto simp: step cut lout f\<close>)
    next
      case short: False
      have meas: "n - (off + SPI_CHUNK_MAX) < n - off" using True by (simp add: SPI_CHUNK_MAX_def)
      obtain outs rest where r: "snd (spi_chunks (logging_kernel f) rate (Some t) n (off + SPI_CHUNK_MAX) ?rx (log @ [out]))
          = (log @ [out]) @ outs" "concat outs @ rest = ?rest" "list_all (\<lambda>m. length m \<le> 4096) outs"
        "list_all (\<lambda>m. int (length m) \<le> fst (f m)) outs \<longrightarrow> rest = []"
        using less.hyps [OF meas less.prems, of ?rx "log @ [out]"] by blast
      show ?thesis
        by (rule exI [of _ "out # outs"], rule exI [of _ rest]) (use r in \<open>simp add: step short cut small\<close>)
    qed
  qed
qed

text \<open>A controller that rejects least-significant-bit first gets the same mode without that bit, in this and every later
  transaction; \<open>write16\<close> goes on sending in the configured order.\<close>

lemma spi_lsb_fallback:
  assumes "0 \<le> sd_fd d" "\<not> accepts (sd_kernel_mode d)" "sd_kernel_mode d AND SPI_LSB_FIRST \<noteq> 0"
    "accepts (sd_kernel_mode d AND NOT SPI_LSB_FIRST)"
  shows "begin_transaction accepts cur d = (sd_kernel_mode d AND NOT SPI_LSB_FIRST,
      d\<lparr>sd_kernel_mode := sd_kernel_mode d AND NOT SPI_LSB_FIRST\<rparr>)"
    and "begin_transaction accepts c2 (snd (begin_transaction accepts cur d)) = begin_transaction accepts cur d"
  using assms by (simp_all add: begin_transaction_def Let_def)

lemma write16_order:
  "le16 (write16_bytes LSB_FIRST v ! 0) (write16_bytes LSB_FIRST v ! 1) = v"
  "le16 (write16_bytes MSB_FIRST v ! 1) (write16_bytes MSB_FIRST v ! 0) = v"
proof -
  have m: "(0xFF :: u16) = mask 8" by (simp add: mask_eq_exp_minus_1)
  have "ucast (v AND 0xFF) = (ucast v :: u8)" "ucast (drop_bit 8 v AND 0xFF) = (ucast (drop_bit 8 v) :: u8)"
    unfolding m by (rule bit_word_eqI, simp add: bit_simps)+
  then show "le16 (write16_bytes LSB_FIRST v ! 0) (write16_bytes LSB_FIRST v ! 1) = v"
    "le16 (write16_bytes MSB_FIRST v ! 1) (write16_bytes MSB_FIRST v ! 0) = v"
    by (simp_all add: write16_bytes_def le16_of_bytes)
qed

end
