(* ===== verification/Linux_Sensors.thy ===== *)
theory Linux_Sensors
  imports Text Bthome
begin

text \<open>
  The sensors read from sysfs: the kernel's 1-Wire devices (\<open>components/linux_w1\<close>) and any numeric attribute
  (\<open>components/linux_sysfs_sensor\<close>), and the clock component (\<open>components/linux_time\<close>), whose only
  action is to announce at setup that the time is known.

  A \<open>float\<close> is its value: a finite binary32 number as the rational it denotes, an infinity, or NaN.
  \<open>None\<close> for the content of a file means that it cannot be opened.
\<close>

section \<open>Binary32 arithmetic\<close>

datatype f32 = S_fin rat | S_inf bool | S_nan

definition f32_exp :: "rat \<Rightarrow> int" where
  "f32_exp q = (if 1 \<le> q then int (lg_up q) - 23 else max (- int (lg_dn 149 q) - 23) (- 149))"

definition f32_round :: "rat \<Rightarrow> rat" where
  "f32_round q =
    (if q = 0 then 0
     else let u = pow2 (f32_exp \<bar>q\<bar>) in of_int (round_half_even (q / u)) * u)"

definition f32_value :: "rat \<Rightarrow> f32" where
  "f32_value q = (let r = f32_round q in if 2 ^ 128 \<le> \<bar>r\<bar> then S_inf (0 < r) else S_fin r)"

text \<open>A \<open>long\<close> as \<open>float\<close>: below \<open>2 ^ 64\<close>, so finite.\<close>

definition float_of_long :: "int \<Rightarrow> rat" where
  "float_of_long m = f32_round (of_int m)"

section \<open>Decimal input\<close>

text \<open>\<open>strtol (s, &endptr, 10)\<close> with \<open>long\<close> of 64 bits: \<open>None\<close> when no digit was read (\<open>endptr == s\<close>) or the value
  is out of range (\<open>errno = ERANGE\<close>).\<close>

definition strtol :: "string \<Rightarrow> int option" where
  "strtol s = (let s1 = dropWhile isspace (cstr s);
      neg = (s1 \<noteq> [] \<and> hd s1 = CHR ''-'');
      s2 = (if s1 \<noteq> [] \<and> (hd s1 = CHR ''-'' \<or> hd s1 = CHR ''+'') then tl s1 else s1);
      ds = takeWhile is_digit s2;
      v = (if neg then - int (dec_val ds) else int (dec_val ds))
    in if ds = [] \<or> v < - (2 ^ 63) \<or> 2 ^ 63 \<le> v then None else Some v)"

section \<open>1-Wire sensor\<close>

record w1_sensor =
  w1_address :: string
  w1_sysfs_path :: string
  w1_path_ok :: bool
  w1_warning :: bool
  w1_published :: "f32 list"

definition w1_setup :: "(string \<Rightarrow> bool) \<Rightarrow> w1_sensor \<Rightarrow> w1_sensor" where
  "w1_setup readable s =
    (let path = ''/sys/bus/w1/devices/'' @ w1_address s @ ''/temperature''
     in s\<lparr>w1_sysfs_path := path, w1_path_ok := readable path\<rparr>)"

definition w1_bad_read :: "w1_sensor \<Rightarrow> w1_sensor" where
  "w1_bad_read s = s\<lparr>w1_published := w1_published s @ [S_nan], w1_warning := True\<rparr>"

text \<open>\<open>std::getline\<close> fails at the end of the file, and an empty line is refused as well.\<close>

definition w1_update :: "(string \<Rightarrow> string option) \<Rightarrow> w1_sensor \<Rightarrow> w1_sensor" where
  "w1_update fs s =
    (case fs (w1_sysfs_path s) of
       None \<Rightarrow> w1_bad_read s
     | Some content \<Rightarrow>
         (let line = takeWhile (\<lambda>c. c \<noteq> CHR 0x0A) content
          in if line = [] then w1_bad_read s
             else case strtol line of
               None \<Rightarrow> w1_bad_read s
             | Some milli \<Rightarrow>
                 if milli = 85000 then w1_bad_read s
                 else s\<lparr>w1_published := w1_published s @ [f32_value (float_of_long milli / 1000)],
                        w1_warning := False\<rparr>))"

section \<open>sysfs sensor\<close>

record sysfs_sensor =
  sy_path :: string
  sy_scale :: rat
  sy_failed :: bool
  sy_published :: "f32 list"

definition sysfs_setup :: "(string \<Rightarrow> string option) \<Rightarrow> sysfs_sensor \<Rightarrow> sysfs_sensor" where
  "sysfs_setup fs s = (if fs (sy_path s) = None then s\<lparr>sy_failed := True\<rparr> else s)"

definition sysfs_publish :: "f32 \<Rightarrow> sysfs_sensor \<Rightarrow> sysfs_sensor" where
  "sysfs_publish v s = s\<lparr>sy_published := sy_published s @ [v]\<rparr>"

text \<open>One \<open>read\<close> of at most 127 bytes; \<open>fails\<close> when it returns an error, as a driver does that answers \<open>EAGAIN\<close>.\<close>

definition sysfs_update :: "(string \<Rightarrow> string option) \<Rightarrow> bool \<Rightarrow> sysfs_sensor \<Rightarrow> sysfs_sensor" where
  "sysfs_update fs fails s =
    (case fs (sy_path s) of
       None \<Rightarrow> sysfs_publish S_nan s
     | Some content \<Rightarrow>
         if fails \<or> take 127 content = [] then sysfs_publish S_nan s
         else case strtol (take 127 content) of
           None \<Rightarrow> sysfs_publish S_nan s
         | Some raw_value \<Rightarrow> sysfs_publish (f32_value (float_of_long raw_value * sy_scale s)) s)"

section \<open>Clock\<close>

text \<open>The number of times the synchronisation callback has been called.\<close>

definition time_setup :: "nat \<Rightarrow> nat" where
  "time_setup synced = synced + 1"

section \<open>Reading what the kernel prints\<close>

definition sdec_line :: "int \<Rightarrow> string" where
  "sdec_line m = (if m < 0 then CHR ''-'' # dec (nat (- m)) else dec (nat m)) @ [CHR 0x0A]"

lemma takeWhile_digits: "takeWhile is_digit (dec n @ [CHR 0x0A]) = dec n" "takeWhile is_digit (dec n) = dec n"
proof -
  have "list_all is_digit (dec n)" by (rule dec_digits)
  moreover have "\<not> is_digit (CHR 0x0A)" by code_simp
  ultimately show "takeWhile is_digit (dec n @ [CHR 0x0A]) = dec n" "takeWhile is_digit (dec n) = dec n"
    by (simp_all add: list_all_iff takeWhile_append2 takeWhile_eq_all_conv)
qed

lemma dec_cons: "\<exists>c s. dec n = c # s \<and> is_digit c"
  using dec_not_Nil [of n] set_dec [of _ n] by (cases "dec n") auto

lemma strtol_printed:
  assumes "t = [] \<or> t = [CHR 0x0A]" "- (2 ^ 63) \<le> m" "m < 2 ^ 63"
  shows "strtol ((if m < 0 then CHR ''-'' # dec (nat (- m)) else dec (nat m)) @ t) = Some m"
proof -
  have digits: "takeWhile is_digit (dec n @ t) = dec n" for n using takeWhile_digits assms(1) by auto
  have plain: "CHR 0x00 \<notin> set (dec n)" for n using set_dec [of _ n] digit_plain(4) by blast
  have z: "cstr (xs @ t) = xs @ t" if "CHR 0x00 \<notin> set xs" for xs
    unfolding cstr_def takeWhile_eq_all_conv using that assms(1) by auto
  show ?thesis
  proof (cases "m < 0")
    case True
    have c: "cstr (CHR ''-'' # dec (nat (- m)) @ t) = CHR ''-'' # dec (nat (- m)) @ t"
      using z [of "CHR ''-'' # dec (nat (- m))"] plain [of "nat (- m)"] by simp
    have "\<not> isspace (CHR ''-'')" by code_simp
    then show ?thesis using True assms(2,3) by (simp add: strtol_def c Let_def digits)
  next
    case False
    obtain c s where d: "dec (nat m) = c # s" "is_digit c" using dec_cons by blast
    have "cstr (dec (nat m) @ t) = dec (nat m) @ t" using z plain by blast
    then show ?thesis
      using False assms(2,3) digit_plain(1-3) [OF d(2)] digits [of "nat m"] dec_val_dec [of "nat m"] d(1)
      by (simp add: strtol_def Let_def)
  qed
qed

lemma strtol_line: "- (2 ^ 63) \<le> m \<Longrightarrow> m < 2 ^ 63 \<Longrightarrow> strtol (sdec_line m) = Some m"
  unfolding sdec_line_def by (rule strtol_printed) simp_all

lemma first_line: "takeWhile (\<lambda>c. c \<noteq> CHR 0x0A) (sdec_line m) = (if m < 0 then CHR ''-'' # dec (nat (- m)) else dec (nat m))"
proof -
  have "takeWhile (\<lambda>c. c \<noteq> CHR 0x0A) (xs @ [CHR 0x0A]) = xs" if "CHR 0x0A \<notin> set xs" for xs
    using that by (subst takeWhile_append2) auto
  then show ?thesis by (simp add: sdec_line_def)
qed

section \<open>Rounding errors\<close>

lemma f32_round_error: "\<bar>f32_round q - q\<bar> \<le> pow2 (f32_exp \<bar>q\<bar>) / 2"
proof (cases "q = 0")
  case True
  then show ?thesis using pow2_pos [of "f32_exp 0"] by (simp add: f32_round_def)
next
  case False
  let ?u = "pow2 (f32_exp \<bar>q\<bar>)"
  have u: "0 < ?u" by (rule pow2_pos)
  have "f32_round q - q = (of_int (round_half_even (q / ?u)) - q / ?u) * ?u"
    using False u by (simp add: f32_round_def Let_def left_diff_distrib)
  then have "\<bar>f32_round q - q\<bar> = \<bar>of_int (round_half_even (q / ?u)) - q / ?u\<bar> * ?u"
    using u by (simp add: abs_mult)
  also have "\<dots> \<le> 1 / 2 * ?u"
    using u by (intro mult_right_mono round_half_even_error) auto
  finally show ?thesis by simp
qed

lemma f32_exp_le: "\<bar>q\<bar> < 2 ^ Suc k \<Longrightarrow> k \<le> 23 \<Longrightarrow> f32_exp \<bar>q\<bar> \<le> int k - 23"
  using lg_up_le [of "\<bar>q\<bar>" k] by (auto simp: f32_exp_def)

lemma round_half_even_int: "round_half_even (of_int k) = k"
  by (simp add: round_half_even_def)

text \<open>Integers of at most 24 bits are exact.\<close>

lemma f32_round_int:
  assumes "\<bar>k\<bar> < 2 ^ 24"
  shows "f32_round (of_int k) = of_int k"
proof (cases "k = 0")
  case False
  have "\<bar>of_int k :: rat\<bar> < 2 ^ Suc 23"
  proof -
    have "\<bar>of_int k :: rat\<bar> = of_int \<bar>k\<bar>" by simp
    also have "\<dots> < of_int (2 ^ 24)" using assms by (simp only: of_int_less_iff)
    finally show ?thesis by simp
  qed
  then have e: "f32_exp \<bar>of_int k\<bar> \<le> 0" using f32_exp_le [of "of_int k" 23] by simp
  define j where "j = nat (- f32_exp \<bar>of_int k\<bar>)"
  have u: "pow2 (f32_exp \<bar>of_int k\<bar>) = 1 / 2 ^ j" using e by (simp add: pow2_def j_def)
  have "round_half_even (of_int k * 2 ^ j) = k * 2 ^ j" using round_half_even_int [of "k * 2 ^ j"] by simp
  then show ?thesis using False unfolding f32_round_def Let_def u by simp
qed (simp add: f32_round_def)

lemma f32_round_error_7: "\<bar>q\<bar> < 2 ^ 7 \<Longrightarrow> \<bar>f32_round q - q\<bar> \<le> 1 / 2 ^ 18"
proof -
  assume "\<bar>q\<bar> < 2 ^ 7"
  then have "f32_exp \<bar>q\<bar> \<le> - 17" using f32_exp_le [of q 6] by simp
  then have "pow2 (f32_exp \<bar>q\<bar>) \<le> pow2 (- 17)" by (rule pow2_mono)
  with f32_round_error [of q] show ?thesis by (simp add: pow2_def)
qed

text \<open>A sensor with scale 1 publishes a printed integer of at most 24 bits exactly.\<close>

lemma sysfs_integer_exact:
  assumes "fs (sy_path s) = Some (sdec_line m)" "\<bar>m\<bar> < 2 ^ 24" "sy_scale s = 1" "length (sdec_line m) \<le> 127"
  shows "sysfs_update fs False s = sysfs_publish (S_fin (of_int m)) s"
proof -
  have "\<not> 2 ^ 128 \<le> \<bar>of_int m :: rat\<bar>"
  proof -
    have "\<bar>of_int m :: rat\<bar> = of_int \<bar>m\<bar>" by simp
    also have "\<dots> < of_int (2 ^ 24)" using assms(2) by (simp only: of_int_less_iff)
    also have "\<dots> < 2 ^ 128" by simp
    finally show ?thesis by simp
  qed
  moreover have "sdec_line m \<noteq> []" by (simp add: sdec_line_def)
  moreover have "strtol (sdec_line m) = Some m" using assms(2) by (intro strtol_line) auto
  ultimately show ?thesis
    using assms f32_round_int [OF assms(2)]
    by (simp add: sysfs_update_def f32_value_def float_of_long_def Let_def)
qed

text \<open>A temperature the kernel prints in millidegrees is published within 2 ^ -18 degrees, for the whole range of the
  sensor from -55 to 125 degrees, and clears the warning; only 85.000, the power-on value, is published as NaN with
  a warning.\<close>

theorem w1_reading:
  assumes "fs (w1_sysfs_path s) = Some (sdec_line m)" "- 55000 \<le> m" "m \<le> 125000"
  shows "if m = 85000 then w1_update fs s = w1_bad_read s
    else \<exists>v. w1_update fs s = s\<lparr>w1_published := w1_published s @ [S_fin v], w1_warning := False\<rparr>
      \<and> \<bar>v - of_int m / 1000\<bar> \<le> 1 / 2 ^ 18"
proof -
  let ?l = "if m < 0 then CHR ''-'' # dec (nat (- m)) else dec (nat m)"
  have l: "takeWhile (\<lambda>c. c \<noteq> CHR 0x0A) (sdec_line m) = ?l" by (rule first_line)
  have ne: "?l \<noteq> []" by simp
  have p: "strtol ?l = Some m" using strtol_printed [of "[]" m] assms(2,3) by simp
  have f: "float_of_long m = of_int m"
    unfolding float_of_long_def by (rule f32_round_int) (use assms(2,3) in simp)
  let ?q = "of_int m / 1000 :: rat"
  have b: "of_int m \<le> (125000 :: rat)" "- 55000 \<le> (of_int m :: rat)"
    using assms(2,3) by (metis of_int_le_iff of_int_numeral, metis of_int_le_iff of_int_neg_numeral)
  then have q: "\<bar>?q\<bar> < 2 ^ 7" by (auto simp: abs_less_iff)
  have e: "\<bar>f32_round ?q - ?q\<bar> \<le> 1 / 2 ^ 18" by (rule f32_round_error_7 [OF q])
  have "\<bar>f32_round ?q\<bar> < 2 ^ 7 + 1"
    using e q by (simp add: abs_if split: if_splits)
  then have v: "f32_value ?q = S_fin (f32_round ?q)" by (simp add: f32_value_def)
  have "w1_update fs s = (if m = 85000 then w1_bad_read s
      else s\<lparr>w1_published := w1_published s @ [S_fin (f32_round ?q)], w1_warning := False\<rparr>)"
    unfolding w1_update_def assms(1) option.case Let_def l by (simp only: ne p f v if_False option.case)
  then show ?thesis using e by auto
qed

theorem w1_reading_witness:
  "w1_update (\<lambda>_. Some (sdec_line 85000)) \<lparr>w1_address = [], w1_sysfs_path = [], w1_path_ok = True, w1_warning = False,
      w1_published = []\<rparr> = \<lparr>w1_address = [], w1_sysfs_path = [], w1_path_ok = True, w1_warning = True, w1_published = [S_nan]\<rparr>"
  using w1_reading [of "\<lambda>_. Some (sdec_line 85000)" "\<lparr>w1_address = [], w1_sysfs_path = [], w1_path_ok = True,
      w1_warning = False, w1_published = []\<rparr>" 85000]
  by (simp add: w1_bad_read_def)

end
