(* ===== verification/Mqtt_Backend.thy ===== *)
theory Mqtt_Backend
  imports Prelude
begin

text \<open>
  The MQTT backend (\<open>components/mqtt/mqtt_backend_host.{h,cpp}\<close>): the life of the mosquitto client it owns, the
  calls it makes under \<open>mu_\<close>, and the callbacks that the network thread of the library runs.

  The library is not under \<open>src/\<close>: its results are arguments (\<open>mqtt_env\<close>, the \<open>rc\<close> of a call) and the calls are
  recorded in \<open>mq_calls\<close>; \<open>mosq_call_ok\<close> is its documented protocol. A \<open>std::function\<close> is present or empty
  (\<open>mq_cbs\<close>), and what it is called with is recorded in \<open>mq_events\<close>. A \<open>const char *\<close> that may be null is a
  \<open>string option\<close>.
\<close>

section \<open>State\<close>

datatype mqtt_reason = MQTT_NOT_AUTHORIZED | DNS_RESOLVE_ERROR | MQTT_UNACCEPTABLE_PROTOCOL_VERSION
  | TCP_DISCONNECTED

datatype mqtt_cb = On_connect | On_disconnect | On_subscribe | On_unsubscribe | On_message | On_publish

datatype mqtt_event =
    ME_connect bool
  | ME_disconnect mqtt_reason
  | ME_subscribe u16 u8
  | ME_unsubscribe u16
  | ME_publish u16
  | ME_message string bytes u64 u64 u64

text \<open>Calls of the library; the first argument is the client, the \<open>bool\<close> of \<open>MC_loop_start\<close> its success.\<close>

datatype mosq_call =
    MC_new "nat option" "string option" bool
  | MC_set_callbacks nat
  | MC_username nat string "string option"
  | MC_will nat string "32 word" string u8 bool
  | MC_reconnect_delay nat nat nat bool
  | MC_connect_async nat string u16 u16
  | MC_loop_start nat bool
  | MC_loop_stop nat bool
  | MC_destroy nat
  | MC_disconnect nat
  | MC_subscribe nat string u8
  | MC_unsubscribe nat string
  | MC_publish nat string "32 word" bytes u8 bool

record mqtt_backend =
  mq_mosq :: "nat option"
  mq_connected :: bool
  mq_want_disconnect :: bool
  mq_loop_started :: bool
  mq_keep_alive :: u16
  mq_client_id :: string
  mq_clean_session :: bool
  mq_username :: string
  mq_password :: string
  mq_will_topic :: string
  mq_will_payload :: string
  mq_will_qos :: u8
  mq_will_retain :: bool
  mq_host :: string
  mq_port :: u16
  mq_ca_certificate :: string
  mq_cl_certificate :: string
  mq_cl_key :: string
  mq_skip_cert_cn_check :: bool
  mq_cbs :: "mqtt_cb set"
  mq_calls :: "mosq_call list"
  mq_events :: "mqtt_event list"

text \<open>Results of \<open>mosquitto_new\<close>, \<open>mosquitto_connect_async\<close> and \<open>mosquitto_loop_start\<close>.\<close>

record mqtt_env =
  me_new :: "nat option"
  me_connect :: int
  me_loop :: int

definition MOSQ_ERR_SUCCESS :: int where "MOSQ_ERR_SUCCESS = 0"
definition MOSQ_ERR_PROTOCOL :: int where "MOSQ_ERR_PROTOCOL = 2"
definition MOSQ_ERR_CONN_REFUSED :: int where "MOSQ_ERR_CONN_REFUSED = 5"
definition MOSQ_ERR_NOT_FOUND :: int where "MOSQ_ERR_NOT_FOUND = 6"

definition mq_init :: mqtt_backend where
  "mq_init = \<lparr>mq_mosq = None, mq_connected = False, mq_want_disconnect = False, mq_loop_started = False,
     mq_keep_alive = 15, mq_client_id = [], mq_clean_session = True, mq_username = [], mq_password = [],
     mq_will_topic = [], mq_will_payload = [], mq_will_qos = 0, mq_will_retain = False,
     mq_host = ''127.0.0.1'', mq_port = 1883, mq_ca_certificate = [], mq_cl_certificate = [], mq_cl_key = [],
     mq_skip_cert_cn_check = False, mq_cbs = {}, mq_calls = [], mq_events = []\<rparr>"

definition mcall :: "mosq_call \<Rightarrow> mqtt_backend \<Rightarrow> mqtt_backend" where
  "mcall c b = b\<lparr>mq_calls := mq_calls b @ [c]\<rparr>"

text \<open>A call of a \<open>std::function\<close> behind its test.\<close>

definition notify_app :: "mqtt_cb \<Rightarrow> mqtt_event \<Rightarrow> mqtt_backend \<Rightarrow> mqtt_backend" where
  "notify_app k e b = (if k \<in> mq_cbs b then b\<lparr>mq_events := mq_events b @ [e]\<rparr> else b)"

section \<open>Configuration\<close>

definition str_or_empty :: "string option \<Rightarrow> string" where
  "str_or_empty s = (case s of Some x \<Rightarrow> x | None \<Rightarrow> [])"

definition mq_set_keep_alive :: "u16 \<Rightarrow> mqtt_backend \<Rightarrow> mqtt_backend" where
  "mq_set_keep_alive k b = b\<lparr>mq_keep_alive := k\<rparr>"

definition mq_set_client_id :: "string option \<Rightarrow> mqtt_backend \<Rightarrow> mqtt_backend" where
  "mq_set_client_id s b = b\<lparr>mq_client_id := str_or_empty s\<rparr>"

definition mq_set_clean_session :: "bool \<Rightarrow> mqtt_backend \<Rightarrow> mqtt_backend" where
  "mq_set_clean_session c b = b\<lparr>mq_clean_session := c\<rparr>"

definition mq_set_credentials :: "string option \<Rightarrow> string option \<Rightarrow> mqtt_backend \<Rightarrow> mqtt_backend" where
  "mq_set_credentials u p b = b\<lparr>mq_username := str_or_empty u, mq_password := str_or_empty p\<rparr>"

definition mq_set_will :: "string option \<Rightarrow> u8 \<Rightarrow> bool \<Rightarrow> string option \<Rightarrow> mqtt_backend \<Rightarrow> mqtt_backend" where
  "mq_set_will topic qos retain payload b = b\<lparr>mq_will_topic := str_or_empty topic,
     mq_will_payload := str_or_empty payload, mq_will_qos := qos, mq_will_retain := retain\<rparr>"

text \<open>The overload with an \<open>IPAddress\<close> prints it and then does the same.\<close>

definition mq_set_server :: "string option \<Rightarrow> u16 \<Rightarrow> mqtt_backend \<Rightarrow> mqtt_backend" where
  "mq_set_server host port b = b\<lparr>mq_host := str_or_empty host, mq_port := port\<rparr>"

definition mq_set_callback :: "mqtt_cb \<Rightarrow> bool \<Rightarrow> mqtt_backend \<Rightarrow> mqtt_backend" where
  "mq_set_callback k present b =
     b\<lparr>mq_cbs := (if present then insert k (mq_cbs b) else mq_cbs b - {k})\<rparr>"

definition mq_set_ca_certificate :: "string option \<Rightarrow> mqtt_backend \<Rightarrow> mqtt_backend" where
  "mq_set_ca_certificate c b = (case c of Some x \<Rightarrow> b\<lparr>mq_ca_certificate := x\<rparr> | None \<Rightarrow> b)"

definition mq_set_cl_certificate :: "string option \<Rightarrow> mqtt_backend \<Rightarrow> mqtt_backend" where
  "mq_set_cl_certificate c b = (case c of Some x \<Rightarrow> b\<lparr>mq_cl_certificate := x\<rparr> | None \<Rightarrow> b)"

definition mq_set_cl_key :: "string option \<Rightarrow> mqtt_backend \<Rightarrow> mqtt_backend" where
  "mq_set_cl_key c b = (case c of Some x \<Rightarrow> b\<lparr>mq_cl_key := x\<rparr> | None \<Rightarrow> b)"

definition mq_set_skip_cert_cn_check :: "bool \<Rightarrow> mqtt_backend \<Rightarrow> mqtt_backend" where
  "mq_set_skip_cert_cn_check s b = b\<lparr>mq_skip_cert_cn_check := s\<rparr>"

text \<open>All of them, as one command.\<close>

datatype mqtt_config =
    MG_keep_alive u16
  | MG_client_id "string option"
  | MG_clean_session bool
  | MG_credentials "string option" "string option"
  | MG_will "string option" u8 bool "string option"
  | MG_server "string option" u16
  | MG_callback mqtt_cb bool
  | MG_ca_certificate "string option"
  | MG_cl_certificate "string option"
  | MG_cl_key "string option"
  | MG_skip_cert_cn_check bool

fun mq_configure :: "mqtt_config \<Rightarrow> mqtt_backend \<Rightarrow> mqtt_backend" where
  "mq_configure (MG_keep_alive k) b = mq_set_keep_alive k b"
| "mq_configure (MG_client_id s) b = mq_set_client_id s b"
| "mq_configure (MG_clean_session c) b = mq_set_clean_session c b"
| "mq_configure (MG_credentials u p) b = mq_set_credentials u p b"
| "mq_configure (MG_will t q r p) b = mq_set_will t q r p b"
| "mq_configure (MG_server h p) b = mq_set_server h p b"
| "mq_configure (MG_callback k pr) b = mq_set_callback k pr b"
| "mq_configure (MG_ca_certificate c) b = mq_set_ca_certificate c b"
| "mq_configure (MG_cl_certificate c) b = mq_set_cl_certificate c b"
| "mq_configure (MG_cl_key c) b = mq_set_cl_key c b"
| "mq_configure (MG_skip_cert_cn_check s) b = mq_set_skip_cert_cn_check s b"

section \<open>Connecting\<close>

definition translate_rc :: "int \<Rightarrow> mqtt_reason" where
  "translate_rc rc =
    (if rc = MOSQ_ERR_CONN_REFUSED then MQTT_NOT_AUTHORIZED
     else if rc = MOSQ_ERR_NOT_FOUND then DNS_RESOLVE_ERROR
     else if rc = MOSQ_ERR_PROTOCOL then MQTT_UNACCEPTABLE_PROTOCOL_VERSION
     else TCP_DISCONNECTED)"

text \<open>The first block of \<open>connect\<close>.\<close>

definition connect_reset :: "mqtt_backend \<Rightarrow> mqtt_backend" where
  "connect_reset b = (case mq_mosq b of
       None \<Rightarrow> b
     | Some h \<Rightarrow>
         (let b1 = (if mq_loop_started b then (mcall (MC_loop_stop h True) b)\<lparr>mq_loop_started := False\<rparr> else b)
          in (mcall (MC_destroy h) b1)\<lparr>mq_mosq := None\<rparr>))"

definition mosq_setup :: "nat \<Rightarrow> mqtt_backend \<Rightarrow> mqtt_backend" where
  "mosq_setup h b =
    (let b1 = mcall (MC_set_callbacks h) b;
         b2 = (if mq_username b1 \<noteq> [] then
                 mcall (MC_username h (mq_username b1)
                   (if mq_password b1 = [] then None else Some (mq_password b1))) b1
               else b1);
         b3 = (if mq_will_topic b2 \<noteq> [] then
                 mcall (MC_will h (mq_will_topic b2) (of_nat (length (mq_will_payload b2))) (mq_will_payload b2)
                   (mq_will_qos b2) (mq_will_retain b2)) b2
               else b2)
     in mcall (MC_reconnect_delay h 1 60 True) b3)"

definition mosq_drop :: "nat \<Rightarrow> mqtt_backend \<Rightarrow> mqtt_backend" where
  "mosq_drop h b = (mcall (MC_destroy h) b)\<lparr>mq_mosq := None\<rparr>"

definition connect_start :: "mqtt_env \<Rightarrow> nat \<Rightarrow> mqtt_backend \<Rightarrow> mqtt_backend" where
  "connect_start env h b =
    (let b1 = mcall (MC_connect_async h (mq_host b) (mq_port b) (mq_keep_alive b)) (b\<lparr>mq_want_disconnect := False\<rparr>)
     in if me_connect env \<noteq> MOSQ_ERR_SUCCESS then
          mosq_drop h (notify_app On_disconnect (ME_disconnect (translate_rc (me_connect env))) b1)
        else
          (let b2 = mcall (MC_loop_start h (me_loop env = MOSQ_ERR_SUCCESS)) b1
           in if me_loop env \<noteq> MOSQ_ERR_SUCCESS then mosq_drop h b2
              else b2\<lparr>mq_loop_started := True\<rparr>))"

definition connect_new :: "mqtt_env \<Rightarrow> mqtt_backend \<Rightarrow> mqtt_backend" where
  "connect_new env b =
    (let ident = (if mq_client_id b = [] then None else Some (mq_client_id b));
         b1 = (mcall (MC_new (me_new env) ident (mq_clean_session b)) b)\<lparr>mq_mosq := me_new env\<rparr>
     in case me_new env of
          None \<Rightarrow> notify_app On_disconnect (ME_disconnect TCP_DISCONNECTED) b1
        | Some h \<Rightarrow> connect_start env h (mosq_setup h b1))"

definition mq_connect :: "mqtt_env \<Rightarrow> mqtt_backend \<Rightarrow> mqtt_backend" where
  "mq_connect env b = connect_new env (connect_reset b)"

definition mq_disconnect :: "mqtt_backend \<Rightarrow> mqtt_backend" where
  "mq_disconnect b0 =
    (let b = b0\<lparr>mq_want_disconnect := True\<rparr>
     in case mq_mosq b of
          None \<Rightarrow> b
        | Some h \<Rightarrow>
            (let b1 = mcall (MC_disconnect h) b
             in if mq_loop_started b1 then (mcall (MC_loop_stop h False) b1)\<lparr>mq_loop_started := False\<rparr> else b1))"

text \<open>The destructor.\<close>

definition mq_destroy :: "mqtt_backend \<Rightarrow> mqtt_backend" where
  "mq_destroy b = (case mq_mosq b of
       None \<Rightarrow> b
     | Some h \<Rightarrow>
         (let b1 = (if mq_loop_started b then mcall (MC_loop_stop h True) b else b)
          in (mcall (MC_destroy h) b1)\<lparr>mq_mosq := None\<rparr>))"

section \<open>Requests\<close>

definition mq_subscribe :: "int \<Rightarrow> string \<Rightarrow> u8 \<Rightarrow> mqtt_backend \<Rightarrow> bool \<times> mqtt_backend" where
  "mq_subscribe rc topic qos b = (case mq_mosq b of
       None \<Rightarrow> (False, b)
     | Some h \<Rightarrow> (rc = MOSQ_ERR_SUCCESS, mcall (MC_subscribe h topic qos) b))"

definition mq_unsubscribe :: "int \<Rightarrow> string \<Rightarrow> mqtt_backend \<Rightarrow> bool \<times> mqtt_backend" where
  "mq_unsubscribe rc topic b = (case mq_mosq b of
       None \<Rightarrow> (False, b)
     | Some h \<Rightarrow> (rc = MOSQ_ERR_SUCCESS, mcall (MC_unsubscribe h topic) b))"

text \<open>The length is cast to \<open>int\<close>.\<close>

definition mq_publish :: "int \<Rightarrow> string \<Rightarrow> bytes \<Rightarrow> u8 \<Rightarrow> bool \<Rightarrow> mqtt_backend \<Rightarrow> bool \<times> mqtt_backend" where
  "mq_publish rc topic payload qos retain b = (case mq_mosq b of
       None \<Rightarrow> (False, b)
     | Some h \<Rightarrow>
         (rc = MOSQ_ERR_SUCCESS, mcall (MC_publish h topic (of_nat (length payload)) payload qos retain) b))"

datatype mqtt_request =
    MR_subscribe int string u8
  | MR_unsubscribe int string
  | MR_publish int string bytes u8 bool

fun mq_request :: "mqtt_request \<Rightarrow> mqtt_backend \<Rightarrow> bool \<times> mqtt_backend" where
  "mq_request (MR_subscribe rc t q) b = mq_subscribe rc t q b"
| "mq_request (MR_unsubscribe rc t) b = mq_unsubscribe rc t b"
| "mq_request (MR_publish rc t p q r) b = mq_publish rc t p q r b"

section \<open>Callbacks of the network thread\<close>

definition s_on_connect :: "int \<Rightarrow> mqtt_backend \<Rightarrow> mqtt_backend" where
  "s_on_connect rc b =
    (if rc = 0 then notify_app On_connect (ME_connect False) (b\<lparr>mq_connected := True\<rparr>)
     else notify_app On_disconnect (ME_disconnect MQTT_NOT_AUTHORIZED) (b\<lparr>mq_connected := False\<rparr>))"

definition s_on_disconnect :: "int \<Rightarrow> mqtt_backend \<Rightarrow> mqtt_backend" where
  "s_on_disconnect rc b = notify_app On_disconnect (ME_disconnect (translate_rc rc)) (b\<lparr>mq_connected := False\<rparr>)"

text \<open>\<open>granted\<close> are the granted qualities of service.\<close>

definition s_on_subscribe :: "int \<Rightarrow> int list \<Rightarrow> mqtt_backend \<Rightarrow> mqtt_backend" where
  "s_on_subscribe mid granted b =
     notify_app On_subscribe
       (ME_subscribe (word_of_int mid) (case granted of q # _ \<Rightarrow> word_of_int q | [] \<Rightarrow> 0)) b"

definition s_on_unsubscribe :: "int \<Rightarrow> mqtt_backend \<Rightarrow> mqtt_backend" where
  "s_on_unsubscribe mid b = notify_app On_unsubscribe (ME_unsubscribe (word_of_int mid)) b"

definition s_on_publish :: "int \<Rightarrow> mqtt_backend \<Rightarrow> mqtt_backend" where
  "s_on_publish mid b = notify_app On_publish (ME_publish (word_of_int mid)) b"

record mosq_message =
  mm_topic :: string
  mm_payload :: "bytes option"
  mm_payloadlen :: int

definition s_on_message :: "mosq_message option \<Rightarrow> mqtt_backend \<Rightarrow> mqtt_backend" where
  "s_on_message msg b = (case msg of
       None \<Rightarrow> b
     | Some m \<Rightarrow>
         (let payload = (case mm_payload m of Some p \<Rightarrow> p | None \<Rightarrow> []); n = word_of_int (mm_payloadlen m)
          in notify_app On_message (ME_message (mm_topic m) payload n 0 n) b))"

datatype mosq_callback =
    MK_connect int
  | MK_disconnect int
  | MK_subscribe int "int list"
  | MK_unsubscribe int
  | MK_publish int
  | MK_message "mosq_message option"

fun run_callback :: "mosq_callback \<Rightarrow> mqtt_backend \<Rightarrow> mqtt_backend" where
  "run_callback (MK_connect rc) b = s_on_connect rc b"
| "run_callback (MK_disconnect rc) b = s_on_disconnect rc b"
| "run_callback (MK_subscribe mid g) b = s_on_subscribe mid g b"
| "run_callback (MK_unsubscribe mid) b = s_on_unsubscribe mid b"
| "run_callback (MK_publish mid) b = s_on_publish mid b"
| "run_callback (MK_message m) b = s_on_message m b"

section \<open>The protocol of the library\<close>

text \<open>The state of the monitor is the client that exists, whether its network thread has been started, and whether
  \<open>mosquitto_disconnect\<close> was called since it last connected. A new client while one exists would leak; a thread is
  started and joined in turn, without \<open>force\<close> only after \<open>mosquitto_disconnect\<close> (else the join waits for a thread that
  goes on running); a client is destroyed once its thread is joined, and used between its creation and its
  destruction. \<open>None\<close> is a violation.\<close>

type_synonym mosq_state = "nat option \<times> bool \<times> bool"

definition mosq_use :: "nat \<Rightarrow> mosq_state \<Rightarrow> mosq_state option" where
  "mosq_use h s = (if fst s = Some h then Some s else None)"

fun mosq_call_ok :: "mosq_call \<Rightarrow> mosq_state \<Rightarrow> mosq_state option" where
  "mosq_call_ok (MC_new h _ _) (live, running, leaving) = (if live = None then Some (h, False, False) else None)"
| "mosq_call_ok (MC_connect_async h _ _ _) (live, running, leaving) =
     (if live = Some h then Some (live, running, False) else None)"
| "mosq_call_ok (MC_loop_start h ok) (live, running, leaving) =
     (if live = Some h \<and> \<not> running then Some (live, ok, leaving) else None)"
| "mosq_call_ok (MC_disconnect h) (live, running, leaving) = (if live = Some h then Some (live, running, True) else None)"
| "mosq_call_ok (MC_loop_stop h force) (live, running, leaving) =
     (if live = Some h \<and> running \<and> (force \<or> leaving) then Some (live, False, leaving) else None)"
| "mosq_call_ok (MC_destroy h) (live, running, leaving) =
     (if live = Some h \<and> \<not> running then Some (None, False, False) else None)"
| "mosq_call_ok (MC_set_callbacks h) s = mosq_use h s"
| "mosq_call_ok (MC_username h _ _) s = mosq_use h s"
| "mosq_call_ok (MC_will h _ _ _ _ _) s = mosq_use h s"
| "mosq_call_ok (MC_reconnect_delay h _ _ _) s = mosq_use h s"
| "mosq_call_ok (MC_subscribe h _ _) s = mosq_use h s"
| "mosq_call_ok (MC_unsubscribe h _) s = mosq_use h s"
| "mosq_call_ok (MC_publish h _ _ _ _ _) s = mosq_use h s"

fun mosq_run :: "mosq_call list \<Rightarrow> mosq_state \<Rightarrow> mosq_state option" where
  "mosq_run [] s = Some s"
| "mosq_run (c # cs) s = (case mosq_call_ok c s of None \<Rightarrow> None | Some s' \<Rightarrow> mosq_run cs s')"

lemma mosq_run_snoc:
  "mosq_run (cs @ [c]) s = (case mosq_run cs s of None \<Rightarrow> None | Some s' \<Rightarrow> mosq_call_ok c s')"
  by (induction cs arbitrary: s) (auto split: option.splits)

definition lib_state :: "mqtt_backend \<Rightarrow> mosq_state option" where
  "lib_state b = mosq_run (mq_calls b) (None, False, False)"

text \<open>The backend knows the state of the library: no call was a violation, and its fields are that state.\<close>

definition mqtt_tracks :: "mqtt_backend \<Rightarrow> bool" where
  "mqtt_tracks b \<longleftrightarrow> (\<exists>leaving. lib_state b = Some (mq_mosq b, mq_loop_started b, leaving)) \<and> (mq_loop_started b \<longrightarrow> mq_mosq b \<noteq> None)"

lemma lib_state_mcall: "lib_state (mcall c b) = (case lib_state b of None \<Rightarrow> None | Some s \<Rightarrow> mosq_call_ok c s)"
  by (simp add: lib_state_def mcall_def mosq_run_snoc)

lemma lib_state_fields [simp]:
  "lib_state (b\<lparr>mq_mosq := m\<rparr>) = lib_state b"
  "lib_state (b\<lparr>mq_loop_started := l\<rparr>) = lib_state b"
  "lib_state (b\<lparr>mq_want_disconnect := l\<rparr>) = lib_state b"
  "lib_state (b\<lparr>mq_connected := l\<rparr>) = lib_state b"
  by (simp_all add: lib_state_def)

lemma mcall_fields [simp]:
  "mq_mosq (mcall c b) = mq_mosq b" "mq_loop_started (mcall c b) = mq_loop_started b"
  "mq_connected (mcall c b) = mq_connected b" "mq_username (mcall c b) = mq_username b"
  "mq_password (mcall c b) = mq_password b" "mq_will_topic (mcall c b) = mq_will_topic b"
  "mq_events (mcall c b) = mq_events b" "mq_cbs (mcall c b) = mq_cbs b"
  by (simp_all add: mcall_def)

lemma notify_app_fields [simp]:
  "mq_mosq (notify_app k e b) = mq_mosq b" "mq_loop_started (notify_app k e b) = mq_loop_started b"
  "mq_connected (notify_app k e b) = mq_connected b" "mq_calls (notify_app k e b) = mq_calls b"
  "lib_state (notify_app k e b) = lib_state b"
  by (simp_all add: notify_app_def lib_state_def)

lemma tracks_connect_reset:
  assumes "mqtt_tracks b"
  shows "\<exists>leaving. lib_state (connect_reset b) = Some (None, False, leaving)" "mq_mosq (connect_reset b) = None"
    "mq_loop_started (connect_reset b) = False"
  using assms by (auto simp: mqtt_tracks_def connect_reset_def lib_state_mcall split: option.splits)

lemma mosq_setup_state:
  assumes "lib_state b = Some (Some h, False, False)" "mq_mosq b = Some h" "\<not> mq_loop_started b"
  shows "lib_state (mosq_setup h b) = Some (Some h, False, False)" "mq_mosq (mosq_setup h b) = Some h"
    "\<not> mq_loop_started (mosq_setup h b)" "mq_connected (mosq_setup h b) = mq_connected b"
  using assms by (auto simp: mosq_setup_def Let_def lib_state_mcall mosq_use_def)

lemma connect_start_tracks:
  assumes "lib_state b = Some (Some h, False, False)" "mq_mosq b = Some h" "\<not> mq_loop_started b"
  shows "mqtt_tracks (connect_start env h b)"
  using assms by (auto simp: connect_start_def mosq_drop_def Let_def lib_state_mcall mqtt_tracks_def)

lemma mqtt_tracks_connect: "mqtt_tracks b \<Longrightarrow> mqtt_tracks (mq_connect env b)"
proof -
  assume b: "mqtt_tracks b"
  define r where "r = connect_reset b"
  note r = tracks_connect_reset [OF b, folded r_def]
  show "mqtt_tracks (mq_connect env b)"
  proof (cases "me_new env")
    case None
    then show ?thesis using r
      by (auto simp: mq_connect_def r_def [symmetric] connect_new_def Let_def mqtt_tracks_def lib_state_mcall)
  next
    case (Some h)
    then show ?thesis using r
      by (auto simp: mq_connect_def r_def [symmetric] connect_new_def Let_def connect_start_tracks
        mosq_setup_state lib_state_mcall)
  qed
qed

lemma mqtt_tracks_disconnect: "mqtt_tracks b \<Longrightarrow> mqtt_tracks (mq_disconnect b)"
  by (auto simp: mqtt_tracks_def mq_disconnect_def Let_def lib_state_mcall split: option.splits)

lemma mqtt_tracks_request: "mqtt_tracks b \<Longrightarrow> mqtt_tracks (snd (mq_request r b))"
  by (cases r) (auto simp: mqtt_tracks_def mq_subscribe_def mq_unsubscribe_def mq_publish_def lib_state_mcall mosq_use_def
    split: option.splits)

lemma mqtt_tracks_callback: "mqtt_tracks b \<Longrightarrow> mqtt_tracks (run_callback k b)"
  by (cases k) (auto simp: mqtt_tracks_def s_on_connect_def s_on_disconnect_def s_on_subscribe_def
    s_on_unsubscribe_def s_on_publish_def s_on_message_def Let_def split: option.splits)

lemmas mq_setters = mq_set_keep_alive_def mq_set_client_id_def mq_set_clean_session_def mq_set_credentials_def
  mq_set_will_def mq_set_server_def mq_set_callback_def mq_set_ca_certificate_def mq_set_cl_certificate_def
  mq_set_cl_key_def mq_set_skip_cert_cn_check_def

lemma configure_fields [simp]:
  "mq_mosq (mq_configure g b) = mq_mosq b" "mq_loop_started (mq_configure g b) = mq_loop_started b"
  "mq_calls (mq_configure g b) = mq_calls b"
  by (cases g; simp add: mq_setters split: option.splits)+

lemma mqtt_tracks_configure: "mqtt_tracks b \<Longrightarrow> mqtt_tracks (mq_configure g b)"
  by (simp add: mqtt_tracks_def lib_state_def)

lemma mqtt_tracks_init: "mqtt_tracks mq_init"
  by (auto simp: mqtt_tracks_def lib_state_def mq_init_def intro: exI [of Not False])

lemma mqtt_destroyed: "mqtt_tracks b \<Longrightarrow> \<exists>leaving. lib_state (mq_destroy b) = Some (None, False, leaving)"
  by (auto simp: mqtt_tracks_def mq_destroy_def Let_def lib_state_mcall split: option.splits)

text \<open>Reconnecting cancels the network thread, so no callback resets \<open>connected_\<close>: the new client, which no
  broker has answered yet, counts as connected.\<close>

lemma connect_keeps_connected: "mq_connected (mq_connect env b) = mq_connected b"
proof -
  have "mq_connected (connect_reset b) = mq_connected b"
    by (simp add: connect_reset_def Let_def split: option.splits)
  moreover have "mq_connected (connect_new env r) = mq_connected r" for r
    by (simp add: connect_new_def connect_start_def mosq_drop_def mosq_setup_def Let_def split: option.splits)
  ultimately show ?thesis by (simp add: mq_connect_def)
qed

section \<open>The main thread, the network thread and the lock\<close>

text \<open>Where the main thread is: outside the backend, or inside \<open>mosquitto_loop_stop\<close>, called by \<open>connect\<close> and
  \<open>disconnect\<close> with \<open>mu_\<close> held, by the destructor without it. The network thread is absent, between two
  callbacks, or in a callback whose remaining requests to the backend are listed.\<close>

datatype main_pc = MP_idle | MP_connect mqtt_env | MP_disconnect | MP_destroy | MP_gone

datatype net_pc = NP_off | NP_run | NP_callback "mqtt_request list"

record mqtt_sys =
  ms_backend :: mqtt_backend
  ms_main :: main_pc
  ms_net :: net_pc

definition main_holds_mu :: "main_pc \<Rightarrow> bool" where
  "main_holds_mu m = (case m of MP_connect _ \<Rightarrow> True | MP_disconnect \<Rightarrow> True | _ \<Rightarrow> False)"

definition net_after :: "mqtt_backend \<Rightarrow> net_pc" where
  "net_after b = (if mq_loop_started b then NP_run else NP_off)"

text \<open>\<open>mosquitto_loop_stop\<close> joins the thread, with \<open>force\<close> after cancelling it between two callbacks. Each of the
  three callers changes the backend when the thread has been joined (or at once when none was started).\<close>

inductive mqtt_step :: "mqtt_sys \<Rightarrow> mqtt_sys \<Rightarrow> bool" where
  MS_configure: "ms_main s = MP_idle \<Longrightarrow> mqtt_step s (s\<lparr>ms_backend := mq_configure g (ms_backend s)\<rparr>)"
| MS_request: "ms_main s = MP_idle \<Longrightarrow> mqtt_step s (s\<lparr>ms_backend := snd (mq_request r (ms_backend s))\<rparr>)"
| MS_connect: "ms_main s = MP_idle \<Longrightarrow> \<not> mq_loop_started (ms_backend s) \<Longrightarrow>
    mqtt_step s (s\<lparr>ms_backend := mq_connect env (ms_backend s), ms_net := net_after (mq_connect env (ms_backend s))\<rparr>)"
| MS_connect_stop: "ms_main s = MP_idle \<Longrightarrow> mq_loop_started (ms_backend s) \<Longrightarrow>
    mqtt_step s (s\<lparr>ms_main := MP_connect env\<rparr>)"
| MS_connect_join: "ms_main s = MP_connect env \<Longrightarrow> ms_net s \<in> {NP_off, NP_run} \<Longrightarrow>
    mqtt_step s (s\<lparr>ms_backend := mq_connect env (ms_backend s), ms_main := MP_idle,
      ms_net := net_after (mq_connect env (ms_backend s))\<rparr>)"
| MS_disconnect: "ms_main s = MP_idle \<Longrightarrow> \<not> mq_loop_started (ms_backend s) \<Longrightarrow>
    mqtt_step s (s\<lparr>ms_backend := mq_disconnect (ms_backend s)\<rparr>)"
| MS_disconnect_stop: "ms_main s = MP_idle \<Longrightarrow> mq_loop_started (ms_backend s) \<Longrightarrow>
    mqtt_step s (s\<lparr>ms_main := MP_disconnect\<rparr>)"
| MS_disconnect_join: "ms_main s = MP_disconnect \<Longrightarrow> ms_net s = NP_off \<Longrightarrow>
    mqtt_step s (s\<lparr>ms_backend := mq_disconnect (ms_backend s), ms_main := MP_idle\<rparr>)"
| MS_destroy: "ms_main s = MP_idle \<Longrightarrow> mqtt_step s (s\<lparr>ms_main := MP_destroy\<rparr>)"
| MS_destroy_join: "ms_main s = MP_destroy \<Longrightarrow> ms_net s \<in> {NP_off, NP_run} \<Longrightarrow>
    mqtt_step s (s\<lparr>ms_backend := mq_destroy (ms_backend s), ms_main := MP_gone, ms_net := NP_off\<rparr>)"
| MS_callback: "ms_net s = NP_run \<Longrightarrow>
    mqtt_step s (s\<lparr>ms_backend := run_callback k (ms_backend s), ms_net := NP_callback rs\<rparr>)"
| MS_callback_request: "ms_net s = NP_callback (r # rs) \<Longrightarrow> \<not> main_holds_mu (ms_main s) \<Longrightarrow>
    mqtt_step s (s\<lparr>ms_backend := snd (mq_request r (ms_backend s)), ms_net := NP_callback rs\<rparr>)"
| MS_callback_end: "ms_net s = NP_callback [] \<Longrightarrow> mqtt_step s (s\<lparr>ms_net := NP_run\<rparr>)"
| MS_thread_end: "ms_net s = NP_run \<Longrightarrow> mqtt_step s (s\<lparr>ms_net := NP_off\<rparr>)"

definition mqtt_start :: mqtt_sys where
  "mqtt_start = \<lparr>ms_backend = mq_init, ms_main = MP_idle, ms_net = NP_off\<rparr>"

definition mqtt_reachable :: "mqtt_sys \<Rightarrow> bool" where
  "mqtt_reachable s = mqtt_step\<^sup>*\<^sup>* mqtt_start s"

definition mqtt_sys_inv :: "mqtt_sys \<Rightarrow> bool" where
  "mqtt_sys_inv s \<longleftrightarrow> 
     (if ms_main s = MP_gone then (\<exists>leaving. lib_state (ms_backend s) = Some (None, False, leaving)) \<and> ms_net s = NP_off
      else mqtt_tracks (ms_backend s) \<and> (ms_net s \<noteq> NP_off \<longrightarrow> mq_loop_started (ms_backend s)))"

lemma request_loop_started: "mq_loop_started (snd (mq_request r b)) = mq_loop_started b"
  by (cases r) (simp_all add: mq_subscribe_def mq_unsubscribe_def mq_publish_def split: option.splits)

lemma callback_loop_started: "mq_loop_started (run_callback k b) = mq_loop_started b"
  by (cases k) (simp_all add: s_on_connect_def s_on_disconnect_def s_on_subscribe_def
    s_on_unsubscribe_def s_on_publish_def s_on_message_def Let_def split: option.splits)

lemmas mqtt_tracks_intros = mqtt_tracks_connect mqtt_tracks_disconnect mqtt_tracks_request mqtt_tracks_callback
  mqtt_tracks_configure

lemma mqtt_sys_inv_step:
  assumes "mqtt_step s s'" "mqtt_sys_inv s"
  shows "mqtt_sys_inv s'"
  using assms
  by cases (auto simp: mqtt_sys_inv_def net_after_def mqtt_tracks_intros mqtt_destroyed request_loop_started
    callback_loop_started split: if_splits)

lemma mqtt_sys_inv_reachable: "mqtt_reachable s \<Longrightarrow> mqtt_sys_inv s"
  unfolding mqtt_reachable_def
proof (induction rule: rtranclp_induct)
  case base
  show ?case by (simp add: mqtt_sys_inv_def mqtt_start_def mqtt_tracks_init)
next
  case (step y z)
  then show ?case by (rule_tac mqtt_sys_inv_step)
qed

text \<open>C29. In every interleaving of the main thread and the network thread, the calls of the mosquitto library
  respect its protocol: a client is created only when none exists, used and destroyed between its creation and its
  end, destroyed only after its network thread was joined, and a thread is joined without being cancelled only
  after the client was told to disconnect; the network thread only exists while the
  backend holds the client that runs it, and after the destructor nothing is left.\<close>

theorem mqtt_clients_safe:
  assumes "mqtt_reachable s"
  shows "\<exists>live running leaving. lib_state (ms_backend s) = Some (live, running, leaving)
      \<and> (ms_main s \<noteq> MP_gone \<longrightarrow> live = mq_mosq (ms_backend s) \<and> running = mq_loop_started (ms_backend s))
      \<and> (ms_net s \<noteq> NP_off \<longrightarrow> live \<noteq> None \<and> running)
      \<and> (ms_main s = MP_gone \<longrightarrow> live = None \<and> \<not> running)"
  using mqtt_sys_inv_reachable [OF assms]
  by (auto simp: mqtt_sys_inv_def mqtt_tracks_def split: if_splits)

text \<open>Runs of the system, for concrete states.\<close>

lemma mqtt_reach_start: "mqtt_reachable mqtt_start"
  by (simp add: mqtt_reachable_def)

lemma mqtt_reach_step: "mqtt_reachable a \<Longrightarrow> mqtt_step a b \<Longrightarrow> b = c \<Longrightarrow> mqtt_reachable c"
  by (auto simp: mqtt_reachable_def intro: rtranclp.rtrancl_into_rtrancl)

definition mq_env_ok :: mqtt_env where
  "mq_env_ok = \<lparr>me_new = Some 7, me_connect = 0, me_loop = 0\<rparr>"

definition mq_msg :: mosq_message where
  "mq_msg = \<lparr>mm_topic = ''t'', mm_payload = Some [1], mm_payloadlen = 1\<rparr>"

definition mq_busy :: mqtt_sys where
  "mq_busy = \<lparr>ms_backend = run_callback (MK_message (Some mq_msg)) (mq_connect mq_env_ok mq_init), ms_main = MP_disconnect,
     ms_net = NP_callback [MR_publish 0 ''u'' [2] 0 False]\<rparr>"

lemma mq_connect_started: "mq_loop_started (mq_connect mq_env_ok mq_init)"
  by (simp add: mq_connect_def mq_env_ok_def mq_init_def connect_reset_def connect_new_def connect_start_def
    MOSQ_ERR_SUCCESS_def Let_def)

lemma mq_busy_reachable: "mqtt_reachable mq_busy"
proof -
  let ?b = "mq_connect mq_env_ok mq_init"
  let ?r = "run_callback (MK_message (Some mq_msg)) ?b"
  let ?n = "NP_callback [MR_publish 0 ''u'' [2] 0 False]"
  have l: "mq_loop_started ?b" "mq_loop_started ?r"
    by (simp_all only: mq_connect_started callback_loop_started)
  have "mqtt_reachable \<lparr>ms_backend = ?b, ms_main = MP_idle, ms_net = NP_run\<rparr>"
    by (rule mqtt_reach_step [OF mqtt_reach_start MS_connect [where env = mq_env_ok]])
      (simp_all add: mqtt_start_def net_after_def l, simp add: mq_init_def)
  then have "mqtt_reachable \<lparr>ms_backend = ?r, ms_main = MP_idle, ms_net = ?n\<rparr>"
    by (rule mqtt_reach_step [OF _ MS_callback [where k = "MK_message (Some mq_msg)"]]) simp_all
  then show ?thesis
    by (rule mqtt_reach_step [OF _ MS_disconnect_stop]) (simp_all only: l mq_busy_def mqtt_sys.simps)
qed

theorem mqtt_clients_safe_witness:
  "\<exists>live running leaving. lib_state (ms_backend mq_busy) = Some (live, running, leaving)
      \<and> (if ms_net mq_busy = NP_off then True else live \<noteq> None \<and> running)"
  using mqtt_clients_safe [OF mq_busy_reachable] by auto

text \<open>The main thread waits for the network thread with \<open>mu_\<close> held, and the callback the network thread is in
  wants \<open>mu_\<close>.\<close>

definition mqtt_blocked :: "mqtt_sys \<Rightarrow> bool" where
  "mqtt_blocked s \<longleftrightarrow> (case ms_net s of NP_callback (r # rs) \<Rightarrow> main_holds_mu (ms_main s) | _ \<Rightarrow> False)"

lemma blocked_no_step: "mqtt_blocked s \<Longrightarrow> \<not> mqtt_step s s'"
  by (auto simp: mqtt_blocked_def main_holds_mu_def elim!: mqtt_step.cases
    split: net_pc.splits list.splits main_pc.splits)

lemma blocked_stays: "mqtt_step\<^sup>*\<^sup>* s s' \<Longrightarrow> mqtt_blocked s \<Longrightarrow> s' = s"
  by (induction rule: converse_rtranclp_induct) (auto simp: blocked_no_step)

definition main_returned :: "mqtt_sys \<Rightarrow> bool" where
  "main_returned s \<longleftrightarrow> ms_main s \<in> {MP_idle, MP_gone}"

lemma returns_from_off: "ms_net s = NP_off \<Longrightarrow> \<exists>s'. mqtt_step\<^sup>*\<^sup>* s s' \<and> main_returned s'"
proof (cases "ms_main s")
  case (MP_connect env)
  assume "ms_net s = NP_off"
  then show ?thesis using MS_connect_join [OF MP_connect] by (auto simp: main_returned_def)
next
  case MP_disconnect
  assume "ms_net s = NP_off"
  then show ?thesis using MS_disconnect_join [OF MP_disconnect] by (auto simp: main_returned_def)
next
  case MP_destroy
  assume "ms_net s = NP_off"
  then show ?thesis using MS_destroy_join [OF MP_destroy] by (auto simp: main_returned_def)
qed (auto simp: main_returned_def)

lemma returns_from_run: "ms_net s = NP_run \<Longrightarrow> \<exists>s'. mqtt_step\<^sup>*\<^sup>* s s' \<and> main_returned s'"
proof -
  assume "ms_net s = NP_run"
  then have "mqtt_step s (s\<lparr>ms_net := NP_off\<rparr>)" by (rule MS_thread_end)
  moreover obtain s' where "mqtt_step\<^sup>*\<^sup>* (s\<lparr>ms_net := NP_off\<rparr>) s'" "main_returned s'"
    using returns_from_off [of "s\<lparr>ms_net := NP_off\<rparr>"] by auto
  ultimately show ?thesis by (meson converse_rtranclp_into_rtranclp)
qed

lemma returns_from_callback:
  "ms_net s = NP_callback rs \<Longrightarrow> \<not> mqtt_blocked s \<Longrightarrow> \<exists>s'. mqtt_step\<^sup>*\<^sup>* s s' \<and> main_returned s'"
proof (induction rs arbitrary: s)
  case Nil
  have "mqtt_step s (s\<lparr>ms_net := NP_run\<rparr>)" by (rule MS_callback_end [OF Nil(1)])
  moreover obtain s' where "mqtt_step\<^sup>*\<^sup>* (s\<lparr>ms_net := NP_run\<rparr>) s'" "main_returned s'"
    using returns_from_run [of "s\<lparr>ms_net := NP_run\<rparr>"] by auto
  ultimately show ?case by (meson converse_rtranclp_into_rtranclp)
next
  case (Cons r rs)
  let ?t = "s\<lparr>ms_backend := snd (mq_request r (ms_backend s)), ms_net := NP_callback rs\<rparr>"
  have free: "\<not> main_holds_mu (ms_main s)"
    using Cons.prems by (simp add: mqtt_blocked_def)
  have "mqtt_step s ?t" by (rule MS_callback_request [OF Cons.prems(1) free])
  moreover have "\<not> mqtt_blocked ?t"
    using free by (simp add: mqtt_blocked_def split: list.splits)
  then obtain s' where "mqtt_step\<^sup>*\<^sup>* ?t s'" "main_returned s'"
    using Cons.IH [of ?t] by auto
  ultimately show ?case by (meson converse_rtranclp_into_rtranclp)
qed

lemma mqtt_returns: "\<not> mqtt_blocked s \<Longrightarrow> \<exists>s'. mqtt_step\<^sup>*\<^sup>* s s' \<and> main_returned s'"
  by (cases "ms_net s") (auto dest: returns_from_off returns_from_run returns_from_callback)

text \<open>C30. \<open>connect\<close> and \<open>disconnect\<close> join the network thread with \<open>mu_\<close> held. Whatever the state, the main
  thread can get out of the backend exactly when the network thread is not in a callback that still has a request
  to make while the main thread holds the lock; and that deadlock is reached when a message callback publishes
  while \<open>disconnect\<close> runs.\<close>

theorem mqtt_join_deadlock:
  "((\<exists>s'. mqtt_step\<^sup>*\<^sup>* s s' \<and> main_returned s') \<longleftrightarrow> \<not> mqtt_blocked s)
   \<and> (\<exists>d. mqtt_reachable d \<and> mqtt_blocked d \<and> (\<forall>d'. \<not> mqtt_step d d'))"
proof
  show "(\<exists>s'. mqtt_step\<^sup>*\<^sup>* s s' \<and> main_returned s') \<longleftrightarrow> \<not> mqtt_blocked s"
  proof
    assume "\<exists>s'. mqtt_step\<^sup>*\<^sup>* s s' \<and> main_returned s'"
    then obtain s' where s': "mqtt_step\<^sup>*\<^sup>* s s'" "main_returned s'" by blast
    show "\<not> mqtt_blocked s"
    proof
      assume b: "mqtt_blocked s"
      then have "main_returned s" using blocked_stays [OF s'(1) b] s'(2) by simp
      then show False using b
        by (auto simp: main_returned_def mqtt_blocked_def main_holds_mu_def
          split: net_pc.splits list.splits main_pc.splits)
    qed
  qed (rule mqtt_returns)
  have "mqtt_blocked mq_busy"
    by (simp add: mqtt_blocked_def mq_busy_def main_holds_mu_def)
  then show "\<exists>d. mqtt_reachable d \<and> mqtt_blocked d \<and> (\<forall>d'. \<not> mqtt_step d d')"
    using mq_busy_reachable blocked_no_step by blast
qed

end
