(* ===== verification/Tracker_Threads.thy ===== *)
theory Tracker_Threads
  imports Ble_Tracker Text
begin

text \<open>
  The scanner threads of the tracker (\<open>components/esp32_ble_tracker/esp32_ble_tracker.cpp\<close>): \<open>setup\<close>, the raw HCI thread
  and the D-Bus thread, from acquiring the adapter to releasing it, with what they deliver in between; and
  \<open>esp_err_to_name\<close>.

  A thread's run is the list of what its system calls return; after the last element it sees \<open>stop_thread_\<close>.
  The acts of a run are its calls that acquire or release something, in order; a command written to the adapter
  and the start of the discovery carry whether they were accepted.
\<close>

section \<open>Setup\<close>

datatype backend = BK_hci | BK_dbus

datatype scanner_state = SC_RUNNING

definition tracker_setup :: "bool \<Rightarrow> 'l list \<Rightarrow> backend \<times> ('l \<times> scanner_state) list" where
  "tracker_setup use_hci_backend scanner_state_listeners =
     (if use_hci_backend then BK_hci else BK_dbus, map (\<lambda>l. (l, SC_RUNNING)) scanner_state_listeners)"

section \<open>The raw HCI thread\<close>

datatype scan_act = SA_open | SA_cmd bytes bool | SA_close
  | SA_bus_open | SA_filter | SA_match_added | SA_match_changed | SA_start_discovery bool | SA_stop_discovery | SA_unmatch | SA_bus_close

text \<open>The result of a \<open>read\<close>: an error, \<open>EINTR\<close>, or the bytes read with what the rest of the 1024-byte buffer
  still holds.\<close>

datatype hci_read = HR_error | HR_eintr | HR_bytes bytes bytes

fun hci_reads :: "hci_read list \<Rightarrow> tracker \<Rightarrow> tracker option" where
  "hci_reads [] t = Some t"
| "hci_reads (HR_error # rs) t = Some t"
| "hci_reads (HR_eintr # rs) t = hci_reads rs t"
| "hci_reads (HR_bytes bs stale # rs) t =
     do { ds \<leftarrow> hci_packet (bs @ stale) (length bs); hci_reads rs (fold deliver_device ds t) }"

text \<open>Whether the adapter opens and takes the four commands: the disabling of an earlier scan (the result is
  ignored), the parameters, the enabling, and the disabling at the end (ignored as well).\<close>

record hci_env =
  hc_open :: bool
  hc_stop_previous :: bool
  hc_params :: bool
  hc_enable :: bool
  hc_disable :: bool
  hc_active :: bool
  hc_interval_ms :: u32
  hc_window_ms :: u32

text \<open>The result: \<open>hci_ok_\<close>, the acts, and the tracker after the run.\<close>

definition scanner_thread_main :: "hci_env \<Rightarrow> hci_read list \<Rightarrow> tracker \<Rightarrow> bool \<times> scan_act list \<times> tracker option" where
  "scanner_thread_main env rs t =
    (let off = SA_cmd (scan_enable_cmd False) (hc_stop_previous env);
         params = SA_cmd (scan_params_cmd (hc_active env) (hc_interval_ms env) (hc_window_ms env)) (hc_params env);
         on = SA_cmd (scan_enable_cmd True) (hc_enable env)
     in if \<not> hc_open env then (False, [], Some t)
        else if \<not> hc_params env then (False, [SA_open, off, params, SA_close], Some t)
        else if \<not> hc_enable env then (False, [SA_open, off, params, on, SA_close], Some t)
        else (True, [SA_open, off, params, on, SA_cmd (scan_enable_cmd False) (hc_disable env), SA_close], hci_reads rs t))"

section \<open>The D-Bus thread\<close>

text \<open>A message that \<open>sd_bus_process\<close> hands to a match, and what \<open>sd_bus_process\<close> returns.\<close>

datatype dbus_msg =
    DM_added "(string \<times> device1_prop list) list"
  | DM_changed string string "device1_prop list"
  | DM_other

datatype process_result = PR_error | PR_idle | PR_message dbus_msg

fun handle_dbus_msg :: "dbus_msg \<Rightarrow> tracker \<Rightarrow> tracker option" where
  "handle_dbus_msg (DM_added ifaces) t = Some (on_interfaces_added ifaces t)"
| "handle_dbus_msg (DM_changed iface path props) t = tracker_on_properties_changed iface path props t"
| "handle_dbus_msg DM_other t = Some t"

fun dbus_process :: "process_result list \<Rightarrow> tracker \<Rightarrow> tracker option" where
  "dbus_process [] t = Some t"
| "dbus_process (PR_error # rs) t = Some t"
| "dbus_process (PR_idle # rs) t = dbus_process rs t"
| "dbus_process (PR_message m # rs) t = do { t1 \<leftarrow> handle_dbus_msg m t; dbus_process rs t1 }"

record scan_env =
  se_open :: bool
  se_new_msg :: bool
  se_start :: bool

text \<open>A failing \<open>SetDiscoveryFilter\<close> is only logged.\<close>

definition dbus_scanner_thread_main ::
    "scan_env \<Rightarrow> process_result list \<Rightarrow> tracker \<Rightarrow> bool \<times> scan_act list \<times> tracker option" where
  "dbus_scanner_thread_main env rs t =
    (if \<not> se_open env then (False, [], Some t)
     else
       let a1 = [SA_bus_open] @ (if se_new_msg env then [SA_filter] else []);
           a2 = a1 @ [SA_match_added, SA_match_changed, SA_start_discovery (se_start env)]
       in if \<not> se_start env then (False, a2 @ [SA_unmatch, SA_unmatch, SA_bus_close], Some t)
          else (True, a2 @ [SA_stop_discovery, SA_unmatch, SA_unmatch, SA_bus_close], dbus_process rs t))"

section \<open>Error names\<close>

definition ESP_GATT_READ_NOT_PERMIT :: int where "ESP_GATT_READ_NOT_PERMIT = 0x02"
definition ESP_GATT_WRITE_NOT_PERMIT :: int where "ESP_GATT_WRITE_NOT_PERMIT = 0x03"
definition ESP_GATT_REQ_NOT_SUPPORTED :: int where "ESP_GATT_REQ_NOT_SUPPORTED = 0x06"
definition ESP_GATT_INVALID_OFFSET :: int where "ESP_GATT_INVALID_OFFSET = 0x07"
definition ESP_GATT_INSUF_AUTHORIZATION :: int where "ESP_GATT_INSUF_AUTHORIZATION = 0x08"
definition ESP_GATT_INVALID_ATTR_LEN :: int where "ESP_GATT_INVALID_ATTR_LEN = 0x0d"

definition sdec :: "int \<Rightarrow> string" where
  "sdec i = (if i < 0 then ''-'' @ dec (nat (- i)) else dec (nat i))"

text \<open>\<open>ESP_OK\<close> is 0.\<close>

definition esp_err_to_name :: "int \<Rightarrow> string" where
  "esp_err_to_name err =
    (if err = 0 then ''ESP_OK''
     else if err = ESP_GATT_NOT_CONNECTED then ''NOT_CONNECTED''
     else if err = ESP_GATT_NOT_FOUND then ''NOT_FOUND''
     else if err = ESP_GATT_WRITE_NOT_PERMIT then ''WRITE_NOT_PERMITTED''
     else if err = ESP_GATT_READ_NOT_PERMIT then ''READ_NOT_PERMITTED''
     else if err = ESP_GATT_INSUF_AUTHORIZATION then ''INSUF_AUTHORIZATION''
     else if err = ESP_GATT_INVALID_OFFSET then ''INVALID_OFFSET''
     else if err = ESP_GATT_INVALID_ATTR_LEN then ''INVALID_ATTR_LEN''
     else if err = ESP_GATT_REQ_NOT_SUPPORTED then ''REQ_NOT_SUPPORTED''
     else if err = ESP_GATT_ERROR then ''GATT_ERROR''
     else snprintf 20 (''host-err('' @ sdec err @ '')''))"


section \<open>What a run delivers and releases\<close>

fun hci_run_devices :: "hci_read list \<Rightarrow> ESPBTDevice list" where
  "hci_run_devices [] = []"
| "hci_run_devices (HR_error # rs) = []"
| "hci_run_devices (HR_eintr # rs) = hci_run_devices rs"
| "hci_run_devices (HR_bytes bs stale # rs) = hci_devices bs @ hci_run_devices rs"

lemma hci_reads_devices: "hci_reads rs t = Some (fold deliver_device (hci_run_devices rs) t)"
proof (induction rs arbitrary: t)
  case (Cons r rs)
  then show ?case by (cases r) (simp_all add: hci_packet_eq)
qed simp

definition balanced :: "scan_act list \<Rightarrow> bool" where
  "balanced as \<longleftrightarrow> count_list as SA_open = count_list as SA_close
     \<and> count_list as SA_bus_open = count_list as SA_bus_close
     \<and> count_list as SA_match_added + count_list as SA_match_changed = count_list as SA_unmatch"

text \<open>Whether the scan is on after the acts: only an accepted command changes it, closing the socket or the bus does
  not.\<close>

fun scan_after :: "scan_act \<Rightarrow> bool \<Rightarrow> bool" where
  "scan_after (SA_cmd c accepted) on = (if accepted \<and> c = scan_enable_cmd True then True
     else if accepted \<and> c = scan_enable_cmd False then False else on)"
| "scan_after (SA_start_discovery accepted) on = (accepted \<or> on)"
| "scan_after SA_stop_discovery on = False"
| "scan_after a on = on"

definition scan_on :: "scan_act list \<Rightarrow> bool \<Rightarrow> bool" where
  "scan_on as on = fold scan_after as on"

lemma scan_cmds [simp]: "scan_enable_cmd True \<noteq> scan_enable_cmd False" "scan_enable_cmd False \<noteq> scan_enable_cmd True"
  "scan_params_cmd a i w \<noteq> scan_enable_cmd b"
  by (simp_all add: hci_codes scan_enable_cmd_def scan_params_cmd_def put16_def)

text \<open>C16. The raw HCI thread never reads outside its buffer and ends, whatever it receives and whichever call fails: it
  delivers exactly the devices of the packets up to the first read error, of which the queue keeps the
  newest 128, and it closes the socket it opened. It says that scanning is on exactly when the adapter
  accepted the parameters and the enabling. When it ends after a scan, the scan is off, unless the adapter refused
  the final command that disables it; when it ends without one, a scan that was on before is still on only if there
  was no socket or the adapter refused the first command.\<close>
theorem hci_thread_run:
  assumes "scanner_thread_main env rs t = (ok, acts, r)" "length (tr_queue t) \<le> QUEUE_MAX"
  shows "\<exists>t'. r = Some t'
    \<and> tr_queue t' = drop (length (tr_queue t @ (if ok then hci_run_devices rs else [])) - QUEUE_MAX)
                      (tr_queue t @ (if ok then hci_run_devices rs else []))
    \<and> balanced acts
    \<and> (scan_on acts on \<longleftrightarrow> (if ok then \<not> hc_disable env else on \<and> \<not> (hc_open env \<and> hc_stop_previous env)))
    \<and> (ok \<longleftrightarrow> hc_open env \<and> hc_params env \<and> hc_enable env)"
proof -
  have r: "r = Some (fold deliver_device (if ok then hci_run_devices rs else []) t)"
    using assms(1) by (auto simp: scanner_thread_main_def Let_def hci_reads_devices split: if_splits)
  have "balanced acts" "scan_on acts on \<longleftrightarrow> (if ok then \<not> hc_disable env else on \<and> \<not> (hc_open env \<and> hc_stop_previous env))" "ok \<longleftrightarrow> hc_open env \<and> hc_params env \<and> hc_enable env"
    using assms(1) by (auto simp: scanner_thread_main_def Let_def balanced_def scan_on_def split: if_splits)
  then show ?thesis using r deliver_all [OF assms(2)] by blast
qed

lemma hci_thread_run_witness:
  "\<exists>t'. snd (snd (scanner_thread_main \<lparr>hc_open = True, hc_stop_previous = True, hc_params = True, hc_enable = True,
      hc_disable = True, hc_active = True, hc_interval_ms = 320, hc_window_ms = 30\<rparr>
        [HR_eintr, HR_bytes [4, 0x0e, 0] [7, 7], HR_error] new_tracker)) = Some t'
    \<and> tr_queue t' = []"
  using hci_thread_run [of "\<lparr>hc_open = True, hc_stop_previous = True, hc_params = True, hc_enable = True,
      hc_disable = True, hc_active = True, hc_interval_ms = 320, hc_window_ms = 30\<rparr>"
      "[HR_eintr, HR_bytes [4, 0x0e, 0] [7, 7], HR_error]" new_tracker True _ _ False]
  by (auto simp: scanner_thread_main_def Let_def new_tracker_def hci_devices_def split: if_splits)

text \<open>The D-Bus thread gives back the bus, its matches and the discovery on every branch; it stops the discovery
  exactly when it started it.\<close>
lemma dbus_thread_releases:
  assumes "dbus_scanner_thread_main env rs t = (ok, acts, r)"
  shows "balanced acts \<and> \<not> scan_on acts False \<and> (SA_stop_discovery \<in> set acts \<longleftrightarrow> ok) \<and> (ok \<longleftrightarrow> se_open env \<and> se_start env)"
  using assms by (auto simp: dbus_scanner_thread_main_def Let_def balanced_def scan_on_def split: if_splits)

text \<open>The text of an error always fits the buffer of 20 characters.\<close>
lemma esp_err_to_name_fits: "length (esp_err_to_name err) < 20"
  by (auto simp: esp_err_to_name_def snprintf_def min_def)

end
