(* ===== verification/Unit_Tests.thy ===== *)
theory Unit_Tests
  imports Ble_Uuid Bthome
begin

text \<open>
  The unit tests of the repository, \<open>tests/unit/test_ble_uuid.cpp\<close> and
  \<open>tests/unit/test_bthome_encoder.cpp\<close>, as theorems about the model: one lemma for each test
  function of the first file, one for each group of checks of the second. They are evaluated in
  the kernel and show that the definitions of \<open>Ble_Uuid\<close> and \<open>Bthome\<close> give the values the authors
  of the code expect of it.
\<close>

section \<open>Bluetooth UUIDs\<close>

definition test_uuid :: string where
  "test_uuid = ''a1b2c3d4-0001-1000-8000-00805f9b34fb''"

lemma test_128bit_canonical_roundtrip:
  "list_all (\<lambda>s. len (from_uuid_str s) = 16 \<and> to_str (from_uuid_str s) = s)
     [test_uuid, ''0000fdf7-0000-1000-8000-00805f9b34fb'', ''12345678-9abc-def0-1234-56789abcdef0'',
      ''ffffffff-ffff-ffff-ffff-ffffffffffff'', ''00000000-0000-0000-0000-000000000000'']"
  by code_simp

lemma test_lsb_first_storage:
  "raw (from_uuid_str test_uuid) =
     [0xfb, 0x34, 0x9b, 0x5f, 0x80, 0x00, 0x00, 0x80, 0x00, 0x10, 0x01, 0x00, 0xd4, 0xc3, 0xb2, 0xa1]"
  by code_simp

lemma test_case_insensitive_parse:
  "uuid_eq (from_uuid_str test_uuid) (from_uuid_str ''A1B2C3D4-0001-1000-8000-00805F9B34FB'')"
  by code_simp

lemma test_from_uint16:
  "(let u = from_uint16 0x1234 in
    len u = 2 \<and> raw u ! 0 = 0x34 \<and> raw u ! 1 = 0x12 \<and> get_16bit u = 0x1234 \<and> to_string u = ''0x1234'')"
  by code_simp

lemma test_from_uint32:
  "(let u = from_uint32 0x12345678 in
    len u = 4 \<and> raw u ! 0 = 0x78 \<and> raw u ! 3 = 0x12 \<and> get_32bit u = 0x12345678 \<and>
    to_string u = ''0x12345678'')"
  by code_simp

lemma test_as_128bit_base_uuid_expansion:
  "(let u16 = as_128bit (from_uint16 0x1234); u32 = as_128bit (from_uint32 0x12345678);
        u128 = from_uuid_str test_uuid in
    len u16 = 16 \<and> to_str u16 = ''00001234-0000-1000-8000-00805f9b34fb'' \<and>
    to_str u32 = ''12345678-0000-1000-8000-00805f9b34fb'' \<and> uuid_eq (as_128bit u128) u128)"
  by code_simp

lemma test_from_raw_binary_vs_reversed:
  "(let lsb = [0xfb, 0x34, 0x9b, 0x5f, 0x80, 0x00, 0x00, 0x80, 0x00, 0x10, 0x01, 0x00, 0xd4, 0xc3, 0xb2, 0xa1];
        u = from_raw lsb in
    len u = 16 \<and> raw u = lsb \<and> uuid_eq u (from_uuid_str test_uuid) \<and>
    uuid_eq (from_raw_reversed
      [0xa1, 0xb2, 0xc3, 0xd4, 0x00, 0x01, 0x10, 0x00, 0x80, 0x00, 0x00, 0x80, 0x5f, 0x9b, 0x34, 0xfb]) u)"
  by code_simp

lemma test_equality_and_length_sensitivity:
  "uuid_eq (from_uint16 0x1234) (from_uint16 0x1234) \<and>
   \<not> uuid_eq (from_uint16 0x1234) (from_uint16 0x1235) \<and>
   \<not> uuid_eq (from_uint16 0x1234) (from_uint32 0x1234) \<and>
   \<not> uuid_eq (from_uint16 0x1234) (as_128bit (from_uint16 0x1234)) \<and>
   \<not> uuid_eq (from_uuid_str test_uuid) (from_uuid_str ''a1b2c3d4-0002-1000-8000-00805f9b34fb'') \<and>
   uuid_eq (from_uuid_str test_uuid) (from_uuid_str test_uuid)"
  by code_simp

lemma test_contains:
  "contains (from_uint16 0x181a) 0x1a 0x18 \<and> \<not> contains (from_uint16 0x181a) 0x18 0x1a \<and>
   contains (from_uuid_str ''0000181a-0000-1000-8000-00805f9b34fb'') 0x1a 0x18"
  by code_simp

lemma test_get_uuid_union_view:
  "(let v16 = get_uuid (from_uint16 0x1234); v32 = get_uuid (from_uint32 0x12345678);
        u128 = from_uuid_str test_uuid; v128 = get_uuid u128 in
    bt_len v16 = 2 \<and> bt_uuid16 v16 = 0x1234 \<and> bt_len v32 = 4 \<and> bt_uuid32 v32 = 0x12345678 \<and>
    bt_len v128 = 16 \<and> bt_union v128 = raw u128)"
  by code_simp

lemma test_from_uuid_roundtrip:
  "list_all (\<lambda>u. uuid_eq (from_uuid (get_uuid u)) u)
     [from_uint16 0xabcd, from_uint32 0xdeadbeef, from_uuid_str test_uuid]"
  by code_simp

lemma test_to_string_128bit_debug_form:
  "to_string (from_uuid_str test_uuid) = ''FB349B5F-8000-0080-0010-0100D4C3B2A1''"
  by code_simp

section \<open>BTHome payloads\<close>

text \<open>The divisions of the tests, in binary64, and the bytes of one object.\<close>

lemma floor_rat_neg_numeral: "\<lfloor>- (numeral a / numeral b) :: rat\<rfloor> = - numeral a div numeral b"
  using floor_divide_of_int_eq [of "- numeral a" "numeral b", where 'a = rat] by simp

lemma floor_rat_half: "\<lfloor>1 / 2 :: rat\<rfloor> = 0"
  by (simp add: floor_eq_iff)

lemmas division_eval = F_0_01_def F_0_001_def f64_round_def f64_exp_def Let_def lg_up.simps pow2_def
  round_half_even_def floor_rat_numeral floor_rat_neg_numeral

lemma test_quotients:
  "f64_div (F_fin (- 10)) F_0_01 = F_fin (- 1000)"
  "f64_div (F_fin 400) F_0_01 = F_fin 40000"
  "f64_div (F_fin 1000) F_0_01 = F_fin 100000"
  "f64_div (F_fin (- 5)) F_0_01 = F_fin (- 500)"
  "f64_div (F_fin (4053 / 4)) F_0_01 = F_fin 101325"
  "f64_div (F_fin 3) F_0_001 = F_fin 3000"
  "f64_div (F_fin 93) 1 = F_fin 93"
  "f64_div (F_fin 1) 1 = F_fin 1"
  "f64_div (F_fin 0) 1 = F_fin 0"
  by (simp_all add: division_eval)

lemmas object_eval = encode_object_def bthome_object_spec_def spec_TABLE_def test_quotients clamp_raw_def
  round_half_away_def floor_rat_numeral floor_rat_half Let_def emit_le_def upt_rec

lemma test_objects:
  "encode_object unspec \<lparr>object_id = 0x02, bt_value = F_fin (- 10)\<rparr> = [0x02, 0x18, 0xfc]"
  "encode_object unspec \<lparr>object_id = 0x02, bt_value = F_fin 400\<rparr> = [0x02, 0xff, 0x7f]"
  "encode_object unspec \<lparr>object_id = 0x03, bt_value = F_fin 1000\<rparr> = [0x03, 0xff, 0xff]"
  "encode_object unspec \<lparr>object_id = 0x03, bt_value = F_fin (- 5)\<rparr> = [0x03, 0x00, 0x00]"
  "encode_object unspec \<lparr>object_id = 0x04, bt_value = F_fin (4053 / 4)\<rparr> = [0x04, 0xcd, 0x8b, 0x01]"
  "encode_object unspec \<lparr>object_id = 0x0C, bt_value = F_fin 3\<rparr> = [0x0C, 0xb8, 0x0b]"
  "encode_object unspec \<lparr>object_id = 0x10, bt_value = F_fin 1\<rparr> = [0x10, 0x01]"
  "encode_object unspec \<lparr>object_id = 0x10, bt_value = F_fin 0\<rparr> = [0x10, 0x00]"
  "encode_object unspec \<lparr>object_id = 0x99, bt_value = F_fin 1\<rparr> = []"
  "encode_object unspec \<lparr>object_id = 0x01, bt_value = F_fin 93\<rparr> = [0x01, 0x5d]"
  by (simp_all add: object_eval del: f64_div.simps)

lemma test_empty:
  "build_bthome_payload unspec [] False = [0x40]" "build_bthome_payload unspec [] True = [0x41]"
  by (simp_all add: build_bthome_payload_def BTHOME_V2_DEVICE_INFO_def)

lemma test_single:
  "build_bthome_payload unspec [b] False = 0x40 # encode_object unspec b"
  by (simp add: build_bthome_payload_def BTHOME_V2_DEVICE_INFO_def)

lemma test_clamping_and_sizes:
  "map (\<lambda>(i, v). build_bthome_payload unspec [\<lparr>object_id = i, bt_value = F_fin v\<rparr>] False)
     [(0x02, - 10), (0x02, 400), (0x03, 1000), (0x03, - 5), (0x04, 4053 / 4), (0x0C, 3), (0x10, 1), (0x10, 0)] =
   [[0x40, 0x02, 0x18, 0xfc], [0x40, 0x02, 0xff, 0x7f], [0x40, 0x03, 0xff, 0xff], [0x40, 0x03, 0x00, 0x00],
    [0x40, 0x04, 0xcd, 0x8b, 0x01], [0x40, 0x0C, 0xb8, 0x0b], [0x40, 0x10, 0x01], [0x40, 0x10, 0x00]]"
  by (simp only: list.map prod.case test_single test_objects)

lemma test_unknown_object_skipped:
  "build_bthome_payload unspec
     [\<lparr>object_id = 0x99, bt_value = F_fin 1\<rparr>, \<lparr>object_id = 0x01, bt_value = F_fin 93\<rparr>] False = [0x40, 0x01, 0x5d]"
proof -
  have "sort_key object_id [\<lparr>object_id = 0x99, bt_value = F_fin 1\<rparr>, \<lparr>object_id = 0x01, bt_value = F_fin 93\<rparr>] =
      [\<lparr>object_id = 0x01, bt_value = F_fin 93\<rparr>, \<lparr>object_id = 0x99, bt_value = F_fin 1\<rparr>]"
    by (simp add: word_le_nat_alt)
  then show ?thesis
    by (simp only: build_bthome_payload_def list.map test_objects concat.simps append.simps
        BTHOME_V2_DEVICE_INFO_def if_False) simp
qed

text \<open>The example of the specification is \<open>golden_payload\<close>; any other order of its objects gives
  the same payload.\<close>

lemma test_sort_independence:
  "build_bthome_payload unspec [golden_objects ! 2, golden_objects ! 0, golden_objects ! 1] False =
   build_bthome_payload unspec golden_objects False"
proof -
  have "sort_key object_id [golden_objects ! 2, golden_objects ! 0, golden_objects ! 1] =
      sort_key object_id golden_objects"
    by (simp add: golden_objects_def word_le_nat_alt)
  then show ?thesis by (simp only: build_bthome_payload_def)
qed

end
