(* ===== verification/Spec2Isabelle.thy ===== *)
theory Spec2Isabelle
  imports Gatt_Agent Ble_Worker Ble_Platforms Proxy_Services Gatt_Values Event_Source Web_Base Linux_Gpio Linux_Buses
    Linux_Sensors Mqtt_Backend Tracker_Threads Unit_Tests
begin

text \<open>
  A model of the Linux host backends of ESPHome in \<open>src/components\<close>: Bluetooth Low Energy over BlueZ
  (scanner, GATT client with its platforms and pairing agent, proxy, GATT server, advertisers), the HTTP server with
  its event source, the MQTT client, GPIO, I2C, SPI and CAN, and the sensors read from files.

  \<^bold>\<open>How the program works.\<close> Every component is a C++ object driven by the main loop (\<open>setup\<close>, \<open>loop\<close>).
  What has to wait for the kernel or the system bus runs on a worker thread, and the two sides exchange
  commands and events through queues under a mutex. The tracker's scanner thread delivers advertisements
  into a bounded queue; the tracker's loop hands them to listeners and clients and starts the connections
  of clients that were heard. A client owns a \<open>BLEGattHost\<close>: the client enqueues commands, the worker
  executes them over D-Bus and posts events, and the client's loop drains them into its state machine and fans them out
  to its nodes (sensors, outputs, switches, triggers, actions). The proxy is a listener that batches advertisements for
  Home Assistant and a set of clients whose events it answers to the API connection. The GATT server works the other way
  round: the application builds services in a store, the worker exports them as an object tree and answers BlueZ, and the
  main loop learns of centrals from events. The HTTP server runs one detached thread for each connection; the
  event source takes sockets over and is served by the main loop. The MQTT backend wraps a mosquitto client whose
  callbacks run on the network thread of the library; GPIO interrupts are polled by a thread of their own.

  \<^bold>\<open>Theories.\<close>
  \<^item> \<open>Prelude\<close>: machine integers, bounds-checked reads, hexadecimal bytes. \<open>Text\<close>: the string functions
    of the C and C++ library.
  \<^item> \<open>Ble_Uuid\<close> (\<open>esp32_ble/ble_uuid\<close>): \<open>ESPBTUUID\<close>.
  \<^item> \<open>Ble_Device\<close> (\<open>esp32_ble_tracker\<close>): scan results, AD structures, iBeacons, MAC addresses. The parser
    is the reference reading of the AD structures and never reads outside the payload.
  \<^item> \<open>Bthome\<close> (\<open>bthome_advertiser/bthome_encoder\<close>): the encoder with its rounding; round trip and accuracy.
    \<open>Ble_Advert\<close> (\<open>bthome_advertiser\<close>, \<open>esp32_ble_beacon\<close>): the two broadcast advertisers as event-driven
    state machines.
  \<^item> \<open>Gatt_Types\<close>, \<open>Gatt_Host\<close>, \<open>Gatt_Run\<close> (\<open>esp32_ble_client/ble_gatt_host\<close>): the worker side of a GATT
    connection, its executions as a step relation, and the worker's passes over its hosts. \<open>Gatt_Agent\<close>: the pairing
    agent the hosts share; it implements an abstract server of calls in which each is answered at most once.
  \<^item> \<open>Ble_Client\<close> (\<open>esp32_ble_client/ble_client_base\<close>): the main-thread side, its state machine, timeouts
    and requests. \<open>Ble_Nodes\<close> (\<open>ble_client\<close>): nodes attached to a client. \<open>Ble_Platforms\<close> (\<open>ble_client/sensor\<close>,
    \<open>text_sensor\<close>, \<open>output\<close>, \<open>switch\<close>, \<open>automation.h\<close>): the nodes there are; polls and write actions complete, and no
    value is read out of bounds.
  \<^item> \<open>Ble_Tracker\<close> (\<open>esp32_ble_tracker\<close>): the tracker, the raw HCI backend and the D-Bus signal handlers.
    \<open>Tracker_Threads\<close>: the two scanner threads, from acquiring the adapter to releasing it.
  \<^item> \<open>Bluetooth_Proxy\<close>, \<open>Proxy_Services\<close> (\<open>bluetooth_proxy\<close>): advertisement forwarding, slots and requests; the
    streaming of services and the packing of UUIDs.
  \<^item> \<open>Http_Request\<close>, \<open>Http_Server\<close>, \<open>Event_Source\<close>, \<open>Web_Base\<close> (\<open>web_server_base\<close>): requests, responses and
    connections, event streams, and the listening server with its handlers and authentication.
  \<^item> \<open>Server_Objects\<close>, \<open>Gatt_Server\<close>, \<open>Ble_Server\<close>, \<open>Server_Actions\<close> (\<open>esp32_ble_server\<close>, \<open>esp32_ble/ble\<close>): the
    objects of the application, the worker side, the component with its callbacks, and its automations.
    \<open>Gatt_Export\<close>: the exported tree as comprehensions. \<open>Gatt_Vtables\<close>: the tables with which the objects of the
    server and of the advertisers are put on the bus; replies have the declared types, constant properties stay constant.
  \<^item> \<open>Gatt_Link\<close>, \<open>Gatt_Values\<close>: two hosts over the air. The tree one host exports is the tree the client of the other
    discovers; reads, writes and notifications between them refine one memory and one ordered channel. BlueZ is a relation between
    what one side answers and what the other is told.
  \<^item> \<open>Ble_Worker\<close> (\<open>esp32_ble/ble_host_thread\<close>): the worker thread the advertisers and the GATT server share, in every
    interleaving with the main thread; no wake-up is lost.
  \<^item> \<open>Linux_Gpio\<close> (\<open>linux_gpio\<close>): pins, interrupts and the poll thread; every descriptor is closed once, every edge
    delivered. \<open>Linux_Buses\<close> (\<open>socketcan\<close>, \<open>linux_i2c\<close>, \<open>linux_spi\<close>): frames and transfers.
    \<open>Linux_Sensors\<close> (\<open>linux_w1\<close>, \<open>linux_sysfs_sensor\<close>, \<open>linux_time\<close>): the readings with binary32 rounding.
  \<^item> \<open>Unit_Tests\<close>: the unit tests of the repository (\<open>tests/unit\<close>) as theorems about \<open>Ble_Uuid\<close> and \<open>Bthome\<close>.
  \<^item> \<open>Mqtt_Backend\<close> (\<open>mqtt\<close>): the life of the mosquitto client and the interleavings of the two threads over its mutex.

  This theory ends with two more properties that span components: an advertisement from the tracker through the proxy, and a
  BTHome advertisement from the configured values to the tracker of another host.

  \<^bold>\<open>Correspondence.\<close> A class is a record whose fields are the members, in the code's order where it
  matters; a method is a function of the same name (with a prefix where two classes share it) from the old
  state to the new one. Pointers between objects that are shared are indices into a store. The bodies of
  critical sections are single steps: the mutexes make them so, and between them the step relations allow
  every interleaving. A read through a pointer is bounds-checked and gives \<open>None\<close> outside the buffer, so
  that theorems exclude over-reads; an integer keeps its width. Logging has no counterpart.

  \<^bold>\<open>Environment.\<close> What the program is told from outside is an argument: the answers of BlueZ and sd-bus
  (\<open>bluez\<close>, \<open>sdbus_env\<close>, \<open>gs_env\<close>), the bytes returned by \<open>recv\<close> and the counts returned by \<open>send\<close>, the
  clock \<open>millis()\<close>, user callbacks and handlers as functions on the state, sizes of generated API
  messages. Theorems hold for all of them; where a hypothesis on them is needed it is in the statement.
  What the program does to the outside is recorded in the state (\<open>h_calls\<close>, \<open>gs_calls\<close>, \<open>px_sent\<close>, bytes
  written to a socket).

  \<^bold>\<open>Interfaces.\<close> Contracts shared by several operations are locales, each interpreted on the operations
  of the code where these are declared: \<open>one_shot_advertiser\<close> (the two advertisers), \<open>espbt_client\<close> (what
  the tracker relies on in a client it counts and promotes), \<open>worker_client\<close> (what a worker thread relies on in a client
  whose queue it serves; the clients of the shared worker and the GATT hosts), \<open>gs_frame\<close> and \<open>gs_part\<close> (the parts of the
  GATT server's state that the handlers of D-Bus leave alone), \<open>gs_keeps\<close> and \<open>gs_keeps_objects\<close> (relations between
  an earlier and a later state of the GATT server that every event respects).

  \<^bold>\<open>Bounds.\<close> Recursion is structural or has a measure: the unread input of a parser, the bytes left of an SPI transfer,
  the events left in a queue. There is no fuel. A loop that ends with the process is a step relation, or a function of the
  list of what its system calls return.

  \<^bold>\<open>Interleavings.\<close> The threads of \<open>Ble_Worker\<close>, \<open>Linux_Gpio\<close>, \<open>Mqtt_Backend\<close>, \<open>Gatt_Run\<close>, \<open>Gatt_Agent\<close> and
  \<open>Server_Actions\<close> are step relations over the sections that run under a mutex or on one thread; where the code shares a
  field without a lock the step is the single access (\<open>value_read_race\<close>).

  \<^bold>\<open>Not modelled.\<close> Logging, and \<open>dump_config\<close> but for the values it computes; printf-style printing into an HTTP response; the unreferencing of sd-event
  objects; the process-wide initialisation of mosquitto; the depth of the kernel's event queues; the stubs in
  \<open>linux_compat\<close>, which are empty. Entities, action chains and API messages are upstream classes: what the program gives
  them is recorded.
\<close>

section \<open>An advertisement on its way through the proxy\<close>

lemma fitting_all: "used + sum_list (map (\<lambda>s. length (snd s) + 2) ss) \<le> 62 \<Longrightarrow> fitting used ss = ss"
  by (induction ss arbitrary: used) (auto simp: ac_simps)

lemma chars_of_bytes [simp]: "Ble_Device.chars_of (bytes_of_string n) = n"
  by (induction n) (simp_all add: Ble_Device.chars_of_def bytes_of_string_def unat_of_nat)

lemma le16_service: "le16 (ucast (u AND 0xff)) (ucast (drop_bit 8 u AND 0xff)) = u"
proof -
  have m: "(0xff :: u16) = mask 8" by (simp add: mask_eq_exp_minus_1)
  show ?thesis unfolding le16_def m by (rule bit_word_eqI) (auto simp: bit_simps)
qed

lemma apply_flags: "apply_struct (0x01, [f]) d = d\<lparr>ad_flag := Some f\<rparr>"
  and apply_name: "apply_struct (0x09, x) d = d\<lparr>dev_name := Ble_Device.chars_of x\<rparr>"
  by (simp_all add: apply_struct_def)

definition received_md :: "ServiceData \<Rightarrow> bool" where
  "received_md md \<longleftrightarrow> length (sd_data md) \<in> {2..30} \<and> sd_uuid md = from_uint16 (le16 (sd_data md ! 0) (sd_data md ! 1))"

definition received_sd :: "ServiceData \<Rightarrow> bool" where
  "received_sd sd \<longleftrightarrow> length (sd_data sd) \<le> 29 \<and> (\<exists>u. sd_uuid sd = from_uint16 u)"

lemma fold_manufacturer:
  "list_all received_md mds \<Longrightarrow> fold apply_struct (map (\<lambda>md. (0xFF, take 30 (sd_data md))) mds) d
     = d\<lparr>manufacturer_datas := manufacturer_datas d @ mds\<rparr>"
proof (induction mds arbitrary: d)
  case (Cons md mds)
  then have "apply_struct (0xFF, take 30 (sd_data md)) d = add_manufacturer_data md d"
    by (cases md) (auto simp: apply_struct_def received_md_def add_manufacturer_data_def)
  then show ?case using Cons by (simp add: add_manufacturer_data_def)
qed simp

lemma fold_service:
  "list_all received_sd sds \<Longrightarrow> fold apply_struct (map (\<lambda>sd. (0x16, service_data_bytes sd)) sds) d
     = d\<lparr>service_datas := service_datas d @ sds\<rparr>"
proof (induction sds arbitrary: d)
  case (Cons sd sds)
  then obtain u where u: "sd_uuid sd = from_uint16 u" "length (sd_data sd) \<le> 29" by (auto simp: received_sd_def)
  then have "apply_struct (0x16, service_data_bytes sd) d = add_service_data sd d"
    by (cases sd) (simp add: apply_struct_def service_data_bytes_def get_16bit_from_uint16 le16_service add_service_data_def)
  then show ?case using Cons by (simp add: add_service_data_def)
qed simp

text \<open>C39. A device that was heard with 16-bit service data and manufacturer data and whose structures fit 62 bytes reaches
  Home Assistant whole: parsing the payload the proxy forwards for it, with the parser of the tracker, gives its flags, its
  name, its manufacturer data and its service data, in their order and with their identifiers, and nothing else.\<close>
theorem proxied_device_survives:
  assumes "sum_list (map (\<lambda>s. length (snd s) + 2) (device_structs d)) \<le> 62"
    "list_all received_md (manufacturer_datas d)" "list_all received_sd (service_datas d)" "length (dev_name d) \<le> 28"
  shows "parse_ad_payload (serialize_device d) (of_nat (length (serialize_device d))) device_default
    = Some (device_default\<lparr>ad_flag := ad_flag d, dev_name := dev_name d, manufacturer_datas := manufacturer_datas d,
        service_datas := service_datas d\<rparr>)"
proof -
  have f: "fitting 0 (device_structs d) = device_structs d" using assms(1) by (intro fitting_all) simp
  have "length (serialize_device d) \<le> 62" using forwarded_payload by blast
  then have n: "unat (of_nat (length (serialize_device d)) :: u8) = length (serialize_device d)" by (simp add: unat_of_nat)
  have take_bytes: "take 28 (bytes_of_string (dev_name d)) = bytes_of_string (dev_name d)"
    using assms(4) by (simp add: bytes_of_string_def)
  have "parse_ad_payload (serialize_device d) (of_nat (length (serialize_device d))) device_default
      = Some (fold apply_struct (device_structs d) device_default)"
    unfolding parse_ad_payload_def using n forwarded_payload [of d] f by (subst ad_loop_eq) simp_all
  moreover have "fold apply_struct (device_structs d) device_default
      = device_default\<lparr>ad_flag := ad_flag d, dev_name := dev_name d, manufacturer_datas := manufacturer_datas d,
        service_datas := service_datas d\<rparr>"
    using assms(4) by (auto simp: device_structs_def fold_manufacturer [OF assms(2)] fold_service [OF assms(3)] apply_flags
        apply_name take_bytes device_default_def split: option.split)
  ultimately show ?thesis by simp
qed

definition demo_heard :: ESPBTDevice where
  "demo_heard = device_default\<lparr>ad_flag := Some 6, dev_name := ''x'',
     manufacturer_datas := [\<lparr>sd_uuid = from_uint16 0x004C, sd_data = [0x4C, 0, 1]\<rparr>],
     service_datas := [\<lparr>sd_uuid = from_uint16 0xFCD2, sd_data = [0x40, 1, 9]\<rparr>]\<rparr>"

lemma proxied_device_survives_witness:
  "parse_ad_payload (serialize_device demo_heard) (of_nat (length (serialize_device demo_heard))) device_default
    = Some demo_heard"
proof -
  have "sum_list (map (\<lambda>s. length (snd s) + 2) (device_structs demo_heard)) \<le> 62" by code_simp
  moreover have "list_all received_md (manufacturer_datas demo_heard)"
    by (simp add: demo_heard_def received_md_def le16_def)
  moreover have "list_all received_sd (service_datas demo_heard)"
    by (auto simp: demo_heard_def received_sd_def)
  moreover have "length (dev_name demo_heard) \<le> 28" by (simp add: demo_heard_def)
  ultimately show ?thesis using proxied_device_survives [of demo_heard] by (simp add: demo_heard_def device_default_def)
qed

section \<open>Sensor values on the air\<close>

lemma bthome_uuid_parsed: "from_uuid_str ''0000fcd2-0000-1000-8000-00805f9b34fb'' = as_128bit (from_uint16 0xfcd2)"
  by code_simp

text \<open>C40. What a BTHome advertiser was configured with is what another host's tracker hears: in the properties BlueZ reports
  of the advertisement, the tracker finds one service data entry with the BTHome identifier, and decoding its bytes gives the
  known objects in ascending order of their ids, each with its scaled value clamped to the range of the field, and the
  device information with the encryption flag.\<close>
theorem bthome_over_the_air:
  "\<exists>sd. service_datas (fst (parse_device1_props
        [P_ServiceData (bthome_adv_service_data (bthome_step unspec obs enc Ev_setup s))] device_default)) = [sd]
    \<and> sd_uuid sd = as_128bit (from_uint16 0xfcd2) \<and> hd (sd_data sd) = (if enc then 0x41 else 0x40)
    \<and> bthome_decode (tl (sd_data sd))
        = Some (map (\<lambda>ob. (object_id ob, field_value unspec ob)) (filter known_object (sort_key object_id obs)))"
  by (simp add: parse_device1_props_def prop_step_def bthome_adv_service_data_def bthome_setup_def add_service_data_def
      device_default_def bthome_uuid_parsed bthome_roundtrip)

text \<open>Heard over D-Bus and forwarded by the proxy, the same advertisement carries another identifier.\<close>
lemma proxied_bthome_renamed:
  "map service_data_bytes (service_datas (fst (parse_device1_props
      [P_ServiceData (bthome_adv_service_data (bthome_step unspec obs enc Ev_setup s))] device_default)))
   = [[0xFB, 0x34] @ take 29 (build_bthome_payload unspec obs enc)]"
  by (simp add: parse_device1_props_def prop_step_def bthome_adv_service_data_def bthome_setup_def add_service_data_def
      device_default_def bthome_uuid_parsed dbus_service_data_uuid)

end
